(* ===== verification/Prelude.thy ===== *)
theory Prelude
  imports Main "HOL-Library.Word"
begin

unbundle bit_operations_syntax

text \<open>
  Shared vocabulary of the development: machine-level types, the faults a C++ run can end in, a
  state-and-fault monad for code that mutates one object at a time, \<open>size_t\<close> arithmetic with its
  wrap-around, little-endian byte strings, and the C string functions the sources call.

  A computation of type \<open>('s, 'a) sfm\<close> takes the object it works on (a buffer, a container) and
  either stops with a \<open>fault\<close> or returns a result together with the updated object. A fault is
  undefined behaviour or an abnormal end of the C++ program; the error codes the code \<^emph>\<open>returns\<close>
  (\<open>EncodeResult\<close>, \<open>DecodeResult\<close>) are ordinary results and not faults.
\<close>

section \<open>Named collections\<close>

named_theorems sfm_simps \<open>unfolding rules of the state-and-fault monad\<close>
named_theorems layout_simps \<open>sizes of encoded headers\<close>

section \<open>Machine types\<close>

type_synonym byte = "8 word"
type_synonym u16 = "16 word"
type_synonym u32 = "32 word"

section \<open>Faults\<close>

datatype fault =
    Assert_failed                \<comment> \<open>an \<open>assert\<close> of the source fails\<close>
  | Null_deref                   \<comment> \<open>a null pointer is dereferenced\<close>
  | Out_of_bounds                \<comment> \<open>memory outside an object is read or written\<close>
  | Field_overflow nat           \<comment> \<open>a declaration's sixteen-byte value array is read or written over that many bytes\<close>
  | Null_call                    \<comment> \<open>a null function pointer is called\<close>
  | Use_after_free               \<comment> \<open>a freed block or object is used\<close>
  | Double_free                  \<comment> \<open>a block is deleted a second time\<close>
  | Alloc_failed                 \<comment> \<open>an allocation larger than the address space\<close>
  | Arith_ub                     \<comment> \<open>signed overflow or an over-wide shift\<close>
  | Thrown string                \<comment> \<open>a C++ exception, with its text\<close>

section \<open>State-and-fault computations\<close>

type_synonym ('s, 'a) sfm = "'s \<Rightarrow> fault + 'a \<times> 's"

definition retF :: "'a \<Rightarrow> ('s, 'a) sfm" where
  "retF x = (\<lambda>s. Inr (x, s))"

definition failF :: "fault \<Rightarrow> ('s, 'a) sfm" where
  "failF e = (\<lambda>s. Inl e)"

definition bindF :: "('s, 'a) sfm \<Rightarrow> ('a \<Rightarrow> ('s, 'b) sfm) \<Rightarrow> ('s, 'b) sfm" where
  "bindF m f = (\<lambda>s. case m s of Inl e \<Rightarrow> Inl e | Inr (x, s') \<Rightarrow> f x s')"

definition assertF :: "bool \<Rightarrow> ('s, unit) sfm" where
  "assertF P = (if P then retF () else failF Assert_failed)"

text \<open>A pure fallible value lifted into a computation, and the sum monad on its own.\<close>

definition liftF :: "fault + 'a \<Rightarrow> ('s, 'a) sfm" where
  "liftF r = (case r of Inl e \<Rightarrow> failF e | Inr x \<Rightarrow> retF x)"

definition bindE :: "'e + 'a \<Rightarrow> ('a \<Rightarrow> 'e + 'b) \<Rightarrow> 'e + 'b" where
  "bindE r f = (case r of Inl e \<Rightarrow> Inl e | Inr x \<Rightarrow> f x)"

lemma bindE_simps [simp]: "bindE (Inl e) f = Inl e" "bindE (Inr x) f = f x"
  by (simp_all add: bindE_def)

lemma bindE_Inr_iff: "bindE r f = Inr y \<longleftrightarrow> (\<exists>x. r = Inr x \<and> f x = Inr y)"
  by (cases r) auto

lemma retF_apply [simp, sfm_simps]: "retF x s = Inr (x, s)"
  by (simp add: retF_def)

lemma failF_apply [simp, sfm_simps]: "failF e s = Inl e"
  by (simp add: failF_def)

lemma bindF_retF [simp]: "bindF (retF x) f = f x"
  by (simp add: bindF_def)

lemma bindF_failF [simp]: "bindF (failF e) f = failF e"
  by (simp add: bindF_def failF_def)

lemma bindF_Inr: "m s = Inr (x, s') \<Longrightarrow> bindF m f s = f x s'"
  by (simp add: bindF_def)

lemma bindF_Inl: "m s = Inl e \<Longrightarrow> bindF m f s = Inl e"
  by (simp add: bindF_def)

lemma bindF_eq_Inr_iff:
  "bindF m f s = Inr r \<longleftrightarrow> (\<exists>x s'. m s = Inr (x, s') \<and> f x s' = Inr r)"
  by (auto simp: bindF_def split: sum.splits)

lemma assertF_True [simp]: "assertF True = retF ()" and assertF_False [simp]: "assertF False = failF Assert_failed"
  by (simp_all add: assertF_def)

lemma liftF_simps [simp]: "liftF (Inl e) = failF e" "liftF (Inr x) = retF x"
  by (simp_all add: liftF_def)

lemmas [sfm_simps] = bindF_def assertF_def liftF_def

text \<open>Running one computation per list element, in order: the range-based \<open>for\<close> loops.\<close>

fun mapF :: "('x \<Rightarrow> ('s, 'a) sfm) \<Rightarrow> 'x list \<Rightarrow> ('s, 'a list) sfm" where
  "mapF f [] = retF []"
| "mapF f (x # xs) = bindF (f x) (\<lambda>y. bindF (mapF f xs) (\<lambda>ys. retF (y # ys)))"

text \<open>Running one computation \<open>n\<close> times and collecting its results.\<close>

fun repeatF :: "nat \<Rightarrow> ('s, 'a) sfm \<Rightarrow> ('s, 'a list) sfm" where
  "repeatF 0 m = retF []"
| "repeatF (Suc n) m = bindF m (\<lambda>y. bindF (repeatF n m) (\<lambda>ys. retF (y # ys)))"

section \<open>Arithmetic on size_t\<close>

definition size_modulus :: nat where
  "size_modulus = 2 ^ 64"

text \<open>Unsigned subtraction wraps; addition is reduced modulo the width.\<close>

definition size_sub :: "nat \<Rightarrow> nat \<Rightarrow> nat" where
  "size_sub a b = (if b \<le> a then a - b else size_modulus + a - b)"

lemma size_sub_le [simp]: "b \<le> a \<Longrightarrow> size_sub a b = a - b"
  by (simp add: size_sub_def)

lemma size_sub_wraps: "a < b \<Longrightarrow> b < size_modulus \<Longrightarrow> size_sub a b \<ge> a"
  by (simp add: size_sub_def)

section \<open>Little-endian byte strings\<close>

fun le_bytes :: "nat \<Rightarrow> nat \<Rightarrow> byte list" where
  "le_bytes 0 v = []"
| "le_bytes (Suc n) v = of_nat v # le_bytes n (v div 256)"

fun le_val :: "byte list \<Rightarrow> nat" where
  "le_val [] = 0"
| "le_val (b # bs) = unat b + 256 * le_val bs"

lemma unat_byte: "unat (b :: byte) < 256"
  using unsigned_less [of b, where ?'a = nat] by simp

lemma length_le_bytes [simp]: "length (le_bytes n v) = n"
  by (induction n arbitrary: v) auto

lemma le_val_le_bytes: "le_val (le_bytes n v) = v mod 256 ^ n"
proof (induction n arbitrary: v)
  case 0
  then show ?case by simp
next
  case (Suc n)
  have "unat (of_nat v :: byte) = v mod 256"
    by (simp add: unat_of_nat)
  then show ?case
    by (simp add: Suc.IH mod_mult2_eq)
qed

lemma le_val_bound: "le_val bs < 256 ^ length bs"
proof (induction bs)
  case Nil
  then show ?case by simp
next
  case (Cons b bs)
  have "unat b < 256" by (rule unat_byte)
  then show ?case using Cons.IH by simp
qed

lemma le_bytes_le_val [simp]: "le_bytes (length bs) (le_val bs) = bs"
proof (induction bs)
  case Nil
  then show ?case by simp
next
  case (Cons b bs)
  have "unat b < 256" by (rule unat_byte)
  then have "(unat b + 256 * le_val bs) div 256 = le_val bs" by simp
  moreover have "(of_nat (unat b + 256 * le_val bs) :: byte) = b"
    using \<open>unat b < 256\<close> by (simp add: word_unat_eq_iff unat_of_nat unat_word_ariths)
  ultimately show ?case using Cons.IH by simp
qed

section \<open>Memory blocks and C strings\<close>

text \<open>Writing a byte string into a block at an offset; the caller checks the bounds.\<close>

definition overlay :: "nat \<Rightarrow> byte list \<Rightarrow> byte list \<Rightarrow> byte list" where
  "overlay off bs mem = take off mem @ bs @ drop (off + length bs) mem"

lemma length_overlay [simp]: "off + length bs \<le> length mem \<Longrightarrow> length (overlay off bs mem) = length mem"
  by (simp add: overlay_def)

lemma take_overlay: "off + length bs \<le> length mem \<Longrightarrow> take (off + length bs) (overlay off bs mem) = take off mem @ bs"
  by (simp add: overlay_def)

lemma drop_overlay: "off + length bs \<le> length mem \<Longrightarrow> drop (off + length bs) (overlay off bs mem) = drop (off + length bs) mem"
  by (simp add: overlay_def)

text \<open>
  \<open>strlen\<close> of the memory from a pointer on: the bytes before the first NUL. Running past the end of the
  memory without finding one is a fault.
\<close>

definition c_strlen :: "byte list \<Rightarrow> fault + nat" where
  "c_strlen mem = (if 0 \<in> set mem then Inr (length (takeWhile (\<lambda>c. c \<noteq> 0) mem)) else Inl Out_of_bounds)"

lemma c_strlen_literal: "0 \<notin> set s \<Longrightarrow> c_strlen (s @ [0]) = Inr (length s)"
  by (simp add: c_strlen_def takeWhile_append)

text \<open>\<open>strncpy(dst, src, n)\<close>: stops at a NUL of \<open>src\<close> and pads with NULs.\<close>

definition c_strncpy :: "nat \<Rightarrow> byte list \<Rightarrow> byte list" where
  "c_strncpy n src = (let s = takeWhile (\<lambda>c. c \<noteq> 0) (take n src) in s @ replicate (n - length s) 0)"

lemma length_c_strncpy [simp]: "length (c_strncpy n src) = n"
proof -
  have "length (takeWhile (\<lambda>c. c \<noteq> 0) (take n src)) \<le> n"
    using length_takeWhile_le [of "\<lambda>c. c \<noteq> 0" "take n src"] by simp
  then show ?thesis by (simp add: c_strncpy_def Let_def)
qed

lemma c_strncpy_no_nul: "0 \<notin> set (take n src) \<Longrightarrow> n \<le> length src \<Longrightarrow> c_strncpy n src = take n src"
proof -
  assume "0 \<notin> set (take n src)" and "n \<le> length src"
  then have "takeWhile (\<lambda>c. c \<noteq> 0) (take n src) = take n src"
    by (auto simp: takeWhile_eq_all_conv)
  then have "c_strncpy n src = take n src @ replicate (n - length (take n src)) 0"
    by (simp only: c_strncpy_def Let_def)
  with \<open>n \<le> length src\<close> show ?thesis by simp
qed

section \<open>Folding a fallible operation over a list\<close>

fun foldE :: "('x \<Rightarrow> 's \<Rightarrow> fault + 's) \<Rightarrow> 'x list \<Rightarrow> 's \<Rightarrow> fault + 's" where
  "foldE f [] s = Inr s"
| "foldE f (x # xs) s = bindE (f x s) (foldE f xs)"

lemma foldE_append: "foldE f (xs @ ys) s = bindE (foldE f xs s) (foldE f ys)"
proof (induction xs arbitrary: s)
  case (Cons x xs)
  then show ?case by (cases "f x s") auto
qed simp

end
