(* ===== verification/Crc32.thy ===== *)
theory Crc32
  imports Prelude
begin

text \<open>
  The message checksum of \<^verbatim>\<open>src/util/checksum.cc\<close>: the 256-entry table, the byte-wise update loop and
  \<open>crc32\<close>. The table is shown to be the bit-serial shift register of the reflected CRC-32 polynomial,
  the loop to be that register run over the bytes, and the checksum to expose every error confined to
  four consecutive bytes of a message.
\<close>

section \<open>The code\<close>

definition crc32_table :: "u32 list" where
  "crc32_table =
    [0x00000000, 0x77073096, 0xEE0E612C, 0x990951BA, 0x076DC419, 0x706AF48F, 0xE963A535, 0x9E6495A3,
     0x0EDB8832, 0x79DCB8A4, 0xE0D5E91E, 0x97D2D988, 0x09B64C2B, 0x7EB17CBD, 0xE7B82D07, 0x90BF1D91,
     0x1DB71064, 0x6AB020F2, 0xF3B97148, 0x84BE41DE, 0x1ADAD47D, 0x6DDDE4EB, 0xF4D4B551, 0x83D385C7,
     0x136C9856, 0x646BA8C0, 0xFD62F97A, 0x8A65C9EC, 0x14015C4F, 0x63066CD9, 0xFA0F3D63, 0x8D080DF5,
     0x3B6E20C8, 0x4C69105E, 0xD56041E4, 0xA2677172, 0x3C03E4D1, 0x4B04D447, 0xD20D85FD, 0xA50AB56B,
     0x35B5A8FA, 0x42B2986C, 0xDBBBC9D6, 0xACBCF940, 0x32D86CE3, 0x45DF5C75, 0xDCD60DCF, 0xABD13D59,
     0x26D930AC, 0x51DE003A, 0xC8D75180, 0xBFD06116, 0x21B4F4B5, 0x56B3C423, 0xCFBA9599, 0xB8BDA50F,
     0x2802B89E, 0x5F058808, 0xC60CD9B2, 0xB10BE924, 0x2F6F7C87, 0x58684C11, 0xC1611DAB, 0xB6662D3D,
     0x76DC4190, 0x01DB7106, 0x98D220BC, 0xEFD5102A, 0x71B18589, 0x06B6B51F, 0x9FBFE4A5, 0xE8B8D433,
     0x7807C9A2, 0x0F00F934, 0x9609A88E, 0xE10E9818, 0x7F6A0DBB, 0x086D3D2D, 0x91646C97, 0xE6635C01,
     0x6B6B51F4, 0x1C6C6162, 0x856530D8, 0xF262004E, 0x6C0695ED, 0x1B01A57B, 0x8208F4C1, 0xF50FC457,
     0x65B0D9C6, 0x12B7E950, 0x8BBEB8EA, 0xFCB9887C, 0x62DD1DDF, 0x15DA2D49, 0x8CD37CF3, 0xFBD44C65,
     0x4DB26158, 0x3AB551CE, 0xA3BC0074, 0xD4BB30E2, 0x4ADFA541, 0x3DD895D7, 0xA4D1C46D, 0xD3D6F4FB,
     0x4369E96A, 0x346ED9FC, 0xAD678846, 0xDA60B8D0, 0x44042D73, 0x33031DE5, 0xAA0A4C5F, 0xDD0D7CC9,
     0x5005713C, 0x270241AA, 0xBE0B1010, 0xC90C2086, 0x5768B525, 0x206F85B3, 0xB966D409, 0xCE61E49F,
     0x5EDEF90E, 0x29D9C998, 0xB0D09822, 0xC7D7A8B4, 0x59B33D17, 0x2EB40D81, 0xB7BD5C3B, 0xC0BA6CAD,
     0xEDB88320, 0x9ABFB3B6, 0x03B6E20C, 0x74B1D29A, 0xEAD54739, 0x9DD277AF, 0x04DB2615, 0x73DC1683,
     0xE3630B12, 0x94643B84, 0x0D6D6A3E, 0x7A6A5AA8, 0xE40ECF0B, 0x9309FF9D, 0x0A00AE27, 0x7D079EB1,
     0xF00F9344, 0x8708A3D2, 0x1E01F268, 0x6906C2FE, 0xF762575D, 0x806567CB, 0x196C3671, 0x6E6B06E7,
     0xFED41B76, 0x89D32BE0, 0x10DA7A5A, 0x67DD4ACC, 0xF9B9DF6F, 0x8EBEEFF9, 0x17B7BE43, 0x60B08ED5,
     0xD6D6A3E8, 0xA1D1937E, 0x38D8C2C4, 0x4FDFF252, 0xD1BB67F1, 0xA6BC5767, 0x3FB506DD, 0x48B2364B,
     0xD80D2BDA, 0xAF0A1B4C, 0x36034AF6, 0x41047A60, 0xDF60EFC3, 0xA867DF55, 0x316E8EEF, 0x4669BE79,
     0xCB61B38C, 0xBC66831A, 0x256FD2A0, 0x5268E236, 0xCC0C7795, 0xBB0B4703, 0x220216B9, 0x5505262F,
     0xC5BA3BBE, 0xB2BD0B28, 0x2BB45A92, 0x5CB36A04, 0xC2D7FFA7, 0xB5D0CF31, 0x2CD99E8B, 0x5BDEAE1D,
     0x9B64C2B0, 0xEC63F226, 0x756AA39C, 0x026D930A, 0x9C0906A9, 0xEB0E363F, 0x72076785, 0x05005713,
     0x95BF4A82, 0xE2B87A14, 0x7BB12BAE, 0x0CB61B38, 0x92D28E9B, 0xE5D5BE0D, 0x7CDCEFB7, 0x0BDBDF21,
     0x86D3D2D4, 0xF1D4E242, 0x68DDB3F8, 0x1FDA836E, 0x81BE16CD, 0xF6B9265B, 0x6FB077E1, 0x18B74777,
     0x88085AE6, 0xFF0F6A70, 0x66063BCA, 0x11010B5C, 0x8F659EFF, 0xF862AE69, 0x616BFFD3, 0x166CCF45,
     0xA00AE278, 0xD70DD2EE, 0x4E048354, 0x3903B3C2, 0xA7672661, 0xD06016F7, 0x4969474D, 0x3E6E77DB,
     0xAED16A4A, 0xD9D65ADC, 0x40DF0B66, 0x37D83BF0, 0xA9BCAE53, 0xDEBB9EC5, 0x47B2CF7F, 0x30B5FFE9,
     0xBDBDF21C, 0xCABAC28A, 0x53B39330, 0x24B4A3A6, 0xBAD03605, 0xCDD70693, 0x54DE5729, 0x23D967BF,
     0xB3667A2E, 0xC4614AB8, 0x5D681B02, 0x2A6F2B94, 0xB40BBE37, 0xC30C8EA1, 0x5A05DF1B, 0x2D02EF8D]"

text \<open>One turn of the \<open>do ... while\<close> loop: \<open>c = crc32_table[(c ^ ( *p++ )) & 0xff] ^ (c >> 8)\<close>.\<close>

definition crc_step :: "u32 \<Rightarrow> byte \<Rightarrow> u32" where
  "crc_step c p = crc32_table ! unat ((c XOR ucast p) AND 0xFF) XOR drop_bit 8 c"

text \<open>The whole loop over \<open>buf[0..len-1]\<close>; an empty buffer leaves the register alone.\<close>

fun update_crc32 :: "u32 \<Rightarrow> byte list \<Rightarrow> u32" where
  "update_crc32 c [] = c"
| "update_crc32 c (p # ps) = update_crc32 (crc_step c p) ps"

definition crc32 :: "byte list \<Rightarrow> u32" where
  "crc32 bs = update_crc32 0xFFFFFFFF bs XOR 0xFFFFFFFF"

section \<open>The bit-serial reference\<close>

text \<open>One shift of the reflected CRC-32 register with polynomial \<open>0xEDB88320\<close>, and eight of them.\<close>

definition crc_bit :: "u32 \<Rightarrow> u32" where
  "crc_bit c = (if bit c 0 then 0xEDB88320 XOR drop_bit 1 c else drop_bit 1 c)"

definition crc_byte :: "u32 \<Rightarrow> u32" where
  "crc_byte c = crc_bit (crc_bit (crc_bit (crc_bit (crc_bit (crc_bit (crc_bit (crc_bit c)))))))"

fun crc_reference :: "u32 \<Rightarrow> byte list \<Rightarrow> u32" where
  "crc_reference c [] = c"
| "crc_reference c (p # ps) = crc_reference (crc_byte (c XOR ucast p)) ps"

text \<open>The bits a run of at most four bytes feeds into the register, first byte lowest.\<close>

fun burst :: "byte list \<Rightarrow> u32" where
  "burst [] = 0"
| "burst (p # ps) = ucast p XOR push_bit 8 (burst ps)"

section \<open>The register is linear and injective\<close>

lemma crc_bit_xor: "crc_bit (a XOR b) = crc_bit a XOR crc_bit b"
  by (simp add: crc_bit_def bit_xor_iff drop_bit_xor ac_simps)

lemma crc_byte_xor: "crc_byte (a XOR b) = crc_byte a XOR crc_byte b"
  by (simp add: crc_byte_def crc_bit_xor)

lemma crc_bit_even: "\<not> bit c 0 \<Longrightarrow> crc_bit c = drop_bit 1 c"
  by (simp add: crc_bit_def)

lemma crc_bit_drop: "\<not> bit c n \<Longrightarrow> crc_bit (drop_bit n c) = drop_bit (Suc n) c"
  by (simp add: crc_bit_even bit_drop_bit_eq)

lemma crc_byte_high:
  assumes "\<And>n. n < 8 \<Longrightarrow> \<not> bit c n"
  shows "crc_byte c = drop_bit 8 c"
proof -
  have "crc_bit c = drop_bit (Suc 0) c"
    using crc_bit_drop [of c 0] assms [of 0] by simp
  moreover have "crc_bit (drop_bit n c) = drop_bit (Suc n) c" if "n < 8" for n
    using that assms by (intro crc_bit_drop) auto
  ultimately have "crc_byte c = drop_bit (Suc (Suc (Suc (Suc (Suc (Suc (Suc (Suc 0)))))))) c"
    by (simp only: crc_byte_def)
  then show ?thesis by (simp add: eval_nat_numeral)
qed

lemma crc_bit_zero: "crc_bit x = 0 \<Longrightarrow> x = 0"
proof -
  assume z: "crc_bit x = 0"
  have top: "\<not> bit (drop_bit 1 x) 31"
    using bit_imp_le_length [of x 32] by (auto simp: bit_drop_bit_eq)
  have "bit (0xEDB88320 :: u32) 31" by simp
  with top have "0xEDB88320 XOR drop_bit 1 x \<noteq> 0"
    by (metis bit_0_eq bit_xor_iff bot_apply bot_bool_def)
  with z have e: "\<not> bit x 0" "drop_bit 1 x = 0"
    by (auto simp: crc_bit_def split: if_splits)
  show "x = 0"
  proof (rule bit_word_eqI)
    fix n assume "n < LENGTH(32)"
    from e(2) have "\<not> bit (drop_bit 1 x) (n - 1)" by simp
    with e(1) show "bit x n = bit 0 n"
      by (cases n) (auto simp: bit_drop_bit_eq)
  qed
qed

lemma crc_bit_inj: "crc_bit a = crc_bit b \<longleftrightarrow> a = b"
proof
  assume "crc_bit a = crc_bit b"
  then have "crc_bit (a XOR b) = 0" by (simp add: crc_bit_xor)
  then have "a XOR b = 0" by (rule crc_bit_zero)
  then have "(a XOR b) XOR b = b" by simp
  then show "a = b" by (simp add: xor.assoc)
qed simp

lemma crc_byte_inj [simp]: "crc_byte a = crc_byte b \<longleftrightarrow> a = b"
  by (simp add: crc_byte_def crc_bit_inj)

lemma low_byte_split: "(c :: u32) = (c AND 0xFF) XOR (c AND NOT 0xFF)"
  by (rule bit_word_eqI) (auto simp: bit_simps)

lemma not_low_bits: "n < 8 \<Longrightarrow> \<not> bit ((c :: u32) AND NOT 0xFF) n"
  using bit_mask_iff [of 8 n, where ?'a = u32] by (simp add: bit_simps mask_eq_exp_minus_1)

lemma drop_low_byte: "drop_bit 8 ((c :: u32) AND NOT 0xFF) = drop_bit 8 c"
proof (rule bit_word_eqI)
  fix n
  have "bit (0xFFFFFF :: u32) n \<longleftrightarrow> n < 24"
    using bit_mask_iff [of 24 n, where ?'a = u32] by (auto simp: mask_eq_exp_minus_1)
  then show "bit (drop_bit 8 (c AND NOT 0xFF)) n = bit (drop_bit 8 c) n"
    using bit_imp_le_length [of c "8 + n"] by (auto simp: bit_simps)
qed

lemma drop_ucast_byte: "drop_bit 8 (ucast (p :: byte) :: u32) = 0"
  by (rule bit_word_eqI) (auto simp: bit_drop_bit_eq bit_ucast_iff dest: bit_imp_le_length)

lemma length_crc32_table: "length crc32_table = 256"
  by (simp add: crc32_table_def)

section \<open>The table is the register\<close>

text \<open>The 256 entries are checked in eight runs of 32, each by evaluating the register.\<close>

lemma crc32_table_part0:
  "take 32 crc32_table =
    map crc_byte [0, 1, 2, 3, 4, 5, 6, 7, 8, 9, 10, 11, 12, 13, 14, 15,
      16, 17, 18, 19, 20, 21, 22, 23, 24, 25, 26, 27, 28, 29, 30, 31]"
  by (simp add: crc_byte_def crc_bit_def crc32_table_def)

lemma crc32_table_part1:
  "take 32 (drop 32 crc32_table) =
    map crc_byte [32, 33, 34, 35, 36, 37, 38, 39, 40, 41, 42, 43, 44, 45, 46, 47,
      48, 49, 50, 51, 52, 53, 54, 55, 56, 57, 58, 59, 60, 61, 62, 63]"
  by (simp add: crc_byte_def crc_bit_def crc32_table_def)

lemma crc32_table_part2:
  "take 32 (drop 64 crc32_table) =
    map crc_byte [64, 65, 66, 67, 68, 69, 70, 71, 72, 73, 74, 75, 76, 77, 78, 79,
      80, 81, 82, 83, 84, 85, 86, 87, 88, 89, 90, 91, 92, 93, 94, 95]"
  by (simp add: crc_byte_def crc_bit_def crc32_table_def)

lemma crc32_table_part3:
  "take 32 (drop 96 crc32_table) =
    map crc_byte [96, 97, 98, 99, 100, 101, 102, 103, 104, 105, 106, 107, 108, 109, 110, 111,
      112, 113, 114, 115, 116, 117, 118, 119, 120, 121, 122, 123, 124, 125, 126, 127]"
  by (simp add: crc_byte_def crc_bit_def crc32_table_def)

lemma crc32_table_part4:
  "take 32 (drop 128 crc32_table) =
    map crc_byte [128, 129, 130, 131, 132, 133, 134, 135, 136, 137, 138, 139, 140, 141, 142, 143,
      144, 145, 146, 147, 148, 149, 150, 151, 152, 153, 154, 155, 156, 157, 158, 159]"
  by (simp add: crc_byte_def crc_bit_def crc32_table_def)

lemma crc32_table_part5:
  "take 32 (drop 160 crc32_table) =
    map crc_byte [160, 161, 162, 163, 164, 165, 166, 167, 168, 169, 170, 171, 172, 173, 174, 175,
      176, 177, 178, 179, 180, 181, 182, 183, 184, 185, 186, 187, 188, 189, 190, 191]"
  by (simp add: crc_byte_def crc_bit_def crc32_table_def)

lemma crc32_table_part6:
  "take 32 (drop 192 crc32_table) =
    map crc_byte [192, 193, 194, 195, 196, 197, 198, 199, 200, 201, 202, 203, 204, 205, 206, 207,
      208, 209, 210, 211, 212, 213, 214, 215, 216, 217, 218, 219, 220, 221, 222, 223]"
  by (simp add: crc_byte_def crc_bit_def crc32_table_def)

lemma crc32_table_part7:
  "take 32 (drop 224 crc32_table) =
    map crc_byte [224, 225, 226, 227, 228, 229, 230, 231, 232, 233, 234, 235, 236, 237, 238, 239,
      240, 241, 242, 243, 244, 245, 246, 247, 248, 249, 250, 251, 252, 253, 254, 255]"
  by (simp add: crc_byte_def crc_bit_def crc32_table_def)

lemma crc32_table_eq: "crc32_table = map (\<lambda>i. crc_byte (of_nat i)) [0..<256]"
proof -
  have chunk: "drop n xs = take 32 (drop n xs) @ drop (n + 32) xs" for n and xs :: "u32 list"
    by (metis append_take_drop_id drop_drop add.commute)
  have bytes: "map of_nat [0..<256] = ([0, 1, 2, 3, 4, 5, 6, 7, 8, 9, 10, 11, 12, 13, 14, 15,
    16, 17, 18, 19, 20, 21, 22, 23, 24, 25, 26, 27, 28, 29, 30, 31,
    32, 33, 34, 35, 36, 37, 38, 39, 40, 41, 42, 43, 44, 45, 46, 47,
    48, 49, 50, 51, 52, 53, 54, 55, 56, 57, 58, 59, 60, 61, 62, 63,
    64, 65, 66, 67, 68, 69, 70, 71, 72, 73, 74, 75, 76, 77, 78, 79,
    80, 81, 82, 83, 84, 85, 86, 87, 88, 89, 90, 91, 92, 93, 94, 95,
    96, 97, 98, 99, 100, 101, 102, 103, 104, 105, 106, 107, 108, 109, 110, 111,
    112, 113, 114, 115, 116, 117, 118, 119, 120, 121, 122, 123, 124, 125, 126, 127,
    128, 129, 130, 131, 132, 133, 134, 135, 136, 137, 138, 139, 140, 141, 142, 143,
    144, 145, 146, 147, 148, 149, 150, 151, 152, 153, 154, 155, 156, 157, 158, 159,
    160, 161, 162, 163, 164, 165, 166, 167, 168, 169, 170, 171, 172, 173, 174, 175,
    176, 177, 178, 179, 180, 181, 182, 183, 184, 185, 186, 187, 188, 189, 190, 191,
    192, 193, 194, 195, 196, 197, 198, 199, 200, 201, 202, 203, 204, 205, 206, 207,
    208, 209, 210, 211, 212, 213, 214, 215, 216, 217, 218, 219, 220, 221, 222, 223,
    224, 225, 226, 227, 228, 229, 230, 231, 232, 233, 234, 235, 236, 237, 238, 239,
    240, 241, 242, 243, 244, 245, 246, 247, 248, 249, 250, 251, 252, 253, 254, 255] :: u32 list)"
    by (simp add: upt_rec)
  have "crc32_table = map crc_byte (map of_nat [0..<256])"
    unfolding bytes
    using chunk [of 0 crc32_table] chunk [of 32 crc32_table] chunk [of 64 crc32_table]
      chunk [of 96 crc32_table] chunk [of 128 crc32_table] chunk [of 160 crc32_table]
      chunk [of 192 crc32_table] chunk [of 224 crc32_table]
    by (simp add: crc32_table_part0 crc32_table_part1 crc32_table_part2 crc32_table_part3
        crc32_table_part4 crc32_table_part5 crc32_table_part6 crc32_table_part7 length_crc32_table)
  then show ?thesis by (simp add: comp_def del: upt.simps)
qed

lemma crc32_table_nth: "i < 256 \<Longrightarrow> crc32_table ! i = crc_byte (of_nat i)"
  by (simp add: crc32_table_eq)

lemma crc_step_eq: "crc_step c p = crc_byte (c XOR ucast p)"
proof -
  define x where "x = c XOR ucast p"
  have "unat (x AND 0xFF) \<le> unat (0xFF :: u32)"
    by (rule word_and_le1 [THEN word_le_nat_alt [THEN iffD1]])
  then have "crc32_table ! unat (x AND 0xFF) = crc_byte (x AND 0xFF)"
    using crc32_table_nth [of "unat (x AND 0xFF)"] by simp
  moreover have "crc_byte (x AND NOT 0xFF) = drop_bit 8 x"
    by (subst crc_byte_high) (rule not_low_bits, assumption, rule drop_low_byte)
  moreover have "drop_bit 8 x = drop_bit 8 c"
    by (simp add: x_def drop_bit_xor drop_ucast_byte)
  ultimately show ?thesis
    using crc_byte_xor [of "x AND 0xFF" "x AND NOT 0xFF"] low_byte_split [of x]
    by (simp add: crc_step_def x_def)
qed

section \<open>The loop\<close>

lemma update_crc32_append: "update_crc32 c (xs @ ys) = update_crc32 (update_crc32 c xs) ys"
  by (induction xs arbitrary: c) auto

lemma xor_right_cancel: "(a :: u32) XOR c = b XOR c \<longleftrightarrow> a = b"
proof
  assume "a XOR c = b XOR c"
  then have "(a XOR c) XOR c = (b XOR c) XOR c" by simp
  then show "a = b" by (simp add: xor.assoc)
qed simp

lemma xor_left_cancel: "(c :: u32) XOR a = c XOR b \<longleftrightarrow> a = b"
  by (simp add: xor.commute [of c] xor_right_cancel)

lemma update_crc32_inj: "update_crc32 c ps = update_crc32 d ps \<longleftrightarrow> c = d"
proof (induction ps arbitrary: c d)
  case (Cons p ps)
  then show ?case by (simp add: crc_step_eq xor_right_cancel)
qed simp

lemma burst_bit: "bit (burst ps) n \<Longrightarrow> n < 8 * length ps"
proof (induction ps arbitrary: n)
  case (Cons p ps)
  then show ?case
    by (force simp: bit_xor_iff bit_ucast_iff bit_push_bit_iff dest: bit_imp_le_length)
qed simp

lemma burst_inj: "length xs = length ys \<Longrightarrow> length xs \<le> 4 \<Longrightarrow> burst xs = burst ys \<Longrightarrow> xs = ys"
proof (induction xs ys rule: list_induct2)
  case (Cons x xs y ys)
  have bits: "bit (ucast x XOR push_bit 8 (burst xs)) n = bit (ucast y XOR push_bit 8 (burst ys)) n" for n
    using Cons.prems(2) by simp
  have "x = y"
  proof (rule bit_word_eqI)
    fix n assume "n < LENGTH(8)"
    then show "bit x n = bit y n"
      using bits [of n] by (simp add: bit_xor_iff bit_ucast_iff bit_push_bit_iff)
  qed
  moreover have "burst xs = burst ys"
  proof (rule bit_word_eqI)
    fix n assume "n < LENGTH(32)"
    have small: "8 * length xs \<le> 24" "8 * length ys \<le> 24" using Cons.prems(1) Cons.hyps by simp_all
    show "bit (burst xs) n = bit (burst ys) n"
    proof (cases "n < 24")
      case True
      then show ?thesis using bits [of "8 + n"] \<open>x = y\<close>
        by (auto simp: bit_xor_iff bit_ucast_iff bit_push_bit_iff)
    next
      case False
      then show ?thesis using burst_bit [of xs n] burst_bit [of ys n] small by auto
    qed
  qed
  ultimately show ?case using Cons by simp
qed simp

lemma crc_byte_shift: "length ps \<le> 3 \<Longrightarrow> crc_byte (push_bit 8 (burst ps)) = burst ps"
proof -
  assume l: "length ps \<le> 3"
  have "crc_byte (push_bit 8 (burst ps)) = drop_bit 8 (push_bit 8 (burst ps))"
    by (rule crc_byte_high) (simp add: bit_push_bit_iff)
  also have "\<dots> = burst ps"
  proof (rule bit_word_eqI)
    fix n
    show "bit (drop_bit 8 (push_bit 8 (burst ps))) n = bit (burst ps) n"
      using burst_bit [of ps n] l by (auto simp: bit_drop_bit_eq bit_push_bit_iff)
  qed
  finally show ?thesis .
qed

lemma update_crc32_burst:
  "length ps \<le> 4 \<Longrightarrow> update_crc32 c ps = (crc_byte ^^ length ps) (c XOR burst ps)"
proof (induction ps arbitrary: c)
  case (Cons p ps)
  then have "crc_byte (c XOR (ucast p XOR push_bit 8 (burst ps))) = crc_byte (c XOR ucast p) XOR burst ps"
    by (simp add: crc_byte_xor crc_byte_shift flip: xor.assoc)
  with Cons show ?case by (simp add: crc_step_eq funpow_swap1)
qed simp

lemma crc_byte_funpow_inj [simp]: "(crc_byte ^^ n) a = (crc_byte ^^ n) b \<longleftrightarrow> a = b"
  by (induction n) auto

lemma update_crc32_reference: "update_crc32 c bs = crc_reference c bs"
  by (induction bs arbitrary: c) (simp_all add: crc_step_eq)

lemma crc32_burst_differs:
  assumes "length xs = length ys" and "length xs \<le> 4" and "xs \<noteq> ys"
  shows "crc32 (before @ xs @ after) \<noteq> crc32 (before @ ys @ after)"
proof
  assume "crc32 (before @ xs @ after) = crc32 (before @ ys @ after)"
  then have "update_crc32 (update_crc32 0xFFFFFFFF before) xs = update_crc32 (update_crc32 0xFFFFFFFF before) ys"
    by (simp add: crc32_def update_crc32_append update_crc32_inj xor_right_cancel)
  then have "burst xs = burst ys"
    using assms by (simp add: update_crc32_burst xor_left_cancel)
  with assms show False
    using burst_inj by blast
qed

section \<open>Properties\<close>

text \<open>
  Claim C17. The table-driven checksum is the bit-serial CRC-32: the register starts at all ones, shifts in
  every byte of the message through the reflected polynomial, and its complement is the result.
\<close>

theorem crc32_bitserial: "crc32 bs = crc_reference 0xFFFFFFFF bs XOR 0xFFFFFFFF"
  by (simp add: crc32_def update_crc32_reference)

text \<open>
  The checksum detects every error burst within four consecutive bytes: two messages that differ
  only inside a window of at most four bytes have different checksums.
\<close>

theorem crc32_detects_burst:
  assumes "length xs = length ys" and "length xs \<le> 4" and "xs \<noteq> ys"
  shows "crc32 (before @ xs @ after) \<noteq> crc32 (before @ ys @ after)"
  using assms by (rule crc32_burst_differs)

theorem crc32_detects_burst_witness:
  "crc32 ([1] @ [2, 3, 4] @ [5, 6]) \<noteq> crc32 ([1] @ [2, 9, 4] @ [5, 6])"
  by (rule crc32_detects_burst) simp_all

text \<open>The standard check value of CRC-32, on the ASCII digits 1 to 9.\<close>

lemma crc32_check_value:
  "crc32 [0x31, 0x32, 0x33, 0x34, 0x35, 0x36, 0x37, 0x38, 0x39] = 0xCBF43926"
  by (simp add: crc32_def update_crc32_reference crc_byte_def crc_bit_def)

end
