(* ===== verification/CommsBuffer.thy ===== *)
theory CommsBuffer
  imports Prelude
begin

text \<open>
  The encode and decode buffers of \<^verbatim>\<open>include/crisp/comms/Buffer.hh\<close> and \<^verbatim>\<open>src/comms/Buffer.cc\<close>, and the
  result codes of \<^verbatim>\<open>include/crisp/comms/common.hh\<close>. \<open>EncodeBuffer\<close> is an interface with one virtual
  \<open>write\<close>; code that takes an \<open>EncodeBuffer&\<close> is modelled over any \<open>write\<close>, and the locale
  \<open>encode_sink\<close> is the contract its two implementations meet.
\<close>

section \<open>The code\<close>

datatype decode_result = Decode_Success | Buffer_Underflow | Invalid_Data

datatype encode_result = Encode_Success | Insufficient_Space | Consistency_Error | Stream_Error

definition encode_result_to_string :: "encode_result \<Rightarrow> string" where
  "encode_result_to_string er =
     (case er of Encode_Success \<Rightarrow> ''Success'' | Insufficient_Space \<Rightarrow> ''Insufficient space''
      | Consistency_Error \<Rightarrow> ''Consistency error'' | Stream_Error \<Rightarrow> ''Stream error'')"

definition decode_result_to_string :: "decode_result \<Rightarrow> string" where
  "decode_result_to_string dr =
     (case dr of Decode_Success \<Rightarrow> ''Success'' | Buffer_Underflow \<Rightarrow> ''Buffer underflow''
      | Invalid_Data \<Rightarrow> ''Invalid data'')"

text \<open>
  \<open>DecodeBuffer\<close>: a block of memory, whose size is the buffer's \<open>length\<close>, and a read offset. The length
  test of \<open>read\<close> subtracts two \<open>size_t\<close> values, so an offset past the end makes it wrap; the copy that
  follows would then leave the block.
\<close>

record decode_buffer =
  db_data :: "byte list"
  db_offset :: nat

definition db_new :: "nat \<Rightarrow> decode_buffer" where
  "db_new n = \<lparr>db_data = replicate n 0, db_offset = 0\<rparr>"

definition db_of :: "byte list \<Rightarrow> nat \<Rightarrow> decode_buffer" where
  "db_of mem off = \<lparr>db_data = mem, db_offset = off\<rparr>"

definition db_read :: "nat \<Rightarrow> (decode_buffer, decode_result \<times> byte list) sfm" where
  "db_read n b =
     (if size_sub (length (db_data b)) (db_offset b) < n then Inr ((Buffer_Underflow, []), b)
      else if db_offset b + n \<le> length (db_data b)
      then Inr ((Decode_Success, take n (drop (db_offset b) (db_data b))),
                b\<lparr>db_offset := db_offset b + n\<rparr>)
      else Inl Out_of_bounds)"

text \<open>What a destination holds after a \<open>read\<close> into it: the bytes on success, its old contents otherwise.\<close>

definition stored :: "decode_result \<times> byte list \<Rightarrow> (byte list \<Rightarrow> 'a \<Rightarrow> 'a) \<Rightarrow> 'a \<Rightarrow> 'a" where
  "stored r upd x = (if fst r = Decode_Success then upd (snd r) x else x)"

text \<open>\<open>MemoryEncodeBuffer\<close>: a block and a write offset.\<close>

record encode_buffer =
  eb_data :: "byte list"
  eb_offset :: nat

definition eb_new :: "nat \<Rightarrow> encode_buffer" where
  "eb_new n = \<lparr>eb_data = replicate n 0, eb_offset = 0\<rparr>"

definition eb_reset :: "nat \<Rightarrow> encode_buffer \<Rightarrow> encode_buffer" where
  "eb_reset off b = b\<lparr>eb_offset := off\<rparr>"

definition eb_write :: "byte list \<Rightarrow> (encode_buffer, encode_result) sfm" where
  "eb_write bs b =
     (if size_sub (length (eb_data b)) (eb_offset b) < length bs then Inr (Insufficient_Space, b)
      else if eb_offset b + length bs \<le> length (eb_data b)
      then Inr (Encode_Success,
                b\<lparr>eb_data := overlay (eb_offset b) bs (eb_data b), eb_offset := eb_offset b + length bs\<rparr>)
      else Inl Out_of_bounds)"

text \<open>
  \<open>StreamEncodeBuffer\<close>: an output stream. The stream is the library's: it takes bytes while it is good and
  its stream buffer has room, and goes bad otherwise. \<open>write\<close> does not look at that state.
\<close>

record stream_buffer =
  st_out :: "byte list"
  st_room :: nat
  st_bad :: bool

definition st_write :: "byte list \<Rightarrow> (stream_buffer, encode_result) sfm" where
  "st_write bs s =
     Inr (Encode_Success,
          if st_bad s then s
          else if length bs \<le> st_room s
          then s\<lparr>st_out := st_out s @ bs, st_room := st_room s - length bs\<rparr>
          else s\<lparr>st_out := st_out s @ take (st_room s) bs, st_room := 0, st_bad := True\<rparr>)"

text \<open>
  The two ways the sources continue after a fallible encoding step: \<open>if ((r = ...) != SUCCESS) return r;\<close>,
  and dropping the result.
\<close>

definition checkedF :: "('s, encode_result) sfm \<Rightarrow> ('s, encode_result) sfm \<Rightarrow> ('s, encode_result) sfm" where
  "checkedF m k = bindF m (\<lambda>r. if r = Encode_Success then k else retF r)"

definition uncheckedF :: "('s, 'r) sfm \<Rightarrow> ('s, 'a) sfm \<Rightarrow> ('s, 'a) sfm" where
  "uncheckedF m k = bindF m (\<lambda>_. k)"

section \<open>The contract of an encode buffer\<close>

text \<open>
  \<open>room s n\<close>: \<open>n\<close> more bytes fit. \<open>put bs s\<close>: the buffer with \<open>bs\<close> appended. \<open>outp s\<close>: what has been
  written so far.
\<close>

locale encode_sink =
  fixes emit :: "byte list \<Rightarrow> ('s, encode_result) sfm"
    and put :: "byte list \<Rightarrow> 's \<Rightarrow> 's"
    and room :: "'s \<Rightarrow> nat \<Rightarrow> bool"
    and outp :: "'s \<Rightarrow> byte list"
    and ok :: "'s \<Rightarrow> bool"
  assumes emit_law: "ok s \<Longrightarrow> room s (length bs) \<Longrightarrow> emit bs s = Inr (Encode_Success, put bs s)"
    and put_ok: "ok s \<Longrightarrow> room s (length bs) \<Longrightarrow> ok (put bs s)"
    and put_room: "ok s \<Longrightarrow> room s (length bs) \<Longrightarrow> room (put bs s) n \<longleftrightarrow> room s (length bs + n)"
    and put_put: "ok s \<Longrightarrow> room s (length xs + length ys) \<Longrightarrow> put ys (put xs s) = put (xs @ ys) s"
    and put_outp: "ok s \<Longrightarrow> room s (length bs) \<Longrightarrow> outp (put bs s) = outp s @ bs"
    and room_mono: "room s n \<Longrightarrow> m \<le> n \<Longrightarrow> room s m"
    and put_nil: "ok s \<Longrightarrow> put [] s = s"
begin

text \<open>\<open>writes m bs\<close>: given room, the step \<open>m\<close> succeeds and appends exactly \<open>bs\<close>.\<close>

definition writes :: "('s, encode_result) sfm \<Rightarrow> byte list \<Rightarrow> bool" where
  "writes m bs \<longleftrightarrow> (\<forall>s. ok s \<longrightarrow> room s (length bs) \<longrightarrow> m s = Inr (Encode_Success, put bs s))"

lemma writesD: "writes m bs \<Longrightarrow> ok s \<Longrightarrow> room s (length bs) \<Longrightarrow> m s = Inr (Encode_Success, put bs s)"
  by (simp add: writes_def)

lemma writes_emit: "writes (emit bs) bs"
  by (simp add: writes_def emit_law)

lemma writes_ret: "writes (retF Encode_Success) []"
  by (simp add: writes_def put_nil)

lemma writes_bind:
  assumes "writes m xs" and "writes (k Encode_Success) ys"
  shows "writes (bindF m k) (xs @ ys)"
  unfolding writes_def
proof (intro allI impI)
  fix s assume s: "ok s" "room s (length (xs @ ys))"
  then have x: "room s (length xs)" by (auto intro: room_mono)
  then have "bindF m k s = k Encode_Success (put xs s)"
    using assms(1) s by (simp add: writesD bindF_Inr)
  also have "\<dots> = Inr (Encode_Success, put ys (put xs s))"
    using assms(2) s x by (intro writesD) (simp_all add: put_ok put_room)
  finally show "bindF m k s = Inr (Encode_Success, put (xs @ ys) s)"
    using s by (simp add: put_put)
qed

lemma writes_checked: "writes m xs \<Longrightarrow> writes k ys \<Longrightarrow> writes (checkedF m k) (xs @ ys)"
  unfolding checkedF_def by (rule writes_bind) simp_all

lemma writes_unchecked: "writes m xs \<Longrightarrow> writes k ys \<Longrightarrow> writes (uncheckedF m k) (xs @ ys)"
  unfolding uncheckedF_def by (rule writes_bind) simp_all

lemmas writes_intros = writes_emit writes_ret writes_checked writes_unchecked

end

text \<open>The memory buffer meets it\<close>

definition eb_ok :: "encode_buffer \<Rightarrow> bool" where
  "eb_ok b \<longleftrightarrow> eb_offset b \<le> length (eb_data b)"

definition eb_room :: "encode_buffer \<Rightarrow> nat \<Rightarrow> bool" where
  "eb_room b n \<longleftrightarrow> eb_offset b + n \<le> length (eb_data b)"

definition eb_put :: "byte list \<Rightarrow> encode_buffer \<Rightarrow> encode_buffer" where
  "eb_put bs b = b\<lparr>eb_data := overlay (eb_offset b) bs (eb_data b), eb_offset := eb_offset b + length bs\<rparr>"

definition eb_written :: "encode_buffer \<Rightarrow> byte list" where
  "eb_written b = take (eb_offset b) (eb_data b)"

interpretation mem: encode_sink eb_write eb_put eb_room eb_written eb_ok
proof
  fix s :: encode_buffer and bs xs ys :: "byte list" and n m :: nat
  show "eb_put [] s = s" if "eb_ok s"
    by (simp add: eb_put_def overlay_def)
  show "eb_room s m" if "eb_room s n" "m \<le> n"
    using that by (simp add: eb_room_def)
  show "eb_put ys (eb_put xs s) = eb_put (xs @ ys) s" if "eb_ok s" "eb_room s (length xs + length ys)"
    using that by (simp add: eb_put_def eb_room_def overlay_def ac_simps)
qed (auto simp: eb_write_def eb_put_def eb_room_def eb_written_def eb_ok_def take_overlay)

text \<open>So does the stream buffer, as long as its stream is good and has room.\<close>

definition st_ok :: "stream_buffer \<Rightarrow> bool" where
  "st_ok s \<longleftrightarrow> \<not> st_bad s"

definition st_fits :: "stream_buffer \<Rightarrow> nat \<Rightarrow> bool" where
  "st_fits s n \<longleftrightarrow> n \<le> st_room s"

definition st_put :: "byte list \<Rightarrow> stream_buffer \<Rightarrow> stream_buffer" where
  "st_put bs s = s\<lparr>st_out := st_out s @ bs, st_room := st_room s - length bs\<rparr>"

interpretation stm: encode_sink st_write st_put st_fits st_out st_ok
  by unfold_locales (auto simp: st_write_def st_put_def st_fits_def st_ok_def)

lemma eb_write_insufficient:
  "eb_ok b \<Longrightarrow> \<not> eb_room b (length bs) \<Longrightarrow> eb_write bs b = Inr (Insufficient_Space, b)"
  by (simp add: eb_write_def eb_ok_def eb_room_def)

lemma eb_put_data_length [simp]: "eb_room b (length bs) \<Longrightarrow> length (eb_data (eb_put bs b)) = length (eb_data b)"
  by (simp add: eb_put_def eb_room_def)

lemma eb_offset_put [simp]: "eb_offset (eb_put bs b) = eb_offset b + length bs"
  by (simp add: eb_put_def)

lemma eb_new_ok [simp]: "eb_ok (eb_new n)" and eb_new_room [simp]: "eb_room (eb_new n) m \<longleftrightarrow> m \<le> n"
  and eb_new_written [simp]: "eb_written (eb_new n) = []" and eb_new_offset [simp]: "eb_offset (eb_new n) = 0"
  by (simp_all add: eb_new_def eb_ok_def eb_room_def eb_written_def)

lemma eb_put_new: "eb_put bs (eb_new (length bs)) = \<lparr>eb_data = bs, eb_offset = length bs\<rparr>"
  by (simp add: eb_put_def eb_new_def overlay_def)

section \<open>Reading\<close>

definition db_ok :: "decode_buffer \<Rightarrow> bool" where
  "db_ok b \<longleftrightarrow> db_offset b \<le> length (db_data b)"

definition db_rest :: "decode_buffer \<Rightarrow> byte list" where
  "db_rest b = drop (db_offset b) (db_data b)"

definition db_advance :: "nat \<Rightarrow> decode_buffer \<Rightarrow> decode_buffer" where
  "db_advance n b = b\<lparr>db_offset := db_offset b + n\<rparr>"

lemma db_read_success:
  "db_ok b \<Longrightarrow> n \<le> length (db_rest b) \<Longrightarrow>
   db_read n b = Inr ((Decode_Success, take n (db_rest b)), db_advance n b)"
  by (auto simp: db_read_def db_ok_def db_rest_def db_advance_def)

lemma db_read_underflow:
  "db_ok b \<Longrightarrow> length (db_rest b) < n \<Longrightarrow> db_read n b = Inr ((Buffer_Underflow, []), b)"
  by (simp add: db_read_def db_ok_def db_rest_def)

lemma db_read_ok: "db_ok b \<Longrightarrow> db_read n b = Inr (r, b') \<Longrightarrow> db_ok b' \<and> db_data b' = db_data b"
  by (auto simp: db_read_def db_ok_def split: if_splits)

lemma db_read_total: "db_ok b \<Longrightarrow> \<exists>r b'. db_read n b = Inr (r, b')"
  by (auto simp: db_read_def db_ok_def)

lemma db_read_zero [simp]: "db_ok b \<Longrightarrow> db_read 0 b = Inr ((Decode_Success, []), b)"
  by (simp add: db_read_success db_advance_def)

lemma db_advance_0 [simp]: "db_advance 0 b = b"
  by (simp add: db_advance_def)

lemma db_advance_advance [simp]: "db_advance m (db_advance n b) = db_advance (n + m) b"
  by (simp add: db_advance_def add.assoc)

lemma db_rest_advance [simp]: "db_rest (db_advance n b) = drop n (db_rest b)"
  by (simp add: db_rest_def db_advance_def add.commute)

lemma db_ok_advance [simp]: "db_ok b \<Longrightarrow> n \<le> length (db_rest b) \<Longrightarrow> db_ok (db_advance n b)"
  by (auto simp: db_ok_def db_rest_def db_advance_def)

lemma stored_simps [simp]:
  "stored (Decode_Success, bs) upd x = upd bs x"
  "stored (Buffer_Underflow, bs) upd x = x"
  by (simp_all add: stored_def)

text \<open>
  \<open>consumes m bs x\<close>: on any buffer whose next bytes are \<open>bs\<close>, the reader \<open>m\<close> takes exactly these bytes and
  returns \<open>x\<close>.
\<close>

definition consumes :: "(decode_buffer, 'a) sfm \<Rightarrow> byte list \<Rightarrow> 'a \<Rightarrow> bool" where
  "consumes m bs x \<longleftrightarrow>
     (\<forall>b rest. db_ok b \<longrightarrow> db_rest b = bs @ rest \<longrightarrow> m b = Inr (x, db_advance (length bs) b))"

lemma consumesD:
  "consumes m bs x \<Longrightarrow> db_ok b \<Longrightarrow> db_rest b = bs @ rest \<Longrightarrow> m b = Inr (x, db_advance (length bs) b)"
  by (simp add: consumes_def)

lemma consumes_ret: "consumes (retF x) [] x"
  by (simp add: consumes_def)

lemma consumes_read: "consumes (db_read (length bs)) bs (Decode_Success, bs)"
  by (simp add: consumes_def db_read_success)

lemma consumes_bind:
  assumes "consumes m xs x" and "consumes (f x) ys y"
  shows "consumes (bindF m f) (xs @ ys) y"
  unfolding consumes_def
proof (intro allI impI)
  fix b rest assume b: "db_ok b" "db_rest b = (xs @ ys) @ rest"
  then have "bindF m f b = f x (db_advance (length xs) b)"
    using assms(1) by (simp add: consumesD bindF_Inr)
  also have "\<dots> = Inr (y, db_advance (length ys) (db_advance (length xs) b))"
    using assms(2) b by (intro consumesD) auto
  finally show "bindF m f b = Inr (y, db_advance (length (xs @ ys)) b)" by simp
qed

lemma consumes_bind_last: "consumes m xs x \<Longrightarrow> f x = retF y \<Longrightarrow> consumes (bindF m f) xs y"
  using consumes_bind [of m xs x f "[]" y] by (simp add: consumes_ret)

text \<open>
  \<open>tame m P\<close>: on any bytes whatsoever, the reader \<open>m\<close> only moves forward inside the block and its result
  satisfies \<open>P\<close>, unless it meets a declaration whose width exceeds its sixteen-byte value arrays, the one
  fault a decoder can end in. A read outside the block is \<open>Out_of_bounds\<close> and never tame.
\<close>

definition overwide :: "fault \<Rightarrow> bool" where
  "overwide e \<longleftrightarrow> (case e of Field_overflow w \<Rightarrow> 16 < w | _ \<Rightarrow> False)"

lemma overwide_simps [simp]: "overwide (Field_overflow w) = (16 < w)" "\<not> overwide Out_of_bounds"
  by (simp_all add: overwide_def)

lemma overwideE: "overwide e \<Longrightarrow> (\<And>w. e = Field_overflow w \<Longrightarrow> 16 < w \<Longrightarrow> P) \<Longrightarrow> P"
  by (cases e) (simp_all add: overwide_def)

definition tame :: "(decode_buffer, 'a) sfm \<Rightarrow> ('a \<Rightarrow> bool) \<Rightarrow> bool" where
  "tame m P \<longleftrightarrow>
     (\<forall>b. db_ok b \<longrightarrow>
       (case m b of Inl e \<Rightarrow> overwide e
        | Inr (x, b') \<Rightarrow> db_ok b' \<and> db_data b' = db_data b \<and> db_offset b \<le> db_offset b' \<and> P x))"

lemma tameD:
  assumes "tame m P" and "db_ok b"
  shows "(\<exists>e. m b = Inl e \<and> overwide e) \<or>
    (\<exists>x b'. m b = Inr (x, b') \<and> db_ok b' \<and> db_data b' = db_data b \<and> db_offset b \<le> db_offset b' \<and> P x)"
proof -
  have "case m b of Inl e \<Rightarrow> overwide e
    | Inr (x, b') \<Rightarrow> db_ok b' \<and> db_data b' = db_data b \<and> db_offset b \<le> db_offset b' \<and> P x"
    using assms by (simp only: tame_def)
  then show ?thesis by (cases "m b") auto
qed

lemma tameI:
  assumes "\<And>b. db_ok b \<Longrightarrow> (\<exists>e. m b = Inl e \<and> overwide e) \<or>
    (\<exists>x b'. m b = Inr (x, b') \<and> db_ok b' \<and> db_data b' = db_data b \<and> db_offset b \<le> db_offset b' \<and> P x)"
  shows "tame m P"
  unfolding tame_def
proof (intro allI impI)
  fix b assume "db_ok b"
  from assms [OF this] show "case m b of Inl e \<Rightarrow> overwide e
    | Inr (x, b') \<Rightarrow> db_ok b' \<and> db_data b' = db_data b \<and> db_offset b \<le> db_offset b' \<and> P x"
    by (elim disjE exE conjE) simp_all
qed

lemma tame_ret: "P x \<Longrightarrow> tame (retF x) P"
  by (simp add: tame_def)

lemma tame_overwide: "16 < w \<Longrightarrow> tame (failF (Field_overflow w)) P"
  by (simp add: tame_def)

lemma tame_mono: "tame m Q \<Longrightarrow> (\<And>x. Q x \<Longrightarrow> P x) \<Longrightarrow> tame m P"
  by (rule tameI) (blast dest: tameD)

lemma tame_bind:
  assumes "tame m Q" and "\<And>x. Q x \<Longrightarrow> tame (f x) P"
  shows "tame (bindF m f) P"
  unfolding tame_def
proof (intro allI impI)
  fix b assume b: "db_ok b"
  show "case bindF m f b of Inl e \<Rightarrow> overwide e
    | Inr (x, b') \<Rightarrow> db_ok b' \<and> db_data b' = db_data b \<and> db_offset b \<le> db_offset b' \<and> P x"
    using tameD [OF assms(1) b]
  proof (elim disjE exE conjE)
    fix e assume "m b = Inl e" and "overwide e"
    then show ?thesis by (simp add: bindF_Inl)
  next
    fix x b' assume m: "m b = Inr (x, b')" and b': "db_ok b'" "db_data b' = db_data b" "db_offset b \<le> db_offset b'"
      and "Q x"
    show ?thesis
      using tameD [OF assms(2) [OF \<open>Q x\<close>] b'(1)] b' by (auto simp: bindF_Inr [of m, OF m])
  qed
qed

lemma tame_read: "tame (db_read n) (\<lambda>r. fst r = Decode_Success \<longrightarrow> length (snd r) = n)"
  unfolding tame_def
proof (intro allI impI)
  fix b assume b: "db_ok b"
  show "case db_read n b of Inl e \<Rightarrow> overwide e
    | Inr (r, b') \<Rightarrow> db_ok b' \<and> db_data b' = db_data b \<and> db_offset b \<le> db_offset b' \<and>
        (fst r = Decode_Success \<longrightarrow> length (snd r) = n)"
  proof (cases "n \<le> length (db_rest b)")
    case True
    with b show ?thesis by (simp add: db_read_success) (simp add: db_advance_def)
  next
    case False
    with b show ?thesis by (simp add: db_read_underflow)
  qed
qed

lemma tame_if: "(p \<Longrightarrow> tame m P) \<Longrightarrow> (\<not> p \<Longrightarrow> tame k P) \<Longrightarrow> tame (if p then m else k) P"
  by simp

lemma tame_lift: "\<exists>y. x = Inr y \<and> P y \<Longrightarrow> tame (liftF x) P"
  by (auto simp: tame_def)

lemma tame_guard: "P x \<Longrightarrow> tame m P \<Longrightarrow> tame (\<lambda>b. if c b then Inr (x, b) else m b) P"
  by (auto simp: tame_def)

lemmas tame_intros = tame_ret tame_overwide tame_bind tame_if

text \<open>A buffer that holds exactly one encoding.\<close>

lemma db_of_simps [simp]: "db_ok (db_of mem 0)" "db_rest (db_of mem 0) = mem"
  by (simp_all add: db_of_def db_ok_def db_rest_def)

text \<open>Reading back what a write put there.\<close>

lemma rest_after_write:
  "eb_room b (length bs) \<Longrightarrow>
   db_rest (db_of (eb_data (eb_put bs b)) (eb_offset b)) = bs @ drop (eb_offset b + length bs) (eb_data b)"
  by (simp add: db_rest_def db_of_def eb_put_def eb_room_def overlay_def)

text \<open>
  An encoder and a decoder of the same byte string fit together: what the first writes into a memory
  buffer, the second reads back from there, up to the same offset.
\<close>

lemma write_then_read:
  assumes "mem.writes m bs" and "consumes r bs x" and "eb_ok b" and "eb_room b (length bs)"
  shows "\<exists>b' c. m b = Inr (Encode_Success, b') \<and> eb_ok b' \<and> eb_offset b' = eb_offset b + length bs \<and>
    eb_written b' = eb_written b @ bs \<and>
    r (db_of (eb_data b') (eb_offset b)) = Inr (x, c) \<and> db_offset c = eb_offset b'"
proof (intro exI conjI)
  let ?b' = "eb_put bs b" and ?d = "db_of (eb_data (eb_put bs b)) (eb_offset b)"
  show "m b = Inr (Encode_Success, ?b')" using assms by (simp add: mem.writesD)
  show "eb_ok ?b'" "eb_written ?b' = eb_written b @ bs"
    using assms by (simp_all add: mem.put_ok mem.put_outp)
  show "eb_offset ?b' = eb_offset b + length bs" by simp
  have "db_ok ?d" using assms by (simp add: db_ok_def db_of_def eb_ok_def)
  then show "r ?d = Inr (x, db_advance (length bs) ?d)"
    using assms by (simp add: consumesD rest_after_write)
  show "db_offset (db_advance (length bs) ?d) = eb_offset ?b'"
    by (simp add: db_advance_def db_of_def)
qed

text \<open>An encoder of the exact size fills a fresh buffer with its bytes.\<close>

lemma write_exact:
  "mem.writes m bs \<Longrightarrow> m (eb_new (length bs)) = Inr (Encode_Success, \<lparr>eb_data = bs, eb_offset = length bs\<rparr>)"
  by (simp add: mem.writesD eb_put_new)

section \<open>Properties\<close>

text \<open>
  A write into a memory buffer is all or nothing: with room it succeeds, appends exactly its
  bytes to what was written before and leaves the block's size alone; without room it returns
  \<open>INSUFFICIENT_SPACE\<close> and changes nothing. A read at the old offset then yields the bytes written.
\<close>

theorem eb_write_all_or_nothing:
  assumes "eb_ok b"
  shows "if eb_room b (length bs)
    then \<exists>b'. eb_write bs b = Inr (Encode_Success, b') \<and> eb_ok b' \<and>
           eb_written b' = eb_written b @ bs \<and> length (eb_data b') = length (eb_data b) \<and>
           (\<exists>d. db_read (length bs) (db_of (eb_data b') (eb_offset b)) = Inr ((Decode_Success, bs), d))
    else eb_write bs b = Inr (Insufficient_Space, b)"
proof (cases "eb_room b (length bs)")
  case True
  have "db_ok (db_of (eb_data (eb_put bs b)) (eb_offset b))"
    using assms True by (simp add: db_ok_def db_of_def eb_ok_def)
  then have "\<exists>d. db_read (length bs) (db_of (eb_data (eb_put bs b)) (eb_offset b)) = Inr ((Decode_Success, bs), d)"
    using True by (simp add: db_read_success rest_after_write)
  with True assms show ?thesis
    by (simp add: mem.emit_law mem.put_ok mem.put_outp)
qed (use assms in \<open>simp add: eb_write_insufficient\<close>)

theorem eb_write_all_or_nothing_witness:
  "if eb_room (eb_new 4) (length [1 :: byte, 2, 3])
    then \<exists>b'. eb_write [1, 2, 3] (eb_new 4) = Inr (Encode_Success, b') \<and> eb_ok b' \<and>
           eb_written b' = eb_written (eb_new 4) @ [1, 2, 3] \<and> length (eb_data b') = length (eb_data (eb_new 4)) \<and>
           (\<exists>d. db_read (length [1 :: byte, 2, 3]) (db_of (eb_data b') (eb_offset (eb_new 4))) = Inr ((Decode_Success, [1, 2, 3]), d))
    else eb_write [1, 2, 3] (eb_new 4) = Inr (Insufficient_Space, eb_new 4)"
  by (rule eb_write_all_or_nothing) simp

text \<open>
  \<open>StreamEncodeBuffer::write\<close> reports success on every stream, also when the stream takes none
  of the bytes: no \<open>STREAM_ERROR\<close> reaches the caller.
\<close>

lemma st_write_always_success:
  "\<exists>s'. st_write bs s = Inr (Encode_Success, s') \<and>
    (st_bad s \<longrightarrow> st_out s' = st_out s) \<and> (st_bad s' \<longleftrightarrow> st_bad s \<or> st_room s < length bs)"
  by (auto simp: st_write_def)

end
