(* ===== verification/DataDeclaration.thy ===== *)
theory DataDeclaration
  imports CommsBuffer
begin

text \<open>
  Data-type declarations: \<^verbatim>\<open>include/crisp/comms/DataDeclarationBase.hh\<close>, \<^verbatim>\<open>DataDeclaration.hh\<close> and
  \<^verbatim>\<open>src/comms/DataDeclaration.cc\<close>. The generic declaration is a packed structure whose first three bytes
  are sent as they lie in memory, so its bit-fields are kept at their widths; the neutral, minimum and
  maximum values follow as raw bytes. The layout is the one GCC gives the packed structure on a
  little-endian machine: fields from the lowest bit up, across byte boundaries.
\<close>

section \<open>The generic declaration\<close>

datatype data_type = UNDEFINED | BOOLEAN | INTEGER | FLOAT | STRING

definition data_type_code :: "data_type \<Rightarrow> 6 word" where
  "data_type_code t =
     (case t of UNDEFINED \<Rightarrow> 0 | BOOLEAN \<Rightarrow> 1 | INTEGER \<Rightarrow> 2 | FLOAT \<Rightarrow> 3 | STRING \<Rightarrow> 4)"

record data_decl =
  dd_type :: "6 word"
  dd_width :: "5 word"
  dd_is_array :: bool
  dd_is_signed :: bool
  dd_has_neutral :: bool
  dd_has_minimum :: bool
  dd_has_maximum :: bool
  dd_array_size_width :: byte
  dd_neutral :: "byte list"
  dd_minimum :: "byte list"
  dd_maximum :: "byte list"

definition dd_new :: data_decl where
  "dd_new = \<lparr>dd_type = data_type_code UNDEFINED, dd_width = 0, dd_is_array = False, dd_is_signed = False,
     dd_has_neutral = False, dd_has_minimum = False, dd_has_maximum = False, dd_array_size_width = 0,
     dd_neutral = replicate 16 0, dd_minimum = replicate 16 0, dd_maximum = replicate 16 0\<rparr>"

text \<open>\<open>HeaderSize = offsetof(DataDeclarationBase<>, neutral_value)\<close>: 24 bits of bit-fields.\<close>

definition dd_HeaderSize :: nat where
  "dd_HeaderSize = 3"

definition flag_bit :: "nat \<Rightarrow> bool \<Rightarrow> u16" where
  "flag_bit n p = (if p then push_bit n 1 else 0)"

definition dd_bits :: "data_decl \<Rightarrow> u16" where
  "dd_bits d =
     ucast (dd_type d) OR push_bit 6 (ucast (dd_width d)) OR
     flag_bit 11 (dd_is_array d) OR flag_bit 12 (dd_is_signed d) OR
     flag_bit 13 (dd_has_neutral d) OR flag_bit 14 (dd_has_minimum d) OR flag_bit 15 (dd_has_maximum d)"

definition dd_header :: "data_decl \<Rightarrow> byte list" where
  "dd_header d = le_bytes 2 (unat (dd_bits d)) @ [dd_array_size_width d]"

text \<open>The effect of copying three bytes over the start of a declaration.\<close>

definition dd_set_header :: "byte list \<Rightarrow> data_decl \<Rightarrow> data_decl" where
  "dd_set_header bs d =
     (let w = of_nat (le_val (take 2 bs)) :: u16 in
      d\<lparr>dd_type := ucast w, dd_width := ucast (drop_bit 6 w),
        dd_is_array := bit w 11, dd_is_signed := bit w 12,
        dd_has_neutral := bit w 13, dd_has_minimum := bit w 14, dd_has_maximum := bit w 15,
        dd_array_size_width := bs ! 2\<rparr>)"

definition dd_tail_size :: "data_decl \<Rightarrow> nat" where
  "dd_tail_size d =
     unat (dd_width d) *
     (of_bool (dd_has_neutral d) + of_bool (dd_has_minimum d) + of_bool (dd_has_maximum d))"

definition dd_encoded_size :: "data_decl \<Rightarrow> nat" where
  "dd_encoded_size d = dd_HeaderSize + dd_tail_size d"

text \<open>
  Encoding writes to any \<open>EncodeBuffer\<close>, here \<open>emit\<close>. A value is the first \<open>width\<close> bytes of its
  sixteen-byte array; a larger width reads past the array.
\<close>

definition dd_field :: "data_decl \<Rightarrow> byte list \<Rightarrow> fault + byte list" where
  "dd_field d fld =
     (if unat (dd_width d) \<le> length fld then Inr (take (unat (dd_width d)) fld)
      else Inl (Field_overflow (unat (dd_width d))))"

definition dd_emit_field ::
    "(byte list \<Rightarrow> ('s, encode_result) sfm) \<Rightarrow> data_decl \<Rightarrow> bool \<Rightarrow> byte list \<Rightarrow> ('s, encode_result) sfm" where
  "dd_emit_field emit d present fld =
     (if present then bindF (liftF (dd_field d fld)) emit else retF Encode_Success)"

definition dd_encode_tail ::
    "(byte list \<Rightarrow> ('s, encode_result) sfm) \<Rightarrow> data_decl \<Rightarrow> ('s, encode_result) sfm" where
  "dd_encode_tail emit d =
     checkedF (dd_emit_field emit d (dd_has_neutral d) (dd_neutral d))
       (checkedF (dd_emit_field emit d (dd_has_minimum d) (dd_minimum d))
         (dd_emit_field emit d (dd_has_maximum d) (dd_maximum d)))"

definition dd_encode ::
    "(byte list \<Rightarrow> ('s, encode_result) sfm) \<Rightarrow> data_decl \<Rightarrow> ('s, encode_result) sfm" where
  "dd_encode emit d = checkedF (emit (dd_header d)) (dd_encode_tail emit d)"

text \<open>
  Decoding reads \<open>width\<close> bytes over a sixteen-byte array, after one test that the whole tail is there.
  \<open>detail::DataDeclarationBase::decode\<close> clears the object first; the member \<open>decode\<close> drops its result.
\<close>

definition dd_read_field ::
    "(byte list \<Rightarrow> data_decl \<Rightarrow> data_decl) \<Rightarrow> byte list \<Rightarrow> data_decl \<Rightarrow>
     (decode_buffer, decode_result \<times> data_decl) sfm" where
  "dd_read_field upd fld d =
     bindF (db_read (unat (dd_width d))) (\<lambda>r.
       if fst r = Decode_Success
       then if length (snd r) \<le> length fld
            then retF (Decode_Success, upd (overlay 0 (snd r) fld) d)
            else failF (Field_overflow (unat (dd_width d)))
       else retF (fst r, d))"

definition dd_decode_tail :: "data_decl \<Rightarrow> (decode_buffer, decode_result \<times> data_decl) sfm" where
  "dd_decode_tail d = (\<lambda>b.
     if size_sub (length (db_data b)) (db_offset b) < dd_tail_size d
     then Inr ((Buffer_Underflow, d), b)
     else
       bindF (if dd_has_neutral d
              then dd_read_field (\<lambda>v. dd_neutral_update (\<lambda>_. v)) (dd_neutral d) d
              else retF (Decode_Success, d)) (\<lambda>r1.
       bindF (if fst r1 = Decode_Success \<and> dd_has_minimum d
              then dd_read_field (\<lambda>v. dd_minimum_update (\<lambda>_. v)) (dd_minimum d) (snd r1)
              else retF r1) (\<lambda>r2.
       if fst r2 = Decode_Success \<and> dd_has_maximum d
       then dd_read_field (\<lambda>v. dd_maximum_update (\<lambda>_. v)) (dd_maximum d) (snd r2)
       else retF r2)) b)"

definition dd_detail_decode :: "(decode_buffer, decode_result \<times> data_decl) sfm" where
  "dd_detail_decode =
     bindF (db_read dd_HeaderSize) (\<lambda>r.
       if fst r = Decode_Success then dd_decode_tail (dd_set_header (snd r) dd_new) else retF (fst r, dd_new))"

definition dd_decode :: "(decode_buffer, decode_result \<times> data_decl) sfm" where
  "dd_decode = bindF dd_detail_decode (\<lambda>r. retF (Decode_Success, snd r))"

definition dd_decode_copy :: "(decode_buffer, data_decl) sfm" where
  "dd_decode_copy = bindF dd_detail_decode (\<lambda>r. retF (snd r))"

text \<open>
  \<open>operator ==\<close>. The three \<open>memcmp\<close> calls compare \<open>width\<close> bytes (of arrays of sixteen); \<open>is_array\<close> and
  \<open>array_size_width\<close> are not compared.
\<close>

definition dd_eq :: "data_decl \<Rightarrow> data_decl \<Rightarrow> bool" where
  "dd_eq a b \<longleftrightarrow>
     dd_type a = dd_type b \<and> dd_width a = dd_width b \<and> dd_is_signed a = dd_is_signed b \<and>
     dd_has_neutral a = dd_has_neutral b \<and>
       (\<not> dd_has_neutral a \<or> take (unat (dd_width a)) (dd_neutral a) = take (unat (dd_width a)) (dd_neutral b)) \<and>
     dd_has_minimum a = dd_has_minimum b \<and>
       (\<not> dd_has_minimum a \<or> take (unat (dd_width a)) (dd_minimum a) = take (unat (dd_width a)) (dd_minimum b)) \<and>
     dd_has_maximum a = dd_has_maximum b \<and>
       (\<not> dd_has_maximum a \<or> take (unat (dd_width a)) (dd_maximum a) = take (unat (dd_width a)) (dd_maximum b))"

text \<open>The move-assignment operator copies every field.\<close>

definition dd_assign :: "data_decl \<Rightarrow> data_decl \<Rightarrow> data_decl" where
  "dd_assign d other =
     d\<lparr>dd_type := dd_type other, dd_width := dd_width other, dd_array_size_width := dd_array_size_width other,
       dd_is_array := dd_is_array other, dd_is_signed := dd_is_signed other,
       dd_has_neutral := dd_has_neutral other, dd_has_minimum := dd_has_minimum other,
       dd_has_maximum := dd_has_maximum other, dd_neutral := dd_neutral other,
       dd_minimum := dd_minimum other, dd_maximum := dd_maximum other\<rparr>"

section \<open>Names of types for generated code\<close>

datatype target_language = LangC | LangCXX

text \<open>\<open>NULL\<close> is \<open>None\<close>. The signed names are the unsigned ones without their first character.\<close>

definition integer_type_name :: "nat \<Rightarrow> bool \<Rightarrow> string option" where
  "integer_type_name w is_signed =
     (let unsigned =
        (if 8 * w = 8 then Some ''uint8_t'' else if 8 * w = 16 then Some ''uint16_t''
         else if 8 * w = 32 then Some ''uint32_t'' else if 8 * w = 64 then Some ''uint64_t'' else None)
      in map_option (\<lambda>s. if is_signed then tl s else s) unsigned)"

definition float_type_name :: "nat \<Rightarrow> string option" where
  "float_type_name w =
     (if w = 4 then Some ''float'' else if w = 8 then Some ''double''
      else if w = 16 then Some ''long double'' else None)"

definition type_name :: "target_language \<Rightarrow> data_decl \<Rightarrow> string option" where
  "type_name lang d =
     (if dd_type d = data_type_code UNDEFINED then Some ''UNDEFINED''
      else if dd_type d = data_type_code BOOLEAN then Some (if lang = LangC then ''_Bool'' else ''bool'')
      else if dd_type d = data_type_code INTEGER then integer_type_name (unat (dd_width d)) False
      else if dd_type d = data_type_code FLOAT then float_type_name (unat (dd_width d))
      else if dd_type d = data_type_code STRING then Some ''char*''
      else None)"

section \<open>Typed declarations\<close>

text \<open>
  \<open>DataDeclaration<T>\<close> for an integral \<open>T\<close> of \<open>it_size\<close> bytes. The named arguments are optional; an absent
  value defaults to the largest value of \<open>T\<close>, and a value is present when it differs from that.
\<close>

record int_type =
  it_size :: nat
  it_signed :: bool

definition int_max :: "int_type \<Rightarrow> int" where
  "int_max t = (if it_signed t then 2 ^ (8 * it_size t - 1) - 1 else 2 ^ (8 * it_size t) - 1)"

record int_decl =
  id_type :: int_type
  id_width :: "12 word"
  id_is_array :: bool
  id_has_neutral :: bool
  id_has_minimum :: bool
  id_has_maximum :: bool
  id_neutral :: int
  id_minimum :: int
  id_maximum :: int

definition int_decl_default :: "int_type \<Rightarrow> int_decl" where
  "int_decl_default t = \<lparr>id_type = t, id_width = of_nat (it_size t), id_is_array = False,
     id_has_neutral = False, id_has_minimum = False, id_has_maximum = False,
     id_neutral = int_max t, id_minimum = int_max t, id_maximum = int_max t\<rparr>"

definition arg_or :: "'a option \<Rightarrow> 'a \<Rightarrow> 'a" where
  "arg_or x dflt = (case x of None \<Rightarrow> dflt | Some v \<Rightarrow> v)"

definition int_decl_args ::
    "int_type \<Rightarrow> int option \<Rightarrow> int option \<Rightarrow> int option \<Rightarrow> nat option \<Rightarrow> bool option \<Rightarrow> int_decl" where
  "int_decl_args t neutral minimum maximum w arr =
     (let nv = arg_or neutral (int_max t); mn = arg_or minimum (int_max t); mx = arg_or maximum (int_max t) in
      \<lparr>id_type = t, id_width = of_nat (arg_or w (it_size t)), id_is_array = arg_or arr False,
       id_has_neutral = (nv \<noteq> int_max t), id_has_minimum = (mn \<noteq> int_max t), id_has_maximum = (mx \<noteq> int_max t),
       id_neutral = nv, id_minimum = mn, id_maximum = mx\<rparr>)"

definition id_set_neutral :: "int \<Rightarrow> int_decl \<Rightarrow> int_decl" where
  "id_set_neutral n d = d\<lparr>id_has_neutral := True, id_neutral := n\<rparr>"

definition id_set_minimum :: "int \<Rightarrow> int_decl \<Rightarrow> int_decl" where
  "id_set_minimum n d = d\<lparr>id_has_minimum := True, id_minimum := n\<rparr>"

definition id_set_maximum :: "int \<Rightarrow> int_decl \<Rightarrow> int_decl" where
  "id_set_maximum n d = d\<lparr>id_has_maximum := True, id_maximum := n\<rparr>"

text \<open>The object representation of an integer: two's complement, little-endian.\<close>

definition int_bytes :: "int_type \<Rightarrow> int \<Rightarrow> byte list" where
  "int_bytes t v = le_bytes (it_size t) (nat (v mod 2 ^ (8 * it_size t)))"

definition int_decl_generic :: "int_decl \<Rightarrow> data_decl" where
  "int_decl_generic d = dd_new\<lparr>
     dd_type := data_type_code INTEGER, dd_width := ucast (id_width d), dd_is_array := id_is_array d,
     dd_is_signed := it_signed (id_type d), dd_has_neutral := id_has_neutral d,
     dd_has_minimum := id_has_minimum d, dd_has_maximum := id_has_maximum d,
     dd_neutral := (if id_has_neutral d then overlay 0 (int_bytes (id_type d) (id_neutral d)) (replicate 16 0)
                    else replicate 16 0),
     dd_minimum := (if id_has_minimum d then overlay 0 (int_bytes (id_type d) (id_minimum d)) (replicate 16 0)
                    else replicate 16 0),
     dd_maximum := (if id_has_maximum d then overlay 0 (int_bytes (id_type d) (id_maximum d)) (replicate 16 0)
                    else replicate 16 0)\<rparr>"

text \<open>
  \<open>DataDeclaration<T>\<close> for a floating-point \<open>T\<close>, values as their bytes; the absent value is a NaN, and \<open>isnan\<close>
  is the library's test.
\<close>

record float_decl =
  fd_width :: "12 word"
  fd_is_array :: bool
  fd_has_neutral :: bool
  fd_has_minimum :: bool
  fd_has_maximum :: bool
  fd_neutral :: "byte list"
  fd_minimum :: "byte list"
  fd_maximum :: "byte list"

definition float_decl_args ::
    "(byte list \<Rightarrow> bool) \<Rightarrow> byte list \<Rightarrow> nat \<Rightarrow> byte list option \<Rightarrow> byte list option \<Rightarrow> byte list option \<Rightarrow>
     nat option \<Rightarrow> bool option \<Rightarrow> float_decl" where
  "float_decl_args isnan quiet_nan sz neutral minimum maximum w arr =
     (let nv = arg_or neutral quiet_nan; mn = arg_or minimum quiet_nan; mx = arg_or maximum quiet_nan in
      \<lparr>fd_width = of_nat (arg_or w sz), fd_is_array = arg_or arr False,
       fd_has_neutral = (\<not> isnan nv), fd_has_minimum = (\<not> isnan mn), fd_has_maximum = (\<not> isnan mx),
       fd_neutral = nv, fd_minimum = mn, fd_maximum = mx\<rparr>)"

text \<open>The conversion copies \<open>neutral_value\<close> into the minimum (line 593 of the header).\<close>

definition float_decl_generic :: "float_decl \<Rightarrow> data_decl" where
  "float_decl_generic d = dd_new\<lparr>
     dd_type := data_type_code FLOAT, dd_width := ucast (fd_width d), dd_is_array := fd_is_array d,
     dd_is_signed := True, dd_has_neutral := fd_has_neutral d,
     dd_has_minimum := fd_has_minimum d, dd_has_maximum := fd_has_maximum d,
     dd_neutral := (if fd_has_neutral d then overlay 0 (fd_neutral d) (replicate 16 0) else replicate 16 0),
     dd_minimum := (if fd_has_minimum d then overlay 0 (fd_neutral d) (replicate 16 0) else replicate 16 0),
     dd_maximum := (if fd_has_maximum d then overlay 0 (fd_maximum d) (replicate 16 0) else replicate 16 0)\<rparr>"

text \<open>
  \<open>operator ==\<close> of a typed integer declaration with a generic one: each value comparison has the other
  declaration's value on both sides.
\<close>

definition int_decl_eq :: "int_decl \<Rightarrow> data_decl \<Rightarrow> bool" where
  "int_decl_eq d other \<longleftrightarrow>
     dd_type other = data_type_code INTEGER \<and> unat (dd_width other) = unat (id_width d) \<and>
     dd_is_signed other = it_signed (id_type d) \<and>
     dd_has_neutral other = id_has_neutral d \<and> (\<not> id_has_neutral d \<or> dd_neutral other = dd_neutral other) \<and>
     dd_has_minimum other = id_has_minimum d \<and> (\<not> id_has_minimum d \<or> dd_minimum other = dd_minimum other) \<and>
     dd_has_maximum other = id_has_maximum d \<and> (\<not> id_has_maximum d \<or> dd_maximum other = dd_maximum other)"

section \<open>The header round trip\<close>

lemma bit_flag_bit: "bit (flag_bit n p) i \<longleftrightarrow> p \<and> i = n \<and> n < 16"
  by (auto simp: flag_bit_def bit_exp_iff)

lemma bit_type_field: "bit (ucast (t :: 6 word) :: u16) i \<longleftrightarrow> bit t i"
  using bit_imp_le_length [of t i] by (auto simp: bit_ucast_iff)

lemma bit_width_field: "bit (push_bit 6 (ucast (w :: 5 word)) :: u16) i \<longleftrightarrow> 6 \<le> i \<and> bit w (i - 6)"
  using bit_imp_le_length [of w "i - 6"] by (auto simp: bit_push_bit_iff bit_ucast_iff)

lemma bit_dd_bits:
  "bit (dd_bits d) i \<longleftrightarrow>
     bit (dd_type d) i \<or> 6 \<le> i \<and> bit (dd_width d) (i - 6) \<or>
     i = 11 \<and> dd_is_array d \<or> i = 12 \<and> dd_is_signed d \<or>
     i = 13 \<and> dd_has_neutral d \<or> i = 14 \<and> dd_has_minimum d \<or> i = 15 \<and> dd_has_maximum d"
  unfolding dd_bits_def bit_or_iff bit_type_field bit_width_field bit_flag_bit by auto

lemma dd_bits_type: "ucast (dd_bits d) = dd_type d"
proof (rule bit_word_eqI)
  fix n assume n: "n < LENGTH(6)"
  then show "bit (ucast (dd_bits d) :: 6 word) n = bit (dd_type d) n"
    by (auto simp: bit_ucast_iff bit_dd_bits)
qed

lemma dd_bits_width: "ucast (drop_bit 6 (dd_bits d)) = dd_width d"
proof (rule bit_word_eqI)
  fix n assume n: "n < LENGTH(5)"
  have "\<not> bit (dd_type d) (6 + n)"
    using bit_imp_le_length [of "dd_type d" "6 + n"] by auto
  with n show "bit (ucast (drop_bit 6 (dd_bits d)) :: 5 word) n = bit (dd_width d) n"
    by (auto simp: bit_ucast_iff bit_drop_bit_eq bit_dd_bits)
qed

lemma dd_type_high: "6 \<le> i \<Longrightarrow> \<not> bit (dd_type d) i" and dd_width_high: "5 \<le> i \<Longrightarrow> \<not> bit (dd_width d) i"
  by (auto dest: bit_imp_le_length)

lemma dd_bits_flags:
  "bit (dd_bits d) 11 = dd_is_array d" "bit (dd_bits d) 12 = dd_is_signed d"
  "bit (dd_bits d) 13 = dd_has_neutral d" "bit (dd_bits d) 14 = dd_has_minimum d"
  "bit (dd_bits d) 15 = dd_has_maximum d"
  by (simp_all add: bit_dd_bits dd_type_high dd_width_high)

lemma of_nat_le_val_u16: "of_nat (le_val (le_bytes 2 (unat (w :: u16)))) = w"
proof -
  have "unat w < 256 ^ 2" using unsigned_less [of w, where ?'a = nat] by simp
  then show ?thesis by (simp add: le_val_le_bytes)
qed

lemma length_dd_header [simp, layout_simps]: "length (dd_header d) = dd_HeaderSize"
  by (simp add: dd_header_def dd_HeaderSize_def)

lemma dd_set_header_header:
  "dd_set_header (dd_header d) e = e\<lparr>dd_type := dd_type d, dd_width := dd_width d,
     dd_is_array := dd_is_array d, dd_is_signed := dd_is_signed d, dd_has_neutral := dd_has_neutral d,
     dd_has_minimum := dd_has_minimum d, dd_has_maximum := dd_has_maximum d,
     dd_array_size_width := dd_array_size_width d\<rparr>"
  by (simp add: dd_set_header_def dd_header_def Let_def of_nat_le_val_u16 dd_bits_type dd_bits_width
      dd_bits_flags nth_append)

section \<open>Encoding and decoding\<close>

text \<open>A declaration a program can build: the width fits the value arrays.\<close>

definition dd_wf :: "data_decl \<Rightarrow> bool" where
  "dd_wf d \<longleftrightarrow> unat (dd_width d) \<le> 16 \<and> length (dd_neutral d) = 16 \<and> length (dd_minimum d) = 16 \<and>
     length (dd_maximum d) = 16"

definition dd_part :: "data_decl \<Rightarrow> bool \<Rightarrow> byte list \<Rightarrow> byte list" where
  "dd_part d present fld = (if present then take (unat (dd_width d)) fld else [])"

definition dd_tail :: "data_decl \<Rightarrow> byte list" where
  "dd_tail d = dd_part d (dd_has_neutral d) (dd_neutral d) @
     (dd_part d (dd_has_minimum d) (dd_minimum d) @ dd_part d (dd_has_maximum d) (dd_maximum d))"

text \<open>What the receiver holds: the bytes sent, and zeros elsewhere.\<close>

definition dd_received :: "data_decl \<Rightarrow> data_decl" where
  "dd_received d = d\<lparr>
     dd_neutral := overlay 0 (dd_part d (dd_has_neutral d) (dd_neutral d)) (replicate 16 0),
     dd_minimum := overlay 0 (dd_part d (dd_has_minimum d) (dd_minimum d)) (replicate 16 0),
     dd_maximum := overlay 0 (dd_part d (dd_has_maximum d) (dd_maximum d)) (replicate 16 0)\<rparr>"

lemma dd_emit_field_writes:
  "length fld = 16 \<Longrightarrow> dd_wf d \<Longrightarrow> mem.writes (dd_emit_field eb_write d p fld) (dd_part d p fld)"
  by (auto simp: dd_emit_field_def dd_part_def dd_field_def dd_wf_def
      intro: mem.writes_intros simp del: retF_apply)

lemma dd_encode_tail_writes: "dd_wf d \<Longrightarrow> mem.writes (dd_encode_tail eb_write d) (dd_tail d)"
  unfolding dd_encode_tail_def dd_tail_def
  by (intro mem.writes_checked dd_emit_field_writes) (simp_all add: dd_wf_def)

lemma dd_encode_writes: "dd_wf d \<Longrightarrow> mem.writes (dd_encode eb_write d) (dd_header d @ dd_tail d)"
  unfolding dd_encode_def by (intro mem.writes_checked mem.writes_emit dd_encode_tail_writes)

lemma length_dd_part:
  "length fld = 16 \<Longrightarrow> dd_wf d \<Longrightarrow> length (dd_part d p fld) = unat (dd_width d) * of_bool p"
  by (simp add: dd_part_def dd_wf_def)

lemma length_dd_tail [simp]: "dd_wf d \<Longrightarrow> length (dd_tail d) = dd_tail_size d"
  by (simp add: dd_tail_def dd_tail_size_def length_dd_part dd_wf_def distrib_left)

lemma dd_read_field_consumes:
  assumes "length bs = unat (dd_width d)" and "length bs \<le> length fld"
  shows "consumes (dd_read_field upd fld d) bs (Decode_Success, upd (overlay 0 bs fld) d)"
  unfolding dd_read_field_def
  using assms consumes_read [of bs] by (intro consumes_bind_last) auto

lemma dd_read_optional_consumes:
  assumes "length fld = 16" and "length bs = 16" and "dd_wf d" and "dd_width e = dd_width d" and "upd fld e = e"
  shows "consumes (if p then dd_read_field upd fld e else retF (Decode_Success, e)) (dd_part d p bs)
    (Decode_Success, upd (overlay 0 (dd_part d p bs) fld) e)"
proof (cases p)
  case True
  then show ?thesis
    using assms by (auto simp: dd_part_def dd_wf_def intro!: dd_read_field_consumes simp del: retF_apply)
next
  case False
  moreover from this have "overlay 0 (dd_part d p bs) fld = fld" by (simp add: dd_part_def overlay_def)
  ultimately show ?thesis
    using assms(5) by (simp add: dd_part_def consumes_ret del: retF_apply)
qed

text \<open>After the header, the receiver's object is \<open>dd_blank d\<close>: the fields of the sender with empty values.\<close>

definition dd_blank :: "data_decl \<Rightarrow> data_decl" where
  "dd_blank d = d\<lparr>dd_neutral := replicate 16 0, dd_minimum := replicate 16 0, dd_maximum := replicate 16 0\<rparr>"

lemma dd_set_header_new: "dd_set_header (dd_header d) dd_new = dd_blank d"
  by (simp add: dd_set_header_header dd_blank_def dd_new_def)

lemma dd_blank_sel [simp]:
  "dd_type (dd_blank d) = dd_type d" "dd_width (dd_blank d) = dd_width d"
  "dd_has_neutral (dd_blank d) = dd_has_neutral d" "dd_has_minimum (dd_blank d) = dd_has_minimum d"
  "dd_has_maximum (dd_blank d) = dd_has_maximum d" "dd_neutral (dd_blank d) = replicate 16 0"
  "dd_minimum (dd_blank d) = replicate 16 0" "dd_maximum (dd_blank d) = replicate 16 0"
  "dd_tail_size (dd_blank d) = dd_tail_size d"
  by (simp_all add: dd_blank_def dd_tail_size_def)

lemma consumes_tail_guard:
  assumes "length bs = n" and "consumes m bs x"
  shows "consumes (\<lambda>b. if size_sub (length (db_data b)) (db_offset b) < n then e b else m b) bs x"
  unfolding consumes_def
proof (intro allI impI)
  fix b rest assume b: "db_ok b" "db_rest b = bs @ rest"
  then have "length (db_data b) - db_offset b = length bs + length rest"
    by (metis db_rest_def length_append length_drop)
  with b(1) assms(1) have "\<not> size_sub (length (db_data b)) (db_offset b) < n"
    by (simp add: db_ok_def)
  with b assms(2) show "(if size_sub (length (db_data b)) (db_offset b) < n then e b else m b)
      = Inr (x, db_advance (length bs) b)"
    by (simp add: consumesD)
qed

lemma dd_decode_tail_consumes:
  assumes "dd_wf d"
  shows "consumes (dd_decode_tail (dd_blank d)) (dd_tail d) (Decode_Success, dd_received d)"
  unfolding dd_decode_tail_def
proof (rule consumes_tail_guard)
  let ?n = "dd_part d (dd_has_neutral d) (dd_neutral d)"
  let ?m = "dd_part d (dd_has_minimum d) (dd_minimum d)"
  let ?x = "dd_part d (dd_has_maximum d) (dd_maximum d)"
  let ?e1 = "dd_blank d\<lparr>dd_neutral := overlay 0 ?n (replicate 16 0)\<rparr>"
  let ?e2 = "?e1\<lparr>dd_minimum := overlay 0 ?m (replicate 16 0)\<rparr>"
  have wf: "length (dd_neutral d) = 16" "length (dd_minimum d) = 16" "length (dd_maximum d) = 16"
    using assms by (simp_all add: dd_wf_def)
  have blank: "dd_blank d\<lparr>dd_neutral := replicate 16 0\<rparr> = dd_blank d"
      "?e1\<lparr>dd_minimum := replicate 16 0\<rparr> = ?e1" "?e2\<lparr>dd_maximum := replicate 16 0\<rparr> = ?e2"
    by (simp_all add: dd_blank_def)
  have n: "consumes (if dd_has_neutral d
      then dd_read_field (\<lambda>v. dd_neutral_update (\<lambda>_. v)) (replicate 16 0) (dd_blank d)
      else retF (Decode_Success, dd_blank d)) ?n (Decode_Success, ?e1)"
    using dd_read_optional_consumes [where upd = "\<lambda>v. dd_neutral_update (\<lambda>_. v)", OF _ wf(1) assms _ blank(1)]
    by simp
  have m: "consumes (if dd_has_minimum d
      then dd_read_field (\<lambda>v. dd_minimum_update (\<lambda>_. v)) (replicate 16 0) ?e1
      else retF (Decode_Success, ?e1)) ?m (Decode_Success, ?e2)"
    using dd_read_optional_consumes [where upd = "\<lambda>v. dd_minimum_update (\<lambda>_. v)", OF _ wf(2) assms _ blank(2)]
    by simp
  have received: "?e2\<lparr>dd_maximum := overlay 0 ?x (replicate 16 0)\<rparr> = dd_received d"
    by (simp add: dd_blank_def dd_received_def)
  have x: "consumes (if dd_has_maximum d
      then dd_read_field (\<lambda>v. dd_maximum_update (\<lambda>_. v)) (replicate 16 0) ?e2
      else retF (Decode_Success, ?e2)) ?x (Decode_Success, dd_received d)"
    unfolding received [symmetric]
    by (rule dd_read_optional_consumes [where upd = "\<lambda>v. dd_maximum_update (\<lambda>_. v)", OF _ wf(3) assms _ blank(3)])
      simp_all
  show "length (dd_tail d) = dd_tail_size (dd_blank d)" using assms by simp
  show "consumes (bindF (if dd_has_neutral (dd_blank d)
        then dd_read_field (\<lambda>v. dd_neutral_update (\<lambda>_. v)) (dd_neutral (dd_blank d)) (dd_blank d)
        else retF (Decode_Success, dd_blank d)) (\<lambda>r1.
      bindF (if fst r1 = Decode_Success \<and> dd_has_minimum (dd_blank d)
        then dd_read_field (\<lambda>v. dd_minimum_update (\<lambda>_. v)) (dd_minimum (dd_blank d)) (snd r1)
        else retF r1) (\<lambda>r2.
      if fst r2 = Decode_Success \<and> dd_has_maximum (dd_blank d)
      then dd_read_field (\<lambda>v. dd_maximum_update (\<lambda>_. v)) (dd_maximum (dd_blank d)) (snd r2)
      else retF r2))) (dd_tail d) (Decode_Success, dd_received d)"
    unfolding dd_tail_def dd_blank_sel
    by (rule consumes_bind [OF n], unfold fst_conv snd_conv simp_thms,
        rule consumes_bind [OF m], unfold fst_conv snd_conv simp_thms, rule x)
qed

lemma dd_detail_decode_consumes:
  "dd_wf d \<Longrightarrow> consumes dd_detail_decode (dd_header d @ dd_tail d) (Decode_Success, dd_received d)"
  unfolding dd_detail_decode_def
  by (rule consumes_bind [where x = "(Decode_Success, dd_header d)"])
    (simp_all add: consumes_read [of "dd_header d", simplified] dd_set_header_new dd_decode_tail_consumes)

lemma dd_decode_copy_consumes:
  "dd_wf d \<Longrightarrow> consumes dd_decode_copy (dd_header d @ dd_tail d) (dd_received d)"
  unfolding dd_decode_copy_def
  by (rule consumes_bind_last [OF dd_detail_decode_consumes]) simp_all

lemma length_dd_encoding: "dd_wf d \<Longrightarrow> length (dd_header d @ dd_tail d) = dd_encoded_size d"
  by (simp add: dd_encoded_size_def)

lemma take_overlay_part: "unat (dd_width d) \<le> length fld \<Longrightarrow>
    take (unat (dd_width d)) (overlay 0 (dd_part d True fld) mem) = take (unat (dd_width d)) fld"
  by (simp add: dd_part_def overlay_def)

lemma dd_received_eq: "dd_wf d \<Longrightarrow> dd_eq (dd_received d) d"
  by (simp add: dd_eq_def dd_received_def dd_wf_def take_overlay_part)

text \<open>The equality compares a key, so it is an equivalence.\<close>

definition dd_key :: "data_decl \<Rightarrow> 6 word \<times> 5 word \<times> bool \<times> byte list option \<times> byte list option \<times> byte list option" where
  "dd_key d =
     (let sent = (\<lambda>p v. if p then Some (take (unat (dd_width d)) v) else None) in
      (dd_type d, dd_width d, dd_is_signed d, sent (dd_has_neutral d) (dd_neutral d),
       sent (dd_has_minimum d) (dd_minimum d), sent (dd_has_maximum d) (dd_maximum d)))"

lemma if_Some_None_eq: "(if p then Some x else None) = (if q then Some y else None) \<longleftrightarrow> p = q \<and> (\<not> p \<or> x = y)"
  by simp

lemma dd_eq_key: "dd_eq a b \<longleftrightarrow> dd_key a = dd_key b"
  unfolding dd_eq_def dd_key_def Let_def prod.inject if_Some_None_eq by metis

lemma dd_eq_refl [simp]: "dd_eq d d" and dd_eq_sym: "dd_eq a b \<Longrightarrow> dd_eq b a"
  and dd_eq_trans: "dd_eq a b \<Longrightarrow> dd_eq b c \<Longrightarrow> dd_eq a c"
  by (simp_all add: dd_eq_key)

lemma dd_received_wf: "dd_wf d \<Longrightarrow> dd_wf (dd_received d)"
  by (simp add: dd_wf_def dd_received_def length_dd_part [unfolded dd_wf_def])

lemma dd_received_sel [simp]:
  "dd_width (dd_received d) = dd_width d" "dd_is_array (dd_received d) = dd_is_array d"
  "dd_type (dd_received d) = dd_type d" "dd_array_size_width (dd_received d) = dd_array_size_width d"
  "dd_tail_size (dd_received d) = dd_tail_size d" "dd_encoded_size (dd_received d) = dd_encoded_size d"
  by (simp_all add: dd_received_def dd_tail_size_def dd_encoded_size_def)

text \<open>A width above sixteen: the first present value is read past its array.\<close>

lemma dd_encode_tail_oversized:
  assumes "16 < unat (dd_width d)" and "length (dd_neutral d) = 16" and "length (dd_minimum d) = 16"
    and "length (dd_maximum d) = 16" and "dd_has_neutral d \<or> dd_has_minimum d \<or> dd_has_maximum d"
  shows "dd_encode_tail emit d s = Inl (Field_overflow (unat (dd_width d)))"
  using assms
  by (auto simp: dd_encode_tail_def checkedF_def dd_emit_field_def dd_field_def bindF_def)

lemma dd_read_field_oversized:
  assumes "db_ok b" and "length fld < unat (dd_width d)" and "unat (dd_width d) \<le> length (db_rest b)"
  shows "dd_read_field upd fld d b = Inl (Field_overflow (unat (dd_width d)))"
  using assms by (simp add: dd_read_field_def bindF_def db_read_success)

lemma dd_decode_tail_oversized:
  assumes "16 < unat (dd_width d)" and "dd_has_neutral d \<or> dd_has_minimum d \<or> dd_has_maximum d"
    and "db_ok b" and "dd_tail_size d \<le> length (db_rest b)"
  shows "dd_decode_tail (dd_blank d) b = Inl (Field_overflow (unat (dd_width d)))"
proof -
  have sz: "length (db_data b) - db_offset b = length (db_rest b)" by (simp add: db_rest_def)
  have "unat (dd_width d) * 1 \<le> dd_tail_size d"
    unfolding dd_tail_size_def using assms(2) by (intro mult_le_mono) auto
  with assms have "unat (dd_width d) \<le> length (db_rest b)" by simp
  with assms have o: "dd_read_field upd (replicate 16 0) (dd_blank d) b = Inl (Field_overflow (unat (dd_width d)))" for upd
    by (simp add: dd_read_field_oversized)
  from assms(3,4) sz have "\<not> size_sub (length (db_data b)) (db_offset b) < dd_tail_size d"
    by (simp add: db_ok_def)
  with assms(2) o show ?thesis
    by (auto simp: dd_decode_tail_def bindF_def)
qed

text \<open>On arbitrary bytes the tail decoder stays inside the buffer.\<close>

definition dd_arrays :: "data_decl \<Rightarrow> bool" where
  "dd_arrays d \<longleftrightarrow> length (dd_neutral d) = 16 \<and> length (dd_minimum d) = 16 \<and> length (dd_maximum d) = 16"

lemma dd_arrays_new [simp]: "dd_arrays dd_new" "dd_arrays d \<Longrightarrow> dd_arrays (dd_set_header bs d)"
  by (simp_all add: dd_arrays_def dd_new_def dd_set_header_def Let_def)

lemma dd_read_field_tame: "length fld = 16 \<Longrightarrow> tame (dd_read_field upd fld d) (\<lambda>_. True)"
  unfolding dd_read_field_def by (intro tame_bind [OF tame_read] tame_if tame_ret tame_overwide) simp_all

lemma dd_decode_tail_tame: "dd_arrays d \<Longrightarrow> tame (dd_decode_tail d) (\<lambda>_. True)"
  unfolding dd_decode_tail_def dd_arrays_def
  by (intro tame_guard tame_bind [where Q = "\<lambda>_. True"] tame_if tame_ret dd_read_field_tame) simp_all

section \<open>Properties\<close>

text \<open>
  A declaration whose width fits its value arrays survives the wire: encoding succeeds whenever
  the announced size fits, writes exactly \<open>get_encoded_size()\<close> bytes, and decoding there ends at the same
  offset with a declaration that \<open>operator ==\<close> accepts and that has the same array flag.
\<close>

theorem dd_roundtrip:
  assumes "dd_wf d" and "eb_ok b" and "eb_room b (dd_encoded_size d)"
  shows "\<exists>b' c d'. dd_encode eb_write d b = Inr (Encode_Success, b') \<and>
    eb_offset b' = eb_offset b + dd_encoded_size d \<and>
    dd_detail_decode (db_of (eb_data b') (eb_offset b)) = Inr ((Decode_Success, d'), c) \<and>
    db_offset c = eb_offset b' \<and> dd_eq d' d \<and> dd_is_array d' = dd_is_array d"
  using write_then_read [OF dd_encode_writes [OF assms(1)] dd_detail_decode_consumes [OF assms(1)] assms(2)]
    dd_received_eq [OF assms(1)] assms(3)
  unfolding length_dd_encoding [OF assms(1)] by fastforce

definition dd_example :: data_decl where
  "dd_example = dd_new\<lparr>dd_type := 2, dd_width := 2, dd_is_signed := True, dd_has_maximum := True,
     dd_maximum := overlay 0 [0x34, 0x12] (replicate 16 0)\<rparr>"

theorem dd_roundtrip_witness:
  "\<exists>b' c d'. dd_encode eb_write dd_example (eb_new 8) = Inr (Encode_Success, b') \<and>
    eb_offset b' = eb_offset (eb_new 8) + dd_encoded_size dd_example \<and>
    dd_detail_decode (db_of (eb_data b') (eb_offset (eb_new 8))) = Inr ((Decode_Success, d'), c) \<and>
    db_offset c = eb_offset b' \<and> dd_eq d' dd_example \<and> dd_is_array d' = dd_is_array dd_example"
  by (rule dd_roundtrip)
    (simp_all add: dd_example_def dd_new_def dd_wf_def dd_encoded_size_def dd_tail_size_def dd_HeaderSize_def)

text \<open>
  Nothing checks a received width against the sixteen bytes of the value arrays: a declaration
  whose width field (of five bits) exceeds sixteen and that carries some value makes the decoder write,
  and the encoder read, past an array.
\<close>

theorem dd_oversized_width_faults:
  assumes "16 < unat (dd_width d)" and "dd_has_neutral d \<or> dd_has_minimum d \<or> dd_has_maximum d"
    and "dd_tail_size d \<le> length bs"
  shows "dd_detail_decode (db_of (dd_header d @ bs) 0) = Inl (Field_overflow (unat (dd_width d))) \<and>
    dd_encode_tail eb_write (dd_blank d) b = Inl (Field_overflow (unat (dd_width d)))"
proof
  let ?b = "db_of (dd_header d @ bs) 0"
  have "db_read dd_HeaderSize ?b = Inr ((Decode_Success, dd_header d), db_advance dd_HeaderSize ?b)"
    using db_read_success [of ?b dd_HeaderSize] by simp
  then show "dd_detail_decode ?b = Inl (Field_overflow (unat (dd_width d)))"
    using assms
    by (simp add: dd_detail_decode_def bindF_def dd_set_header_new dd_decode_tail_oversized)
  show "dd_encode_tail eb_write (dd_blank d) b = Inl (Field_overflow (unat (dd_width d)))"
    using assms dd_encode_tail_oversized [of "dd_blank d" eb_write b] by simp
qed

theorem dd_oversized_width_faults_witness:
  "dd_detail_decode (db_of (dd_header (dd_new\<lparr>dd_width := 17, dd_has_neutral := True\<rparr>) @ replicate 20 7) 0)
      = Inl (Field_overflow 17) \<and>
    dd_encode_tail eb_write (dd_blank (dd_new\<lparr>dd_width := 17, dd_has_neutral := True\<rparr>)) (eb_new 32) = Inl (Field_overflow 17)"
  using dd_oversized_width_faults [of "dd_new\<lparr>dd_width := 17, dd_has_neutral := True\<rparr>" "replicate 20 7" "eb_new 32"]
  by (simp add: dd_tail_size_def dd_new_def)

text \<open>
  The typed integer constructor uses the largest value of the type to mean "not given": a bound
  is present exactly when it was given and differs from that value, so a declaration can not state the
  type's own maximum, and its conversion to the generic form carries the flag as it stands.
\<close>

theorem int_decl_sentinel:
  "(id_has_maximum (int_decl_args t nv mn mx w arr) \<longleftrightarrow> (\<exists>v. mx = Some v \<and> v \<noteq> int_max t)) \<and>
   dd_has_maximum (int_decl_generic (int_decl_args t nv mn (Some (int_max t)) w arr)) = False"
  by (auto simp: int_decl_args_def int_decl_generic_def arg_or_def Let_def split: option.splits)

text \<open>
  Converting a typed floating-point declaration to the generic form loses its minimum: the
  generic minimum holds the bytes of the neutral value.
\<close>

theorem float_minimum_is_neutral:
  assumes "fd_has_minimum d" and "fd_has_neutral d"
  shows "dd_minimum (float_decl_generic d) = dd_neutral (float_decl_generic d) \<and>
    float_decl_generic (d\<lparr>fd_minimum := m\<rparr>) = float_decl_generic d"
  using assms by (simp add: float_decl_generic_def)

theorem float_minimum_is_neutral_witness:
  "dd_minimum (float_decl_generic (float_decl_args (\<lambda>v. v = []) [] 4 (Some [0, 0, 0, 0]) (Some [0, 0, 128, 191])
      (Some [0, 0, 128, 63]) None None)) =
    dd_neutral (float_decl_generic (float_decl_args (\<lambda>v. v = []) [] 4 (Some [0, 0, 0, 0]) (Some [0, 0, 128, 191])
      (Some [0, 0, 128, 63]) None None)) \<and>
    float_decl_generic ((float_decl_args (\<lambda>v. v = []) [] 4 (Some [0, 0, 0, 0]) (Some [0, 0, 128, 191])
      (Some [0, 0, 128, 63]) None None)\<lparr>fd_minimum := [1, 2, 3, 4]\<rparr>) =
    float_decl_generic (float_decl_args (\<lambda>v. v = []) [] 4 (Some [0, 0, 0, 0]) (Some [0, 0, 128, 191])
      (Some [0, 0, 128, 63]) None None)"
  by (rule float_minimum_is_neutral) (simp_all add: float_decl_args_def arg_or_def Let_def)


end
