(* ===== verification/SArray.thy ===== *)
theory SArray
  imports Prelude
begin

text \<open>
  The growable array of \<^verbatim>\<open>include/crisp/util/SArray.hh\<close>. An array is a pointer to \<open>capacity\<close> slots (or null), of
  which the first \<open>size\<close> hold constructed elements; a slot without a constructed element is \<open>None\<close>. The
  operations are modelled slot by slot, and shown to implement a plain list: the locale \<open>growable\<close>
  states that contract for the containers that hold their elements in such arrays.

  \<open>malloc\<close> and \<open>realloc\<close> are taken to succeed, and element counts to stay below the range of \<open>size_t\<close>.
\<close>

section \<open>The code\<close>

record 'a sarray =
  sa_data :: "'a option list option"
  sa_size :: nat
  sa_capacity :: nat

text \<open>The default constructor, and the constructor that allocates zeroed space for \<open>s\<close> elements.\<close>

definition sa_new :: "'a sarray" where
  "sa_new = \<lparr>sa_data = None, sa_size = 0, sa_capacity = 0\<rparr>"

definition sa_alloc :: "nat \<Rightarrow> 'a sarray" where
  "sa_alloc s = \<lparr>sa_data = (if s > 0 then Some (replicate s None) else None), sa_size = 0, sa_capacity = s\<rparr>"

text \<open>
  \<open>ensure_capacity\<close>: an empty array gets exactly the requested room, a non-empty one twice the missing
  room; \<open>realloc\<close> keeps the old slots and \<open>memset\<close> clears the new ones.
\<close>

definition sa_grow :: "nat \<Rightarrow> nat \<Rightarrow> nat" where
  "sa_grow cap reqd =
     (if cap < reqd then (if cap > 0 then cap + 2 * (reqd - cap) else reqd) else cap)"

definition sa_ensure_capacity :: "nat \<Rightarrow> 'a sarray \<Rightarrow> 'a sarray" where
  "sa_ensure_capacity reqd a =
     (if sa_capacity a < reqd
      then let old = sa_capacity a; cap = sa_grow old reqd;
               slots = (case sa_data a of None \<Rightarrow> replicate old None | Some xs \<Rightarrow> xs)
           in a\<lparr>sa_data := Some (slots @ replicate (cap - old) None), sa_capacity := cap\<rparr>
      else a)"

text \<open>\<open>push\<close> and \<open>emplace\<close>: construct an element in the slot after the last one.\<close>

definition sa_push :: "'a \<Rightarrow> 'a sarray \<Rightarrow> fault + 'a sarray" where
  "sa_push v a =
     (let a' = sa_ensure_capacity (sa_size a + 1) a in
      case sa_data a' of
        None \<Rightarrow> Inl Null_deref
      | Some xs \<Rightarrow>
          if sa_size a' < length xs
          then Inr (a'\<lparr>sa_data := Some (xs[sa_size a' := Some v]), sa_size := sa_size a' + 1\<rparr>)
          else Inl Out_of_bounds)"

text \<open>\<open>clear\<close> destroys the elements and keeps the memory; on a null pointer it does nothing.\<close>

definition sa_clear :: "'a sarray \<Rightarrow> 'a sarray" where
  "sa_clear a =
     (case sa_data a of
        None \<Rightarrow> a
      | Some xs \<Rightarrow> a\<lparr>sa_data := Some (replicate (sa_size a) None @ drop (sa_size a) xs), sa_size := 0\<rparr>)"

text \<open>\<open>operator []\<close>, \<open>back\<close>, an update through a returned reference, and the range-based \<open>for\<close>.\<close>

definition sa_get :: "nat \<Rightarrow> 'a sarray \<Rightarrow> fault + 'a" where
  "sa_get n a =
     (case sa_data a of
        None \<Rightarrow> Inl Null_deref
      | Some xs \<Rightarrow>
          if n < length xs then (case xs ! n of None \<Rightarrow> Inl Out_of_bounds | Some x \<Rightarrow> Inr x)
          else Inl Out_of_bounds)"

definition sa_back :: "'a sarray \<Rightarrow> fault + 'a" where
  "sa_back a = (if sa_size a = 0 then Inl Out_of_bounds else sa_get (sa_size a - 1) a)"

definition sa_modify :: "nat \<Rightarrow> ('a \<Rightarrow> 'a) \<Rightarrow> 'a sarray \<Rightarrow> fault + 'a sarray" where
  "sa_modify n f a =
     bindE (sa_get n a) (\<lambda>x. Inr (a\<lparr>sa_data := map_option (\<lambda>xs. xs[n := Some (f x)]) (sa_data a)\<rparr>))"

definition sa_elems :: "'a sarray \<Rightarrow> fault + 'a list" where
  "sa_elems a =
     (if sa_size a = 0 then Inr []
      else case sa_data a of
             None \<Rightarrow> Inl Null_deref
           | Some xs \<Rightarrow>
               if sa_size a \<le> length xs \<and> None \<notin> set (take (sa_size a) xs)
               then Inr (map the (take (sa_size a) xs))
               else Inl Out_of_bounds)"

text \<open>Copy construction, construction from an initializer list, copy assignment.\<close>

definition sa_of_list :: "'a list \<Rightarrow> fault + 'a sarray" where
  "sa_of_list xs = foldE sa_push xs (sa_alloc (length xs))"

definition sa_copy :: "'a sarray \<Rightarrow> fault + 'a sarray" where
  "sa_copy s = bindE (sa_elems s) (\<lambda>xs. foldE sa_push xs (sa_alloc (sa_size s)))"

definition sa_assign :: "'a sarray \<Rightarrow> 'a sarray \<Rightarrow> fault + 'a sarray" where
  "sa_assign a s =
     bindE (sa_elems s) (\<lambda>xs. foldE sa_push xs (sa_ensure_capacity (sa_capacity s) (sa_clear a)))"

text \<open>
  Move construction and move assignment: the target takes the three fields, and only the \<^emph>\<open>pointer\<close> of the
  source is cleared. The result is the pair of the target and the moved-from source.
\<close>

definition sa_move :: "'a sarray \<Rightarrow> 'a sarray \<times> 'a sarray" where
  "sa_move s = (s, s\<lparr>sa_data := None\<rparr>)"

definition sa_move_assign :: "'a sarray \<Rightarrow> 'a sarray \<times> 'a sarray" where
  "sa_move_assign s = (s, s\<lparr>sa_data := None\<rparr>)"

section \<open>The abstract list\<close>

definition sa_list :: "'a sarray \<Rightarrow> 'a list" where
  "sa_list a = (case sa_data a of None \<Rightarrow> [] | Some xs \<Rightarrow> map the (take (sa_size a) xs))"

text \<open>The array that holds \<open>xs\<close> in \<open>cap\<close> slots; the invariant says that an array is one of these.\<close>

definition sa_mk :: "'a list \<Rightarrow> nat \<Rightarrow> 'a sarray" where
  "sa_mk xs cap =
     \<lparr>sa_data = (if cap = 0 then None else Some (map Some xs @ replicate (cap - length xs) None)),
      sa_size = length xs, sa_capacity = cap\<rparr>"

definition sa_inv :: "'a sarray \<Rightarrow> bool" where
  "sa_inv a \<longleftrightarrow> sa_size a \<le> sa_capacity a \<and> a = sa_mk (sa_list a) (sa_capacity a)"

lemma sa_size_mk [simp]: "sa_size (sa_mk xs cap) = length xs"
  and sa_capacity_mk [simp]: "sa_capacity (sa_mk xs cap) = cap"
  by (simp_all add: sa_mk_def)

lemma sa_list_mk [simp]: "length xs \<le> cap \<Longrightarrow> sa_list (sa_mk xs cap) = xs"
  by (auto simp: sa_mk_def sa_list_def comp_def)

lemma sa_inv_mk [simp]: "length xs \<le> cap \<Longrightarrow> sa_inv (sa_mk xs cap)"
  by (simp add: sa_inv_def)

lemma sa_invE:
  assumes "sa_inv a"
  obtains xs cap where "a = sa_mk xs cap" and "length xs \<le> cap" and "sa_list a = xs" and "sa_capacity a = cap"
proof
  show "a = sa_mk (sa_list a) (sa_capacity a)" using assms by (simp add: sa_inv_def)
  then have "sa_size a = length (sa_list a)" by (metis sa_size_mk)
  with assms show "length (sa_list a) \<le> sa_capacity a" by (simp add: sa_inv_def)
qed simp_all

lemma sa_size_list [simp]: "sa_inv a \<Longrightarrow> length (sa_list a) = sa_size a"
  by (erule sa_invE) simp

section \<open>Operations on well-formed arrays\<close>

lemma sa_new_mk: "sa_new = sa_mk [] 0"
  by (simp add: sa_new_def sa_mk_def)

lemma sa_alloc_mk: "sa_alloc n = sa_mk [] n"
  by (simp add: sa_alloc_def sa_mk_def)

lemma sa_grow_ge [simp]: "n \<le> sa_grow c n"
  by (auto simp: sa_grow_def)

lemma sa_grow_le_self [simp]: "c \<le> sa_grow c n"
  by (simp add: sa_grow_def)

lemma sa_ensure_capacity_mk [simp]:
  "length xs \<le> cap \<Longrightarrow> sa_ensure_capacity n (sa_mk xs cap) = sa_mk xs (sa_grow cap n)"
  by (auto simp: sa_ensure_capacity_def sa_mk_def Let_def sa_grow_def replicate_add [symmetric])

lemma sa_push_mk [simp]:
  "length xs \<le> cap \<Longrightarrow> sa_push v (sa_mk xs cap) = Inr (sa_mk (xs @ [v]) (sa_grow cap (length xs + 1)))"
proof -
  assume "length xs \<le> cap"
  let ?cap = "sa_grow cap (length xs + 1)"
  have room: "length xs < ?cap" using sa_grow_ge [of "length xs + 1" cap] by linarith
  then obtain k where k: "?cap - length xs = Suc k" by (metis Suc_diff_Suc)
  then have "?cap - Suc (length xs) = k" by simp
  with room k \<open>length xs \<le> cap\<close> show ?thesis
    by (simp add: sa_push_def Let_def) (simp add: sa_mk_def list_update_append)
qed

lemma sa_clear_mk [simp]: "length xs \<le> cap \<Longrightarrow> sa_clear (sa_mk xs cap) = sa_mk [] cap"
  by (auto simp: sa_clear_def sa_mk_def replicate_add [symmetric])

lemma sa_get_mk [simp]: "n < length xs \<Longrightarrow> length xs \<le> cap \<Longrightarrow> sa_get n (sa_mk xs cap) = Inr (xs ! n)"
  by (simp add: sa_get_def sa_mk_def nth_append)

lemma sa_back_mk [simp]: "xs \<noteq> [] \<Longrightarrow> length xs \<le> cap \<Longrightarrow> sa_back (sa_mk xs cap) = Inr (last xs)"
  by (simp add: sa_back_def last_conv_nth)

lemma sa_modify_mk [simp]:
  "n < length xs \<Longrightarrow> length xs \<le> cap \<Longrightarrow> sa_modify n f (sa_mk xs cap) = Inr (sa_mk (xs[n := f (xs ! n)]) cap)"
  by (simp add: sa_modify_def) (auto simp: sa_mk_def list_update_append map_update)

lemma sa_elems_mk [simp]: "length xs \<le> cap \<Longrightarrow> sa_elems (sa_mk xs cap) = Inr xs"
  by (auto simp: sa_elems_def sa_mk_def comp_def)

text \<open>Reading an element that is not there faults; a moved-from array that had elements faults on every read.\<close>

lemma sa_get_out_of_range: "sa_inv a \<Longrightarrow> sa_size a \<le> n \<Longrightarrow> \<exists>e. sa_get n a = Inl e"
  by (erule sa_invE) (auto simp: sa_get_def sa_mk_def nth_append nth_replicate split: if_splits)

lemma sa_moved_from_faults: "0 < sa_size a \<Longrightarrow> sa_elems (snd (sa_move a)) = Inl Null_deref"
  by (simp add: sa_move_def sa_elems_def)

lemma sa_clear_inv: "sa_inv a \<Longrightarrow> sa_clear a = sa_mk [] (sa_capacity a)"
  by (erule sa_invE) simp

lemma sa_mk_list: "sa_inv a \<Longrightarrow> sa_mk (sa_list a) (sa_capacity a) = a"
  by (simp add: sa_inv_def)

lemma sa_list_empty: "sa_inv a \<Longrightarrow> sa_size a = 0 \<Longrightarrow> sa_list a = []"
  by (metis length_0_conv sa_size_list)

lemma sa_grow_fits [simp]: "length xs \<le> n \<Longrightarrow> length xs \<le> sa_grow c n"
  using sa_grow_ge [of n c] by linarith

section \<open>The contract of a growable sequence\<close>

text \<open>What the containers rely on: pushing appends, iterating reads all elements, clearing empties.\<close>

locale growable =
  fixes push :: "'a \<Rightarrow> 's \<Rightarrow> fault + 's"
    and elems :: "'s \<Rightarrow> fault + 'a list"
    and clear :: "'s \<Rightarrow> 's"
    and reserve :: "nat \<Rightarrow> 's \<Rightarrow> 's"
    and absl :: "'s \<Rightarrow> 'a list"
    and inv :: "'s \<Rightarrow> bool"
  assumes push_law: "inv s \<Longrightarrow> \<exists>s'. push x s = Inr s' \<and> inv s' \<and> absl s' = absl s @ [x]"
    and elems_law: "inv s \<Longrightarrow> elems s = Inr (absl s)"
    and clear_law: "inv s \<Longrightarrow> inv (clear s) \<and> absl (clear s) = []"
    and reserve_law: "inv s \<Longrightarrow> inv (reserve n s) \<and> absl (reserve n s) = absl s"
begin

lemma push_all: "inv s \<Longrightarrow> \<exists>s'. foldE push xs s = Inr s' \<and> inv s' \<and> absl s' = absl s @ xs"
proof (induction xs arbitrary: s)
  case Nil
  then show ?case by simp
next
  case (Cons x xs)
  obtain s1 where s1: "push x s = Inr s1" "inv s1" "absl s1 = absl s @ [x]"
    using push_law [OF Cons.prems] by blast
  obtain s2 where "foldE push xs s1 = Inr s2" "inv s2" "absl s2 = absl s1 @ xs"
    using Cons.IH [OF s1(2)] by blast
  with s1 show ?case by simp
qed

lemma refill: "inv s \<Longrightarrow> \<exists>s'. foldE push xs (reserve n (clear s)) = Inr s' \<and> inv s' \<and> absl s' = xs"
  using push_all [of "reserve n (clear s)" xs] clear_law reserve_law by (metis append_Nil)

end

interpretation sa: growable sa_push sa_elems sa_clear sa_ensure_capacity sa_list sa_inv
proof
  fix s :: "'a sarray" and x :: 'a and n
  assume inv: "sa_inv s"
  then show "\<exists>s'. sa_push x s = Inr s' \<and> sa_inv s' \<and> sa_list s' = sa_list s @ [x]"
  proof (rule sa_invE)
    fix xs cap assume "s = sa_mk xs cap" "length xs \<le> cap" "sa_list s = xs"
    moreover have "length (xs @ [x]) \<le> sa_grow cap (length xs + 1)"
      using sa_grow_ge [of "length xs + 1" cap] by simp
    ultimately show ?thesis by simp
  qed
  from inv show "sa_elems s = Inr (sa_list s)" by (auto elim: sa_invE)
  from inv show "sa_inv (sa_clear s) \<and> sa_list (sa_clear s) = []" by (auto elim: sa_invE)
  from inv show "sa_inv (sa_ensure_capacity n s) \<and> sa_list (sa_ensure_capacity n s) = sa_list s"
  proof (rule sa_invE)
    fix xs cap assume "s = sa_mk xs cap" "length xs \<le> cap"
    moreover have "length xs \<le> sa_grow cap n"
      using \<open>length xs \<le> cap\<close> sa_grow_le_self [of cap n] by linarith
    ultimately show ?thesis by simp
  qed
qed

lemma sa_of_list_law: "\<exists>a. sa_of_list xs = Inr a \<and> sa_inv a \<and> sa_list a = xs"
  using sa.push_all [of "sa_alloc (length xs)" xs] by (simp add: sa_of_list_def sa_alloc_mk)

text \<open>Pushing into reserved room never reallocates: the array ends in exactly the slots it started with.\<close>

lemma sa_fill_mk:
  "length xs + length ys \<le> cap \<Longrightarrow> foldE sa_push ys (sa_mk xs cap) = Inr (sa_mk (xs @ ys) cap)"
proof (induction ys arbitrary: xs)
  case (Cons y ys)
  then have "sa_grow cap (length xs + 1) = cap" by (simp add: sa_grow_def)
  with Cons.prems Cons.IH [of "xs @ [y]"] show ?case by simp
qed simp

section \<open>Properties\<close>

text \<open>
  Claim C23. \<open>push\<close> on a well-formed array never faults: it appends the element to the list the array
  holds, keeps the array well-formed, and reallocates only when the array is full, to exactly one slot for
  an array without memory and to two further slots otherwise.
\<close>

theorem sa_push_refines_append:
  assumes "sa_inv a"
  shows "\<exists>a'. sa_push v a = Inr a' \<and> sa_inv a' \<and> sa_list a' = sa_list a @ [v] \<and>
    sa_capacity a' = (if sa_size a < sa_capacity a then sa_capacity a
                      else if sa_capacity a = 0 then 1 else sa_capacity a + 2)"
  using assms
proof (rule sa_invE)
  fix xs cap assume a: "a = sa_mk xs cap" "length xs \<le> cap" "sa_list a = xs"
  moreover have "length (xs @ [v]) \<le> sa_grow cap (length xs + 1)"
    using sa_grow_ge [of "length xs + 1" cap] by simp
  moreover have "sa_grow cap (length xs + 1) = (if length xs < cap then cap else if cap = 0 then 1 else cap + 2)"
    using a(2) by (auto simp: sa_grow_def)
  ultimately show ?thesis by simp
qed

theorem sa_push_refines_append_witness:
  "\<exists>a'. sa_push (7::nat) (sa_mk [1, 2] 2) = Inr a' \<and> sa_inv a' \<and>
    sa_list a' = sa_list (sa_mk [1, 2] 2) @ [7] \<and>
    sa_capacity a' = (if sa_size (sa_mk [1::nat, 2] 2) < sa_capacity (sa_mk [1::nat, 2] 2)
                      then sa_capacity (sa_mk [1::nat, 2] 2)
                      else if sa_capacity (sa_mk [1::nat, 2] 2) = 0 then 1 else sa_capacity (sa_mk [1::nat, 2] 2) + 2)"
  by (rule sa_push_refines_append) simp

text \<open>
  Copying is deep and complete: the copy constructor and the copy assignment of a well-formed
  array give a well-formed array with the same elements, whatever the assigned array held before.
\<close>

theorem sa_copy_and_assign:
  assumes "sa_inv s" and "sa_inv a"
  shows "(\<exists>c. sa_copy s = Inr c \<and> sa_inv c \<and> sa_list c = sa_list s) \<and>
    (\<exists>c. sa_assign a s = Inr c \<and> sa_inv c \<and> sa_list c = sa_list s)"
  using sa.push_all [of "sa_alloc (sa_size s)" "sa_list s"] sa.refill [of a "sa_list s" "sa_capacity s"] assms
  by (simp add: sa_copy_def sa_assign_def sa.elems_law sa_alloc_mk)

theorem sa_copy_and_assign_witness:
  "(\<exists>c. sa_copy (sa_mk [1::nat, 2, 3] 5) = Inr c \<and> sa_inv c \<and> sa_list c = sa_list (sa_mk [1, 2, 3] 5)) \<and>
    (\<exists>c. sa_assign (sa_mk [9] 1) (sa_mk [1::nat, 2, 3] 5) = Inr c \<and> sa_inv c \<and> sa_list c = sa_list (sa_mk [1, 2, 3] 5))"
  by (rule sa_copy_and_assign) simp_all

end
