(* ===== verification/Codec.thy ===== *)
theory Codec
  imports CommsBuffer SArray
begin

text \<open>
  The contract between a container and the encodable elements it holds, and the loops by which a container
  encodes and decodes them. The interface is a locale: an element type offers an encoder, a decoder and a
  size, and promises that the decoder reads exactly what the encoder wrote. The sequence laws are proved
  once here, for the inputs and sensors of a module and the modules of a configuration.
\<close>

section \<open>The loops\<close>

text \<open>\<open>for ( i < n ) array.push(T::decode_copy(buf));\<close>\<close>

fun fillF :: "nat \<Rightarrow> (decode_buffer, 'a) sfm \<Rightarrow> 'a sarray \<Rightarrow> (decode_buffer, 'a sarray) sfm" where
  "fillF 0 dec a = retF a"
| "fillF (Suc n) dec a =
     bindF dec (\<lambda>x. bindF (liftF (sa_push x a)) (\<lambda>a'. fillF n dec a'))"

text \<open>On arbitrary bytes the loop fills the array with as many elements as it was asked for.\<close>

lemma fillF_tame:
  assumes "tame dec P"
  shows "sa_inv a \<Longrightarrow> list_all P (sa_list a) \<Longrightarrow>
    tame (fillF n dec a) (\<lambda>a'. sa_inv a' \<and> sa_size a' = sa_size a + n \<and> list_all P (sa_list a'))"
proof (induction n arbitrary: a)
  case 0
  then show ?case by (simp add: tame_ret del: retF_apply)
next
  case (Suc n)
  show ?case
    unfolding fillF.simps
  proof (intro tame_bind [OF assms] tame_bind [where Q = "\<lambda>a'. sa_inv a' \<and> sa_size a' = sa_size a + 1 \<and> list_all P (sa_list a')"])
    fix x assume "P x"
    with sa.push_law [OF Suc.prems(1), of x] Suc.prems
    show "tame (liftF (sa_push x a)) (\<lambda>a'. sa_inv a' \<and> sa_size a' = sa_size a + 1 \<and> list_all P (sa_list a'))"
      by (intro tame_lift) (force simp flip: sa_size_list)
  next
    fix x a' assume "P x" and a': "sa_inv a' \<and> sa_size a' = sa_size a + 1 \<and> list_all P (sa_list a')"
    then show "tame (fillF n dec a') (\<lambda>a'. sa_inv a' \<and> sa_size a' = sa_size a + Suc n \<and> list_all P (sa_list a'))"
      using Suc.IH [of a'] by (simp add: add.commute)
  qed
qed

text \<open>\<open>for ( x : array ) if ( (r = x.encode(buf)) != SUCCESS ) return r;\<close>\<close>

fun encode_each :: "('a \<Rightarrow> (encode_buffer, encode_result) sfm) \<Rightarrow> 'a list \<Rightarrow> (encode_buffer, encode_result) sfm" where
  "encode_each enc [] = retF Encode_Success"
| "encode_each enc (x # xs) = checkedF (enc x) (encode_each enc xs)"

text \<open>
  The same loop with the assertion \<open>offset_post - offset_pre == x.get_encoded_size()\<close> after each element.
\<close>

definition asserted_encode ::
    "('a \<Rightarrow> (encode_buffer, encode_result) sfm) \<Rightarrow> ('a \<Rightarrow> nat) \<Rightarrow> 'a \<Rightarrow> (encode_buffer, encode_result) sfm" where
  "asserted_encode enc size_of x = (\<lambda>b.
     checkedF (enc x)
       (\<lambda>b'. bindF (assertF (size_sub (eb_offset b') (eb_offset b) = size_of x)) (\<lambda>_. retF Encode_Success) b') b)"

section \<open>The interface\<close>

locale element_codec =
  fixes encode :: "'a \<Rightarrow> (encode_buffer, encode_result) sfm"
    and decode :: "(decode_buffer, 'a) sfm"
    and size_of :: "'a \<Rightarrow> nat"
    and encoding :: "'a \<Rightarrow> byte list"
    and decoded :: "'a \<Rightarrow> 'a"
    and wf :: "'a \<Rightarrow> bool"
  assumes encode_law: "wf x \<Longrightarrow> mem.writes (encode x) (encoding x)"
    and decode_law: "wf x \<Longrightarrow> consumes decode (encoding x) (decoded x)"
    and size_law: "wf x \<Longrightarrow> size_of x = length (encoding x)"
begin

definition encodings :: "'a list \<Rightarrow> byte list" where
  "encodings xs = concat (map encoding xs)"

lemma encodings_simps [simp]: "encodings [] = []" "encodings (x # xs) = encoding x @ encodings xs"
  by (simp_all add: encodings_def)

lemma asserted_law: "wf x \<Longrightarrow> mem.writes (asserted_encode encode size_of x) (encoding x)"
  unfolding mem.writes_def
proof (intro allI impI)
  fix b assume "wf x" "eb_ok b" "eb_room b (length (encoding x))"
  then show "asserted_encode encode size_of x b = Inr (Encode_Success, eb_put (encoding x) b)"
    by (simp add: asserted_encode_def checkedF_def bindF_Inr [OF mem.writesD [OF encode_law]] size_law)
qed

lemma each_law: "list_all wf xs \<Longrightarrow> mem.writes (encode_each encode xs) (encodings xs)"
  by (induction xs) (auto intro: mem.writes_intros encode_law)

lemma each_asserted_law:
  "list_all wf xs \<Longrightarrow> mem.writes (encode_each (asserted_encode encode size_of) xs) (encodings xs)"
  by (induction xs) (auto intro: mem.writes_intros asserted_law)

lemma sizes_law: "list_all wf xs \<Longrightarrow> sum_list (map size_of xs) = length (encodings xs)"
  by (induction xs) (simp_all add: size_law)

lemma fill_law:
  "list_all wf xs \<Longrightarrow> length ys + length xs \<le> cap \<Longrightarrow>
   consumes (fillF (length xs) decode (sa_mk ys cap)) (encodings xs) (sa_mk (ys @ map decoded xs) cap)"
proof (induction xs arbitrary: ys)
  case Nil
  then show ?case by (simp add: consumes_ret del: retF_apply)
next
  case (Cons x xs)
  then have "sa_grow cap (length ys + 1) = cap" by (simp add: sa_grow_def)
  moreover have "consumes (fillF (length xs) decode (sa_mk (ys @ [decoded x]) cap)) (encodings xs)
      (sa_mk ((ys @ [decoded x]) @ map decoded xs) cap)"
    using Cons.prems by (intro Cons.IH) simp_all
  ultimately show ?case
    using Cons.prems by (auto intro!: consumes_bind [where x = "decoded x"] decode_law)
qed

end

end
