(* ===== verification/NamedTyped.thy ===== *)
theory NamedTyped
  imports DataDeclaration Codec
begin

text \<open>
  Module inputs and sensors: \<^verbatim>\<open>include/crisp/comms/ModuleInput.hh\<close>, \<^verbatim>\<open>Sensor.hh\<close>, their \<^verbatim>\<open>.cc\<close> files, and the
  encoding functions both take from the macros of \<^verbatim>\<open>decl-defn-macros.hh\<close>. The macros are modelled once, over
  a record of the class members they use, and instantiated for the two classes.

  A name is the memory its pointer leads to (\<open>None\<close> is the null pointer): a literal with its NUL, or a
  block from \<open>new char[n]\<close>, whose initial contents are a parameter \<open>junk\<close> of the model.
\<close>

section \<open>Memory behind a name\<close>

definition mem_read :: "nat \<Rightarrow> byte list option \<Rightarrow> fault + byte list" where
  "mem_read n p =
     (case p of
        None \<Rightarrow> (if n = 0 then Inr [] else Inl Null_deref)
      | Some mem \<Rightarrow> (if n \<le> length mem then Inr (take n mem) else Inl Out_of_bounds))"

definition mem_equal :: "nat \<Rightarrow> byte list option \<Rightarrow> byte list option \<Rightarrow> fault + bool" where
  "mem_equal n p q = bindE (mem_read n p) (\<lambda>xs. bindE (mem_read n q) (\<lambda>ys. Inr (xs = ys)))"

definition new_chars :: "(nat \<Rightarrow> byte) \<Rightarrow> nat \<Rightarrow> byte list" where
  "new_chars junk n = map junk [0..<n]"

text \<open>\<open>strncpy\<close> from a block reads up to its NUL or \<open>n\<close> bytes, whichever comes first.\<close>

definition strncpy_from :: "nat \<Rightarrow> byte list \<Rightarrow> fault + byte list" where
  "strncpy_from n src = (if n \<le> length src \<or> 0 \<in> set src then Inr (c_strncpy n src) else Inl Out_of_bounds)"

definition name_strlen :: "byte list option \<Rightarrow> fault + nat" where
  "name_strlen p = (case p of None \<Rightarrow> Inr 0 | Some mem \<Rightarrow> c_strlen mem)"

lemma length_new_chars [simp]: "length (new_chars junk n) = n"
  by (simp add: new_chars_def)

section \<open>The macros\<close>

record 'x named_class =
  nc_HeaderSize :: nat
  nc_default :: 'x
  nc_header :: "'x \<Rightarrow> byte list"
  nc_set_header :: "byte list \<Rightarrow> 'x \<Rightarrow> 'x"
  nc_name_length :: "'x \<Rightarrow> byte"
  nc_get_name_length :: "'x \<Rightarrow> nat"
  nc_data_type :: "'x \<Rightarrow> data_decl"
  nc_set_data_type :: "data_decl \<Rightarrow> 'x \<Rightarrow> 'x"
  nc_name :: "'x \<Rightarrow> byte list option"
  nc_own_name :: "byte list \<Rightarrow> 'x \<Rightarrow> 'x"

definition nt_tail_size :: "'x named_class \<Rightarrow> 'x \<Rightarrow> nat" where
  "nt_tail_size cls x = nc_get_name_length cls x + dd_tail_size (nc_data_type cls x)"

definition nt_encoded_size :: "'x named_class \<Rightarrow> 'x \<Rightarrow> nat" where
  "nt_encoded_size cls x = nc_HeaderSize cls + nt_tail_size cls x"

text \<open>The results of the three writes are dropped.\<close>

definition nt_encode :: "'x named_class \<Rightarrow> 'x \<Rightarrow> (encode_buffer, encode_result) sfm" where
  "nt_encode cls x = (\<lambda>b.
     if size_sub (length (eb_data b)) (eb_offset b) < nt_encoded_size cls x then Inr (Insufficient_Space, b)
     else
       uncheckedF (eb_write (nc_header cls x))
         (uncheckedF (dd_encode_tail eb_write (nc_data_type cls x))
           (uncheckedF
             (if nc_name_length cls x \<noteq> 0 \<and> nc_name cls x \<noteq> None
              then bindF (liftF (mem_read (unat (nc_name_length cls x)) (nc_name cls x))) eb_write
              else retF Encode_Success)
             (retF Encode_Success))) b)"

text \<open>
  A fresh object is overwritten with what could be read; with a name length, a block of one more byte is
  allocated, read into and terminated. No result of a read is looked at.
\<close>

definition nt_read_name ::
    "'x named_class \<Rightarrow> (nat \<Rightarrow> byte) \<Rightarrow> 'x \<Rightarrow> (decode_buffer, 'x) sfm" where
  "nt_read_name cls junk x =
     (if nc_name_length cls x \<noteq> 0
      then let n = unat (nc_name_length cls x); mem = new_chars junk (n + 1)
           in bindF (db_read n) (\<lambda>r. retF (nc_own_name cls ((stored r (overlay 0) mem)[n := 0]) x))
      else retF x)"

definition nt_decode_copy :: "'x named_class \<Rightarrow> (nat \<Rightarrow> byte) \<Rightarrow> (decode_buffer, 'x) sfm" where
  "nt_decode_copy cls junk =
     bindF (db_read (nc_HeaderSize cls)) (\<lambda>r.
       let out = stored r (nc_set_header cls) (nc_default cls) in
       bindF (dd_decode_tail (nc_data_type cls out)) (\<lambda>t.
         nt_read_name cls junk (nc_set_data_type cls (snd t) out)))"

section \<open>ModuleInput\<close>

record module_input =
  mi_input_id :: byte
  mi_name_length :: byte
  mi_data_type :: data_decl
  mi_name :: "byte list option"
  mi_owns_name :: bool

definition mi_HeaderSize :: nat where
  "mi_HeaderSize = 2 + dd_HeaderSize"

definition mi_new :: module_input where
  "mi_new = \<lparr>mi_input_id = 0, mi_name_length = 0, mi_data_type = dd_new, mi_name = None, mi_owns_name = False\<rparr>"

text \<open>The constructors from a name: \<open>strlen\<close> truncated to eight bits; with or without taking ownership.\<close>

definition mi_make :: "byte list option \<Rightarrow> byte \<Rightarrow> data_decl \<Rightarrow> bool \<Rightarrow> fault + module_input" where
  "mi_make name iid d owned =
     bindE (name_strlen name) (\<lambda>n.
       Inr \<lparr>mi_input_id = iid, mi_name_length = of_nat n, mi_data_type = d, mi_name = name, mi_owns_name = owned\<rparr>)"

text \<open>The conversion of a typed input; its identifier has five bits and its name is never null.\<close>

definition mi_of_typed :: "byte list \<Rightarrow> 5 word \<Rightarrow> data_decl \<Rightarrow> fault + module_input" where
  "mi_of_typed name iid d = mi_make (Some name) (ucast iid) d False"

definition mi_copy :: "module_input \<Rightarrow> fault + module_input" where
  "mi_copy x =
     (if mi_owns_name x
      then case mi_name x of
             None \<Rightarrow> Inr x
           | Some mem \<Rightarrow>
               bindE (strncpy_from (unat (mi_name_length x)) mem) (\<lambda>cp. Inr (x\<lparr>mi_name := Some cp\<rparr>))
      else Inr x)"

text \<open>Moves give the target and the moved-from source.\<close>

definition mi_move :: "module_input \<Rightarrow> module_input \<times> module_input" where
  "mi_move x = (x, x\<lparr>mi_name := None\<rparr>)"

definition mi_move_assign :: "module_input \<Rightarrow> module_input \<Rightarrow> module_input \<times> module_input" where
  "mi_move_assign x m =
     (x\<lparr>mi_input_id := mi_input_id m, mi_name_length := mi_name_length m,
        mi_data_type := dd_assign (mi_data_type x) (mi_data_type m), mi_name := mi_name m,
        mi_owns_name := mi_owns_name m\<rparr>,
      m\<lparr>mi_name := None, mi_owns_name := False\<rparr>)"

definition mi_reset :: "module_input \<Rightarrow> module_input" where
  "mi_reset x = x\<lparr>mi_name := None, mi_owns_name := False\<rparr>"

definition mi_get_name_length :: "module_input \<Rightarrow> nat" where
  "mi_get_name_length x = unat (mi_name_length x)"

definition mi_eq :: "module_input \<Rightarrow> module_input \<Rightarrow> fault + bool" where
  "mi_eq x y =
     (if mi_input_id x = mi_input_id y \<and> mi_get_name_length x = mi_get_name_length y \<and>
         dd_eq (mi_data_type x) (mi_data_type y)
      then if mi_get_name_length x = 0 then Inr True
           else mem_equal (mi_get_name_length x) (mi_name x) (mi_name y)
      else Inr False)"

definition mi_header :: "module_input \<Rightarrow> byte list" where
  "mi_header x = [mi_input_id x, mi_name_length x] @ dd_header (mi_data_type x)"

definition mi_set_header :: "byte list \<Rightarrow> module_input \<Rightarrow> module_input" where
  "mi_set_header bs x = x\<lparr>mi_input_id := bs ! 0, mi_name_length := bs ! 1,
     mi_data_type := dd_set_header (drop 2 bs) (mi_data_type x)\<rparr>"

definition mi_class :: "module_input named_class" where
  "mi_class = \<lparr>nc_HeaderSize = mi_HeaderSize, nc_default = mi_new, nc_header = mi_header,
     nc_set_header = mi_set_header, nc_name_length = mi_name_length,
     nc_get_name_length = mi_get_name_length, nc_data_type = mi_data_type,
     nc_set_data_type = (\<lambda>d. mi_data_type_update (\<lambda>_. d)), nc_name = mi_name,
     nc_own_name = (\<lambda>mem x. x\<lparr>mi_name := Some mem, mi_owns_name := True\<rparr>)\<rparr>"

definition mi_encoded_size :: "module_input \<Rightarrow> nat" where
  "mi_encoded_size = nt_encoded_size mi_class"

definition mi_encode :: "module_input \<Rightarrow> (encode_buffer, encode_result) sfm" where
  "mi_encode = nt_encode mi_class"

definition mi_decode_copy :: "(nat \<Rightarrow> byte) \<Rightarrow> (decode_buffer, module_input) sfm" where
  "mi_decode_copy = nt_decode_copy mi_class"

definition mi_decode :: "(nat \<Rightarrow> byte) \<Rightarrow> module_input \<Rightarrow> (decode_buffer, decode_result \<times> module_input) sfm" where
  "mi_decode junk x =
     bindF (mi_decode_copy junk) (\<lambda>y. retF (Decode_Success, fst (mi_move_assign (mi_reset x) y)))"

section \<open>Sensor\<close>

text \<open>\<open>id\<close>, \<open>type\<close> and \<open>reporting_mode\<close> share the first sixteen bits, from the lowest up.\<close>

record sensor =
  sn_id :: "10 word"
  sn_type :: "5 word"
  sn_reporting_mode :: "1 word"
  sn_name_length :: byte
  sn_data_type :: data_decl
  sn_name :: "byte list option"
  sn_owns_name :: bool

definition sn_HeaderSize :: nat where
  "sn_HeaderSize = 3 + dd_HeaderSize"

definition sn_new :: sensor where
  "sn_new = \<lparr>sn_id = 0, sn_type = 0, sn_reporting_mode = 0, sn_name_length = 0, sn_data_type = dd_new,
     sn_name = None, sn_owns_name = False\<rparr>"

definition sn_make :: "u16 \<Rightarrow> 5 word \<Rightarrow> 1 word \<Rightarrow> byte \<Rightarrow> data_decl \<Rightarrow> byte list option \<Rightarrow> sensor" where
  "sn_make sid ty rmode n d name =
     \<lparr>sn_id = ucast sid, sn_type = ty, sn_reporting_mode = rmode, sn_name_length = n, sn_data_type = d,
      sn_name = name, sn_owns_name = False\<rparr>"

definition sn_of_typed :: "byte list \<Rightarrow> 10 word \<Rightarrow> 5 word \<Rightarrow> 1 word \<Rightarrow> data_decl \<Rightarrow> fault + sensor" where
  "sn_of_typed name sid ty rmode d =
     bindE (c_strlen name) (\<lambda>n. Inr (sn_make (ucast sid) ty rmode (of_nat n) d (Some name)))"

definition sn_copy :: "sensor \<Rightarrow> fault + sensor" where
  "sn_copy x =
     (if sn_owns_name x
      then case sn_name x of
             None \<Rightarrow> Inr x
           | Some mem \<Rightarrow>
               bindE (strncpy_from (unat (sn_name_length x)) mem) (\<lambda>cp. Inr (x\<lparr>sn_name := Some cp\<rparr>))
      else Inr x)"

text \<open>A moved-from sensor keeps its pointer and gives up ownership.\<close>

definition sn_move :: "sensor \<Rightarrow> sensor \<times> sensor" where
  "sn_move x = (x, x\<lparr>sn_owns_name := False\<rparr>)"

definition sn_move_assign :: "sensor \<Rightarrow> sensor \<Rightarrow> sensor \<times> sensor" where
  "sn_move_assign x s =
     (x\<lparr>sn_id := sn_id s, sn_type := sn_type s, sn_reporting_mode := sn_reporting_mode s,
        sn_name_length := sn_name_length s, sn_data_type := dd_assign (sn_data_type x) (sn_data_type s),
        sn_name := sn_name s, sn_owns_name := sn_owns_name s\<rparr>,
      s\<lparr>sn_owns_name := False\<rparr>)"

definition sn_reset :: "sensor \<Rightarrow> sensor" where
  "sn_reset x = x\<lparr>sn_name := None, sn_owns_name := False\<rparr>"

definition sn_get_name_length :: "sensor \<Rightarrow> nat" where
  "sn_get_name_length x = (if sn_name x = None then 0 else unat (sn_name_length x))"

definition sn_eq :: "sensor \<Rightarrow> sensor \<Rightarrow> fault + bool" where
  "sn_eq x y =
     (if sn_id x = sn_id y \<and> sn_type x = sn_type y \<and> sn_reporting_mode x = sn_reporting_mode y \<and>
         sn_name_length x = sn_name_length y \<and> dd_eq (sn_data_type x) (sn_data_type y)
      then if sn_name_length x = 0 then Inr True
           else mem_equal (unat (sn_name_length x)) (sn_name x) (sn_name y)
      else Inr False)"

definition sn_bits :: "sensor \<Rightarrow> u16" where
  "sn_bits x = ucast (sn_id x) OR push_bit 10 (ucast (sn_type x)) OR push_bit 15 (ucast (sn_reporting_mode x))"

definition sn_header :: "sensor \<Rightarrow> byte list" where
  "sn_header x = le_bytes 2 (unat (sn_bits x)) @ [sn_name_length x] @ dd_header (sn_data_type x)"

definition sn_set_header :: "byte list \<Rightarrow> sensor \<Rightarrow> sensor" where
  "sn_set_header bs x =
     (let w = of_nat (le_val (take 2 bs)) :: u16 in
      x\<lparr>sn_id := ucast w, sn_type := ucast (drop_bit 10 w), sn_reporting_mode := ucast (drop_bit 15 w),
        sn_name_length := bs ! 2, sn_data_type := dd_set_header (drop 3 bs) (sn_data_type x)\<rparr>)"

definition sn_class :: "sensor named_class" where
  "sn_class = \<lparr>nc_HeaderSize = sn_HeaderSize, nc_default = sn_new, nc_header = sn_header,
     nc_set_header = sn_set_header, nc_name_length = sn_name_length,
     nc_get_name_length = sn_get_name_length, nc_data_type = sn_data_type,
     nc_set_data_type = (\<lambda>d. sn_data_type_update (\<lambda>_. d)), nc_name = sn_name,
     nc_own_name = (\<lambda>mem x. x\<lparr>sn_name := Some mem, sn_owns_name := True\<rparr>)\<rparr>"

definition sn_encoded_size :: "sensor \<Rightarrow> nat" where
  "sn_encoded_size = nt_encoded_size sn_class"

definition sn_encode :: "sensor \<Rightarrow> (encode_buffer, encode_result) sfm" where
  "sn_encode = nt_encode sn_class"

definition sn_decode_copy :: "(nat \<Rightarrow> byte) \<Rightarrow> (decode_buffer, sensor) sfm" where
  "sn_decode_copy = nt_decode_copy sn_class"

definition sn_decode :: "(nat \<Rightarrow> byte) \<Rightarrow> sensor \<Rightarrow> (decode_buffer, decode_result \<times> sensor) sfm" where
  "sn_decode junk x =
     bindF (sn_decode_copy junk) (\<lambda>y. retF (Decode_Success, fst (sn_move_assign (sn_reset x) y)))"

section \<open>The interface of a named, typed class\<close>

text \<open>
  What the macros need of the class they are expanded in: the header is the start of the object, reading it
  back restores the name length and the data type's own header, and the length functions agree.
\<close>

locale named_typed =
  fixes cls :: "'x named_class"
  assumes header_length: "length (nc_header cls x) = nc_HeaderSize cls"
    and header_name_length: "nc_name_length cls (nc_set_header cls (nc_header cls x) (nc_default cls)) = nc_name_length cls x"
    and header_data_type: "nc_data_type cls (nc_set_header cls (nc_header cls x) (nc_default cls)) = dd_blank (nc_data_type cls x)"
    and default_arrays: "dd_arrays (nc_data_type cls (nc_default cls))"
    and header_arrays: "dd_arrays (nc_data_type cls (nc_set_header cls bs (nc_default cls)))"
    and data_type_name_length: "nc_name_length cls (nc_set_data_type cls d x) = nc_name_length cls x"
    and get_name_length: "nc_name cls x \<noteq> None \<or> nc_name_length cls x = 0 \<Longrightarrow> nc_get_name_length cls x = unat (nc_name_length cls x)"
    and own_name: "nc_name cls (nc_own_name cls mem x) = Some mem"
    and own_name_length: "nc_name_length cls (nc_own_name cls mem x) = nc_name_length cls x"
begin

definition wf :: "'x \<Rightarrow> bool" where
  "wf x \<longleftrightarrow> dd_wf (nc_data_type cls x) \<and>
     (nc_name_length cls x \<noteq> 0 \<longrightarrow>
       (case nc_name cls x of None \<Rightarrow> False | Some mem \<Rightarrow> unat (nc_name_length cls x) \<le> length mem))"

definition name_bytes :: "'x \<Rightarrow> byte list" where
  "name_bytes x = (case nc_name cls x of None \<Rightarrow> [] | Some mem \<Rightarrow> take (unat (nc_name_length cls x)) mem)"

definition encoding :: "'x \<Rightarrow> byte list" where
  "encoding x = nc_header cls x @ dd_tail (nc_data_type cls x) @ name_bytes x"

definition received :: "'x \<Rightarrow> 'x" where
  "received x =
     (let y = nc_set_data_type cls (dd_received (nc_data_type cls x))
                (nc_set_header cls (nc_header cls x) (nc_default cls))
      in if nc_name_length cls x \<noteq> 0 then nc_own_name cls (name_bytes x @ [0]) y else y)"

lemma length_name_bytes: "wf x \<Longrightarrow> length (name_bytes x) = unat (nc_name_length cls x)"
  by (cases "nc_name_length cls x = 0") (auto simp: wf_def name_bytes_def split: option.splits)

lemma name_bytes_empty: "nc_name_length cls x = 0 \<Longrightarrow> name_bytes x = []"
  by (simp add: name_bytes_def split: option.splits)

lemma name_bytes_read:
  "wf x \<Longrightarrow> nc_name_length cls x \<noteq> 0 \<Longrightarrow>
   nc_name cls x \<noteq> None \<and> mem_read (unat (nc_name_length cls x)) (nc_name cls x) = Inr (name_bytes x)"
  by (auto simp: wf_def name_bytes_def mem_read_def split: option.splits)

lemma size_law: "wf x \<Longrightarrow> nt_encoded_size cls x = length (encoding x)"
proof -
  assume x: "wf x"
  then have "nc_get_name_length cls x = unat (nc_name_length cls x)"
    by (intro get_name_length) (auto simp: wf_def split: option.splits)
  moreover have "dd_wf (nc_data_type cls x)" using x by (simp add: wf_def)
  ultimately show ?thesis
    by (simp add: nt_encoded_size_def nt_tail_size_def encoding_def header_length length_name_bytes [OF x])
qed

lemma encode_law: "wf x \<Longrightarrow> mem.writes (nt_encode cls x) (encoding x)"
  unfolding mem.writes_def
proof (intro allI impI)
  fix b assume x: "wf x" and b: "eb_ok b" "eb_room b (length (encoding x))"
  then have room: "\<not> size_sub (length (eb_data b)) (eb_offset b) < nt_encoded_size cls x"
    by (simp add: size_law eb_ok_def eb_room_def)
  have "mem.writes (if nc_name_length cls x \<noteq> 0 \<and> nc_name cls x \<noteq> None
      then bindF (liftF (mem_read (unat (nc_name_length cls x)) (nc_name cls x))) eb_write
      else retF Encode_Success) (name_bytes x)"
  proof (cases "nc_name_length cls x = 0")
    case True
    then show ?thesis by (simp add: name_bytes_empty mem.writes_ret del: retF_apply)
  next
    case False
    then show ?thesis using name_bytes_read [OF x False] by (simp add: mem.writes_emit del: retF_apply)
  qed
  moreover have "dd_wf (nc_data_type cls x)" using x by (simp add: wf_def)
  ultimately have "mem.writes (uncheckedF (eb_write (nc_header cls x))
      (uncheckedF (dd_encode_tail eb_write (nc_data_type cls x))
        (uncheckedF (if nc_name_length cls x \<noteq> 0 \<and> nc_name cls x \<noteq> None
          then bindF (liftF (mem_read (unat (nc_name_length cls x)) (nc_name cls x))) eb_write
          else retF Encode_Success) (retF Encode_Success))))
      (nc_header cls x @ dd_tail (nc_data_type cls x) @ name_bytes x @ [])"
    by (intro mem.writes_intros dd_encode_tail_writes)
  with b room show "nt_encode cls x b = Inr (Encode_Success, eb_put (encoding x) b)"
    by (simp add: nt_encode_def encoding_def mem.writesD)
qed

lemma read_name_law:
  assumes "wf x" and "nc_name_length cls y = nc_name_length cls x"
  shows "consumes (nt_read_name cls junk y) (name_bytes x)
    (if nc_name_length cls x \<noteq> 0 then nc_own_name cls (name_bytes x @ [0]) y else y)"
proof (cases "nc_name_length cls x = 0")
  case True
  with assms show ?thesis
    by (simp add: nt_read_name_def name_bytes_empty consumes_ret del: retF_apply)
next
  case False
  let ?n = "unat (nc_name_length cls x)"
  have len: "length (name_bytes x) = ?n" using assms(1) by (rule length_name_bytes)
  have "length (drop ?n (new_chars junk (?n + 1))) = Suc 0" by simp
  then obtain c where "drop ?n (new_chars junk (?n + 1)) = [c]" by (auto simp only: length_Suc_conv length_0_conv)
  then have mem: "(overlay 0 (name_bytes x) (new_chars junk (?n + 1)))[?n := 0] = name_bytes x @ [0]"
    using len by (simp add: overlay_def list_update_append)
  have "consumes (db_read ?n) (name_bytes x) (Decode_Success, name_bytes x)"
    using consumes_read [of "name_bytes x"] len by simp
  then have "consumes (bindF (db_read ?n) (\<lambda>r. retF (nc_own_name cls
      ((stored r (overlay 0) (new_chars junk (?n + 1)))[?n := 0]) y))) (name_bytes x)
      (nc_own_name cls (name_bytes x @ [0]) y)"
    by (rule consumes_bind_last) (simp only: stored_simps mem)
  with False assms(2) show ?thesis by (simp add: nt_read_name_def Let_def)
qed

lemma decode_law: "wf x \<Longrightarrow> consumes (nt_decode_copy cls junk) (encoding x) (received x)"
proof -
  assume x: "wf x"
  then have d: "dd_wf (nc_data_type cls x)" by (simp add: wf_def)
  let ?y = "nc_set_header cls (nc_header cls x) (nc_default cls)"
  have n: "nc_name_length cls (nc_set_data_type cls (dd_received (nc_data_type cls x)) ?y) = nc_name_length cls x"
    by (simp only: data_type_name_length header_name_length)
  have "consumes (bindF (dd_decode_tail (nc_data_type cls ?y)) (\<lambda>t. nt_read_name cls junk (nc_set_data_type cls (snd t) ?y)))
      (dd_tail (nc_data_type cls x) @ name_bytes x) (received x)"
    unfolding header_data_type
    using read_name_law [OF x n, of junk]
    by (intro consumes_bind [OF dd_decode_tail_consumes [OF d]]) (simp add: received_def Let_def)
  then show ?thesis
    unfolding nt_decode_copy_def encoding_def Let_def
    by (intro consumes_bind [where x = "(Decode_Success, nc_header cls x)"])
      (simp_all add: consumes_read [of "nc_header cls x", unfolded header_length])
qed

text \<open>Whatever the bytes, a decoded object's name has at least its stated length.\<close>

definition name_ok :: "'x \<Rightarrow> bool" where
  "name_ok x \<longleftrightarrow> nc_name_length cls x \<noteq> 0 \<longrightarrow>
     (case nc_name cls x of None \<Rightarrow> False | Some mem \<Rightarrow> unat (nc_name_length cls x) \<le> length mem)"

lemma read_name_tame: "tame (nt_read_name cls junk x) name_ok"
  unfolding nt_read_name_def Let_def
  by (intro tame_if tame_bind [OF tame_read] tame_ret)
    (auto simp: name_ok_def own_name own_name_length stored_def)

lemma decode_copy_tame: "tame (nt_decode_copy cls junk) name_ok"
  unfolding nt_decode_copy_def Let_def
  by (intro tame_bind [OF tame_read] tame_bind [OF dd_decode_tail_tame] read_name_tame)
    (simp add: stored_def default_arrays header_arrays)

text \<open>Without room for the announced size nothing is written.\<close>

lemma encode_insufficient:
  "wf x \<Longrightarrow> eb_ok b \<Longrightarrow> \<not> eb_room b (nt_encoded_size cls x) \<Longrightarrow> nt_encode cls x b = Inr (Insufficient_Space, b)"
  unfolding nt_encode_def eb_ok_def eb_room_def by (subst if_P) auto

end

text \<open>A class that meets this interface is an element that containers can hold.\<close>

sublocale named_typed \<subseteq> codec: element_codec "nt_encode cls" "nt_decode_copy cls junk" "nt_encoded_size cls"
    encoding received wf for junk
  by unfold_locales (rule encode_law decode_law size_law; assumption)+

section \<open>The two classes\<close>

lemma mi_class_sel [simp]:
  "nc_HeaderSize mi_class = mi_HeaderSize" "nc_default mi_class = mi_new" "nc_header mi_class = mi_header"
  "nc_set_header mi_class = mi_set_header" "nc_name_length mi_class = mi_name_length"
  "nc_get_name_length mi_class = mi_get_name_length" "nc_data_type mi_class = mi_data_type"
  "nc_set_data_type mi_class d = mi_data_type_update (\<lambda>_. d)" "nc_name mi_class = mi_name"
  "nc_own_name mi_class mem x = x\<lparr>mi_name := Some mem, mi_owns_name := True\<rparr>"
  by (simp_all add: mi_class_def)

lemma sn_class_sel [simp]:
  "nc_HeaderSize sn_class = sn_HeaderSize" "nc_default sn_class = sn_new" "nc_header sn_class = sn_header"
  "nc_set_header sn_class = sn_set_header" "nc_name_length sn_class = sn_name_length"
  "nc_get_name_length sn_class = sn_get_name_length" "nc_data_type sn_class = sn_data_type"
  "nc_set_data_type sn_class d = sn_data_type_update (\<lambda>_. d)" "nc_name sn_class = sn_name"
  "nc_own_name sn_class mem x = x\<lparr>sn_name := Some mem, sn_owns_name := True\<rparr>"
  by (simp_all add: sn_class_def)

interpretation mi: named_typed mi_class
  by unfold_locales
    (auto simp: mi_header_def mi_HeaderSize_def mi_set_header_def mi_new_def dd_set_header_new
      mi_get_name_length_def)

text \<open>The sensor's shared sixteen bits.\<close>

lemma bit_sn_bits:
  "bit (sn_bits x) i \<longleftrightarrow>
     bit (sn_id x) i \<or> 10 \<le> i \<and> bit (sn_type x) (i - 10) \<or> 15 \<le> i \<and> bit (sn_reporting_mode x) (i - 15)"
  using bit_imp_le_length [of "sn_id x" i] bit_imp_le_length [of "sn_type x" "i - 10"]
    bit_imp_le_length [of "sn_reporting_mode x" "i - 15"]
  unfolding sn_bits_def bit_or_iff bit_push_bit_iff bit_ucast_iff by auto

lemma sn_id_high: "10 \<le> i \<Longrightarrow> \<not> bit (sn_id x) i" and sn_type_high: "5 \<le> i \<Longrightarrow> \<not> bit (sn_type x) i"
  by (auto dest: bit_imp_le_length)

lemma sn_bits_id: "ucast (sn_bits x) = sn_id x"
  by (rule bit_word_eqI) (auto simp: bit_ucast_iff bit_sn_bits)

lemma sn_bits_type: "ucast (drop_bit 10 (sn_bits x)) = sn_type x"
  by (rule bit_word_eqI) (auto simp: bit_ucast_iff bit_drop_bit_eq bit_sn_bits sn_id_high)

lemma sn_bits_mode: "ucast (drop_bit 15 (sn_bits x)) = sn_reporting_mode x"
  by (rule bit_word_eqI) (auto simp: bit_ucast_iff bit_drop_bit_eq bit_sn_bits sn_id_high sn_type_high)

lemma sn_set_header_header:
  "sn_set_header (sn_header x) y = y\<lparr>sn_id := sn_id x, sn_type := sn_type x,
     sn_reporting_mode := sn_reporting_mode x, sn_name_length := sn_name_length x,
     sn_data_type := dd_set_header (dd_header (sn_data_type x)) (sn_data_type y)\<rparr>"
  by (simp add: sn_set_header_def sn_header_def Let_def of_nat_le_val_u16 sn_bits_id sn_bits_type sn_bits_mode
      nth_append)

lemma length_sn_header [simp, layout_simps]: "length (sn_header x) = sn_HeaderSize"
  by (simp add: sn_header_def sn_HeaderSize_def)

lemma sn_header_arrays: "dd_arrays (sn_data_type (sn_set_header bs sn_new))"
  by (simp add: sn_set_header_def sn_new_def Let_def)

interpretation sn: named_typed sn_class
  by unfold_locales
    (use sn_header_arrays in \<open>auto simp: sn_set_header_header sn_new_def dd_set_header_new sn_get_name_length_def\<close>)

lemma mem_equal_take: "n \<le> length xs \<Longrightarrow> n \<le> length ys \<Longrightarrow> mem_equal n (Some xs) (Some ys) = Inr (take n xs = take n ys)"
  by (simp add: mem_equal_def mem_read_def)

lemma mi_received:
  "mi.received x = \<lparr>mi_input_id = mi_input_id x, mi_name_length = mi_name_length x,
     mi_data_type = dd_received (mi_data_type x),
     mi_name = (if mi_name_length x \<noteq> 0 then Some (mi.name_bytes x @ [0]) else None),
     mi_owns_name = (mi_name_length x \<noteq> 0)\<rparr>"
  by (simp add: mi.received_def Let_def mi_set_header_def mi_header_def mi_new_def)

lemma sn_received:
  "sn.received x = \<lparr>sn_id = sn_id x, sn_type = sn_type x, sn_reporting_mode = sn_reporting_mode x,
     sn_name_length = sn_name_length x, sn_data_type = dd_received (sn_data_type x),
     sn_name = (if sn_name_length x \<noteq> 0 then Some (sn.name_bytes x @ [0]) else None),
     sn_owns_name = (sn_name_length x \<noteq> 0)\<rparr>"
  by (simp add: sn.received_def Let_def sn_set_header_header sn_new_def)

text \<open>Well-formedness written out for the two classes.\<close>

definition name_wf :: "byte \<Rightarrow> byte list option \<Rightarrow> bool" where
  "name_wf n p \<longleftrightarrow> n \<noteq> 0 \<longrightarrow> (case p of None \<Rightarrow> False | Some mem \<Rightarrow> unat n \<le> length mem)"

definition mi_wf :: "module_input \<Rightarrow> bool" where
  "mi_wf x \<longleftrightarrow> dd_wf (mi_data_type x) \<and> name_wf (mi_name_length x) (mi_name x)"

definition sn_wf :: "sensor \<Rightarrow> bool" where
  "sn_wf x \<longleftrightarrow> dd_wf (sn_data_type x) \<and> name_wf (sn_name_length x) (sn_name x)"

lemma mi_decode_copy_tame: "tame (mi_decode_copy junk) (\<lambda>x. name_wf (mi_name_length x) (mi_name x))"
  unfolding mi_decode_copy_def
  by (rule tame_mono [OF mi.decode_copy_tame]) (simp add: mi.name_ok_def name_wf_def cong: option.case_cong)

lemma sn_decode_copy_tame: "tame (sn_decode_copy junk) (\<lambda>x. name_wf (sn_name_length x) (sn_name x))"
  unfolding sn_decode_copy_def
  by (rule tame_mono [OF sn.decode_copy_tame]) (simp add: sn.name_ok_def name_wf_def cong: option.case_cong)

lemma mi_wf_codec: "mi.wf = mi_wf" and sn_wf_codec: "sn.wf = sn_wf"
  by (simp_all add: fun_eq_iff mi.wf_def mi_wf_def sn.wf_def sn_wf_def name_wf_def cong: option.case_cong)

text \<open>A name that was received compares equal to the one that was sent.\<close>

lemma received_name_equal:
  assumes "name_wf n p" and "n \<noteq> 0"
  shows "mem_equal (unat n) (Some ((case p of None \<Rightarrow> [] | Some mem \<Rightarrow> take (unat n) mem) @ [0])) p = Inr True"
  using assms by (auto simp: name_wf_def mem_equal_take split: option.splits)

lemma mi_received_eq: "mi_wf x \<Longrightarrow> mi_eq (mi.received x) x = Inr True"
  using received_name_equal [of "mi_name_length x" "mi_name x"]
  by (simp add: mi_received mi_eq_def mi_get_name_length_def mi_wf_def dd_received_eq mi.name_bytes_def unat_eq_0 cong: option.case_cong)

lemma sn_received_eq: "sn_wf x \<Longrightarrow> sn_eq (sn.received x) x = Inr True"
  using received_name_equal [of "sn_name_length x" "sn_name x"]
  by (simp add: sn_received sn_eq_def sn_wf_def dd_received_eq sn.name_bytes_def cong: option.case_cong)

lemma mi_received_wf: "mi_wf x \<Longrightarrow> mi_wf (mi.received x)"
  using mi.length_name_bytes [of x] unfolding mi_wf_codec
  by (auto simp: mi_received mi_wf_def dd_received_wf name_wf_def)

lemma sn_received_wf: "sn_wf x \<Longrightarrow> sn_wf (sn.received x)"
  using sn.length_name_bytes [of x] unfolding sn_wf_codec
  by (auto simp: sn_received sn_wf_def dd_received_wf name_wf_def)

text \<open>The constructors establish it for a terminated name of at most 255 characters.\<close>

lemma c_strlen_le: "c_strlen mem = Inr n \<Longrightarrow> n < length mem"
proof -
  assume "c_strlen mem = Inr n"
  then have "0 \<in> set mem" and n: "n = length (takeWhile (\<lambda>c. c \<noteq> 0) mem)"
    by (auto simp: c_strlen_def split: if_splits)
  then have "takeWhile (\<lambda>c. c \<noteq> 0) mem \<noteq> mem" by (metis (mono_tags, lifting) takeWhile_eq_all_conv)
  then have "length (takeWhile (\<lambda>c. c \<noteq> 0) mem) \<noteq> length mem"
    by (metis append_eq_conv_conj takeWhile_dropWhile_id take_all_iff order_refl)
  with n show "n < length mem" by (simp add: length_takeWhile_le less_le)
qed

lemma mi_make_wf:
  assumes "mi_make name iid d owned = Inr x" and "dd_wf d"
  shows "mi_wf x"
proof -
  obtain n where n: "name_strlen name = Inr n" and x: "x = \<lparr>mi_input_id = iid, mi_name_length = of_nat n,
      mi_data_type = d, mi_name = name, mi_owns_name = owned\<rparr>"
    using assms(1) by (auto simp: mi_make_def bindE_Inr_iff)
  have "unat (of_nat n :: byte) \<le> n" by (simp add: unat_of_nat)
  with n x assms(2) c_strlen_le [of _ n] show ?thesis
    by (fastforce simp: mi_wf_def name_wf_def name_strlen_def split: option.splits)
qed

section \<open>Properties\<close>

text \<open>
  A module input survives the wire: whatever a constructor makes from a terminated name and a
  declaration with a legal width is encoded whenever its announced size fits, to exactly that many bytes,
  and decoding there gives an input that \<open>operator ==\<close> accepts, owns its terminated copy of the name and
  leaves the buffer just past the encoding.
\<close>

theorem module_input_roundtrip:
  assumes "mi_make name iid d owned = Inr x" and "dd_wf d" and "eb_ok b" and "eb_room b (mi_encoded_size x)"
  shows "\<exists>b' c y. mi_encode x b = Inr (Encode_Success, b') \<and> eb_offset b' = eb_offset b + mi_encoded_size x \<and>
    mi_decode junk z (db_of (eb_data b') (eb_offset b)) = Inr ((Decode_Success, y), c) \<and>
    db_offset c = eb_offset b' \<and> mi_eq y x = Inr True \<and>
    (mi_name_length x \<noteq> 0 \<longrightarrow> mi_owns_name y \<and> mi_name y = Some (take (unat (mi_name_length x)) (the name) @ [0]))"
proof -
  have wf: "mi_wf x" using assms(1,2) by (rule mi_make_wf)
  let ?y = "mi.received x"
  have name: "mi_name x = name" using assms(1) by (auto simp: mi_make_def bindE_Inr_iff)
  have "consumes (mi_decode junk z) (mi.encoding x) (Decode_Success, fst (mi_move_assign (mi_reset z) ?y))"
    unfolding mi_decode_def mi_decode_copy_def
    by (rule consumes_bind_last [OF mi.decode_law]) (simp_all add: mi_wf_codec wf)
  moreover have "fst (mi_move_assign (mi_reset z) ?y) = ?y"
    by (simp add: mi_move_assign_def mi_reset_def mi_received dd_assign_def dd_received_def)
  moreover have "mem.writes (mi_encode x) (mi.encoding x)"
    unfolding mi_encode_def by (rule mi.encode_law) (simp add: mi_wf_codec wf)
  moreover have "length (mi.encoding x) = mi_encoded_size x"
    unfolding mi_encoded_size_def by (simp add: mi.size_law mi_wf_codec wf)
  ultimately have "\<exists>b' c. mi_encode x b = Inr (Encode_Success, b') \<and> eb_ok b' \<and>
      eb_offset b' = eb_offset b + mi_encoded_size x \<and> eb_written b' = eb_written b @ mi.encoding x \<and>
      mi_decode junk z (db_of (eb_data b') (eb_offset b)) = Inr ((Decode_Success, ?y), c) \<and> db_offset c = eb_offset b'"
    using write_then_read assms(3,4) by metis
  moreover have "mi_eq ?y x = Inr True" using wf by (rule mi_received_eq)
  moreover have "mi_name_length x \<noteq> 0 \<longrightarrow>
      mi_owns_name ?y \<and> mi_name ?y = Some (take (unat (mi_name_length x)) (the name) @ [0])"
    using wf name by (auto simp: mi_received mi.name_bytes_def mi_wf_def name_wf_def split: option.splits)
  ultimately show ?thesis by blast
qed

theorem module_input_roundtrip_witness:
  "\<exists>b' c y. mi_encode (\<lparr>mi_input_id = 3, mi_name_length = 2, mi_data_type = dd_example, mi_name = Some [104, 105, 0],
        mi_owns_name = False\<rparr>) (eb_new 9) = Inr (Encode_Success, b') \<and>
    eb_offset b' = eb_offset (eb_new 9) + mi_encoded_size (\<lparr>mi_input_id = 3, mi_name_length = 2,
        mi_data_type = dd_example, mi_name = Some [104, 105, 0], mi_owns_name = False\<rparr>) \<and>
    mi_decode (\<lambda>_. 170) mi_new (db_of (eb_data b') (eb_offset (eb_new 9))) = Inr ((Decode_Success, y), c) \<and>
    db_offset c = eb_offset b' \<and>
    mi_eq y (\<lparr>mi_input_id = 3, mi_name_length = 2, mi_data_type = dd_example, mi_name = Some [104, 105, 0],
        mi_owns_name = False\<rparr>) = Inr True \<and>
    (mi_name_length (\<lparr>mi_input_id = 3, mi_name_length = 2, mi_data_type = dd_example, mi_name = Some [104, 105, 0],
        mi_owns_name = False\<rparr>) \<noteq> 0 \<longrightarrow>
      mi_owns_name y \<and> mi_name y = Some (take (unat (mi_name_length (\<lparr>mi_input_id = 3, mi_name_length = 2,
        mi_data_type = dd_example, mi_name = Some [104, 105, 0], mi_owns_name = False\<rparr>)))
        (the (Some [104, 105, 0])) @ [0]))"
  by (rule module_input_roundtrip [where owned = False and iid = 3 and d = dd_example])
    (simp_all add: mi_make_def name_strlen_def c_strlen_def dd_example_def dd_new_def dd_wf_def mi_encoded_size_def
      nt_encoded_size_def nt_tail_size_def mi_HeaderSize_def dd_HeaderSize_def mi_get_name_length_def dd_tail_size_def)

text \<open>
  A sensor survives the wire, whether its bit-packed identifier, type and mode, its name or its
  declaration: with a legal width and a name of at least the stated length, encoding succeeds whenever the
  announced size fits, and decoding there gives a sensor that \<open>operator ==\<close> accepts. With too little room
  encoding reports it and writes nothing.
\<close>

theorem sensor_roundtrip:
  assumes "sn_wf x" and "eb_ok b"
  shows "if eb_room b (sn_encoded_size x)
    then \<exists>b' c y. sn_encode x b = Inr (Encode_Success, b') \<and> eb_offset b' = eb_offset b + sn_encoded_size x \<and>
      sn_decode junk z (db_of (eb_data b') (eb_offset b)) = Inr ((Decode_Success, y), c) \<and>
      db_offset c = eb_offset b' \<and> sn_eq y x = Inr True
    else sn_encode x b = Inr (Insufficient_Space, b)"
proof (cases "eb_room b (sn_encoded_size x)")
  case True
  let ?y = "sn.received x"
  have "consumes (sn_decode junk z) (sn.encoding x) (Decode_Success, fst (sn_move_assign (sn_reset z) ?y))"
    unfolding sn_decode_def sn_decode_copy_def
    by (rule consumes_bind_last [OF sn.decode_law]) (simp_all add: sn_wf_codec assms)
  moreover have "fst (sn_move_assign (sn_reset z) ?y) = ?y"
    by (simp add: sn_move_assign_def sn_reset_def sn_received dd_assign_def dd_received_def)
  moreover have "mem.writes (sn_encode x) (sn.encoding x)"
    unfolding sn_encode_def by (rule sn.encode_law) (simp add: sn_wf_codec assms)
  moreover have "length (sn.encoding x) = sn_encoded_size x"
    unfolding sn_encoded_size_def by (simp add: sn.size_law sn_wf_codec assms)
  ultimately have "\<exists>b' c. sn_encode x b = Inr (Encode_Success, b') \<and> eb_ok b' \<and>
      eb_offset b' = eb_offset b + sn_encoded_size x \<and> eb_written b' = eb_written b @ sn.encoding x \<and>
      sn_decode junk z (db_of (eb_data b') (eb_offset b)) = Inr ((Decode_Success, ?y), c) \<and> db_offset c = eb_offset b'"
    using write_then_read assms(2) True by metis
  moreover have "sn_eq ?y x = Inr True" using assms(1) by (rule sn_received_eq)
  ultimately show ?thesis using True by auto
next
  case False
  with assms show ?thesis
    by (simp add: sn_encode_def sn_encoded_size_def sn.encode_insufficient sn_wf_codec)
qed

theorem sensor_roundtrip_witness:
  "if eb_room (eb_new 16) (sn_encoded_size (sn_make 1023 3 1 2 dd_example (Some [104, 105, 0])))
    then \<exists>b' c y. sn_encode (sn_make 1023 3 1 2 dd_example (Some [104, 105, 0])) (eb_new 16) = Inr (Encode_Success, b') \<and>
      eb_offset b' = eb_offset (eb_new 16) + sn_encoded_size (sn_make 1023 3 1 2 dd_example (Some [104, 105, 0])) \<and>
      sn_decode (\<lambda>_. 170) sn_new (db_of (eb_data b') (eb_offset (eb_new 16))) = Inr ((Decode_Success, y), c) \<and>
      db_offset c = eb_offset b' \<and> sn_eq y (sn_make 1023 3 1 2 dd_example (Some [104, 105, 0])) = Inr True
    else sn_encode (sn_make 1023 3 1 2 dd_example (Some [104, 105, 0])) (eb_new 16) = Inr (Insufficient_Space, eb_new 16)"
  by (rule sensor_roundtrip) (simp_all add: sn_wf_def name_wf_def sn_make_def dd_example_def dd_new_def dd_wf_def)

text \<open>
  Decoding an input or a sensor reports success also when the buffer ends inside the header: the
  object is then the default one and nothing is consumed, so a caller can not tell the two apart.
\<close>

theorem truncated_header_decodes_to_default:
  assumes "db_ok b" and "length (db_rest b) < 5"
  shows "mi_decode junk x b = Inr ((Decode_Success, mi_new), b) \<and> sn_decode junk y b = Inr ((Decode_Success, sn_new), b)"
proof -
  have tail: "dd_decode_tail dd_new b = Inr ((Decode_Success, dd_new), b)"
    by (simp add: dd_decode_tail_def dd_new_def dd_tail_size_def)
  have "mi_decode_copy junk b = Inr (mi_new, b)"
    using assms tail
    by (simp add: mi_decode_copy_def nt_decode_copy_def bindF_def db_read_underflow mi_HeaderSize_def dd_HeaderSize_def
        nt_read_name_def mi_new_def Let_def)
  moreover have "sn_decode_copy junk b = Inr (sn_new, b)"
    using assms tail
    by (simp add: sn_decode_copy_def nt_decode_copy_def bindF_def db_read_underflow sn_HeaderSize_def dd_HeaderSize_def
        nt_read_name_def sn_new_def Let_def)
  ultimately show ?thesis
    by (simp add: mi_decode_def sn_decode_def bindF_def mi_move_assign_def sn_move_assign_def mi_reset_def
        sn_reset_def mi_new_def sn_new_def dd_assign_def dd_new_def)
qed

theorem truncated_header_decodes_to_default_witness:
  "mi_decode (\<lambda>_. 170) mi_new (db_of [1, 2, 3] 0) = Inr ((Decode_Success, mi_new), db_of [1, 2, 3] 0) \<and>
   sn_decode (\<lambda>_. 170) sn_new (db_of [1, 2, 3] 0) = Inr ((Decode_Success, sn_new), db_of [1, 2, 3] 0)"
  by (rule truncated_header_decodes_to_default) simp_all

end
