(* ===== verification/Module.thy ===== *)
theory Module
  imports NamedTyped
begin

text \<open>
  Modules (\<^verbatim>\<open>include/crisp/comms/Module.hh\<close>, \<^verbatim>\<open>src/comms/Module.cc\<close>): an identifier, a name and two growable
  arrays of inputs and sensors. The four header bytes are the start of the object as it lies in memory.
\<close>

section \<open>Element-wise copies and comparisons\<close>

fun mapE :: "('a \<Rightarrow> fault + 'b) \<Rightarrow> 'a list \<Rightarrow> fault + 'b list" where
  "mapE f [] = Inr []"
| "mapE f (x # xs) = bindE (f x) (\<lambda>y. bindE (mapE f xs) (\<lambda>ys. Inr (y # ys)))"

text \<open>Copy construction and assignment of an array of elements with their own copy constructor.\<close>

definition sa_copy_via :: "('a \<Rightarrow> fault + 'a) \<Rightarrow> 'a sarray \<Rightarrow> fault + 'a sarray" where
  "sa_copy_via cp s =
     bindE (sa_elems s) (\<lambda>xs. bindE (mapE cp xs) (\<lambda>ys. foldE sa_push ys (sa_alloc (sa_size s))))"

definition sa_assign_via :: "('a \<Rightarrow> fault + 'a) \<Rightarrow> 'a sarray \<Rightarrow> 'a sarray \<Rightarrow> fault + 'a sarray" where
  "sa_assign_via cp a s =
     bindE (sa_elems s) (\<lambda>xs. bindE (mapE cp xs) (\<lambda>ys.
       foldE sa_push ys (sa_ensure_capacity (sa_capacity s) (sa_clear a))))"

text \<open>\<open>for ( i < n ) if ( a[i] != b[i] ) { u = false; break; }\<close>\<close>

fun each_equal :: "('a \<Rightarrow> 'a \<Rightarrow> fault + bool) \<Rightarrow> 'a sarray \<Rightarrow> 'a sarray \<Rightarrow> nat list \<Rightarrow> fault + bool" where
  "each_equal eq a b [] = Inr True"
| "each_equal eq a b (i # is) =
     bindE (sa_get i a) (\<lambda>x. bindE (sa_get i b) (\<lambda>y. bindE (eq x y) (\<lambda>e.
       if e then each_equal eq a b is else Inr False)))"

section \<open>The code\<close>

record module =
  md_id :: byte
  md_num_inputs :: byte
  md_num_sensors :: byte
  md_name_length :: byte
  md_name :: "byte list option"
  md_inputs :: "module_input sarray"
  md_sensors :: "sensor sarray"
  md_next_input_id :: byte
  md_next_sensor_id :: byte
  md_owns_name :: bool

definition md_HeaderSize :: nat where
  "md_HeaderSize = 4"

definition md_new :: module where
  "md_new = \<lparr>md_id = 0, md_num_inputs = 0, md_num_sensors = 0, md_name_length = 0, md_name = None,
     md_inputs = sa_new, md_sensors = sa_new, md_next_input_id = 0, md_next_sensor_id = 0, md_owns_name = False\<rparr>"

definition md_make :: "byte list option \<Rightarrow> byte \<Rightarrow> byte \<Rightarrow> fault + module" where
  "md_make name icap scap =
     bindE (name_strlen name) (\<lambda>n.
       Inr (md_new\<lparr>md_name_length := of_nat n, md_name := name,
                   md_inputs := sa_alloc (unat icap), md_sensors := sa_alloc (unat scap)\<rparr>))"

definition strncpy_ptr :: "nat \<Rightarrow> byte list option \<Rightarrow> fault + byte list" where
  "strncpy_ptr n p = (case p of None \<Rightarrow> (if n = 0 then Inr [] else Inl Null_deref) | Some mem \<Rightarrow> strncpy_from n mem)"

definition md_copy :: "module \<Rightarrow> fault + module" where
  "md_copy m =
     bindE (sa_copy_via mi_copy (md_inputs m)) (\<lambda>is.
     bindE (sa_copy_via sn_copy (md_sensors m)) (\<lambda>ss.
     bindE (if md_owns_name m
            then bindE (strncpy_ptr (unat (md_name_length m)) (md_name m)) (\<lambda>cp. Inr (Some cp))
            else Inr (md_name m)) (\<lambda>name.
       Inr (m\<lparr>md_inputs := is, md_sensors := ss, md_name := name\<rparr>))))"

definition md_move :: "module \<Rightarrow> module \<times> module" where
  "md_move m = (m, m\<lparr>md_inputs := snd (sa_move (md_inputs m)), md_sensors := snd (sa_move (md_sensors m)),
                     md_owns_name := False\<rparr>)"

definition md_move_assign :: "module \<Rightarrow> module \<Rightarrow> module \<times> module" where
  "md_move_assign t m =
     (t\<lparr>md_id := md_id m, md_num_inputs := md_num_inputs m, md_num_sensors := md_num_sensors m,
        md_inputs := fst (sa_move_assign (md_inputs m)), md_sensors := fst (sa_move_assign (md_sensors m)),
        md_next_input_id := md_next_input_id m, md_next_sensor_id := md_next_sensor_id m,
        md_name := md_name m, md_name_length := md_name_length m, md_owns_name := md_owns_name m\<rparr>,
      m\<lparr>md_inputs := snd (sa_move_assign (md_inputs m)), md_sensors := snd (sa_move_assign (md_sensors m)),
        md_name := None\<rparr>)"

text \<open>\<open>reset\<close> keeps a name it does not own, with its length, and the identifier.\<close>

definition md_reset :: "module \<Rightarrow> module" where
  "md_reset m =
     (let m' = (if md_owns_name m \<and> md_name m \<noteq> None then m\<lparr>md_name := None, md_name_length := 0\<rparr> else m) in
      m'\<lparr>md_num_inputs := 0, md_num_sensors := 0, md_inputs := sa_clear (md_inputs m'),
         md_sensors := sa_clear (md_sensors m'), md_next_input_id := 0, md_next_sensor_id := 0,
         md_owns_name := False\<rparr>)"

definition md_assign :: "module \<Rightarrow> module \<Rightarrow> fault + module" where
  "md_assign t m =
     (let t' = md_reset t in
     bindE (sa_assign_via mi_copy (md_inputs t') (md_inputs m)) (\<lambda>is.
     bindE (sa_assign_via sn_copy (md_sensors t') (md_sensors m)) (\<lambda>ss.
     bindE (if md_owns_name m
            then bindE (strncpy_ptr (unat (md_name_length m)) (md_name m)) (\<lambda>cp. Inr (Some cp))
            else Inr (md_name m)) (\<lambda>name.
       Inr (t'\<lparr>md_id := md_id m, md_num_inputs := md_num_inputs m, md_num_sensors := md_num_sensors m,
              md_inputs := is, md_sensors := ss, md_next_input_id := md_next_input_id m,
              md_next_sensor_id := md_next_sensor_id m, md_name_length := md_name_length m,
              md_owns_name := md_owns_name m, md_name := name\<rparr>)))))"

definition md_eq :: "module \<Rightarrow> module \<Rightarrow> fault + bool" where
  "md_eq m o' =
     (if md_id m = md_id o' \<and> md_num_inputs m = md_num_inputs o' \<and> md_num_sensors m = md_num_sensors o' \<and>
         md_name_length m = md_name_length o'
      then bindE (if md_name_length m = 0 then Inr True
                  else if md_name m = None \<or> md_name o' = None then Inr False
                  else mem_equal (unat (md_name_length m)) (md_name m) (md_name o')) (\<lambda>n.
           bindE (if n then each_equal sn_eq (md_sensors m) (md_sensors o') [0..<unat (md_num_sensors m)]
                  else Inr False) (\<lambda>s.
             if s then each_equal mi_eq (md_inputs m) (md_inputs o') [0..<unat (md_num_inputs m)]
             else Inr False))
      else Inr False)"

definition md_encoded_size :: "module \<Rightarrow> fault + nat" where
  "md_encoded_size m =
     bindE (sa_elems (md_inputs m)) (\<lambda>is. bindE (sa_elems (md_sensors m)) (\<lambda>ss.
       Inr (md_HeaderSize + unat (md_name_length m) +
            sum_list (map mi_encoded_size is) + sum_list (map sn_encoded_size ss))))"

text \<open>
  The results of writing the header and the name are dropped. The loops run over the arrays, whatever the
  counters say, once the counters are positive; each element is checked against its announced size.
\<close>

definition md_header :: "module \<Rightarrow> byte list" where
  "md_header m = [md_id m, md_num_inputs m, md_num_sensors m, md_name_length m]"

definition md_encode :: "module \<Rightarrow> (encode_buffer, encode_result) sfm" where
  "md_encode m =
     uncheckedF (eb_write (md_header m))
       (uncheckedF
         (if md_name_length m \<noteq> 0 \<and> md_name m \<noteq> None
          then bindF (liftF (mem_read (unat (md_name_length m)) (md_name m))) eb_write
          else retF Encode_Success)
         (checkedF
           (if md_num_inputs m > 0
            then bindF (liftF (sa_elems (md_inputs m))) (encode_each (asserted_encode mi_encode mi_encoded_size))
            else retF Encode_Success)
           (checkedF
             (if md_num_sensors m > 0
              then bindF (liftF (sa_elems (md_sensors m))) (encode_each (asserted_encode sn_encode sn_encoded_size))
              else retF Encode_Success)
             (retF Encode_Success))))"

definition md_set_header :: "byte list \<Rightarrow> module \<Rightarrow> module" where
  "md_set_header bs m = m\<lparr>md_id := bs ! 0, md_num_inputs := bs ! 1, md_num_sensors := bs ! 2, md_name_length := bs ! 3\<rparr>"

definition md_read_name :: "(nat \<Rightarrow> byte) \<Rightarrow> module \<Rightarrow> (decode_buffer, module) sfm" where
  "md_read_name junk m =
     (if md_name_length m > 0
      then let n = unat (md_name_length m); mem = new_chars junk (n + 1) in
           bindF (db_read n) (\<lambda>r.
             retF (m\<lparr>md_owns_name := True, md_name := Some ((stored r (overlay 0) mem)[n := 0])\<rparr>))
      else retF (m\<lparr>md_owns_name := False, md_name := None\<rparr>))"

definition md_read_inputs :: "(nat \<Rightarrow> byte) \<Rightarrow> module \<Rightarrow> (decode_buffer, module) sfm" where
  "md_read_inputs junk m =
     (let n = unat (md_num_inputs m) in
      if n > 0
      then bindF (fillF n (mi_decode_copy junk) (sa_ensure_capacity n (md_inputs m)))
             (\<lambda>a. retF (m\<lparr>md_inputs := a\<rparr>))
      else retF m)"

definition md_read_sensors :: "(nat \<Rightarrow> byte) \<Rightarrow> module \<Rightarrow> (decode_buffer, module) sfm" where
  "md_read_sensors junk m =
     (let n = unat (md_num_sensors m) in
      if n > 0
      then bindF (fillF n (sn_decode_copy junk) (sa_ensure_capacity n (md_sensors m)))
             (\<lambda>a. retF (m\<lparr>md_sensors := a\<rparr>))
      else retF m)"

definition md_restore_ids :: "module \<Rightarrow> fault + module" where
  "md_restore_ids m =
     bindE (if md_num_inputs m \<noteq> 0 \<and> sa_data (md_inputs m) \<noteq> None
            then bindE (sa_back (md_inputs m)) (\<lambda>x. Inr (m\<lparr>md_next_input_id := mi_input_id x + 1\<rparr>))
            else Inr m) (\<lambda>m'.
       if md_num_sensors m' \<noteq> 0 \<and> sa_data (md_sensors m') \<noteq> None
       then bindE (sa_back (md_sensors m')) (\<lambda>x. Inr (m'\<lparr>md_next_sensor_id := ucast (sn_id x) + 1\<rparr>))
       else Inr m')"

definition md_decode :: "(nat \<Rightarrow> byte) \<Rightarrow> module \<Rightarrow> (decode_buffer, decode_result \<times> module) sfm" where
  "md_decode junk m =
     bindF (db_read md_HeaderSize) (\<lambda>r.
     bindF (md_read_name junk (stored r md_set_header (md_reset m))) (\<lambda>m1.
     bindF (md_read_inputs junk m1) (\<lambda>m2.
     bindF (md_read_sensors junk m2) (\<lambda>m3.
     bindF (liftF (md_restore_ids m3)) (\<lambda>m4. retF (Decode_Success, m4))))))"

definition md_decode_copy :: "(nat \<Rightarrow> byte) \<Rightarrow> (decode_buffer, module) sfm" where
  "md_decode_copy junk = bindF (md_decode junk md_new) (\<lambda>r. retF (snd r))"

text \<open>
  Building a module. The counters and identifiers are eight bits wide and wrap; the index of the new sensor
  is computed from the counter, that of the new input from the array.
\<close>

definition md_add_sensor :: "sensor \<Rightarrow> module \<Rightarrow> fault + module" where
  "md_add_sensor s m =
     (let m1 = m\<lparr>md_num_sensors := md_num_sensors m + 1\<rparr> in
      bindE (sa_push s (md_sensors m1)) (\<lambda>a.
      bindE (sa_modify (size_sub (unat (md_num_sensors m1)) 1) (sn_id_update (\<lambda>_. ucast (md_next_sensor_id m1))) a) (\<lambda>a'.
        Inr (m1\<lparr>md_sensors := a', md_next_sensor_id := md_next_sensor_id m1 + 1\<rparr>))))"

definition md_add_input :: "module_input \<Rightarrow> module \<Rightarrow> fault + module" where
  "md_add_input i m =
     (let m1 = m\<lparr>md_num_inputs := md_num_inputs m + 1\<rparr> in
      bindE (sa_push i (md_inputs m1)) (\<lambda>a.
      bindE (sa_modify (sa_size a - 1) (mi_input_id_update (\<lambda>_. md_next_input_id m1)) a) (\<lambda>a'.
        Inr (m1\<lparr>md_inputs := a', md_next_input_id := md_next_input_id m1 + 1\<rparr>))))"

text \<open>Whether \<open>strncmp\<close> of two blocks is zero: it stops at a difference or at a NUL in both.\<close>

fun strncmp_zero :: "nat \<Rightarrow> byte list \<Rightarrow> byte list \<Rightarrow> fault + bool" where
  "strncmp_zero 0 xs ys = Inr True"
| "strncmp_zero (Suc n) (x # xs) (y # ys) =
     (if x \<noteq> y then Inr False else if x = 0 then Inr True else strncmp_zero n xs ys)"
| "strncmp_zero (Suc n) xs ys = Inl Out_of_bounds"

fun md_find_from :: "byte list \<Rightarrow> module_input sarray \<Rightarrow> nat list \<Rightarrow> fault + nat option" where
  "md_find_from name a [] = Inr None"
| "md_find_from name a (i # is) =
     bindE (sa_get i a) (\<lambda>x. bindE (c_strlen name) (\<lambda>n.
       if unat (mi_name_length x) = n
       then case mi_name x of
              None \<Rightarrow> (if n = 0 then Inr (Some i) else Inl Null_deref)
            | Some mem \<Rightarrow> bindE (strncmp_zero n name mem) (\<lambda>eq.
                if eq then Inr (Some i) else md_find_from name a is)
       else md_find_from name a is))"

text \<open>The found input is given by its index.\<close>

definition md_find_input :: "byte list \<Rightarrow> module \<Rightarrow> fault + nat option" where
  "md_find_input name m = md_find_from name (md_inputs m) [0..<unat (md_num_inputs m)]"

section \<open>Well-formed modules\<close>

definition md_wf :: "module \<Rightarrow> bool" where
  "md_wf m \<longleftrightarrow> name_wf (md_name_length m) (md_name m) \<and>
     sa_inv (md_inputs m) \<and> sa_size (md_inputs m) = unat (md_num_inputs m) \<and> list_all mi_wf (sa_list (md_inputs m)) \<and>
     sa_inv (md_sensors m) \<and> sa_size (md_sensors m) = unat (md_num_sensors m) \<and> list_all sn_wf (sa_list (md_sensors m))"

definition md_name_bytes :: "module \<Rightarrow> byte list" where
  "md_name_bytes m = (case md_name m of None \<Rightarrow> [] | Some mem \<Rightarrow> take (unat (md_name_length m)) mem)"

definition md_inputs_bytes :: "module \<Rightarrow> byte list" where
  "md_inputs_bytes m = mi.codec.encodings (sa_list (md_inputs m))"

definition md_sensors_bytes :: "module \<Rightarrow> byte list" where
  "md_sensors_bytes m = sn.codec.encodings (sa_list (md_sensors m))"

definition md_encoding :: "module \<Rightarrow> byte list" where
  "md_encoding m = md_header m @ md_name_bytes m @ md_inputs_bytes m @ md_sensors_bytes m @ []"

lemma length_md_header [simp, layout_simps]: "length (md_header m) = md_HeaderSize"
  by (simp add: md_header_def md_HeaderSize_def)

lemma length_md_name_bytes: "md_wf m \<Longrightarrow> length (md_name_bytes m) = unat (md_name_length m)"
  by (cases "md_name_length m = 0") (auto simp: md_wf_def name_wf_def md_name_bytes_def split: option.splits)

lemma md_name_bytes_empty: "md_name_length m = 0 \<Longrightarrow> md_name_bytes m = []"
  by (simp add: md_name_bytes_def split: option.splits)

lemma md_inputs_writes:
  assumes "md_wf m"
  shows "mem.writes (if md_num_inputs m > 0
    then bindF (liftF (sa_elems (md_inputs m))) (encode_each (asserted_encode mi_encode mi_encoded_size))
    else retF Encode_Success) (md_inputs_bytes m)"
proof (cases "md_num_inputs m > 0")
  case True
  have "list_all mi.wf (sa_list (md_inputs m))" using assms by (simp add: md_wf_def mi_wf_codec)
  then have "mem.writes (encode_each (asserted_encode mi_encode mi_encoded_size) (sa_list (md_inputs m))) (md_inputs_bytes m)"
    unfolding mi_encode_def mi_encoded_size_def md_inputs_bytes_def by (rule mi.codec.each_asserted_law)
  with True assms show ?thesis by (simp add: md_wf_def sa.elems_law)
next
  case False
  then have "md_num_inputs m = 0" by (simp add: word_gt_0)
  with assms have "md_inputs_bytes m = []" by (simp add: md_wf_def md_inputs_bytes_def sa_list_empty)
  with False show ?thesis by (simp add: mem.writes_ret del: retF_apply)
qed

lemma md_sensors_writes:
  assumes "md_wf m"
  shows "mem.writes (if md_num_sensors m > 0
    then bindF (liftF (sa_elems (md_sensors m))) (encode_each (asserted_encode sn_encode sn_encoded_size))
    else retF Encode_Success) (md_sensors_bytes m)"
proof (cases "md_num_sensors m > 0")
  case True
  have "list_all sn.wf (sa_list (md_sensors m))" using assms by (simp add: md_wf_def sn_wf_codec)
  then have "mem.writes (encode_each (asserted_encode sn_encode sn_encoded_size) (sa_list (md_sensors m))) (md_sensors_bytes m)"
    unfolding sn_encode_def sn_encoded_size_def md_sensors_bytes_def by (rule sn.codec.each_asserted_law)
  with True assms show ?thesis by (simp add: md_wf_def sa.elems_law)
next
  case False
  then have "md_num_sensors m = 0" by (simp add: word_gt_0)
  with assms have "md_sensors_bytes m = []" by (simp add: md_wf_def md_sensors_bytes_def sa_list_empty)
  with False show ?thesis by (simp add: mem.writes_ret del: retF_apply)
qed

lemma md_name_writes:
  assumes "md_wf m"
  shows "mem.writes (if md_name_length m \<noteq> 0 \<and> md_name m \<noteq> None
    then bindF (liftF (mem_read (unat (md_name_length m)) (md_name m))) eb_write else retF Encode_Success)
    (md_name_bytes m)"
proof (cases "md_name_length m = 0")
  case True
  then show ?thesis by (simp add: md_name_bytes_empty mem.writes_ret del: retF_apply)
next
  case False
  then have "md_name m \<noteq> None" "mem_read (unat (md_name_length m)) (md_name m) = Inr (md_name_bytes m)"
    using assms by (auto simp: md_wf_def name_wf_def md_name_bytes_def mem_read_def split: option.splits)
  with False show ?thesis by (simp add: mem.writes_emit del: retF_apply)
qed

lemma md_encode_writes: "md_wf m \<Longrightarrow> mem.writes (md_encode m) (md_encoding m)"
  unfolding md_encode_def md_encoding_def
  by (intro mem.writes_intros md_name_writes md_inputs_writes md_sensors_writes)

lemma md_encoded_size_law: "md_wf m \<Longrightarrow> md_encoded_size m = Inr (length (md_encoding m))"
  using mi.codec.sizes_law [of "sa_list (md_inputs m)"] sn.codec.sizes_law [of "sa_list (md_sensors m)"]
  by (simp add: md_encoded_size_def md_wf_def sa.elems_law mi_wf_codec sn_wf_codec md_encoding_def
      length_md_name_bytes [unfolded md_wf_def] mi_encoded_size_def sn_encoded_size_def md_inputs_bytes_def
      md_sensors_bytes_def)

section \<open>What the receiver holds\<close>

text \<open>\<open>ci\<close> and \<open>cs\<close> are the capacities of the receiver's arrays.\<close>

definition md_received :: "nat \<Rightarrow> nat \<Rightarrow> module \<Rightarrow> module" where
  "md_received ci cs m =
     \<lparr>md_id = md_id m, md_num_inputs = md_num_inputs m, md_num_sensors = md_num_sensors m,
      md_name_length = md_name_length m,
      md_name = (if md_name_length m > 0 then Some (md_name_bytes m @ [0]) else None),
      md_inputs = sa_mk (map mi.received (sa_list (md_inputs m))) (sa_grow ci (sa_size (md_inputs m))),
      md_sensors = sa_mk (map sn.received (sa_list (md_sensors m))) (sa_grow cs (sa_size (md_sensors m))),
      md_next_input_id = (if md_num_inputs m \<noteq> 0 then mi_input_id (last (sa_list (md_inputs m))) + 1 else 0),
      md_next_sensor_id = (if md_num_sensors m \<noteq> 0 then ucast (sn_id (last (sa_list (md_sensors m)))) + 1 else 0),
      md_owns_name = (md_name_length m > 0)\<rparr>"

lemma read_chars_mem:
  assumes "length bs = n"
  shows "(overlay 0 bs (new_chars junk (n + 1)))[n := 0] = bs @ [0]"
proof -
  have "length (drop n (new_chars junk (n + 1))) = Suc 0" by simp
  then obtain c where "drop n (new_chars junk (n + 1)) = [c]" by (auto simp only: length_Suc_conv length_0_conv)
  with assms show ?thesis by (simp add: overlay_def list_update_append)
qed

lemma md_read_name_consumes:
  assumes "md_wf m" and "md_name_length k = md_name_length m"
  shows "consumes (md_read_name junk k) (md_name_bytes m)
    (k\<lparr>md_owns_name := md_name_length m > 0,
       md_name := (if md_name_length m > 0 then Some (md_name_bytes m @ [0]) else None)\<rparr>)"
proof (cases "md_name_length m > 0")
  case True
  have len: "length (md_name_bytes m) = unat (md_name_length m)"
    using assms(1) by (rule length_md_name_bytes)
  then have "consumes (db_read (unat (md_name_length m))) (md_name_bytes m) (Decode_Success, md_name_bytes m)"
    using consumes_read [of "md_name_bytes m"] by simp
  then have "consumes (bindF (db_read (unat (md_name_length m))) (\<lambda>r. retF (k\<lparr>md_owns_name := True,
        md_name := Some ((stored r (overlay 0) (new_chars junk (unat (md_name_length m) + 1)))[unat (md_name_length m) := 0])\<rparr>)))
      (md_name_bytes m) (k\<lparr>md_owns_name := True, md_name := Some (md_name_bytes m @ [0])\<rparr>)"
    by (rule consumes_bind_last) (simp only: stored_simps read_chars_mem [OF len])
  with True assms(2) show ?thesis by (simp add: md_read_name_def Let_def)
next
  case False
  then have "md_name_length m = 0" by (simp add: word_gt_0)
  with assms(2) show ?thesis
    by (simp add: md_read_name_def md_name_bytes_empty consumes_ret del: retF_apply)
qed

lemma md_read_inputs_consumes:
  assumes "md_wf m" and "md_num_inputs k = md_num_inputs m" and "md_inputs k = sa_mk [] c"
  shows "consumes (md_read_inputs junk k) (md_inputs_bytes m)
    (k\<lparr>md_inputs := sa_mk (map mi.received (sa_list (md_inputs m))) (sa_grow c (sa_size (md_inputs m)))\<rparr>)"
proof -
  let ?xs = "sa_list (md_inputs m)"
  have len: "length ?xs = unat (md_num_inputs m)" "sa_size (md_inputs m) = unat (md_num_inputs m)"
    and wf: "list_all mi.wf ?xs" using assms(1) by (simp_all add: md_wf_def mi_wf_codec)
  have "consumes (fillF (length ?xs) (mi_decode_copy junk) (sa_mk [] (sa_grow c (length ?xs)))) (md_inputs_bytes m)
      (sa_mk ([] @ map mi.received ?xs) (sa_grow c (length ?xs)))"
    unfolding mi_decode_copy_def md_inputs_bytes_def by (rule mi.codec.fill_law [OF wf]) simp
  then have fill: "consumes (fillF (length ?xs) (mi_decode_copy junk) (sa_ensure_capacity (length ?xs) (md_inputs k)))
      (md_inputs_bytes m) (sa_mk (map mi.received ?xs) (sa_grow c (length ?xs)))"
    using assms(3) by simp
  show ?thesis
  proof (cases "length ?xs = 0")
    case True
    then have "md_inputs_bytes m = []" "?xs = []" by (simp_all add: md_inputs_bytes_def)
    moreover have "sa_grow c 0 = c" by (simp add: sa_grow_def)
    moreover have "k\<lparr>md_inputs := sa_mk [] c\<rparr> = k" using assms(3) by simp
    ultimately show ?thesis
      using len assms(2) by (simp add: md_read_inputs_def Let_def consumes_ret del: retF_apply)
  next
    case False
    with fill len assms(2) show ?thesis
      by (auto simp: md_read_inputs_def Let_def intro!: consumes_bind_last)
  qed
qed

lemma md_read_sensors_consumes:
  assumes "md_wf m" and "md_num_sensors k = md_num_sensors m" and "md_sensors k = sa_mk [] c"
  shows "consumes (md_read_sensors junk k) (md_sensors_bytes m)
    (k\<lparr>md_sensors := sa_mk (map sn.received (sa_list (md_sensors m))) (sa_grow c (sa_size (md_sensors m)))\<rparr>)"
proof -
  let ?xs = "sa_list (md_sensors m)"
  have len: "length ?xs = unat (md_num_sensors m)" "sa_size (md_sensors m) = unat (md_num_sensors m)"
    and wf: "list_all sn.wf ?xs" using assms(1) by (simp_all add: md_wf_def sn_wf_codec)
  have "consumes (fillF (length ?xs) (sn_decode_copy junk) (sa_mk [] (sa_grow c (length ?xs)))) (md_sensors_bytes m)
      (sa_mk ([] @ map sn.received ?xs) (sa_grow c (length ?xs)))"
    unfolding sn_decode_copy_def md_sensors_bytes_def by (rule sn.codec.fill_law [OF wf]) simp
  then have fill: "consumes (fillF (length ?xs) (sn_decode_copy junk) (sa_ensure_capacity (length ?xs) (md_sensors k)))
      (md_sensors_bytes m) (sa_mk (map sn.received ?xs) (sa_grow c (length ?xs)))"
    using assms(3) by simp
  show ?thesis
  proof (cases "length ?xs = 0")
    case True
    then have "md_sensors_bytes m = []" "?xs = []" by (simp_all add: md_sensors_bytes_def)
    moreover have "sa_grow c 0 = c" by (simp add: sa_grow_def)
    moreover have "k\<lparr>md_sensors := sa_mk [] c\<rparr> = k" using assms(3) by simp
    ultimately show ?thesis
      using len assms(2) by (simp add: md_read_sensors_def Let_def consumes_ret del: retF_apply)
  next
    case False
    with fill len assms(2) show ?thesis
      by (auto simp: md_read_sensors_def Let_def intro!: consumes_bind_last)
  qed
qed

lemma md_restore_ids_mk:
  assumes "md_inputs k = sa_mk is ci" "length is \<le> ci" "unat (md_num_inputs k) = length is"
    and "md_sensors k = sa_mk ss cs" "length ss \<le> cs" "unat (md_num_sensors k) = length ss"
    and "md_next_input_id k = 0" "md_next_sensor_id k = 0"
  shows "md_restore_ids k = Inr (k\<lparr>
    md_next_input_id := (if md_num_inputs k \<noteq> 0 then mi_input_id (last is) + 1 else 0),
    md_next_sensor_id := (if md_num_sensors k \<noteq> 0 then ucast (sn_id (last ss)) + 1 else 0)\<rparr>)"
proof -
  have i: "md_num_inputs k \<noteq> 0 \<longleftrightarrow> is \<noteq> []" and s: "md_num_sensors k \<noteq> 0 \<longleftrightarrow> ss \<noteq> []"
    using assms(3,6) by (metis length_0_conv unat_eq_0)+
  have di: "is \<noteq> [] \<Longrightarrow> sa_data (md_inputs k) \<noteq> None" and ds: "ss \<noteq> [] \<Longrightarrow> sa_data (md_sensors k) \<noteq> None"
    using assms(1,2,4,5) by (auto simp: sa_mk_def neq_Nil_conv)
  show ?thesis
    using assms i s di ds by (cases "is = []"; cases "ss = []") (simp_all add: md_restore_ids_def)
qed

lemma md_nonempty:
  assumes "md_wf m"
  shows "md_num_inputs m \<noteq> 0 \<Longrightarrow> sa_list (md_inputs m) \<noteq> []"
    and "md_num_sensors m \<noteq> 0 \<Longrightarrow> sa_list (md_sensors m) \<noteq> []"
  using assms unfolding md_wf_def by (metis list.size(3) sa_size_list unat_eq_0)+

lemma md_decode_consumes:
  assumes m: "md_wf m" and inv: "sa_inv (md_inputs k)" "sa_inv (md_sensors k)"
  shows "consumes (md_decode junk k) (md_encoding m)
    (Decode_Success, md_received (sa_capacity (md_inputs k)) (sa_capacity (md_sensors k)) m)"
proof -
  let ?ci = "sa_capacity (md_inputs k)" and ?cs = "sa_capacity (md_sensors k)"
  let ?n = "md_name_length m > 0"
  define k0 where "k0 = md_set_header (md_header m) (md_reset k)"
  have h: "consumes (db_read md_HeaderSize) (md_header m) (Decode_Success, md_header m)"
    using consumes_read [of "md_header m"] by simp
  have k0: "md_id k0 = md_id m" "md_num_inputs k0 = md_num_inputs m" "md_num_sensors k0 = md_num_sensors m"
    "md_name_length k0 = md_name_length m" "md_next_input_id k0 = 0" "md_next_sensor_id k0 = 0"
    by (simp_all add: k0_def md_set_header_def md_header_def md_reset_def Let_def)
  have arrays: "md_inputs k0 = sa_mk [] ?ci" "md_sensors k0 = sa_mk [] ?cs"
    using inv by (simp_all add: k0_def md_set_header_def md_reset_def Let_def sa_clear_inv)
  define k1 where "k1 = k0\<lparr>md_owns_name := ?n, md_name := (if ?n then Some (md_name_bytes m @ [0]) else None)\<rparr>"
  have n: "consumes (md_read_name junk k0) (md_name_bytes m) k1"
    unfolding k1_def using m k0(4) by (rule md_read_name_consumes)
  define k2 where "k2 = k1\<lparr>md_inputs := sa_mk (map mi.received (sa_list (md_inputs m))) (sa_grow ?ci (sa_size (md_inputs m)))\<rparr>"
  have i: "consumes (md_read_inputs junk k1) (md_inputs_bytes m) k2"
    unfolding k2_def using m by (rule md_read_inputs_consumes) (simp_all add: k1_def k0 arrays)
  define k3 where "k3 = k2\<lparr>md_sensors := sa_mk (map sn.received (sa_list (md_sensors m))) (sa_grow ?cs (sa_size (md_sensors m)))\<rparr>"
  have s: "consumes (md_read_sensors junk k2) (md_sensors_bytes m) k3"
    unfolding k3_def using m by (rule md_read_sensors_consumes) (simp_all add: k2_def k1_def k0 arrays)
  have last_i: "md_num_inputs m \<noteq> 0 \<Longrightarrow>
      mi_input_id (last (map mi.received (sa_list (md_inputs m)))) = mi_input_id (last (sa_list (md_inputs m)))"
    and last_s: "md_num_sensors m \<noteq> 0 \<Longrightarrow>
      sn_id (last (map sn.received (sa_list (md_sensors m)))) = sn_id (last (sa_list (md_sensors m)))"
    using md_nonempty [OF m] by (simp_all add: last_map mi_received sn_received)
  have "md_restore_ids k3 = Inr (k3\<lparr>
      md_next_input_id := (if md_num_inputs k3 \<noteq> 0 then mi_input_id (last (map mi.received (sa_list (md_inputs m)))) + 1 else 0),
      md_next_sensor_id := (if md_num_sensors k3 \<noteq> 0 then ucast (sn_id (last (map sn.received (sa_list (md_sensors m))))) + 1 else 0)\<rparr>)"
    by (rule md_restore_ids_mk [where ci = "sa_grow ?ci (sa_size (md_inputs m))" and cs = "sa_grow ?cs (sa_size (md_sensors m))"])
      (use m in \<open>simp_all add: k3_def k2_def k1_def k0 md_wf_def\<close>)
  also have "\<dots> = Inr (md_received ?ci ?cs m)"
    using last_i last_s by (simp add: k3_def k2_def k1_def k0 md_received_def)
  finally have r: "md_restore_ids k3 = Inr (md_received ?ci ?cs m)" .
  have ids: "consumes (bindF (liftF (md_restore_ids k3)) (\<lambda>m4. retF (Decode_Success, m4))) []
      (Decode_Success, md_received ?ci ?cs m)"
    by (simp add: r consumes_ret del: retF_apply)
  show ?thesis
    unfolding md_decode_def md_encoding_def
    by (rule consumes_bind [OF h], unfold stored_simps k0_def [symmetric],
        rule consumes_bind [OF n], rule consumes_bind [OF i], rule consumes_bind [OF s], rule ids)
qed

section \<open>Comparing what was received\<close>

lemma each_equal_all:
  assumes "\<forall>i \<in> set is. \<exists>x y. sa_get i a = Inr x \<and> sa_get i b = Inr y \<and> eq x y = Inr True"
  shows "each_equal eq a b is = Inr True"
  using assms by (induction "is") auto

lemma each_equal_mk:
  assumes "length xs = n" "length xs \<le> c" "length xs \<le> d" "\<forall>x \<in> set xs. eq (f x) x = Inr True"
  shows "each_equal eq (sa_mk (map f xs) c) (sa_mk xs d) [0..<n] = Inr True"
  using assms by (intro each_equal_all) auto

lemma md_received_eq:
  assumes "md_wf m"
  shows "md_eq (md_received ci cs m) m = Inr True"
proof -
  obtain xs c where xs: "md_inputs m = sa_mk xs c" "length xs \<le> c" "sa_list (md_inputs m) = xs"
    using assms by (auto simp: md_wf_def elim!: sa_invE)
  obtain ys d where ys: "md_sensors m = sa_mk ys d" "length ys \<le> d" "sa_list (md_sensors m) = ys"
    using assms by (auto simp: md_wf_def elim!: sa_invE)
  have "each_equal mi_eq (md_inputs (md_received ci cs m)) (md_inputs m) [0..<unat (md_num_inputs m)] = Inr True"
    using assms xs by (auto simp: md_received_def md_wf_def list_all_iff intro!: each_equal_mk mi_received_eq)
  moreover have "each_equal sn_eq (md_sensors (md_received ci cs m)) (md_sensors m) [0..<unat (md_num_sensors m)] = Inr True"
    using assms ys by (auto simp: md_received_def md_wf_def list_all_iff intro!: each_equal_mk sn_received_eq)
  moreover have "md_name_length m \<noteq> 0 \<longrightarrow> md_name m \<noteq> None \<and>
      mem_equal (unat (md_name_length m)) (Some (md_name_bytes m @ [0])) (md_name m) = Inr True"
    using assms received_name_equal [of "md_name_length m" "md_name m"]
    by (auto simp: md_wf_def name_wf_def md_name_bytes_def split: option.splits)
  ultimately show ?thesis
    by (simp add: md_eq_def) (simp add: md_received_def word_gt_0)
qed

lemma md_received_wf:
  assumes "md_wf m"
  shows "md_wf (md_received ci cs m)"
  using assms length_md_name_bytes [OF assms]
  by (auto simp: md_wf_def md_received_def name_wf_def list_all_iff mi_received_wf sn_received_wf word_gt_0)

text \<open>A module is in turn an element that a configuration holds.\<close>

lemma sa_inv_new [simp]: "sa_inv sa_new"
  by (simp add: sa_new_mk)

lemma md_new_sel [simp]: "md_inputs md_new = sa_new" "md_sensors md_new = sa_new" "md_name md_new = None"
    "sa_capacity sa_new = 0" "md_owns_name md_new = False" "md_name_length md_new = 0"
    "md_num_inputs md_new = 0" "md_num_sensors md_new = 0"
  by (simp_all add: md_new_def sa_new_def)

lemma md_decode_copy_consumes: "md_wf m \<Longrightarrow> consumes (md_decode_copy junk) (md_encoding m) (md_received 0 0 m)"
  unfolding md_decode_copy_def
  using md_decode_consumes [of m md_new junk]
  by (intro consumes_bind_last [where x = "(Decode_Success, md_received 0 0 m)"]) (simp_all del: retF_apply)

definition md_size_of :: "module \<Rightarrow> nat" where
  "md_size_of m = (case md_encoded_size m of Inl e \<Rightarrow> 0 | Inr n \<Rightarrow> n)"

interpretation md: element_codec md_encode "md_decode_copy junk" md_size_of md_encoding "md_received 0 0" md_wf for junk
  by unfold_locales (simp_all add: md_encode_writes md_decode_copy_consumes md_size_of_def md_encoded_size_law)

section \<open>Decoding arbitrary bytes\<close>

text \<open>The counters agree with the arrays and every name has at least its stated length.\<close>

definition md_shape :: "module \<Rightarrow> bool" where
  "md_shape m \<longleftrightarrow> name_wf (md_name_length m) (md_name m) \<and>
     sa_inv (md_inputs m) \<and> sa_size (md_inputs m) = unat (md_num_inputs m) \<and>
     list_all (\<lambda>x. name_wf (mi_name_length x) (mi_name x)) (sa_list (md_inputs m)) \<and>
     sa_inv (md_sensors m) \<and> sa_size (md_sensors m) = unat (md_num_sensors m) \<and>
     list_all (\<lambda>x. name_wf (sn_name_length x) (sn_name x)) (sa_list (md_sensors m))"

text \<open>The stages of a decoding: both arrays empty, the inputs read, the sensors read.\<close>

definition md_empty :: "module \<Rightarrow> bool" where
  "md_empty m \<longleftrightarrow> sa_inv (md_inputs m) \<and> sa_size (md_inputs m) = 0 \<and> sa_inv (md_sensors m) \<and> sa_size (md_sensors m) = 0"

definition md_half :: "module \<Rightarrow> bool" where
  "md_half m \<longleftrightarrow> name_wf (md_name_length m) (md_name m) \<and>
     sa_inv (md_inputs m) \<and> sa_size (md_inputs m) = unat (md_num_inputs m) \<and>
     list_all (\<lambda>x. name_wf (mi_name_length x) (mi_name x)) (sa_list (md_inputs m)) \<and>
     sa_inv (md_sensors m) \<and> sa_size (md_sensors m) = 0"

lemma md_empty_start:
  assumes "sa_inv (md_inputs k)" and "sa_inv (md_sensors k)"
  shows "md_empty (stored r md_set_header (md_reset k))"
  using assms by (simp add: md_empty_def stored_def md_set_header_def md_reset_def Let_def sa_clear_inv)

lemma md_read_name_tame:
  "md_empty k \<Longrightarrow> tame (md_read_name junk k) (\<lambda>m. md_empty m \<and> name_wf (md_name_length m) (md_name m))"
  unfolding md_read_name_def Let_def
  by (intro tame_if tame_bind [OF tame_read] tame_ret)
    (auto simp: md_empty_def name_wf_def stored_def word_gt_0)

lemma sa_ensure_list: "sa_inv a \<Longrightarrow> sa_size (sa_ensure_capacity n a) = sa_size a"
  using sa.reserve_law by (metis sa_size_list)

lemma md_read_inputs_tame:
  "md_empty k \<Longrightarrow> name_wf (md_name_length k) (md_name k) \<Longrightarrow> tame (md_read_inputs junk k) md_half"
  unfolding md_read_inputs_def Let_def
  by (intro tame_if tame_bind [OF fillF_tame [OF mi_decode_copy_tame]] tame_ret)
    (auto simp: md_empty_def md_half_def sa.reserve_law sa_ensure_list sa_list_empty)

lemma md_read_sensors_tame: "md_half k \<Longrightarrow> tame (md_read_sensors junk k) md_shape"
  unfolding md_read_sensors_def Let_def
  by (intro tame_if tame_bind [OF fillF_tame [OF sn_decode_copy_tame]] tame_ret)
    (auto simp: md_half_def md_shape_def sa.reserve_law sa_ensure_list sa_list_empty)

lemma sa_back_inv: "sa_inv a \<Longrightarrow> sa_size a \<noteq> 0 \<Longrightarrow> \<exists>x. sa_back a = Inr x"
  by (erule sa_invE) auto

lemma md_restore_ids_shape:
  assumes "md_shape m"
  shows "\<exists>m'. md_restore_ids m = Inr m' \<and> md_shape m'"
proof -
  have i: "md_num_inputs m \<noteq> 0 \<Longrightarrow> \<exists>x. sa_back (md_inputs m) = Inr x"
    and s: "md_num_sensors m \<noteq> 0 \<Longrightarrow> \<exists>x. sa_back (md_sensors m) = Inr x"
    using assms by (simp_all add: md_shape_def sa_back_inv unat_eq_0)
  have "\<exists>m1. (if md_num_inputs m \<noteq> 0 \<and> sa_data (md_inputs m) \<noteq> None
      then bindE (sa_back (md_inputs m)) (\<lambda>x. Inr (m\<lparr>md_next_input_id := mi_input_id x + 1\<rparr>)) else Inr m) = Inr m1 \<and>
      md_shape m1 \<and> md_num_sensors m1 = md_num_sensors m \<and> md_sensors m1 = md_sensors m"
  proof (cases "md_num_inputs m \<noteq> 0 \<and> sa_data (md_inputs m) \<noteq> None")
    case True
    with i obtain x where "sa_back (md_inputs m) = Inr x" by auto
    with True assms show ?thesis
      by (intro exI [of _ "m\<lparr>md_next_input_id := mi_input_id x + 1\<rparr>"]) (simp add: md_shape_def)
  qed (use assms in auto)
  then obtain m1 where m1: "(if md_num_inputs m \<noteq> 0 \<and> sa_data (md_inputs m) \<noteq> None
      then bindE (sa_back (md_inputs m)) (\<lambda>x. Inr (m\<lparr>md_next_input_id := mi_input_id x + 1\<rparr>)) else Inr m) = Inr m1"
    and eq: "md_shape m1" "md_num_sensors m1 = md_num_sensors m" "md_sensors m1 = md_sensors m"
    by blast
  show ?thesis
  proof (cases "md_num_sensors m1 \<noteq> 0 \<and> sa_data (md_sensors m1) \<noteq> None")
    case True
    with s eq obtain x where "sa_back (md_sensors m1) = Inr x" by auto
    with True eq show ?thesis
      unfolding md_restore_ids_def m1 by (simp add: md_shape_def)
  next
    case False
    with eq show ?thesis unfolding md_restore_ids_def m1 by auto
  qed
qed

lemma md_decode_tame:
  assumes "sa_inv (md_inputs k)" and "sa_inv (md_sensors k)"
  shows "tame (md_decode junk k) (\<lambda>r. fst r = Decode_Success \<and> md_shape (snd r))"
  unfolding md_decode_def
proof (intro tame_bind [OF tame_read] tame_bind [OF md_read_name_tame [OF md_empty_start [OF assms]]])
  fix m1 assume "md_empty m1 \<and> name_wf (md_name_length m1) (md_name m1)"
  then show "tame (bindF (md_read_inputs junk m1) (\<lambda>m2. bindF (md_read_sensors junk m2)
      (\<lambda>m3. bindF (liftF (md_restore_ids m3)) (\<lambda>m4. retF (Decode_Success, m4)))))
      (\<lambda>r. fst r = Decode_Success \<and> md_shape (snd r))"
    by (intro tame_bind [OF md_read_inputs_tame] tame_bind [OF md_read_sensors_tame] tame_bind [OF tame_lift] tame_ret)
      (auto dest: md_restore_ids_shape)
qed

section \<open>Looking up and building\<close>

lemma strncmp_zero_take:
  "0 \<notin> set s \<Longrightarrow> length s \<le> length mem \<Longrightarrow> strncmp_zero (length s) (s @ rest) mem = Inr (take (length s) mem = s)"
proof (induction s arbitrary: mem)
  case (Cons c s)
  then show ?case by (cases mem) auto
qed simp

text \<open>An input of the given name.\<close>

definition input_named :: "byte list \<Rightarrow> module_input \<Rightarrow> bool" where
  "input_named s x \<longleftrightarrow> unat (mi_name_length x) = length s \<and> (s = [] \<or> take (length s) (the (mi_name x)) = s)"

lemma md_find_from_law:
  assumes "0 \<notin> set s" and "list_all (\<lambda>x. name_wf (mi_name_length x) (mi_name x)) xs" and "length xs \<le> c"
  shows "set is \<subseteq> {..<length xs} \<Longrightarrow>
    md_find_from (s @ [0]) (sa_mk xs c) is = Inr (find (\<lambda>i. input_named s (xs ! i)) is)"
proof (induction "is")
  case (Cons i "is")
  then have i: "i < length xs" by simp
  with assms(2) have wf: "name_wf (mi_name_length (xs ! i)) (mi_name (xs ! i))" by (simp add: list_all_length)
  show ?case
  proof (cases "unat (mi_name_length (xs ! i)) = length s")
    case False
    with Cons i assms show ?thesis by (simp add: c_strlen_literal input_named_def)
  next
    case True
    show ?thesis
    proof (cases "mi_name (xs ! i)")
      case None
      with wf True have "s = []" by (auto simp: name_wf_def)
      with None True i assms show ?thesis by (simp add: c_strlen_def input_named_def)
    next
      case (Some mem)
      have "s \<noteq> [] \<Longrightarrow> length s \<le> length mem" using wf Some True by (auto simp: name_wf_def)
      then have "strncmp_zero (length s) (s @ [0]) mem = Inr (s = [] \<or> take (length s) mem = s)"
        using assms(1) by (cases "s = []") (simp_all add: strncmp_zero_take)
      with Some True i Cons assms show ?thesis by (simp add: c_strlen_literal input_named_def)
    qed
  qed
qed simp

lemma md_add_input_step:
  assumes "md_wf m" and "mi_wf i" and "unat (md_num_inputs m) < 255"
  shows "\<exists>m'. md_add_input i m = Inr m' \<and> md_wf m' \<and> md_num_inputs m' = md_num_inputs m + 1 \<and>
    md_next_input_id m' = md_next_input_id m + 1 \<and> md_sensors m' = md_sensors m \<and>
    sa_list (md_inputs m') = sa_list (md_inputs m) @ [i\<lparr>mi_input_id := md_next_input_id m\<rparr>]"
proof -
  obtain xs c where xs: "md_inputs m = sa_mk xs c" "length xs \<le> c" "sa_list (md_inputs m) = xs"
    using assms(1) by (auto simp: md_wf_def elim!: sa_invE)
  have n: "length xs = unat (md_num_inputs m)" using assms(1) xs by (simp add: md_wf_def)
  have upd: "(xs @ [i])[unat (md_num_inputs m) := ((xs @ [i]) ! unat (md_num_inputs m))\<lparr>mi_input_id := md_next_input_id m\<rparr>]
      = xs @ [i\<lparr>mi_input_id := md_next_input_id m\<rparr>]"
    by (simp add: n [symmetric])
  have fits: "length (xs @ [i]) \<le> sa_grow c (Suc (length xs))" by simp
  have "unat (md_num_inputs m + 1) = unat (md_num_inputs m) + 1"
    using assms(3) by (simp add: unat_word_ariths)
  moreover have "mi_wf (i\<lparr>mi_input_id := md_next_input_id m\<rparr>)" using assms(2) by (simp add: mi_wf_def)
  ultimately show ?thesis
    using assms xs n fits upd by (simp add: md_add_input_def Let_def md_wf_def)
qed

text \<open>Adding inputs one after the other.\<close>

lemma upt_0_Suc: "[0..<Suc n] = 0 # map Suc [0..<n]"
  by (simp add: upt_conv_Cons map_Suc_upt del: upt_Suc)

lemma map_fst_zip_upt: "map (\<lambda>p. g (fst p)) (zip [0..<length xs] xs) = map g [0..<length xs]"
  by (rule nth_equalityI) simp_all

lemma md_add_inputs:
  "md_wf m \<Longrightarrow> list_all mi_wf xs \<Longrightarrow> unat (md_num_inputs m) + length xs < 256 \<Longrightarrow>
   \<exists>m'. foldE md_add_input xs m = Inr m' \<and> md_wf m' \<and>
     unat (md_num_inputs m') = unat (md_num_inputs m) + length xs \<and> md_sensors m' = md_sensors m \<and>
     sa_list (md_inputs m') = sa_list (md_inputs m) @
       map (\<lambda>(k, x). x\<lparr>mi_input_id := md_next_input_id m + of_nat k\<rparr>) (zip [0..<length xs] xs)"
proof (induction xs arbitrary: m)
  case (Cons x xs)
  then obtain m1 where m1: "md_add_input x m = Inr m1" "md_wf m1" "md_num_inputs m1 = md_num_inputs m + 1"
      "md_next_input_id m1 = md_next_input_id m + 1" "md_sensors m1 = md_sensors m"
      "sa_list (md_inputs m1) = sa_list (md_inputs m) @ [x\<lparr>mi_input_id := md_next_input_id m\<rparr>]"
    using md_add_input_step [of m x] by auto
  have n: "unat (md_num_inputs m1) = unat (md_num_inputs m) + 1"
    using Cons.prems(3) m1(3) by (simp add: unat_word_ariths)
  have "zip [0..<length (x # xs)] (x # xs) = (0, x) # map (\<lambda>(k, y). (Suc k, y)) (zip [0..<length xs] xs)"
    unfolding list.size(4) add_0_right add_Suc_right upt_0_Suc by (simp add: zip_map1)
  then have z: "map (\<lambda>(k, x). x\<lparr>mi_input_id := md_next_input_id m + of_nat k\<rparr>) (zip [0..<length (x # xs)] (x # xs)) =
      x\<lparr>mi_input_id := md_next_input_id m\<rparr> #
      map (\<lambda>(k, x). x\<lparr>mi_input_id := md_next_input_id m1 + of_nat k\<rparr>) (zip [0..<length xs] xs)"
    by (simp add: m1(4) comp_def case_prod_beta add.assoc)
  show ?case
    using Cons.IH [OF m1(2)] Cons.prems n m1 unfolding z by auto
qed (auto simp: foldE.simps)

section \<open>Copying\<close>

text \<open>An owned name without a NUL among its stated characters; \<open>strncpy\<close> stops at the first NUL.\<close>

definition name_clean :: "bool \<Rightarrow> byte \<Rightarrow> byte list option \<Rightarrow> bool" where
  "name_clean owns n p \<longleftrightarrow> owns \<longrightarrow> (case p of None \<Rightarrow> True | Some mem \<Rightarrow> 0 \<notin> set (take (unat n) mem))"

definition copied_name :: "bool \<Rightarrow> byte \<Rightarrow> byte list option \<Rightarrow> byte list option" where
  "copied_name owns n p = (if owns then map_option (take (unat n)) p else p)"

lemma strncpy_clean:
  assumes "name_clean True n (Some mem)" and "name_wf n (Some mem)"
  shows "strncpy_from (unat n) mem = Inr (take (unat n) mem)"
proof -
  have "unat n \<le> length mem" using assms(2) by (cases "n = 0") (auto simp: name_wf_def)
  with assms(1) show ?thesis by (simp add: strncpy_from_def c_strncpy_no_nul name_clean_def)
qed

lemma copied_name_wf: "name_wf n p \<Longrightarrow> name_wf n (copied_name owns n p)"
  by (auto simp: name_wf_def copied_name_def split: option.splits)

lemma copied_name_equal: "name_wf n p \<Longrightarrow> n \<noteq> 0 \<Longrightarrow> mem_equal (unat n) (copied_name owns n p) p = Inr True"
  by (auto simp: name_wf_def copied_name_def mem_equal_take split: option.splits)

definition mi_copied :: "module_input \<Rightarrow> module_input" where
  "mi_copied x = x\<lparr>mi_name := copied_name (mi_owns_name x) (mi_name_length x) (mi_name x)\<rparr>"

definition sn_copied :: "sensor \<Rightarrow> sensor" where
  "sn_copied x = x\<lparr>sn_name := copied_name (sn_owns_name x) (sn_name_length x) (sn_name x)\<rparr>"

lemma mi_copy_clean:
  assumes "mi_wf x" and "name_clean (mi_owns_name x) (mi_name_length x) (mi_name x)"
  shows "mi_copy x = Inr (mi_copied x)" and "mi_eq (mi_copied x) x = Inr True" and "mi_wf (mi_copied x)"
  using assms strncpy_clean [of "mi_name_length x"]
  by (auto simp: mi_copy_def mi_copied_def mi_wf_def mi_eq_def mi_get_name_length_def copied_name_wf
      copied_name_equal unat_eq_0 split: option.splits) (auto simp: copied_name_def)

lemma sn_copy_clean:
  assumes "sn_wf x" and "name_clean (sn_owns_name x) (sn_name_length x) (sn_name x)"
  shows "sn_copy x = Inr (sn_copied x)" and "sn_eq (sn_copied x) x = Inr True" and "sn_wf (sn_copied x)"
  using assms strncpy_clean [of "sn_name_length x"]
  by (auto simp: sn_copy_def sn_copied_def sn_wf_def sn_eq_def copied_name_wf
      copied_name_equal split: option.splits) (auto simp: copied_name_def)

lemma mapE_all: "\<forall>x \<in> set xs. f x = Inr (g x) \<Longrightarrow> mapE f xs = Inr (map g xs)"
  by (induction xs) auto

lemma sa_copy_via_mk:
  assumes "\<forall>x \<in> set xs. cp x = Inr (g x)" and "length xs \<le> c"
  shows "sa_copy_via cp (sa_mk xs c) = Inr (sa_mk (map g xs) (length xs))"
  using assms sa_fill_mk [of "[]" "map g xs" "length xs"]
  by (simp add: sa_copy_via_def mapE_all [OF assms(1)] sa_alloc_mk)

definition md_clean :: "module \<Rightarrow> bool" where
  "md_clean m \<longleftrightarrow> name_clean (md_owns_name m) (md_name_length m) (md_name m) \<and>
     list_all (\<lambda>x. name_clean (mi_owns_name x) (mi_name_length x) (mi_name x)) (sa_list (md_inputs m)) \<and>
     list_all (\<lambda>x. name_clean (sn_owns_name x) (sn_name_length x) (sn_name x)) (sa_list (md_sensors m))"

definition md_copied :: "module \<Rightarrow> module" where
  "md_copied m = m\<lparr>
     md_inputs := sa_mk (map mi_copied (sa_list (md_inputs m))) (sa_size (md_inputs m)),
     md_sensors := sa_mk (map sn_copied (sa_list (md_sensors m))) (sa_size (md_sensors m)),
     md_name := (if md_owns_name m \<and> md_name_length m = 0 then Some []
                 else copied_name (md_owns_name m) (md_name_length m) (md_name m))\<rparr>"

lemma md_copy_clean:
  assumes "md_wf m" and "md_clean m"
  shows "md_copy m = Inr (md_copied m)"
proof -
  obtain xs c where xs: "md_inputs m = sa_mk xs c" "length xs \<le> c" "sa_list (md_inputs m) = xs"
    using assms by (auto simp: md_wf_def elim!: sa_invE)
  obtain ys d where ys: "md_sensors m = sa_mk ys d" "length ys \<le> d" "sa_list (md_sensors m) = ys"
    using assms by (auto simp: md_wf_def elim!: sa_invE)
  have i: "sa_copy_via mi_copy (md_inputs m) = Inr (sa_mk (map mi_copied xs) (length xs))"
    unfolding xs(1) using assms xs(2,3)
    by (intro sa_copy_via_mk) (auto simp: md_wf_def md_clean_def list_all_iff mi_copy_clean)
  have s: "sa_copy_via sn_copy (md_sensors m) = Inr (sa_mk (map sn_copied ys) (length ys))"
    unfolding ys(1) using assms ys(2,3)
    by (intro sa_copy_via_mk) (auto simp: md_wf_def md_clean_def list_all_iff sn_copy_clean)
  have "md_owns_name m \<Longrightarrow> strncpy_ptr (unat (md_name_length m)) (md_name m) =
      Inr (the (if md_owns_name m \<and> md_name_length m = 0 then Some []
                else copied_name (md_owns_name m) (md_name_length m) (md_name m)))"
    using assms strncpy_clean [of "md_name_length m"]
    by (cases "md_name m") (auto simp: md_wf_def md_clean_def strncpy_ptr_def copied_name_def name_wf_def)
  then show ?thesis
    using assms(1) xs ys i s
    by (cases "md_name m") (auto simp: md_copy_def md_copied_def copied_name_def md_wf_def name_wf_def)
qed

lemma md_copied_eq:
  assumes "md_wf m" and "md_clean m"
  shows "md_eq (md_copied m) m = Inr True" and "md_wf (md_copied m)"
proof -
  obtain xs c where xs: "md_inputs m = sa_mk xs c" "length xs \<le> c" "sa_list (md_inputs m) = xs"
    using assms by (auto simp: md_wf_def elim!: sa_invE)
  obtain ys d where ys: "md_sensors m = sa_mk ys d" "length ys \<le> d" "sa_list (md_sensors m) = ys"
    using assms by (auto simp: md_wf_def elim!: sa_invE)
  have "each_equal mi_eq (md_inputs (md_copied m)) (md_inputs m) [0..<unat (md_num_inputs m)] = Inr True"
    using assms xs
    by (auto simp: md_copied_def md_wf_def md_clean_def list_all_iff intro!: each_equal_mk mi_copy_clean)
  moreover have "each_equal sn_eq (md_sensors (md_copied m)) (md_sensors m) [0..<unat (md_num_sensors m)] = Inr True"
    using assms ys
    by (auto simp: md_copied_def md_wf_def md_clean_def list_all_iff intro!: each_equal_mk sn_copy_clean)
  moreover have "md_name_length m \<noteq> 0 \<longrightarrow> md_name m \<noteq> None \<and>
      (\<exists>y. copied_name (md_owns_name m) (md_name_length m) (md_name m) = Some y) \<and>
      mem_equal (unat (md_name_length m)) (copied_name (md_owns_name m) (md_name_length m) (md_name m)) (md_name m) = Inr True"
    using assms by (auto simp: md_wf_def copied_name_equal) (auto simp: name_wf_def copied_name_def split: option.splits)
  ultimately show "md_eq (md_copied m) m = Inr True"
    by (simp add: md_eq_def) (auto simp: md_copied_def)
  show "md_wf (md_copied m)"
    using assms by (auto simp: md_wf_def md_clean_def md_copied_def list_all_iff mi_copy_clean sn_copy_clean
        copied_name_wf name_wf_def [of 0])
qed

section \<open>Properties\<close>

text \<open>
  Claim C13. A module survives the wire. For a well-formed module (counters that agree with the arrays, legal
  widths, names of at least their stated length), \<open>get_encoded_size()\<close> is exact: with that much room
  encoding succeeds without tripping its assertions, and decoding there, into any module object, ends at
  the same offset with a module that \<open>operator ==\<close> accepts, is well-formed again, and continues numbering
  its inputs after its last input and its sensors after its last sensor (whose ten-bit identifier the
  eight-bit counter truncates).
\<close>

theorem module_roundtrip:
  assumes "md_wf m" and "md_encoded_size m = Inr n" and "eb_ok b" and "eb_room b n"
    and "sa_inv (md_inputs k)" and "sa_inv (md_sensors k)"
  shows "\<exists>b' c m'. md_encode m b = Inr (Encode_Success, b') \<and> eb_offset b' = eb_offset b + n \<and>
    md_decode junk k (db_of (eb_data b') (eb_offset b)) = Inr ((Decode_Success, m'), c) \<and>
    db_offset c = eb_offset b' \<and> md_eq m' m = Inr True \<and> md_wf m' \<and>
    (md_num_inputs m \<noteq> 0 \<longrightarrow> md_next_input_id m' = mi_input_id (last (sa_list (md_inputs m))) + 1) \<and>
    (md_num_sensors m \<noteq> 0 \<longrightarrow> md_next_sensor_id m' = ucast (sn_id (last (sa_list (md_sensors m)))) + 1)"
proof -
  let ?m' = "md_received (sa_capacity (md_inputs k)) (sa_capacity (md_sensors k)) m"
  have n: "n = length (md_encoding m)" using assms(1,2) by (simp add: md_encoded_size_law)
  have "(md_num_inputs m \<noteq> 0 \<longrightarrow> md_next_input_id ?m' = mi_input_id (last (sa_list (md_inputs m))) + 1) \<and>
      (md_num_sensors m \<noteq> 0 \<longrightarrow> md_next_sensor_id ?m' = ucast (sn_id (last (sa_list (md_sensors m)))) + 1)"
    by (simp add: md_received_def)
  then show ?thesis
    using write_then_read [OF md_encode_writes [OF assms(1)] md_decode_consumes [OF assms(1,5,6), of junk] assms(3)]
      assms(4) md_received_eq [OF assms(1)] md_received_wf [OF assms(1)]
    unfolding n by blast
qed

definition md_example :: module where
  "md_example = md_new\<lparr>md_id := 5, md_num_inputs := 1, md_num_sensors := 1, md_name_length := 3,
     md_name := Some [97, 114, 109, 0],
     md_inputs := sa_mk [\<lparr>mi_input_id = 0, mi_name_length = 2, mi_data_type = dd_example,
       mi_name = Some [104, 105, 0], mi_owns_name = False\<rparr>] 2,
     md_sensors := sa_mk [sn_make 7 3 1 0 dd_example None] 1\<rparr>"

lemma md_example_wf: "md_wf md_example"
  by (simp add: md_example_def md_wf_def name_wf_def mi_wf_def sn_wf_def dd_example_def dd_new_def dd_wf_def sn_make_def)

lemma md_example_size: "md_encoded_size md_example = Inr 24"
  by (simp add: md_encoded_size_def md_example_def md_HeaderSize_def mi_encoded_size_def sn_encoded_size_def
      nt_encoded_size_def nt_tail_size_def mi_HeaderSize_def sn_HeaderSize_def dd_HeaderSize_def
      mi_get_name_length_def sn_get_name_length_def sn_make_def dd_tail_size_def dd_example_def dd_new_def)

theorem module_roundtrip_witness:
  "\<exists>b' c m'. md_encode md_example (eb_new 30) = Inr (Encode_Success, b') \<and> eb_offset b' = eb_offset (eb_new 30) + 24 \<and>
    md_decode (\<lambda>_. 170) md_new (db_of (eb_data b') (eb_offset (eb_new 30))) = Inr ((Decode_Success, m'), c) \<and>
    db_offset c = eb_offset b' \<and> md_eq m' md_example = Inr True \<and> md_wf m' \<and>
    (md_num_inputs md_example \<noteq> 0 \<longrightarrow>
      md_next_input_id m' = mi_input_id (last (sa_list (md_inputs md_example))) + 1) \<and>
    (md_num_sensors md_example \<noteq> 0 \<longrightarrow>
      md_next_sensor_id m' = ucast (sn_id (last (sa_list (md_sensors md_example)))) + 1)"
  by (rule module_roundtrip [OF md_example_wf md_example_size]) simp_all

text \<open>
  Adding up to 255 inputs to a well-formed module keeps it well-formed and numbers the inputs
  consecutively from the module's next identifier, in the order of the calls.
\<close>

theorem module_inputs_numbered:
  assumes "md_wf m" and "list_all mi_wf xs" and "unat (md_num_inputs m) + length xs < 256"
  shows "\<exists>m'. foldE md_add_input xs m = Inr m' \<and> md_wf m' \<and>
    unat (md_num_inputs m') = unat (md_num_inputs m) + length xs \<and>
    map mi_input_id (sa_list (md_inputs m')) = map mi_input_id (sa_list (md_inputs m)) @
      map (\<lambda>k. md_next_input_id m + of_nat k) [0..<length xs]"
  using md_add_inputs [OF assms] map_fst_zip_upt [of "\<lambda>k. md_next_input_id m + of_nat k" xs]
  by (auto simp: comp_def case_prod_beta)

theorem module_inputs_numbered_witness:
  "\<exists>m'. foldE md_add_input [mi_new, mi_new] md_example = Inr m' \<and> md_wf m' \<and>
    unat (md_num_inputs m') = unat (md_num_inputs md_example) + length [mi_new, mi_new] \<and>
    map mi_input_id (sa_list (md_inputs m')) = map mi_input_id (sa_list (md_inputs md_example)) @
      map (\<lambda>k. md_next_input_id md_example + of_nat k) [0..<length [mi_new, mi_new]]"
  by (rule module_inputs_numbered [OF md_example_wf])
    (simp_all add: mi_wf_def mi_new_def dd_wf_def dd_new_def name_wf_def md_example_def)

text \<open>
  \<open>find_input\<close> returns the first input of the given name: on a well-formed module and a terminated
  name it never faults and gives the least index whose input has exactly these characters, or none.
\<close>

theorem find_input_first_match:
  assumes "md_wf m" and "0 \<notin> set s"
  shows "md_find_input (s @ [0]) m =
    Inr (find (\<lambda>i. input_named s (sa_list (md_inputs m) ! i)) [0..<unat (md_num_inputs m)])"
proof -
  obtain xs c where xs: "md_inputs m = sa_mk xs c" "length xs \<le> c" "sa_list (md_inputs m) = xs"
    using assms(1) by (auto simp: md_wf_def elim!: sa_invE)
  have "length xs = unat (md_num_inputs m)" using assms(1) xs by (simp add: md_wf_def)
  moreover have "list_all (\<lambda>x. name_wf (mi_name_length x) (mi_name x)) xs"
    using assms(1) xs by (auto simp: md_wf_def mi_wf_def list_all_iff)
  ultimately show ?thesis
    using md_find_from_law [OF assms(2) _ xs(2), of "[0..<unat (md_num_inputs m)]"] xs
    by (simp add: md_find_input_def atLeast0LessThan)
qed

theorem find_input_first_match_witness:
  "md_find_input ([104, 105] @ [0]) md_example =
    Inr (find (\<lambda>i. input_named [104, 105] (sa_list (md_inputs md_example) ! i)) [0..<unat (md_num_inputs md_example)])"
  by (rule find_input_first_match) (simp_all add: md_example_wf)

text \<open>
  The copy constructor copies a module: for a well-formed module whose owned names hold no NUL
  inside their stated length, it succeeds, and the copy, with names of its own, compares equal to the
  original and is well-formed. (With a NUL inside an owned name \<open>strncpy\<close> would cut it short.)
\<close>

theorem module_copy_equal:
  assumes "md_wf m" and "md_clean m"
  shows "\<exists>c. md_copy m = Inr c \<and> md_eq c m = Inr True \<and> md_wf c \<and> md_next_input_id c = md_next_input_id m"
  using md_copy_clean [OF assms] md_copied_eq [OF assms] by (auto simp: md_copied_def)

theorem module_copy_equal_witness:
  "\<exists>c. md_copy (md_example\<lparr>md_owns_name := True\<rparr>) = Inr c \<and> md_eq c (md_example\<lparr>md_owns_name := True\<rparr>) = Inr True \<and>
    md_wf c \<and> md_next_input_id c = md_next_input_id (md_example\<lparr>md_owns_name := True\<rparr>)"
  by (rule module_copy_equal)
    (simp_all add: md_example_def md_clean_def name_clean_def sn_make_def md_wf_def name_wf_def mi_wf_def sn_wf_def
      dd_example_def dd_new_def dd_wf_def)


end
