(* ===== verification/Configuration.thy ===== *)
theory Configuration
  imports Module
begin

text \<open>
  Configurations (\<^verbatim>\<open>include/crisp/comms/Configuration.hh\<close>, \<^verbatim>\<open>src/comms/Configuration.cc\<close>): the list of modules a
  node describes itself with, encoded as a count byte and the modules.
\<close>

section \<open>The code\<close>

record configuration =
  cf_num_modules :: byte
  cf_modules :: "module sarray"
  cf_next_module_id :: byte

definition cf_HeaderSize :: nat where
  "cf_HeaderSize = 1"

definition cf_make :: "byte \<Rightarrow> configuration" where
  "cf_make alloc = \<lparr>cf_num_modules = 0, cf_modules = sa_alloc (unat alloc), cf_next_module_id = 0\<rparr>"

definition cf_copy :: "configuration \<Rightarrow> fault + configuration" where
  "cf_copy c = bindE (sa_copy_via md_copy (cf_modules c)) (\<lambda>ms. Inr (c\<lparr>cf_modules := ms\<rparr>))"

definition cf_move :: "configuration \<Rightarrow> configuration \<times> configuration" where
  "cf_move c = (c, c\<lparr>cf_modules := snd (sa_move (cf_modules c))\<rparr>)"

definition cf_reset :: "configuration \<Rightarrow> configuration" where
  "cf_reset c = c\<lparr>cf_num_modules := 0, cf_modules := sa_clear (cf_modules c), cf_next_module_id := 0\<rparr>"

definition cf_assign :: "configuration \<Rightarrow> configuration \<Rightarrow> fault + configuration" where
  "cf_assign t c =
     bindE (sa_assign_via md_copy (cf_modules t) (cf_modules c)) (\<lambda>ms.
       Inr (t\<lparr>cf_num_modules := cf_num_modules c, cf_modules := ms, cf_next_module_id := cf_next_module_id c\<rparr>))"

definition cf_move_assign :: "configuration \<Rightarrow> configuration \<Rightarrow> configuration \<times> configuration" where
  "cf_move_assign t c =
     (t\<lparr>cf_num_modules := cf_num_modules c, cf_modules := fst (sa_move_assign (cf_modules c)),
        cf_next_module_id := cf_next_module_id c\<rparr>,
      c\<lparr>cf_modules := snd (sa_move_assign (cf_modules c))\<rparr>)"

definition cf_eq :: "configuration \<Rightarrow> configuration \<Rightarrow> fault + bool" where
  "cf_eq c d =
     (if cf_num_modules c = cf_num_modules d
      then each_equal md_eq (cf_modules c) (cf_modules d) [0..<unat (cf_num_modules c)]
      else Inr False)"

fun cf_sizes :: "module sarray \<Rightarrow> nat list \<Rightarrow> fault + nat" where
  "cf_sizes a [] = Inr 0"
| "cf_sizes a (i # is) =
     bindE (sa_get i a) (\<lambda>m. bindE (md_encoded_size m) (\<lambda>k. bindE (cf_sizes a is) (\<lambda>t. Inr (k + t))))"

definition cf_encoded_size :: "configuration \<Rightarrow> fault + nat" where
  "cf_encoded_size c =
     bindE (cf_sizes (cf_modules c) [0..<unat (cf_num_modules c)]) (\<lambda>t. Inr (cf_HeaderSize + t))"

definition cf_encode :: "configuration \<Rightarrow> (encode_buffer, encode_result) sfm" where
  "cf_encode c =
     checkedF (eb_write [cf_num_modules c])
       (bindF (liftF (sa_elems (cf_modules c))) (encode_each md_encode))"

text \<open>Each module is constructed in the array first and then decoded in place.\<close>

fun cf_fill :: "(nat \<Rightarrow> byte) \<Rightarrow> nat \<Rightarrow> module sarray \<Rightarrow> (decode_buffer, decode_result \<times> module sarray) sfm" where
  "cf_fill junk 0 a = retF (Decode_Success, a)"
| "cf_fill junk (Suc n) a =
     bindF (liftF (sa_push md_new a)) (\<lambda>a1.
     bindF (liftF (sa_back a1)) (\<lambda>m.
     bindF (md_decode junk m) (\<lambda>r.
     bindF (liftF (sa_modify (sa_size a1 - 1) (\<lambda>_. snd r) a1)) (\<lambda>a2.
       if fst r = Decode_Success then cf_fill junk n a2 else retF (fst r, a2)))))"

definition cf_decode :: "(nat \<Rightarrow> byte) \<Rightarrow> configuration \<Rightarrow> (decode_buffer, decode_result \<times> configuration) sfm" where
  "cf_decode junk c =
     (let c1 = cf_reset c in
      bindF (db_read 1) (\<lambda>r.
        if fst r \<noteq> Decode_Success then retF (fst r, c1)
        else let c2 = c1\<lparr>cf_num_modules := snd r ! 0\<rparr>; n = unat (snd r ! 0) in
             bindF (cf_fill junk n (sa_ensure_capacity n (cf_modules c2))) (\<lambda>f.
               retF (fst f, c2\<lparr>cf_modules := snd f\<rparr>))))"

definition cf_decode_copy :: "(nat \<Rightarrow> byte) \<Rightarrow> (decode_buffer, configuration) sfm" where
  "cf_decode_copy junk = bindF (cf_decode junk (cf_make 0)) (\<lambda>r. retF (snd r))"

text \<open>\<open>add_module(args...)\<close> with the module its constructor arguments give.\<close>

definition cf_add_module :: "module \<Rightarrow> configuration \<Rightarrow> fault + configuration" where
  "cf_add_module m c =
     bindE (sa_push m (cf_modules c)) (\<lambda>a.
     bindE (sa_modify (sa_size a - 1) (md_id_update (\<lambda>_. cf_next_module_id c)) a) (\<lambda>a'.
       Inr (c\<lparr>cf_num_modules := cf_num_modules c + 1, cf_modules := a',
              cf_next_module_id := cf_next_module_id c + 1\<rparr>)))"

section \<open>Well-formed configurations\<close>

definition cf_wf :: "configuration \<Rightarrow> bool" where
  "cf_wf c \<longleftrightarrow> sa_inv (cf_modules c) \<and> sa_size (cf_modules c) = unat (cf_num_modules c) \<and>
     list_all md_wf (sa_list (cf_modules c))"

definition cf_encoding :: "configuration \<Rightarrow> byte list" where
  "cf_encoding c = [cf_num_modules c] @ md.encodings (sa_list (cf_modules c))"

lemma cf_encode_writes: "cf_wf c \<Longrightarrow> mem.writes (cf_encode c) (cf_encoding c)"
  unfolding cf_encode_def cf_encoding_def
  by (intro mem.writes_checked mem.writes_emit) (simp add: cf_wf_def sa.elems_law md.each_law)

lemma cf_sizes_law:
  assumes "list_all md_wf xs" and "length xs \<le> c"
  shows "set is \<subseteq> {..<length xs} \<Longrightarrow>
    cf_sizes (sa_mk xs c) is = Inr (sum_list (map (\<lambda>i. length (md_encoding (xs ! i))) is))"
  using assms by (induction "is") (auto simp: md_encoded_size_law list_all_length)

lemma sum_list_nth: "sum_list (map (\<lambda>i. f (xs ! i)) [0..<length xs]) = sum_list (map f xs)"
proof -
  have "map (\<lambda>i. f (xs ! i)) [0..<length xs] = map f (map ((!) xs) [0..<length xs])" by (simp only: map_map comp_def)
  then show ?thesis by (simp only: map_nth)
qed

lemma cf_encoded_size_law: "cf_wf c \<Longrightarrow> cf_encoded_size c = Inr (length (cf_encoding c))"
proof -
  assume c: "cf_wf c"
  then obtain xs k where xs: "cf_modules c = sa_mk xs k" "length xs \<le> k" "sa_list (cf_modules c) = xs"
    by (auto simp: cf_wf_def elim!: sa_invE)
  then have n: "unat (cf_num_modules c) = length xs" and wf: "list_all md_wf xs"
    using c by (simp_all add: cf_wf_def)
  have "cf_sizes (cf_modules c) [0..<unat (cf_num_modules c)] = Inr (length (md.encodings xs))"
    unfolding n xs(1) using cf_sizes_law [OF wf xs(2), of "[0..<length xs]"]
    by (simp add: atLeast0LessThan sum_list_nth [of "\<lambda>m. length (md_encoding m)"] md.encodings_def length_concat
        comp_def)
  with xs show ?thesis by (simp add: cf_encoded_size_def cf_encoding_def cf_HeaderSize_def)
qed

section \<open>Decoding\<close>

lemma cf_fill_consumes:
  "list_all md_wf xs \<Longrightarrow> length ys + length xs \<le> cap \<Longrightarrow>
   consumes (cf_fill junk (length xs) (sa_mk ys cap)) (md.encodings xs)
     (Decode_Success, sa_mk (ys @ map (md_received 0 0) xs) cap)"
proof (induction xs arbitrary: ys)
  case Nil
  then show ?case by (simp add: consumes_ret del: retF_apply)
next
  case (Cons x xs)
  then have grow: "sa_grow cap (length ys + 1) = cap" by (simp add: sa_grow_def)
  have dec: "consumes (md_decode junk md_new) (md_encoding x) (Decode_Success, md_received 0 0 x)"
    using md_decode_consumes [of x md_new junk] Cons.prems by simp
  have rest: "consumes (cf_fill junk (length xs) (sa_mk (ys @ [md_received 0 0 x]) cap)) (md.encodings xs)
      (Decode_Success, sa_mk ((ys @ [md_received 0 0 x]) @ map (md_received 0 0) xs) cap)"
    using Cons.prems by (intro Cons.IH) simp_all
  show ?case
    using Cons.prems grow rest
    by (auto intro!: consumes_bind [OF dec])
qed

definition cf_received :: "nat \<Rightarrow> configuration \<Rightarrow> configuration" where
  "cf_received cap c = \<lparr>cf_num_modules = cf_num_modules c,
     cf_modules = sa_mk (map (md_received 0 0) (sa_list (cf_modules c))) (sa_grow cap (sa_size (cf_modules c))),
     cf_next_module_id = 0\<rparr>"

lemma cf_decode_consumes:
  assumes c: "cf_wf c" and t: "sa_inv (cf_modules t)"
  shows "consumes (cf_decode junk t) (cf_encoding c) (Decode_Success, cf_received (sa_capacity (cf_modules t)) c)"
proof -
  let ?xs = "sa_list (cf_modules c)" and ?cap = "sa_capacity (cf_modules t)"
  let ?n = "unat (cf_num_modules c)"
  have n: "length ?xs = ?n" "sa_size (cf_modules c) = ?n" and wf: "list_all md_wf ?xs" using c by (simp_all add: cf_wf_def)
  have a: "sa_ensure_capacity ?n (cf_modules (cf_reset t)) = sa_mk [] (sa_grow ?cap ?n)"
    using t by (simp add: cf_reset_def sa_clear_inv)
  have "consumes (cf_fill junk (length ?xs) (sa_mk [] (sa_grow ?cap ?n))) (md.encodings ?xs)
      (Decode_Success, sa_mk ([] @ map (md_received 0 0) ?xs) (sa_grow ?cap ?n))"
    using n by (intro cf_fill_consumes wf) simp
  then have fill: "consumes (cf_fill junk ?n (sa_ensure_capacity ?n (cf_modules (cf_reset t)))) (md.encodings ?xs)
      (Decode_Success, sa_mk (map (md_received 0 0) ?xs) (sa_grow ?cap ?n))"
    using n a by simp
  have h: "consumes (db_read 1) [cf_num_modules c] (Decode_Success, [cf_num_modules c])"
    using consumes_read [of "[cf_num_modules c]"] by simp
  show ?thesis
    unfolding cf_decode_def cf_encoding_def Let_def
    by (rule consumes_bind [OF h], simp add: del: retF_apply, rule consumes_bind_last [OF fill],
        rule arg_cong [of _ _ retF]) (simp add: cf_received_def n cf_reset_def)
qed

lemma cf_received_eq:
  assumes "cf_wf c"
  shows "cf_eq (cf_received cap c) c = Inr True"
proof -
  obtain xs k where xs: "cf_modules c = sa_mk xs k" "length xs \<le> k" "sa_list (cf_modules c) = xs"
    using assms by (auto simp: cf_wf_def elim!: sa_invE)
  with assms show ?thesis
    by (auto simp: cf_eq_def cf_received_def cf_wf_def list_all_iff intro!: each_equal_mk md_received_eq)
qed

lemma cf_received_wf: "cf_wf c \<Longrightarrow> cf_wf (cf_received cap c)"
  by (auto simp: cf_wf_def cf_received_def list_all_iff md_received_wf)

section \<open>Decoding arbitrary bytes\<close>

definition cf_shape :: "configuration \<Rightarrow> bool" where
  "cf_shape c \<longleftrightarrow> sa_inv (cf_modules c) \<and> sa_size (cf_modules c) = unat (cf_num_modules c) \<and>
     list_all md_shape (sa_list (cf_modules c))"

lemma cf_fill_tame:
  "length xs + n \<le> cap \<Longrightarrow> list_all md_shape xs \<Longrightarrow>
   tame (cf_fill junk n (sa_mk xs cap)) (\<lambda>r. fst r = Decode_Success \<and>
     (\<exists>ys. snd r = sa_mk ys cap \<and> length ys = length xs + n \<and> list_all md_shape ys))"
proof (induction n arbitrary: xs)
  case 0
  then show ?case by (auto intro!: tame_ret simp del: retF_apply)
next
  case (Suc n)
  then have grow: "sa_grow cap (length xs + 1) = cap" by (simp add: sa_grow_def)
  have dec: "tame (md_decode junk md_new) (\<lambda>r. fst r = Decode_Success \<and> md_shape (snd r))"
    by (intro md_decode_tame) simp_all
  have step: "tame (cf_fill junk n (sa_mk (xs @ [m]) cap)) (\<lambda>r. fst r = Decode_Success \<and>
      (\<exists>ys. snd r = sa_mk ys cap \<and> length ys = length xs + Suc n \<and> list_all md_shape ys))" if "md_shape m" for m
    using Suc.IH [of "xs @ [m]"] Suc.prems that by simp
  show ?case
    using Suc.prems grow by (auto intro!: tame_bind [OF dec] step [simplified] simp del: retF_apply)
qed

lemma cf_decode_tame:
  assumes "sa_inv (cf_modules t)"
  shows "tame (cf_decode junk t) (\<lambda>r. cf_shape (snd r) \<and>
    (fst r \<noteq> Decode_Success \<longrightarrow> fst r = Buffer_Underflow \<and> cf_num_modules (snd r) = 0))"
proof -
  let ?cap = "sa_capacity (cf_modules t)"
  have a: "cf_modules (cf_reset t) = sa_mk [] ?cap" "cf_num_modules (cf_reset t) = 0"
    using assms by (simp_all add: cf_reset_def sa_clear_inv)
  have fill: "tame (cf_fill junk n (sa_ensure_capacity n (cf_modules (cf_reset t\<lparr>cf_num_modules := v\<rparr>)))) (\<lambda>r. fst r = Decode_Success \<and>
      (\<exists>ys. snd r = sa_mk ys (sa_grow ?cap n) \<and> length ys = n \<and> list_all md_shape ys))" for n v
    using cf_fill_tame [of "[]" n "sa_grow ?cap n"] a by simp
  have read: "tame (db_read 1) (\<lambda>r. fst r = Decode_Success \<or> fst r = Buffer_Underflow)"
    unfolding tame_def
  proof (intro allI impI)
    fix b assume b: "db_ok b"
    show "case db_read 1 b of Inl e \<Rightarrow> overwide e
      | Inr (r, b') \<Rightarrow> db_ok b' \<and> db_data b' = db_data b \<and> db_offset b \<le> db_offset b' \<and>
          (fst r = Decode_Success \<or> fst r = Buffer_Underflow)"
    proof (cases "length (db_rest b) < 1")
      case True
      with b show ?thesis by (simp only: db_read_underflow) simp
    next
      case False
      then have "1 \<le> length (db_rest b)" by linarith
      with b show ?thesis by (simp only: db_read_success) (simp add: db_advance_def db_ok_def db_rest_def)
    qed
  qed
  show ?thesis
    unfolding cf_decode_def Let_def
    by (intro tame_bind [OF read] tame_if tame_ret tame_bind [OF fill])
      (use a in \<open>auto simp: cf_shape_def\<close>)
qed

section \<open>Properties\<close>

text \<open>
  Claim C20. A configuration survives the wire: \<open>get_encoded_size()\<close> is exact, encoding a well-formed
  configuration succeeds whenever that much room is left, and decoding there, into any configuration
  object, reports success at the same offset with a configuration that \<open>operator ==\<close> accepts, module by
  module, input by input and sensor by sensor.
\<close>

theorem configuration_roundtrip:
  assumes "cf_wf c" and "cf_encoded_size c = Inr n" and "eb_ok b" and "eb_room b n" and "sa_inv (cf_modules t)"
  shows "\<exists>b' d c'. cf_encode c b = Inr (Encode_Success, b') \<and> eb_offset b' = eb_offset b + n \<and>
    cf_decode junk t (db_of (eb_data b') (eb_offset b)) = Inr ((Decode_Success, c'), d) \<and>
    db_offset d = eb_offset b' \<and> cf_eq c' c = Inr True \<and> cf_wf c'"
proof -
  have "n = length (cf_encoding c)" using assms(1,2) by (simp add: cf_encoded_size_law)
  then show ?thesis
    using write_then_read [OF cf_encode_writes [OF assms(1)] cf_decode_consumes [OF assms(1,5), of junk] assms(3)]
      assms(4) cf_received_eq [OF assms(1)] cf_received_wf [OF assms(1)] by blast
qed

definition cf_example :: configuration where
  "cf_example = \<lparr>cf_num_modules = 2, cf_modules = sa_mk [md_example, md_example\<lparr>md_id := 6\<rparr>] 4, cf_next_module_id = 7\<rparr>"

lemma cf_example_wf: "cf_wf cf_example"
  using md_example_wf by (simp add: cf_wf_def cf_example_def) (simp add: md_wf_def)

lemma cf_example_size: "cf_encoded_size cf_example = Inr 49"
proof -
  have "md_encoded_size (md_example\<lparr>md_id := 6\<rparr>) = Inr 24"
    using md_example_size by (simp add: md_encoded_size_def)
  then show ?thesis
    by (simp add: cf_encoded_size_def cf_example_def cf_HeaderSize_def md_example_size upt_rec)
qed

theorem configuration_roundtrip_witness:
  "\<exists>b' d c'. cf_encode cf_example (eb_new 50) = Inr (Encode_Success, b') \<and> eb_offset b' = eb_offset (eb_new 50) + 49 \<and>
    cf_decode (\<lambda>_. 170) (cf_make 0) (db_of (eb_data b') (eb_offset (eb_new 50))) = Inr ((Decode_Success, c'), d) \<and>
    db_offset d = eb_offset b' \<and> cf_eq c' cf_example = Inr True \<and> cf_wf c'"
  by (rule configuration_roundtrip [OF cf_example_wf cf_example_size]) (simp_all add: cf_make_def sa_alloc_mk)

text \<open>
  Claim C15. Decoding is memory-safe up to the one known hole: on any bytes, at any valid position,
  \<open>Configuration::decode\<close> either stops at a data declaration whose width exceeds sixteen, which it would
  write over a sixteen-byte array, or returns, without ever reading outside the block, with the buffer moved
  forward inside its block and a configuration whose counters agree with its arrays and whose names have
  at least their stated lengths; the only error it returns is an underflow at the count byte.
\<close>

theorem configuration_decode_safe:
  assumes "db_ok b" and "sa_inv (cf_modules t)"
  shows "(\<exists>w. 16 < w \<and> cf_decode junk t b = Inl (Field_overflow w)) \<or>
    (\<exists>r c b'. cf_decode junk t b = Inr ((r, c), b') \<and> db_ok b' \<and> db_data b' = db_data b \<and>
      db_offset b \<le> db_offset b' \<and> cf_shape c \<and>
      (r \<noteq> Decode_Success \<longrightarrow> r = Buffer_Underflow \<and> cf_num_modules c = 0))"
  using tameD [OF cf_decode_tame [OF assms(2)] assms(1), of junk] by (auto elim: overwideE)

theorem configuration_decode_safe_witness:
  "(\<exists>w. 16 < w \<and> cf_decode (\<lambda>_. 170) (cf_make 3) (db_of [2, 9, 1, 0, 4] 0) = Inl (Field_overflow w)) \<or>
    (\<exists>r c b'. cf_decode (\<lambda>_. 170) (cf_make 3) (db_of [2, 9, 1, 0, 4] 0) = Inr ((r, c), b') \<and> db_ok b' \<and>
      db_data b' = db_data (db_of [2, 9, 1, 0, 4] 0) \<and> db_offset (db_of [2, 9, 1, 0, 4] 0) \<le> db_offset b' \<and> cf_shape c \<and>
      (r \<noteq> Decode_Success \<longrightarrow> r = Buffer_Underflow \<and> cf_num_modules c = 0))"
  by (rule configuration_decode_safe) (simp_all add: cf_make_def sa_alloc_mk)

text \<open>
  The next module identifier is not restored by decoding: the first module added to a decoded
  configuration gets identifier 0 again, whatever identifiers the received modules have. (A decoded module
  does continue numbering its inputs.)
\<close>

theorem decoded_configuration_restarts_ids:
  assumes "cf_wf c" and "sa_inv (cf_modules t)" and "db_ok b" and "db_rest b = cf_encoding c @ rest"
  shows "\<exists>c' b' c''. cf_decode junk t b = Inr ((Decode_Success, c'), b') \<and> cf_add_module m c' = Inr c'' \<and>
    sa_list (cf_modules c'') = sa_list (cf_modules c') @ [m\<lparr>md_id := 0\<rparr>]"
proof -
  let ?c' = "cf_received (sa_capacity (cf_modules t)) c"
  let ?xs = "sa_list (cf_modules ?c')" and ?k = "sa_capacity (cf_modules ?c')"
  have "sa_inv (cf_modules ?c')" using cf_received_wf [OF assms(1)] by (simp add: cf_wf_def)
  then obtain xs k where xs: "cf_modules ?c' = sa_mk xs k" "length xs \<le> k" "sa_list (cf_modules ?c') = xs"
    by (auto elim: sa_invE)
  have "length (xs @ [m\<lparr>md_id := 0\<rparr>]) \<le> sa_grow k (length xs + 1)" by simp
  then have "\<exists>c''. cf_add_module m ?c' = Inr c'' \<and> sa_list (cf_modules c'') = xs @ [m\<lparr>md_id := 0\<rparr>]"
    using xs by (simp add: cf_add_module_def) (simp add: cf_received_def)
  then show ?thesis
    using consumesD [OF cf_decode_consumes [OF assms(1,2), of junk] assms(3,4)] xs by auto
qed

theorem decoded_configuration_restarts_ids_witness:
  "\<exists>c' b' c''. cf_decode (\<lambda>_. 170) (cf_make 0) (db_of (cf_encoding cf_example @ [1]) 0) = Inr ((Decode_Success, c'), b') \<and>
    cf_add_module md_example c' = Inr c'' \<and>
    sa_list (cf_modules c'') = sa_list (cf_modules c') @ [md_example\<lparr>md_id := 0\<rparr>]"
  by (rule decoded_configuration_restarts_ids [OF cf_example_wf]) (simp_all add: cf_make_def sa_alloc_mk)


end
