(* ===== verification/DataValue.thy ===== *)
theory DataValue
  imports NamedTyped
begin

text \<open>
  Generic data values (\<^verbatim>\<open>include/crisp/comms/DataValue.hh\<close>, \<^verbatim>\<open>src/comms/DataValue.cc\<close>): a declaration and a heap
  block with the bytes of one value. Typed access through \<open>get\<close> and \<open>set\<close> copies the bytes of a C++ value,
  which are what the model passes.
\<close>

section \<open>The code\<close>

record data_value =
  dv_data_type :: data_decl
  dv_value :: "byte list option"
  dv_owns_value :: bool

text \<open>\<open>new uint8_t[n]\<close> throws beyond the largest object size.\<close>

definition new_bytes :: "(nat \<Rightarrow> byte) \<Rightarrow> nat \<Rightarrow> fault + byte list" where
  "new_bytes junk n = (if n < 2 ^ 63 then Inr (new_chars junk n) else Inl Alloc_failed)"

definition dv_make :: "data_decl \<Rightarrow> data_value" where
  "dv_make d = \<lparr>dv_data_type = d, dv_value = Some (replicate (unat (dd_width d)) 0), dv_owns_value = True\<rparr>"

definition dv_make_with :: "data_decl \<Rightarrow> byte list \<Rightarrow> data_value" where
  "dv_make_with d bs = \<lparr>dv_data_type = d, dv_value = Some bs, dv_owns_value = True\<rparr>"

text \<open>
  The element count of an array is read over a \<open>size_t\<close> holding 1, with the width of an element; a larger
  width leaves the variable.
\<close>

definition dv_read_count :: "data_decl \<Rightarrow> (decode_buffer, nat) sfm" where
  "dv_read_count d =
     (if dd_is_array d
      then bindF (db_read (unat (dd_width d))) (\<lambda>r.
             if fst r = Decode_Success
             then if unat (dd_width d) \<le> 8 then retF (le_val (overlay 0 (snd r) (le_bytes 8 1)))
                  else failF Out_of_bounds
             else retF 1)
      else retF 1)"

definition dv_read :: "(nat \<Rightarrow> byte) \<Rightarrow> data_decl \<Rightarrow> (decode_buffer, data_value) sfm" where
  "dv_read junk d =
     bindF (dv_read_count d) (\<lambda>cnt b.
       let w = unat (dd_width d); n = (cnt * w) mod size_modulus in
       bindF (liftF (new_bytes junk n)) (\<lambda>mem.
         if w \<le> size_sub (length (db_data b)) (db_offset b)
         then bindF (db_read n) (\<lambda>r. retF (dv_make_with d (stored r (overlay 0) mem)))
         else retF (dv_make_with d (replicate n 0))) b)"

definition dv_move :: "data_value \<Rightarrow> data_value \<times> data_value" where
  "dv_move v = (v, v\<lparr>dv_value := None, dv_owns_value := False\<rparr>)"

definition dv_move_assign :: "data_value \<Rightarrow> data_value \<Rightarrow> data_value \<times> data_value" where
  "dv_move_assign t v =
     (t\<lparr>dv_data_type := dd_assign (dv_data_type t) (dv_data_type v), dv_value := dv_value v,
        dv_owns_value := dv_owns_value v\<rparr>,
      v\<lparr>dv_owns_value := False\<rparr>)"

definition dv_encoded_size :: "data_value \<Rightarrow> nat" where
  "dv_encoded_size v = unat (dd_width (dv_data_type v))"

definition dv_encode :: "data_value \<Rightarrow> (encode_buffer, encode_result) sfm" where
  "dv_encode v = bindF (liftF (mem_read (unat (dd_width (dv_data_type v))) (dv_value v))) eb_write"

text \<open>\<open>get<U>\<close> reads \<open>sizeof(U)\<close> bytes; a null value gives \<open>U()\<close>.\<close>

definition dv_get :: "nat \<Rightarrow> data_value \<Rightarrow> fault + byte list" where
  "dv_get sz v = (case dv_value v of None \<Rightarrow> Inr (replicate sz 0) | Some mem \<Rightarrow> mem_read sz (Some mem))"

text \<open>\<open>set<U>\<close> with the bytes of the value and the declaration \<open>DataDeclaration<U>()\<close>, used when there is no block.\<close>

definition dv_set :: "data_decl \<Rightarrow> byte list \<Rightarrow> data_value \<Rightarrow> fault + data_value" where
  "dv_set d bs v =
     (case dv_value v of
        None \<Rightarrow> Inr (v\<lparr>dv_data_type := d, dv_value := Some bs, dv_owns_value := True\<rparr>)
      | Some mem \<Rightarrow>
          if length bs \<le> length mem then Inr (v\<lparr>dv_value := Some (overlay 0 bs mem)\<rparr>) else Inl Out_of_bounds)"

definition dv_eq :: "data_value \<Rightarrow> data_value \<Rightarrow> fault + bool" where
  "dv_eq v w =
     (if dd_eq (dv_data_type v) (dv_data_type w)
      then mem_equal (unat (dd_width (dv_data_type v))) (dv_value v) (dv_value w) else Inr False)"

section \<open>Scalar values\<close>

text \<open>A value of a scalar declaration: its block has exactly the declared width.\<close>

definition dv_wf :: "data_value \<Rightarrow> bool" where
  "dv_wf v \<longleftrightarrow> (case dv_value v of None \<Rightarrow> False | Some mem \<Rightarrow> length mem = unat (dd_width (dv_data_type v)))"

lemma dv_make_wf [simp]: "dv_wf (dv_make d)" and dv_make_type [simp]: "dv_data_type (dv_make d) = d"
  by (simp_all add: dv_make_def dv_wf_def)

definition dv_bytes :: "data_value \<Rightarrow> byte list" where
  "dv_bytes v = (case dv_value v of None \<Rightarrow> [] | Some mem \<Rightarrow> mem)"

lemma length_dv_bytes: "dv_wf v \<Longrightarrow> length (dv_bytes v) = unat (dd_width (dv_data_type v))"
  by (simp add: dv_wf_def dv_bytes_def split: option.splits)

lemma dv_encode_writes: "dv_wf v \<Longrightarrow> mem.writes (dv_encode v) (dv_bytes v)"
  by (auto simp: dv_wf_def dv_encode_def dv_bytes_def mem_read_def mem.writes_emit split: option.splits)

lemma width_less_32: "unat (w :: 5 word) < 32"
  using unsigned_less [of w, where ?'a = nat] by simp

lemma overlay_full: "length bs = length mem \<Longrightarrow> overlay 0 bs mem = bs"
  by (simp add: overlay_def)

lemma dv_read_scalar_consumes:
  assumes "\<not> dd_is_array d" and "length bs = unat (dd_width d)"
  shows "consumes (dv_read junk d) bs (dv_make_with d bs)"
  unfolding consumes_def
proof (intro allI impI)
  fix b rest assume b: "db_ok b" "db_rest b = bs @ rest"
  let ?w = "unat (dd_width d)"
  have w: "?w < 2 ^ 63" "?w mod size_modulus = ?w"
    using width_less_32 [of "dd_width d"] by (simp_all add: size_modulus_def)
  have "length (db_data b) - db_offset b = length bs + length rest"
    using b by (metis db_rest_def length_append length_drop)
  then have "?w \<le> size_sub (length (db_data b)) (db_offset b)" using b(1) assms(2) by (simp add: db_ok_def)
  moreover have "db_read ?w b = Inr ((Decode_Success, bs), db_advance (length bs) b)"
    using b assms(2) by (simp add: db_read_success)
  ultimately show "dv_read junk d b = Inr (dv_make_with d bs, db_advance (length bs) b)"
    using assms w by (simp add: dv_read_def dv_read_count_def bindF_def Let_def new_bytes_def overlay_full)
qed

lemma dv_read_tame_scalar: "\<not> dd_is_array d \<Longrightarrow> db_ok b \<Longrightarrow> \<exists>v b'. dv_read junk d b = Inr (v, b') \<and> db_ok b'"
proof -
  assume d: "\<not> dd_is_array d" and b: "db_ok b"
  let ?w = "unat (dd_width d)"
  have w: "?w < 2 ^ 63" "?w mod size_modulus = ?w"
    using width_less_32 [of "dd_width d"] by (simp_all add: size_modulus_def)
  obtain r b' where r: "db_read ?w b = Inr (r, b')" using db_read_total [OF b] by blast
  then have "db_ok b'" using db_read_ok [OF b] by blast
  then show ?thesis
    using d b w r by (auto simp: dv_read_def dv_read_count_def bindF_def Let_def new_bytes_def)
qed

lemma dv_make_with_eq:
  assumes "dv_wf v"
  shows "dv_eq (dv_make_with (dv_data_type v) (dv_bytes v)) v = Inr True"
  using assms by (auto simp: dv_wf_def dv_eq_def dv_make_with_def dv_bytes_def mem_equal_take split: option.splits)

lemma dv_set_wf:
  "dv_wf v \<Longrightarrow> length bs = unat (dd_width (dv_data_type v)) \<Longrightarrow> dv_set d bs v = Inr (v\<lparr>dv_value := Some bs\<rparr>)"
  by (auto simp: dv_wf_def dv_set_def overlay_full split: option.splits)

lemma dv_get_set:
  "dv_wf v \<Longrightarrow> length bs = unat (dd_width (dv_data_type v)) \<Longrightarrow>
   \<exists>v'. dv_set d bs v = Inr v' \<and> dv_wf v' \<and> dv_data_type v' = dv_data_type v \<and> dv_get (length bs) v' = Inr bs"
  by (simp add: dv_set_wf dv_wf_def dv_get_def mem_read_def)

text \<open>Bytes read over a \<open>size_t\<close> that holds 1: with at least one byte, their value.\<close>

lemma le_val_append_zeros: "le_val (bs @ replicate n 0) = le_val bs"
proof (induction bs)
  case Nil
  show ?case by (induction n) auto
qed simp

lemma count_overlay:
  assumes "length bs \<in> {1..8}"
  shows "le_val (overlay 0 bs (le_bytes 8 1)) = le_val bs"
proof -
  have "le_bytes 8 1 = 1 # replicate 7 0" by code_simp
  moreover obtain k where "length bs = Suc k" using assms by (cases "length bs") auto
  ultimately have "overlay 0 bs (le_bytes 8 1) = bs @ replicate (7 - k) 0" by (simp add: overlay_def)
  then show ?thesis by (simp only: le_val_append_zeros)
qed

section \<open>Properties\<close>

text \<open>
  A scalar value that was set is what the receiver gets: \<open>set\<close> of a value of the declared width
  keeps the block's size, encoding writes exactly these bytes, decoding them with the same declaration gives
  a value that compares equal, and \<open>get\<close> on it returns what was set.
\<close>

theorem data_value_roundtrip:
  assumes "dv_wf v" and "\<not> dd_is_array (dv_data_type v)" and "length bs = unat (dd_width (dv_data_type v))"
    and "eb_ok b" and "eb_room b (dv_encoded_size v)"
  shows "\<exists>v' b' v'' c. dv_set d bs v = Inr v' \<and> dv_encode v' b = Inr (Encode_Success, b') \<and>
    dv_read junk (dv_data_type v) (db_of (eb_data b') (eb_offset b)) = Inr (v'', c) \<and>
    db_offset c = eb_offset b' \<and> dv_eq v'' v' = Inr True \<and> dv_get (length bs) v'' = Inr bs"
proof -
  let ?v' = "v\<lparr>dv_value := Some bs\<rparr>"
  have wf: "dv_wf ?v'" using assms(3) by (simp add: dv_wf_def)
  have bytes: "dv_bytes ?v' = bs" by (simp add: dv_bytes_def)
  have "\<exists>b' c. dv_encode ?v' b = Inr (Encode_Success, b') \<and> eb_ok b' \<and> eb_offset b' = eb_offset b + length bs \<and>
      eb_written b' = eb_written b @ bs \<and>
      dv_read junk (dv_data_type v) (db_of (eb_data b') (eb_offset b)) = Inr (dv_make_with (dv_data_type v) bs, c) \<and>
      db_offset c = eb_offset b'"
    using assms bytes dv_encode_writes [OF wf]
    by (intro write_then_read dv_read_scalar_consumes) (simp_all add: dv_encoded_size_def)
  moreover have "dv_eq (dv_make_with (dv_data_type v) bs) ?v' = Inr True"
    using dv_make_with_eq [OF wf] bytes by simp
  moreover have "dv_get (length bs) (dv_make_with (dv_data_type v) bs) = Inr bs"
    by (simp add: dv_get_def dv_make_with_def mem_read_def)
  ultimately show ?thesis using dv_set_wf [OF assms(1,3)] by blast
qed

theorem data_value_roundtrip_witness:
  "\<exists>v' b' v'' c. dv_set dd_example [1, 2] (dv_make dd_example) = Inr v' \<and> dv_encode v' (eb_new 4) = Inr (Encode_Success, b') \<and>
    dv_read (\<lambda>_. 170) (dv_data_type (dv_make dd_example)) (db_of (eb_data b') (eb_offset (eb_new 4))) = Inr (v'', c) \<and>
    db_offset c = eb_offset b' \<and> dv_eq v'' v' = Inr True \<and> dv_get (length [1 :: byte, 2]) v'' = Inr [1, 2]"
  by (rule data_value_roundtrip) (simp_all add: dv_make_def dv_wf_def dd_example_def dd_new_def dv_encoded_size_def)

text \<open>
  Array values do not survive the wire. Encoding an array value writes one element and no count,
  while decoding reads a count first, with the width of an element: at the bytes of an encoded array value
  it takes the element itself for the count and looks for the elements in whatever follows.
\<close>

theorem array_value_count_confusion:
  assumes "dv_wf v" and "dd_is_array (dv_data_type v)" and "unat (dd_width (dv_data_type v)) \<in> {1..8}"
  shows "(\<exists>b'. dv_encode v (eb_new (dv_encoded_size v)) = Inr (Encode_Success, b') \<and> eb_data b' = dv_bytes v) \<and>
    (\<exists>c. dv_read_count (dv_data_type v) (db_of (dv_bytes v @ rest) 0) = Inr (le_val (dv_bytes v), c) \<and> db_rest c = rest)"
proof
  let ?w = "unat (dd_width (dv_data_type v))"
  have len: "length (dv_bytes v) = ?w" using assms(1) by (rule length_dv_bytes)
  have "dv_encode v (eb_new (dv_encoded_size v)) = Inr (Encode_Success, \<lparr>eb_data = dv_bytes v, eb_offset = length (dv_bytes v)\<rparr>)"
    using write_exact [OF dv_encode_writes [OF assms(1)]] len by (simp add: dv_encoded_size_def)
  then show "\<exists>b'. dv_encode v (eb_new (dv_encoded_size v)) = Inr (Encode_Success, b') \<and> eb_data b' = dv_bytes v"
    by simp
  let ?b = "db_of (dv_bytes v @ rest) 0"
  have "db_read ?w ?b = Inr ((Decode_Success, dv_bytes v), db_advance ?w ?b)"
    using len by (simp add: db_read_success)
  moreover have "le_val (overlay 0 (dv_bytes v) (le_bytes 8 1)) = le_val (dv_bytes v)"
    by (rule count_overlay) (simp only: len assms(3))
  ultimately show "\<exists>c. dv_read_count (dv_data_type v) ?b = Inr (le_val (dv_bytes v), c) \<and> db_rest c = rest"
    using assms(2,3) len by (simp add: dv_read_count_def bindF_def)
qed

theorem array_value_count_confusion_witness:
  "(\<exists>b'. dv_encode (dv_make (dd_example\<lparr>dd_is_array := True\<rparr>)) (eb_new (dv_encoded_size (dv_make (dd_example\<lparr>dd_is_array := True\<rparr>))))
      = Inr (Encode_Success, b') \<and> eb_data b' = dv_bytes (dv_make (dd_example\<lparr>dd_is_array := True\<rparr>))) \<and>
    (\<exists>c. dv_read_count (dv_data_type (dv_make (dd_example\<lparr>dd_is_array := True\<rparr>)))
        (db_of (dv_bytes (dv_make (dd_example\<lparr>dd_is_array := True\<rparr>)) @ [1, 2, 3]) 0)
      = Inr (le_val (dv_bytes (dv_make (dd_example\<lparr>dd_is_array := True\<rparr>))), c) \<and> db_rest c = [1, 2, 3])"
  by (rule array_value_count_confusion) (simp_all add: dd_example_def dd_new_def)

end
