(* ===== verification/ModuleControl.thy ===== *)
theory ModuleControl
  imports Configuration DataValue
begin

text \<open>
  Module-control messages (\<^verbatim>\<open>include/crisp/comms/ModuleControl.hh\<close>, \<^verbatim>\<open>src/comms/ModuleControl.cc\<close>): a set of inputs of
  one module, as a bit field, with a value for each. The highest bit marks a \<^emph>\<open>clear\<close> message, which has no
  values. The build defines \<open>ENABLE_ASSERT\<close>, so the assertions are part of the model.

  The pointers to the module and to the inputs are modelled by what they point to; \<open>mc_module\<close> is \<open>Inl\<close> for
  a pointer that can not be followed (null, or outside the array of modules).
\<close>

section \<open>The code\<close>

record value_pair =
  vp_input :: module_input
  vp_value :: data_value

record module_control =
  mc_module_id :: byte
  mc_input_ids :: u16
  mc_module :: "fault + module"
  mc_values :: "value_pair sarray"

definition mc_HeaderSize :: nat where
  "mc_HeaderSize = 3"

definition mc_new :: module_control where
  "mc_new = \<lparr>mc_module_id = 0, mc_input_ids = 0, mc_module = Inl Null_deref, mc_values = sa_alloc 0\<rparr>"

text \<open>The capacity argument defaults to the number of inputs (\<open>None\<close>).\<close>

definition mc_make :: "module option \<Rightarrow> nat option \<Rightarrow> module_control" where
  "mc_make mp cap =
     (case mp of
        None \<Rightarrow> mc_new
      | Some m \<Rightarrow> mc_new\<lparr>mc_module_id := md_id m, mc_module := Inr m,
          mc_values := (case cap of
              None \<Rightarrow> sa_ensure_capacity (unat (md_num_inputs m)) (sa_alloc 0)
            | Some n \<Rightarrow> if n > 0 then sa_ensure_capacity n (sa_alloc 0) else sa_alloc 0)\<rparr>)"

definition mc_move :: "module_control \<Rightarrow> module_control \<times> module_control" where
  "mc_move c = (c, c\<lparr>mc_values := snd (sa_move (mc_values c))\<rparr>)"

definition mc_move_assign :: "module_control \<Rightarrow> module_control \<Rightarrow> module_control \<times> module_control" where
  "mc_move_assign t c =
     (t\<lparr>mc_module_id := mc_module_id c, mc_input_ids := mc_input_ids c, mc_module := mc_module c,
        mc_values := fst (sa_move_assign (mc_values c))\<rparr>,
      c\<lparr>mc_values := snd (sa_move_assign (mc_values c))\<rparr>)"

definition mc_reset :: "fault + module \<Rightarrow> module_control \<Rightarrow> module_control" where
  "mc_reset mp c = c\<lparr>mc_module_id := 0, mc_input_ids := 0, mc_module := mp, mc_values := sa_clear (mc_values c)\<rparr>"

definition mc_is_clear :: "module_control \<Rightarrow> bool" where
  "mc_is_clear c \<longleftrightarrow> bit (mc_input_ids c) 15"

definition mc_num_values :: "module_control \<Rightarrow> nat" where
  "mc_num_values c = (if mc_is_clear c then 0 else length (filter (bit (mc_input_ids c)) [0..<15]))"

definition vp_eq :: "value_pair \<Rightarrow> value_pair \<Rightarrow> fault + bool" where
  "vp_eq p q =
     bindE (mi_eq (vp_input p) (vp_input q)) (\<lambda>e. if e then dv_eq (vp_value p) (vp_value q) else Inr False)"

fun mc_sizes :: "value_pair sarray \<Rightarrow> nat list \<Rightarrow> fault + nat" where
  "mc_sizes a [] = Inr 0"
| "mc_sizes a (i # is) =
     bindE (sa_get i a) (\<lambda>p. bindE (mc_sizes a is) (\<lambda>t. Inr (dv_encoded_size (vp_value p) + t)))"

definition mc_encoded_size :: "module_control \<Rightarrow> fault + nat" where
  "mc_encoded_size c = bindE (mc_sizes (mc_values c) [0..<mc_num_values c]) (\<lambda>t. Inr (mc_HeaderSize + t))"

definition mc_eq :: "module_control \<Rightarrow> module_control \<Rightarrow> fault + bool" where
  "mc_eq c d =
     (if mc_module_id c = mc_module_id d \<and> mc_input_ids c = mc_input_ids d
      then if mc_num_values c = sa_size (mc_values c)
           then each_equal vp_eq (mc_values c) (mc_values d) [0..<mc_num_values c]
           else Inl Assert_failed
      else Inr False)"

text \<open>\<open>1 << id\<close> is a 32-bit shift; \<open>|=\<close> truncates to the sixteen bits of the field.\<close>

definition shl1 :: "byte \<Rightarrow> fault + u32" where
  "shl1 n = (if unat n < 32 then Inr (push_bit (unat n) 1) else Inl Arith_ub)"

definition mc_set_bit :: "byte \<Rightarrow> module_control \<Rightarrow> fault + module_control" where
  "mc_set_bit n c = bindE (shl1 n) (\<lambda>k. Inr (c\<lparr>mc_input_ids := mc_input_ids c OR ucast k\<rparr>))"

definition mc_mark_clear :: "module_control \<Rightarrow> module_control" where
  "mc_mark_clear c = c\<lparr>mc_input_ids := mc_input_ids c OR push_bit 15 1\<rparr>"

definition mc_clear_name :: "byte list \<Rightarrow> module_control \<Rightarrow> fault + module_control" where
  "mc_clear_name name c =
     (if mc_num_values c \<noteq> 0 then Inl Assert_failed
      else let c1 = mc_mark_clear c in
           bindE (mc_module c1) (\<lambda>m.
           bindE (md_find_input name m) (\<lambda>r.
             case r of
               None \<Rightarrow> Inr c1
             | Some i \<Rightarrow> bindE (sa_get i (md_inputs m)) (\<lambda>x. mc_set_bit (mi_input_id x) c1))))"

definition mc_clear_input :: "module_input \<Rightarrow> module_control \<Rightarrow> fault + module_control" where
  "mc_clear_input x c =
     (if mc_num_values c \<noteq> 0 then Inl Assert_failed else mc_set_bit (mi_input_id x) (mc_mark_clear c))"

text \<open>\<open>std::sort\<close> over the elements by input identifier, in place.\<close>

definition vp_id :: "value_pair \<Rightarrow> nat" where
  "vp_id p = unat (mi_input_id (vp_input p))"

definition sa_sort :: "('a \<Rightarrow> nat) \<Rightarrow> 'a sarray \<Rightarrow> fault + 'a sarray" where
  "sa_sort key a =
     bindE (sa_elems a) (\<lambda>xs.
       Inr (a\<lparr>sa_data := map_option (\<lambda>slots. map Some (sort_key key xs) @ drop (length xs) slots) (sa_data a)\<rparr>))"

fun index_where :: "('a \<Rightarrow> bool) \<Rightarrow> 'a list \<Rightarrow> nat option" where
  "index_where P [] = None"
| "index_where P (x # xs) = (if P x then Some 0 else map_option Suc (index_where P xs))"

text \<open>
  \<open>value_for\<close> finds the value of an input, adding a zeroed one first when its bit is not set, by calling
  itself again. The recursion may not end, so it takes fuel: \<open>None\<close> is running out of it. The pointer
  returned is the index of the value in the array (\<open>None\<close> for the null pointer).
\<close>

definition mc_asserts :: "module_input \<Rightarrow> module_control \<Rightarrow> fault + unit" where
  "mc_asserts x c =
     (case mc_module c of
        Inl Null_deref \<Rightarrow> Inl Assert_failed
      | Inl e \<Rightarrow> Inl e
      | Inr m \<Rightarrow> if mc_num_values c \<le> 15 \<and> mi_input_id x < md_num_inputs m then Inr () else Inl Assert_failed)"

fun mc_value_for :: "nat \<Rightarrow> module_input \<Rightarrow> module_control \<Rightarrow> (fault + nat option \<times> module_control) option" where
  "mc_value_for 0 x c = None"
| "mc_value_for (Suc fuel) x c =
     (case bindE (mc_asserts x c) (\<lambda>_. shl1 (mi_input_id x)) of
        Inl e \<Rightarrow> Some (Inl e)
      | Inr k \<Rightarrow>
          if ucast (mc_input_ids c) AND k = 0
          then case bindE (sa_push \<lparr>vp_input = x, vp_value = dv_make (mi_data_type x)\<rparr> (mc_values c)) (sa_sort vp_id) of
                 Inl e \<Rightarrow> Some (Inl e)
               | Inr a \<Rightarrow> mc_value_for fuel x (c\<lparr>mc_input_ids := mc_input_ids c OR ucast k, mc_values := a\<rparr>)
          else Some (bindE (sa_elems (mc_values c)) (\<lambda>ps.
                 Inr (index_where (\<lambda>p. mi_input_id (vp_input p) = mi_input_id x) ps, c))))"

definition mc_value_for_name :: "nat \<Rightarrow> byte list \<Rightarrow> module_control \<Rightarrow> (fault + nat option \<times> module_control) option" where
  "mc_value_for_name fuel name c =
     (case bindE (mc_module c) (\<lambda>m. bindE (md_find_input name m) (\<lambda>r.
             case r of None \<Rightarrow> Inr None | Some i \<Rightarrow> bindE (sa_get i (md_inputs m)) (\<lambda>x. Inr (Some x)))) of
        Inl e \<Rightarrow> Some (Inl e)
      | Inr None \<Rightarrow> Some (Inr (None, c))
      | Inr (Some x) \<Rightarrow> mc_value_for fuel x c)"

definition mc_store :: "data_decl \<Rightarrow> byte list \<Rightarrow> nat option \<times> module_control \<Rightarrow> fault + module_control" where
  "mc_store d bs r =
     (case fst r of
        None \<Rightarrow> Inr (snd r)
      | Some i \<Rightarrow>
          bindE (sa_get i (mc_values (snd r))) (\<lambda>p.
          bindE (dv_set d bs (vp_value p)) (\<lambda>v.
          bindE (sa_modify i (\<lambda>q. q\<lparr>vp_value := v\<rparr>) (mc_values (snd r))) (\<lambda>a. Inr (snd r\<lparr>mc_values := a\<rparr>)))))"

definition mc_set :: "nat \<Rightarrow> module_input \<Rightarrow> data_decl \<Rightarrow> byte list \<Rightarrow> module_control \<Rightarrow> (fault + module_control) option" where
  "mc_set fuel x d bs c = map_option (\<lambda>r. bindE r (mc_store d bs)) (mc_value_for fuel x c)"

definition mc_get :: "nat \<Rightarrow> module_input \<Rightarrow> nat \<Rightarrow> module_control \<Rightarrow> (fault + byte list \<times> module_control) option" where
  "mc_get fuel x sz c =
     map_option (\<lambda>r. bindE r (\<lambda>(i, c').
         case i of
           None \<Rightarrow> Inr (replicate sz 0, c')
         | Some k \<Rightarrow> bindE (sa_get k (mc_values c')) (\<lambda>p. bindE (dv_get sz (vp_value p)) (\<lambda>bs. Inr (bs, c')))))
       (mc_value_for fuel x c)"

definition mc_header :: "module_control \<Rightarrow> byte list" where
  "mc_header c = [mc_module_id c] @ le_bytes 2 (unat (mc_input_ids c))"

fun mc_encode_values :: "value_pair sarray \<Rightarrow> nat list \<Rightarrow> (encode_buffer, encode_result) sfm" where
  "mc_encode_values a [] = retF Encode_Success"
| "mc_encode_values a (i # is) =
     checkedF (bindF (liftF (sa_get i a)) (\<lambda>p. dv_encode (vp_value p))) (mc_encode_values a is)"

definition mc_encode :: "module_control \<Rightarrow> (encode_buffer, encode_result) sfm" where
  "mc_encode c =
     uncheckedF (eb_write (mc_header c))
       (if mc_is_clear c then retF Encode_Success else mc_encode_values (mc_values c) [0..<mc_num_values c])"

text \<open>
  Decoding peeks at the module identifier without a length check, points at that module (unchecked, only
  followed once a value is present), and reads a value for each bit, of the input \<^emph>\<open>at that index\<close>.
\<close>

definition mc_set_header :: "byte list \<Rightarrow> module_control \<Rightarrow> module_control" where
  "mc_set_header bs c = c\<lparr>mc_module_id := bs ! 0, mc_input_ids := of_nat (le_val (take 2 (drop 1 bs)))\<rparr>"

definition mc_read_value ::
    "(nat \<Rightarrow> byte) \<Rightarrow> configuration \<Rightarrow> byte \<Rightarrow> nat \<Rightarrow> (decode_buffer, value_pair) sfm" where
  "mc_read_value junk cfg mid i =
     bindF (liftF (sa_get (unat mid) (cf_modules cfg))) (\<lambda>m.
     bindF (assertF (i < unat (md_num_inputs m))) (\<lambda>_.
     bindF (liftF (sa_get i (md_inputs m))) (\<lambda>x.
     bindF (dv_read junk (mi_data_type x)) (\<lambda>v. retF \<lparr>vp_input = x, vp_value = v\<rparr>))))"

fun mc_read_values ::
    "(nat \<Rightarrow> byte) \<Rightarrow> configuration \<Rightarrow> byte \<Rightarrow> nat list \<Rightarrow> value_pair sarray \<Rightarrow> (decode_buffer, value_pair sarray) sfm" where
  "mc_read_values junk cfg mid [] a = retF a"
| "mc_read_values junk cfg mid (i # is) a =
     bindF (mc_read_value junk cfg mid i) (\<lambda>p. bindF (liftF (sa_push p a)) (mc_read_values junk cfg mid is))"

definition mc_decode ::
    "(nat \<Rightarrow> byte) \<Rightarrow> configuration \<Rightarrow> module_control \<Rightarrow> (decode_buffer, decode_result \<times> module_control) sfm" where
  "mc_decode junk cfg c = (\<lambda>b.
     if length (db_data b) \<le> db_offset b then Inl Out_of_bounds
     else
       let c1 = mc_reset (sa_get (unat (db_data b ! db_offset b)) (cf_modules cfg)) c in
       bindF (db_read mc_HeaderSize) (\<lambda>r.
         let c2 = stored r mc_set_header c1 in
         if mc_is_clear c2 then retF (Decode_Success, c2)
         else let n = mc_num_values c2;
                  a = (if n > 0 then sa_ensure_capacity n (mc_values c2) else mc_values c2) in
              bindF (mc_read_values junk cfg (mc_module_id c2) (filter (bit (mc_input_ids c2)) [0..<16]) a)
                (\<lambda>a'. retF (Decode_Success, c2\<lparr>mc_values := a'\<rparr>))) b)"

section \<open>Bits\<close>

lemma shl1_less: "unat n < 32 \<Longrightarrow> shl1 n = Inr (2 ^ unat n)"
  by (simp add: shl1_def)

lemma input_bit_test: "i < 16 \<Longrightarrow> (ucast (ids :: u16) :: u32) AND 2 ^ i = 0 \<longleftrightarrow> \<not> bit ids i"
  by (simp add: and_exp_eq_0_iff_not_bit bit_ucast_iff)

lemma input_bit_high: "16 \<le> i \<Longrightarrow> (ucast (ids :: u16) :: u32) AND 2 ^ i = 0"
  using bit_imp_le_length [of ids i] by (auto simp: and_exp_eq_0_iff_not_bit bit_ucast_iff)

lemma input_bit_set: "i < 16 \<Longrightarrow> bit ((ids :: u16) OR ucast (2 ^ i :: u32)) j \<longleftrightarrow> bit ids j \<or> j = i"
  by (auto simp: bit_or_iff bit_ucast_iff bit_exp_iff)

lemma input_bit_set_high: "16 \<le> i \<Longrightarrow> (ids :: u16) OR ucast (2 ^ i :: u32) = ids"
  by (rule bit_word_eqI) (auto simp: bit_or_iff bit_ucast_iff bit_exp_iff)

lemma of_nat_le_val_ids: "of_nat (le_val (le_bytes 2 (unat (ids :: u16)))) = ids"
  by (rule of_nat_le_val_u16)

section \<open>Sorted value lists\<close>

lemma sa_sort_mk [simp]: "length xs \<le> cap \<Longrightarrow> sa_sort key (sa_mk xs cap) = Inr (sa_mk (sort_key key xs) cap)"
  by (simp add: sa_sort_def) (auto simp: sa_mk_def)

lemma map_sort_key:
  assumes "distinct (map f xs)" and "sorted ys" and "distinct ys" and "set ys = f ` set xs"
  shows "map f (sort_key f xs) = ys"
proof (rule sorted_distinct_set_unique)
  show "distinct (map f (sort_key f xs))" using assms(1) by (simp add: distinct_map)
qed (use assms in auto)

lemma map_of_sort_key:
  assumes "distinct (map f xs)"
  shows "map_of (map (\<lambda>x. (f x, g x)) (sort_key f xs)) = map_of (map (\<lambda>x. (f x, g x)) xs)"
proof
  fix k
  have d: "distinct (map fst (map (\<lambda>x. (f x, g x)) xs))" "distinct (map fst (map (\<lambda>x. (f x, g x)) (sort_key f xs)))"
    using assms by (simp_all add: comp_def distinct_map)
  have "map_of (map (\<lambda>x. (f x, g x)) (sort_key f xs)) k = Some y \<longleftrightarrow> map_of (map (\<lambda>x. (f x, g x)) xs) k = Some y" for y
    using map_of_eq_Some_iff [OF d(1)] map_of_eq_Some_iff [OF d(2)] by simp
  then show "map_of (map (\<lambda>x. (f x, g x)) (sort_key f xs)) k = map_of (map (\<lambda>x. (f x, g x)) xs) k"
    by (cases "map_of (map (\<lambda>x. (f x, g x)) xs) k") (auto intro: option.exhaust)
qed

lemma index_where_Some: "index_where P xs = Some k \<Longrightarrow> k < length xs \<and> P (xs ! k)"
  by (induction xs arbitrary: k) (auto split: if_splits)

lemma index_where_exists: "\<exists>x \<in> set xs. P x \<Longrightarrow> \<exists>k. index_where P xs = Some k"
  by (induction xs) auto

section \<open>The invariant\<close>

text \<open>A module whose inputs are numbered by their positions, at most fifteen of them, all scalar.\<close>

definition md_numbered :: "module \<Rightarrow> bool" where
  "md_numbered m \<longleftrightarrow> md_wf m \<and> unat (md_num_inputs m) \<le> 15 \<and>
     (\<forall>i < unat (md_num_inputs m). unat (mi_input_id (sa_list (md_inputs m) ! i)) = i \<and>
        \<not> dd_is_array (mi_data_type (sa_list (md_inputs m) ! i)))"

definition vp_ok :: "module \<Rightarrow> value_pair \<Rightarrow> bool" where
  "vp_ok m p \<longleftrightarrow> vp_id p < unat (md_num_inputs m) \<and> vp_input p = sa_list (md_inputs m) ! vp_id p \<and>
     dv_wf (vp_value p) \<and> dv_data_type (vp_value p) = mi_data_type (vp_input p)"

text \<open>The values are sorted by input and are those of the bits that are set.\<close>

definition mc_inv :: "module \<Rightarrow> module_control \<Rightarrow> bool" where
  "mc_inv m c \<longleftrightarrow> mc_module c = Inr m \<and> mc_module_id c = md_id m \<and> \<not> mc_is_clear c \<and> sa_inv (mc_values c) \<and>
     map vp_id (sa_list (mc_values c)) = filter (bit (mc_input_ids c)) [0..<15] \<and>
     list_all (vp_ok m) (sa_list (mc_values c))"

text \<open>The abstract value of a control message: a finite map from input numbers to values.\<close>

definition mc_abs :: "module_control \<Rightarrow> nat \<rightharpoonup> data_value" where
  "mc_abs c = map_of (map (\<lambda>p. (vp_id p, vp_value p)) (sa_list (mc_values c)))"

lemma mc_num_values_le: "mc_num_values c \<le> 15"
  using length_filter_le [of "bit (mc_input_ids c)" "[0..<15]"] by (simp add: mc_num_values_def)

lemma mc_num_values_size: "mc_inv m c \<Longrightarrow> mc_num_values c = sa_size (mc_values c)"
  by (metis length_map mc_inv_def mc_num_values_def sa_size_list)

lemma mc_inv_distinct: "mc_inv m c \<Longrightarrow> distinct (map vp_id (sa_list (mc_values c)))"
  by (simp add: mc_inv_def)

lemma mc_inv_ids: "mc_inv m c \<Longrightarrow> vp_id ` set (sa_list (mc_values c)) = {i. i < 15 \<and> bit (mc_input_ids c) i}"
proof -
  assume "mc_inv m c"
  then have "set (map vp_id (sa_list (mc_values c))) = set (filter (bit (mc_input_ids c)) [0..<15])"
    by (simp only: mc_inv_def)
  then show ?thesis by auto
qed

lemma mc_asserts_ok:
  assumes "md_numbered m" and "mc_inv m c" and "i < unat (md_num_inputs m)"
  shows "mc_asserts (sa_list (md_inputs m) ! i) c = Inr ()"
    and "shl1 (mi_input_id (sa_list (md_inputs m) ! i)) = Inr (2 ^ i)" and "i < 15"
  using assms mc_num_values_le [of c]
  by (auto simp: mc_asserts_def mc_inv_def md_numbered_def word_less_nat_alt shl1_less)

section \<open>Looking up and adding values\<close>

lemma mc_value_for_present:
  assumes "md_numbered m" and "mc_inv m c" and "i < unat (md_num_inputs m)" and "bit (mc_input_ids c) i"
  shows "\<exists>k. mc_value_for (Suc fuel) (sa_list (md_inputs m) ! i) c = Some (Inr (Some k, c)) \<and>
    k < length (sa_list (mc_values c)) \<and> vp_id (sa_list (mc_values c) ! k) = i"
proof -
  let ?x = "sa_list (md_inputs m) ! i"
  note ok = mc_asserts_ok [OF assms(1-3)]
  obtain vs cap where vs: "mc_values c = sa_mk vs cap" "length vs \<le> cap" "sa_list (mc_values c) = vs"
    using assms(2) by (auto simp: mc_inv_def elim!: sa_invE)
  have x: "unat (mi_input_id ?x) = i" using assms(1,3) by (simp add: md_numbered_def)
  have P: "(mi_input_id (vp_input p) = mi_input_id ?x) = (vp_id p = i)" for p
    using x by (auto simp: vp_id_def word_unat_eq_iff)
  have "i \<in> vp_id ` set vs" using mc_inv_ids [OF assms(2)] ok(3) assms(4) vs by simp
  then have "\<exists>p \<in> set vs. vp_id p = i" by auto
  then obtain k where k: "index_where (\<lambda>p. vp_id p = i) vs = Some k" using index_where_exists [of vs "\<lambda>p. vp_id p = i"] by blast
  from index_where_Some [OF this] have found: "k < length vs" "vp_id (vs ! k) = i" by auto
  have "index_where (\<lambda>p. mi_input_id (vp_input p) = mi_input_id ?x) vs = Some k" using k by (simp only: P)
  then have "mc_value_for (Suc fuel) ?x c = Some (Inr (Some k, c))"
    using ok assms(4) vs by (simp add: input_bit_test)
  with found vs(3) show ?thesis by simp
qed

definition mc_added :: "module_input \<Rightarrow> nat \<Rightarrow> module_control \<Rightarrow> value_pair sarray \<Rightarrow> module_control" where
  "mc_added x i c a = c\<lparr>mc_input_ids := mc_input_ids c OR ucast (2 ^ i :: u32), mc_values := a\<rparr>"

lemma mc_value_for_absent:
  assumes "md_numbered m" and "mc_inv m c" and "i < unat (md_num_inputs m)" and "\<not> bit (mc_input_ids c) i"
  shows "\<exists>c'. (\<forall>fuel. mc_value_for (Suc fuel) (sa_list (md_inputs m) ! i) c = mc_value_for fuel (sa_list (md_inputs m) ! i) c') \<and>
    mc_inv m c' \<and> bit (mc_input_ids c') i \<and>
    mc_abs c' = (mc_abs c)(i \<mapsto> dv_make (mi_data_type (sa_list (md_inputs m) ! i)))"
proof -
  let ?x = "sa_list (md_inputs m) ! i"
  let ?p = "\<lparr>vp_input = ?x, vp_value = dv_make (mi_data_type ?x)\<rparr>"
  note ok = mc_asserts_ok [OF assms(1-3)]
  obtain vs cap where vs: "mc_values c = sa_mk vs cap" "length vs \<le> cap" "sa_list (mc_values c) = vs"
    using assms(2) by (auto simp: mc_inv_def elim!: sa_invE)
  have x: "unat (mi_input_id ?x) = i" using assms(1,3) by (simp add: md_numbered_def)
  then have pid: "vp_id ?p = i" by (simp add: vp_id_def)
  let ?vs = "sort_key vp_id (vs @ [?p])"
  let ?cap = "sa_grow cap (length vs + 1)"
  define c' where "c' = mc_added ?x i c (sa_mk ?vs ?cap)"
  have len: "length ?vs \<le> ?cap" by simp
  have ids: "i \<notin> vp_id ` set vs" using mc_inv_ids [OF assms(2)] assms(4) vs by auto
  have dist: "distinct (map vp_id (vs @ [?p]))" using mc_inv_distinct [OF assms(2)] ids pid vs by simp
  have bits: "bit (mc_input_ids c') j \<longleftrightarrow> bit (mc_input_ids c) j \<or> j = i" for j
    using ok(3) input_bit_set [of i "mc_input_ids c" j] by (simp add: c'_def mc_added_def)
  have c': "mc_values c' = sa_mk ?vs ?cap" "sa_list (mc_values c') = ?vs" using len by (simp_all add: c'_def mc_added_def)
  have "map vp_id ?vs = filter (bit (mc_input_ids c')) [0..<15]"
  proof (rule map_sort_key [OF dist])
    show "set (filter (bit (mc_input_ids c')) [0..<15]) = vp_id ` set (vs @ [?p])"
      using mc_inv_ids [OF assms(2)] vs pid bits ok(3) by auto
  qed (simp_all add: sorted_wrt_filter)
  moreover have "vp_ok m ?p" using assms(3) pid by (simp add: vp_ok_def)
  ultimately have inv: "mc_inv m c'"
    using assms(2) c' len bits [of 15] ok(3) vs
    by (auto simp: mc_inv_def mc_is_clear_def list_all_iff c'_def mc_added_def)
  have "mc_abs c' = map_of (map (\<lambda>p. (vp_id p, vp_value p)) (vs @ [?p]))"
    unfolding mc_abs_def c'(2) using dist by (rule map_of_sort_key)
  also have "\<dots> = (mc_abs c)(i \<mapsto> dv_make (mi_data_type ?x))"
  proof -
    have "map_of (map (\<lambda>p. (vp_id p, vp_value p)) vs) i = None" using ids by (auto simp: map_of_eq_None_iff)
    then show ?thesis using pid vs by (auto simp: mc_abs_def map_add_def fun_eq_iff split: option.splits)
  qed
  finally have abs: "mc_abs c' = (mc_abs c)(i \<mapsto> dv_make (mi_data_type ?x))" .
  have "mc_value_for (Suc fuel) ?x c = mc_value_for fuel ?x c'" for fuel
    using ok assms(4) vs by (simp add: input_bit_test c'_def mc_added_def)
  with inv abs bits [of i] show ?thesis by blast
qed

text \<open>Updating an association list with distinct keys in place.\<close>

lemma map_of_update:
  "distinct (map fst xs) \<Longrightarrow> k < length xs \<Longrightarrow> map_of (xs[k := (fst (xs ! k), v)]) = (map_of xs)(fst (xs ! k) \<mapsto> v)"
proof (induction xs arbitrary: k)
  case (Cons x xs)
  show ?case
  proof (cases k)
    case 0
    then show ?thesis by (cases x) (simp add: fun_eq_iff)
  next
    case (Suc n)
    with Cons.prems(2) have "fst (xs ! n) \<in> set (map fst xs)" by simp
    moreover have "fst x \<notin> set (map fst xs)" using Cons.prems(1) by simp
    ultimately have "fst x \<noteq> fst (xs ! n)" by metis
    with Suc Cons show ?thesis by (cases x) (auto simp: fun_eq_iff)
  qed
qed simp

text \<open>Two calls are enough for every input of the module.\<close>

lemma mc_value_for_total:
  assumes "md_numbered m" and "mc_inv m c" and "i < unat (md_num_inputs m)" and "2 \<le> fuel"
  shows "\<exists>k c'. mc_value_for fuel (sa_list (md_inputs m) ! i) c = Some (Inr (Some k, c')) \<and> mc_inv m c' \<and>
    k < length (sa_list (mc_values c')) \<and> vp_id (sa_list (mc_values c') ! k) = i \<and>
    mc_abs c' = (if i \<in> dom (mc_abs c) then mc_abs c
                 else (mc_abs c)(i \<mapsto> dv_make (mi_data_type (sa_list (md_inputs m) ! i))))"
proof -
  obtain f where f: "fuel = Suc (Suc f)" using assms(4) by (metis Suc_le_D numeral_2_eq_2 Suc_le_mono)
  have dom: "i \<in> dom (mc_abs c) \<longleftrightarrow> bit (mc_input_ids c) i"
    using mc_inv_ids [OF assms(2)] mc_asserts_ok(3) [OF assms(1-3)]
    by (auto simp: mc_abs_def dom_map_of_conv_image_fst image_image)
  show ?thesis
  proof (cases "bit (mc_input_ids c) i")
    case True
    with mc_value_for_present [OF assms(1-3) True, of "Suc f"] assms(2) dom f show ?thesis by auto
  next
    case False
    obtain c' where c': "mc_value_for fuel (sa_list (md_inputs m) ! i) c = mc_value_for (Suc f) (sa_list (md_inputs m) ! i) c'"
      "mc_inv m c'" "bit (mc_input_ids c') i"
      "mc_abs c' = (mc_abs c)(i \<mapsto> dv_make (mi_data_type (sa_list (md_inputs m) ! i)))"
      using mc_value_for_absent [OF assms(1-3) False] f by blast
    with mc_value_for_present [OF assms(1) c'(2) assms(3) c'(3), of f] dom False show ?thesis by auto
  qed
qed

lemma mc_abs_nth:
  assumes "mc_inv m c" and "k < length (sa_list (mc_values c))"
  shows "mc_abs c (vp_id (sa_list (mc_values c) ! k)) = Some (vp_value (sa_list (mc_values c) ! k))"
  unfolding mc_abs_def using mc_inv_distinct [OF assms(1)] assms(2)
  by (intro map_of_is_SomeI) (auto simp: comp_def)

text \<open>Storing into the value found updates the map at its input.\<close>

lemma mc_store_inv:
  assumes "mc_inv m c" and "k < length (sa_list (mc_values c))"
    and "length bs = unat (dd_width (dv_data_type (vp_value (sa_list (mc_values c) ! k))))"
  shows "\<exists>c' v. mc_store d bs (Some k, c) = Inr c' \<and> mc_inv m c' \<and> dv_bytes v = bs \<and> dv_wf v \<and>
    mc_abs c' = (mc_abs c)(vp_id (sa_list (mc_values c) ! k) \<mapsto> v)"
proof -
  obtain vs cap where vs: "mc_values c = sa_mk vs cap" "length vs \<le> cap" "sa_list (mc_values c) = vs"
    using assms(1) by (auto simp: mc_inv_def elim!: sa_invE)
  let ?p = "vs ! k"
  define v where "v = vp_value ?p\<lparr>dv_value := Some bs\<rparr>"
  define c' where "c' = c\<lparr>mc_values := sa_mk (vs[k := ?p\<lparr>vp_value := v\<rparr>]) cap\<rparr>"
  have k: "k < length vs" using assms(2) vs by simp
  have p: "vp_ok m ?p" using assms(1) k vs by (simp add: mc_inv_def list_all_length)
  then have wf: "dv_wf (vp_value ?p)" by (simp add: vp_ok_def)
  have v: "dv_bytes v = bs" "dv_wf v" "dv_data_type v = dv_data_type (vp_value ?p)"
    using assms(3) vs by (simp_all add: v_def dv_bytes_def dv_wf_def)
  have "dv_set d bs (vp_value ?p) = Inr v" using dv_set_wf [OF wf] assms(3) vs by (simp add: v_def)
  then have store: "mc_store d bs (Some k, c) = Inr c'"
    using k vs by (simp add: mc_store_def c'_def)
  have ids: "map vp_id (vs[k := ?p\<lparr>vp_value := v\<rparr>]) = map vp_id vs"
    using k by (simp add: map_update vp_id_def list_update_same_conv)
  have ok: "list_all (vp_ok m) (vs[k := ?p\<lparr>vp_value := v\<rparr>])"
  proof -
    have "list_all (vp_ok m) vs" using assms(1) vs by (simp add: mc_inv_def)
    moreover have "vp_ok m (?p\<lparr>vp_value := v\<rparr>)" using p v by (simp add: vp_ok_def vp_id_def)
    ultimately show ?thesis using set_update_subset_insert [of vs k "?p\<lparr>vp_value := v\<rparr>"] by (auto simp: list_all_iff)
  qed
  have inv: "mc_inv m c'"
    using assms(1) vs ids ok by (simp add: mc_inv_def c'_def mc_is_clear_def)
  have abs: "mc_abs c' = (mc_abs c)(vp_id ?p \<mapsto> v)"
  proof
    fix j
    have dist: "distinct (map vp_id vs)" using mc_inv_distinct [OF assms(1)] vs by simp
    have "map (\<lambda>p. (vp_id p, vp_value p)) (vs[k := ?p\<lparr>vp_value := v\<rparr>]) = (map (\<lambda>p. (vp_id p, vp_value p)) vs)[k := (vp_id ?p, v)]"
      by (simp add: map_update vp_id_def)
    moreover have "map fst (map (\<lambda>p. (vp_id p, vp_value p)) vs) = map vp_id vs" by simp
    ultimately show "mc_abs c' j = ((mc_abs c)(vp_id ?p \<mapsto> v)) j"
      using map_of_update [of "map (\<lambda>p. (vp_id p, vp_value p)) vs" k] k dist vs
      by (simp add: mc_abs_def c'_def comp_def)
  qed
  show ?thesis using store inv v abs vs by auto
qed

section \<open>On the wire\<close>

definition mc_encoding :: "module_control \<Rightarrow> byte list" where
  "mc_encoding c = mc_header c @ concat (map (\<lambda>p. dv_bytes (vp_value p)) (sa_list (mc_values c)))"

lemma length_mc_header [simp, layout_simps]: "length (mc_header c) = mc_HeaderSize"
  by (simp add: mc_header_def mc_HeaderSize_def)

lemma mc_encode_values_writes:
  assumes "list_all (vp_ok m) vs" and "length vs \<le> cap"
  shows "set is \<subseteq> {..<length vs} \<Longrightarrow>
    mem.writes (mc_encode_values (sa_mk vs cap) is) (concat (map (\<lambda>i. dv_bytes (vp_value (vs ! i))) is))"
proof (induction "is")
  case (Cons i "is")
  then have i: "i < length vs" by simp
  then have "dv_wf (vp_value (vs ! i))" using assms(1) by (simp add: list_all_length vp_ok_def)
  then have "mem.writes (bindF (liftF (sa_get i (sa_mk vs cap))) (\<lambda>p. dv_encode (vp_value p))) (dv_bytes (vp_value (vs ! i)))"
    using i assms(2) by (simp add: dv_encode_writes)
  then show ?case using Cons by (auto intro: mem.writes_checked)
qed (simp add: mem.writes_ret del: retF_apply)

lemma map_nth_values: "map (\<lambda>i. f (vs ! i)) [0..<length vs] = map f vs"
proof -
  have "map (\<lambda>i. f (vs ! i)) [0..<length vs] = map f (map ((!) vs) [0..<length vs])" by (simp only: map_map comp_def)
  then show ?thesis by (simp only: map_nth)
qed

lemma mc_encode_writes:
  assumes "mc_inv m c"
  shows "mem.writes (mc_encode c) (mc_encoding c)"
proof -
  obtain vs cap where vs: "mc_values c = sa_mk vs cap" "length vs \<le> cap" "sa_list (mc_values c) = vs"
    using assms by (auto simp: mc_inv_def elim!: sa_invE)
  have n: "mc_num_values c = length vs" using mc_num_values_size [OF assms] vs by simp
  have "mem.writes (mc_encode_values (sa_mk vs cap) [0..<length vs]) (concat (map (\<lambda>i. dv_bytes (vp_value (vs ! i))) [0..<length vs]))"
    using assms vs by (intro mc_encode_values_writes [of m]) (auto simp: mc_inv_def)
  then have "mem.writes (if mc_is_clear c then retF Encode_Success else mc_encode_values (mc_values c) [0..<mc_num_values c])
      (concat (map (\<lambda>p. dv_bytes (vp_value p)) vs))"
    using assms vs n map_nth_values [of "\<lambda>p. dv_bytes (vp_value p)" vs] by (simp add: mc_inv_def)
  then show ?thesis
    unfolding mc_encode_def mc_encoding_def vs(3) by (intro mem.writes_unchecked mem.writes_emit)
qed

lemma mc_encoded_size_law:
  assumes "mc_inv m c"
  shows "mc_encoded_size c = Inr (length (mc_encoding c))"
proof -
  obtain vs cap where vs: "mc_values c = sa_mk vs cap" "length vs \<le> cap" "sa_list (mc_values c) = vs"
    using assms by (auto simp: mc_inv_def elim!: sa_invE)
  have ok: "i < length vs \<Longrightarrow> dv_encoded_size (vp_value (vs ! i)) = length (dv_bytes (vp_value (vs ! i)))" for i
    using assms vs by (auto simp: mc_inv_def list_all_length vp_ok_def dv_encoded_size_def length_dv_bytes)
  have "mc_sizes (sa_mk vs cap) is = Inr (sum_list (map (\<lambda>i. length (dv_bytes (vp_value (vs ! i)))) is))"
    if "set is \<subseteq> {..<length vs}" for "is"
    using that vs(2) by (induction "is") (auto simp: ok)
  from this [of "[0..<length vs]"] show ?thesis
    using mc_num_values_size [OF assms] vs map_nth_values [of "\<lambda>p. length (dv_bytes (vp_value p))" vs]
    by (simp add: mc_encoded_size_def mc_encoding_def atLeast0LessThan length_concat comp_def)
qed

text \<open>Reading the values back, against a configuration that has the module at its identifier.\<close>

definition vp_received :: "value_pair \<Rightarrow> value_pair" where
  "vp_received p = p\<lparr>vp_value := dv_make_with (dv_data_type (vp_value p)) (dv_bytes (vp_value p))\<rparr>"

definition cf_has :: "configuration \<Rightarrow> module \<Rightarrow> bool" where
  "cf_has cfg m \<longleftrightarrow> sa_inv (cf_modules cfg) \<and> unat (md_id m) < sa_size (cf_modules cfg) \<and>
     sa_list (cf_modules cfg) ! unat (md_id m) = m"

lemma cf_has_get: "cf_has cfg m \<Longrightarrow> sa_get (unat (md_id m)) (cf_modules cfg) = Inr m"
  unfolding cf_has_def by (elim conjE sa_invE) (metis sa_get_mk sa_size_mk)

lemma mc_read_value_consumes:
  assumes "cf_has cfg m" and "md_numbered m" and "vp_ok m p"
  shows "consumes (mc_read_value junk cfg (md_id m) (vp_id p)) (dv_bytes (vp_value p)) (vp_received p)"
proof -
  let ?i = "vp_id p"
  obtain xs k where xs: "md_inputs m = sa_mk xs k" "length xs \<le> k" "sa_list (md_inputs m) = xs"
    using assms(2) by (auto simp: md_numbered_def md_wf_def elim!: sa_invE)
  have len: "length xs = unat (md_num_inputs m)" using assms(2) xs by (simp add: md_numbered_def md_wf_def)
  have i: "?i < unat (md_num_inputs m)" and x: "vp_input p = xs ! ?i" using assms(3) xs by (simp_all add: vp_ok_def)
  have d: "consumes (dv_read junk (mi_data_type (xs ! ?i))) (dv_bytes (vp_value p))
      (dv_make_with (mi_data_type (xs ! ?i)) (dv_bytes (vp_value p)))"
    using assms(2,3) i x xs
    by (intro dv_read_scalar_consumes) (simp_all add: md_numbered_def vp_ok_def length_dv_bytes)
  have last: "consumes (bindF (dv_read junk (mi_data_type (xs ! ?i))) (\<lambda>v. retF \<lparr>vp_input = xs ! ?i, vp_value = v\<rparr>))
      (dv_bytes (vp_value p)) \<lparr>vp_input = xs ! ?i, vp_value = dv_make_with (mi_data_type (xs ! ?i)) (dv_bytes (vp_value p))\<rparr>"
    by (rule consumes_bind_last [OF d]) (rule refl)
  have r: "vp_received p = \<lparr>vp_input = xs ! ?i, vp_value = dv_make_with (mi_data_type (xs ! ?i)) (dv_bytes (vp_value p))\<rparr>"
    using assms(3) x by (simp add: vp_received_def vp_ok_def)
  show ?thesis
    unfolding mc_read_value_def r using cf_has_get [OF assms(1)] i xs len last by (simp del: retF_apply)
qed

lemma mc_read_values_consumes:
  assumes "cf_has cfg m" and "md_numbered m"
  shows "list_all (vp_ok m) ps \<Longrightarrow> length ys + length ps \<le> cap \<Longrightarrow>
    consumes (mc_read_values junk cfg (md_id m) (map vp_id ps) (sa_mk ys cap))
      (concat (map (\<lambda>p. dv_bytes (vp_value p)) ps)) (sa_mk (ys @ map vp_received ps) cap)"
proof (induction ps arbitrary: ys)
  case Nil
  then show ?case by (simp add: consumes_ret del: retF_apply)
next
  case (Cons p ps)
  then have grow: "sa_grow cap (length ys + 1) = cap" by (simp add: sa_grow_def)
  have p: "consumes (mc_read_value junk cfg (md_id m) (vp_id p)) (dv_bytes (vp_value p)) (vp_received p)"
    using assms Cons.prems by (intro mc_read_value_consumes) simp_all
  have rest: "consumes (mc_read_values junk cfg (md_id m) (map vp_id ps) (sa_mk (ys @ [vp_received p]) cap))
      (concat (map (\<lambda>p. dv_bytes (vp_value p)) ps)) (sa_mk ((ys @ [vp_received p]) @ map vp_received ps) cap)"
    using Cons.prems by (intro Cons.IH) simp_all
  show ?case using Cons.prems grow rest by (auto intro!: consumes_bind [OF p])
qed

lemma filter_bits_16: "\<not> P 15 \<Longrightarrow> filter P [0..<16] = filter P [0..<15]"
proof -
  have "[0..<16] = [0..<15] @ [15]" using upt_Suc_append [of 0 15] by simp
  then show "\<not> P 15 \<Longrightarrow> ?thesis" by (simp only: filter_append) simp
qed

definition mc_received :: "nat \<Rightarrow> module_control \<Rightarrow> module_control" where
  "mc_received cap c = c\<lparr>mc_values := sa_mk (map vp_received (sa_list (mc_values c))) (sa_grow cap (sa_size (mc_values c)))\<rparr>"

lemma mc_decode_consumes:
  assumes "cf_has cfg m" and "md_numbered m" and "mc_inv m c" and "sa_inv (mc_values t)"
  shows "consumes (mc_decode junk cfg t) (mc_encoding c) (Decode_Success, mc_received (sa_capacity (mc_values t)) c)"
  unfolding consumes_def
proof (intro allI impI)
  fix b rest assume b: "db_ok b" "db_rest b = mc_encoding c @ rest"
  let ?vs = "sa_list (mc_values c)" and ?cap = "sa_capacity (mc_values t)"
  let ?n = "length ?vs"
  define c1 where "c1 = mc_reset (Inr m) t"
  define c2 where "c2 = mc_set_header (mc_header c) c1"
  have id: "mc_module_id c = md_id m" and mp: "mc_module c = Inr m" and inv: "sa_inv (mc_values c)"
    and ids: "map vp_id ?vs = filter (bit (mc_input_ids c)) [0..<15]" and ok: "list_all (vp_ok m) ?vs"
    and nc: "\<not> mc_is_clear c"
    using assms(3) by (simp_all add: mc_inv_def)
  have len: "length (mc_encoding c) = 3 + length (concat (map (\<lambda>p. dv_bytes (vp_value p)) ?vs))"
    by (simp add: mc_encoding_def mc_HeaderSize_def)
  then have "db_rest b \<noteq> []" using b(2) by auto
  then have off: "\<not> length (db_data b) \<le> db_offset b" by (simp add: db_rest_def)
  have "db_data b ! db_offset b = hd (db_rest b)" using off by (simp add: db_rest_def hd_drop_conv_nth)
  then have peek: "db_data b ! db_offset b = md_id m" using b(2) id by (simp add: mc_encoding_def mc_header_def)
  have c2: "mc_module_id c2 = md_id m" "mc_input_ids c2 = mc_input_ids c" "mc_module c2 = Inr m"
      "mc_values c2 = sa_mk [] ?cap"
    using id assms(4)
    by (simp_all add: c2_def c1_def mc_set_header_def mc_header_def mc_reset_def of_nat_le_val_ids sa_clear_inv)
  have clear: "\<not> mc_is_clear c2" "mc_num_values c2 = ?n"
    using nc mc_num_values_size [OF assms(3)] inv c2(2) by (simp_all add: mc_is_clear_def mc_num_values_def)
  have bits: "filter (bit (mc_input_ids c2)) [0..<16] = map vp_id ?vs"
    using ids nc c2(2) by (simp add: mc_is_clear_def filter_bits_16)
  have arr: "(if ?n > 0 then sa_ensure_capacity ?n (mc_values c2) else mc_values c2) = sa_mk [] (sa_grow ?cap ?n)"
    using c2(4) by (simp add: sa_grow_def)
  have read: "consumes (mc_read_values junk cfg (md_id m) (map vp_id ?vs) (sa_mk [] (sa_grow ?cap ?n)))
      (concat (map (\<lambda>p. dv_bytes (vp_value p)) ?vs)) (sa_mk ([] @ map vp_received ?vs) (sa_grow ?cap ?n))"
    by (rule mc_read_values_consumes [OF assms(1,2) ok]) simp
  have h: "consumes (db_read mc_HeaderSize) (mc_header c) (Decode_Success, mc_header c)"
    using consumes_read [of "mc_header c"] by simp
  have res: "c2\<lparr>mc_values := sa_mk (map vp_received ?vs) (sa_grow ?cap ?n)\<rparr> = mc_received ?cap c"
    using c2 id mp inv by (simp add: mc_received_def)
  have "consumes (bindF (mc_read_values junk cfg (mc_module_id c2) (filter (bit (mc_input_ids c2)) [0..<16])
        (if mc_num_values c2 > 0 then sa_ensure_capacity (mc_num_values c2) (mc_values c2) else mc_values c2))
        (\<lambda>a'. retF (Decode_Success, c2\<lparr>mc_values := a'\<rparr>)))
      (concat (map (\<lambda>p. dv_bytes (vp_value p)) ?vs)) (Decode_Success, mc_received ?cap c)"
    unfolding c2(1) bits clear(2) arr using read
    by (intro consumes_bind_last [OF read] arg_cong [of _ _ retF]) (simp add: res)
  then have "consumes (bindF (db_read mc_HeaderSize) (\<lambda>r. let c2 = stored r mc_set_header c1 in
      if mc_is_clear c2 then retF (Decode_Success, c2)
      else let n = mc_num_values c2; a = (if n > 0 then sa_ensure_capacity n (mc_values c2) else mc_values c2) in
           bindF (mc_read_values junk cfg (mc_module_id c2) (filter (bit (mc_input_ids c2)) [0..<16]) a)
             (\<lambda>a'. retF (Decode_Success, c2\<lparr>mc_values := a'\<rparr>)))) (mc_encoding c) (Decode_Success, mc_received ?cap c)"
    unfolding mc_encoding_def Let_def
    by (intro consumes_bind [OF h]) (simp only: stored_simps c2_def [symmetric] clear(1) if_False)
  then show "mc_decode junk cfg t b = Inr ((Decode_Success, mc_received ?cap c), db_advance (length (mc_encoding c)) b)"
    using b off peek cf_has_get [OF assms(1)]
    by (simp add: mc_decode_def Let_def c1_def consumesD)
qed

lemma mi_eq_refl: "mi_wf x \<Longrightarrow> mi_eq x x = Inr True"
  by (auto simp: mi_eq_def mi_wf_def name_wf_def mem_equal_def mem_read_def mi_get_name_length_def unat_eq_0
      split: option.splits)

lemma vp_received_eq:
  assumes "md_wf m" and "vp_ok m p"
  shows "vp_eq (vp_received p) p = Inr True"
proof -
  have "mi_wf (vp_input p)"
    using assms by (auto simp: md_wf_def vp_ok_def list_all_length)
  moreover have "dv_eq (dv_make_with (dv_data_type (vp_value p)) (dv_bytes (vp_value p))) (vp_value p) = Inr True"
    using assms(2) by (intro dv_make_with_eq) (simp add: vp_ok_def)
  ultimately show ?thesis by (simp add: vp_eq_def vp_received_def mi_eq_refl)
qed

lemma mc_received_eq:
  assumes "md_wf m" and "mc_inv m c"
  shows "mc_eq (mc_received cap c) c = Inr True"
proof -
  obtain vs k where vs: "mc_values c = sa_mk vs k" "length vs \<le> k" "sa_list (mc_values c) = vs"
    using assms(2) by (auto simp: mc_inv_def elim!: sa_invE)
  have n: "mc_num_values c = length vs" using mc_num_values_size [OF assms(2)] vs by simp
  have "mc_num_values (mc_received cap c) = mc_num_values c"
    by (simp add: mc_num_values_def mc_received_def mc_is_clear_def)
  moreover have "each_equal vp_eq (sa_mk (map vp_received vs) (sa_grow cap (length vs))) (sa_mk vs k) [0..<length vs] = Inr True"
    using assms vs by (intro each_equal_mk) (auto simp: mc_inv_def list_all_iff vp_received_eq)
  ultimately show ?thesis using vs n by (simp add: mc_eq_def) (simp add: mc_received_def)
qed

lemma mc_make_inv: "mc_inv m (mc_make (Some m) cap)" and mc_make_abs: "mc_abs (mc_make (Some m) cap) = Map.empty"
proof -
  have "\<exists>k. mc_values (mc_make (Some m) cap) = sa_mk [] k"
    by (cases cap) (auto simp: mc_make_def mc_new_def sa_alloc_mk)
  then obtain k where k: "mc_values (mc_make (Some m) cap) = sa_mk [] k" by blast
  moreover have "mc_input_ids (mc_make (Some m) cap) = 0" by (simp add: mc_make_def mc_new_def)
  moreover have "mc_module (mc_make (Some m) cap) = Inr m" "mc_module_id (mc_make (Some m) cap) = md_id m"
    by (simp_all add: mc_make_def mc_new_def)
  ultimately show "mc_inv m (mc_make (Some m) cap)" "mc_abs (mc_make (Some m) cap) = Map.empty"
    by (simp_all add: mc_inv_def mc_is_clear_def mc_abs_def)
qed

lemma mc_set_law:
  assumes "md_numbered m" and "mc_inv m c" and "i < unat (md_num_inputs m)" and "2 \<le> fuel"
    and "length bs = unat (dd_width (mi_data_type (sa_list (md_inputs m) ! i)))"
  shows "\<exists>c' v. mc_set fuel (sa_list (md_inputs m) ! i) d bs c = Some (Inr c') \<and> mc_inv m c' \<and>
    mc_abs c' = (mc_abs c)(i \<mapsto> v) \<and> dv_bytes v = bs"
proof -
  obtain k c1 where c1: "mc_value_for fuel (sa_list (md_inputs m) ! i) c = Some (Inr (Some k, c1))" "mc_inv m c1"
      "k < length (sa_list (mc_values c1))" "vp_id (sa_list (mc_values c1) ! k) = i"
      "mc_abs c1 = (if i \<in> dom (mc_abs c) then mc_abs c
        else (mc_abs c)(i \<mapsto> dv_make (mi_data_type (sa_list (md_inputs m) ! i))))"
    using mc_value_for_total [OF assms(1-4)] by blast
  have "vp_ok m (sa_list (mc_values c1) ! k)" using c1(2,3) by (simp add: mc_inv_def list_all_length)
  then have "length bs = unat (dd_width (dv_data_type (vp_value (sa_list (mc_values c1) ! k))))"
    using assms(5) c1(4) by (simp add: vp_ok_def)
  from mc_store_inv [OF c1(2,3) this, of d] obtain c' v where c': "mc_store d bs (Some k, c1) = Inr c'" "mc_inv m c'"
      "dv_bytes v = bs" "mc_abs c' = (mc_abs c1)(i \<mapsto> v)"
    using c1(4) by auto
  moreover have "mc_abs c' = (mc_abs c)(i \<mapsto> v)" using c'(4) c1(5) by (auto split: if_splits)
  moreover have "mc_set fuel (sa_list (md_inputs m) ! i) d bs c = Some (Inr c')"
    using c1(1) c'(1) by (simp add: mc_set_def)
  ultimately show ?thesis using c'(2,3) by blast
qed

section \<open>Properties\<close>

text \<open>
  Claim C12. A control message is a finite map from the module's inputs to values. A fresh one is the empty
  map; \<open>set\<close> on any input of a numbered module of at most fifteen scalar inputs returns (two activations
  of \<open>value_for\<close> suffice), keeps the values sorted in step with the bit field, and updates the map at that
  input only, to the bytes given.
\<close>

theorem module_control_set_updates_map:
  assumes "md_numbered m" and "mc_inv m c" and "i < unat (md_num_inputs m)" and "2 \<le> fuel"
    and "length bs = unat (dd_width (mi_data_type (sa_list (md_inputs m) ! i)))"
  shows "mc_inv m (mc_make (Some m) cap) \<and> mc_abs (mc_make (Some m) cap) = Map.empty \<and>
    (\<exists>c' v. mc_set fuel (sa_list (md_inputs m) ! i) d bs c = Some (Inr c') \<and> mc_inv m c' \<and>
      mc_abs c' = (mc_abs c)(i \<mapsto> v) \<and> dv_bytes v = bs)"
  using mc_set_law [OF assms, of d] mc_make_inv [of m cap] mc_make_abs [of m cap] by blast

lemma md_example_numbered: "md_numbered md_example"
  using md_example_wf by (simp add: md_numbered_def) (simp add: md_example_def dd_example_def dd_new_def)

lemma md_example_input: "sa_list (md_inputs md_example) ! 0 = \<lparr>mi_input_id = 0, mi_name_length = 2,
    mi_data_type = dd_example, mi_name = Some [104, 105, 0], mi_owns_name = False\<rparr>"
  "md_num_inputs md_example = 1" "unat (dd_width dd_example) = 2" "md_id md_example = 5"
  by (simp_all add: md_example_def dd_example_def)

theorem module_control_set_updates_map_witness:
  "mc_inv md_example (mc_make (Some md_example) None) \<and> mc_abs (mc_make (Some md_example) None) = Map.empty \<and>
    (\<exists>c' v. mc_set 2 (sa_list (md_inputs md_example) ! 0) dd_example [1, 2] (mc_make (Some md_example) (Some 4)) = Some (Inr c') \<and>
      mc_inv md_example c' \<and> mc_abs c' = (mc_abs (mc_make (Some md_example) (Some 4)))(0 \<mapsto> v) \<and> dv_bytes v = [1, 2])"
  by (rule module_control_set_updates_map [OF md_example_numbered mc_make_inv]) (simp_all add: md_example_input)

text \<open>
  Claim C18. A control message survives the wire: with the invariant that \<open>set\<close> maintains, the announced size
  is exact, encoding succeeds given that much room, and decoding against any configuration that holds the
  module at its identifier ends at the same offset with a message that \<open>operator ==\<close> accepts.
\<close>

theorem module_control_roundtrip:
  assumes "md_numbered m" and "mc_inv m c" and "cf_has cfg m" and "mc_encoded_size c = Inr n"
    and "eb_ok b" and "eb_room b n" and "sa_inv (mc_values t)"
  shows "\<exists>b' d c'. mc_encode c b = Inr (Encode_Success, b') \<and> eb_offset b' = eb_offset b + n \<and>
    mc_decode junk cfg t (db_of (eb_data b') (eb_offset b)) = Inr ((Decode_Success, c'), d) \<and>
    db_offset d = eb_offset b' \<and> mc_eq c' c = Inr True"
proof -
  have "n = length (mc_encoding c)" using assms(2,4) by (simp add: mc_encoded_size_law)
  moreover have "md_wf m" using assms(1) by (simp add: md_numbered_def)
  ultimately show ?thesis
    using write_then_read [OF mc_encode_writes [OF assms(2)] mc_decode_consumes [OF assms(3,1,2,7), of junk] assms(5)]
      assms(6) mc_received_eq [OF _ assms(2)] by blast
qed

definition cf_example5 :: configuration where
  "cf_example5 = \<lparr>cf_num_modules = 6, cf_modules = sa_mk (replicate 5 md_new @ [md_example]) 6, cf_next_module_id = 6\<rparr>"

lemma cf_example5_has: "cf_has cf_example5 md_example"
  by (simp add: cf_has_def cf_example5_def md_example_input nth_append)

definition mc_example :: module_control where
  "mc_example = (mc_make (Some md_example) None)\<lparr>mc_input_ids := 1,
     mc_values := sa_mk [\<lparr>vp_input = sa_list (md_inputs md_example) ! 0, vp_value = dv_make dd_example\<rparr>] 1\<rparr>"

lemma mc_example_inv: "mc_inv md_example mc_example"
  by (simp add: mc_inv_def mc_example_def mc_make_def mc_is_clear_def vp_ok_def vp_id_def md_example_input upt_rec)

lemma mc_example_size: "mc_encoded_size mc_example = Inr 5"
  by (simp add: mc_encoded_size_law [OF mc_example_inv] mc_encoding_def mc_HeaderSize_def)
    (simp add: mc_example_def dv_bytes_def dv_make_def md_example_input)

theorem module_control_roundtrip_witness:
  "\<exists>b' d c'. mc_encode mc_example (eb_new 8) = Inr (Encode_Success, b') \<and> eb_offset b' = eb_offset (eb_new 8) + 5 \<and>
    mc_decode (\<lambda>_. 170) cf_example5 mc_new (db_of (eb_data b') (eb_offset (eb_new 8))) = Inr ((Decode_Success, c'), d) \<and>
    db_offset d = eb_offset b' \<and> mc_eq c' mc_example = Inr True"
  by (rule module_control_roundtrip [OF md_example_numbered mc_example_inv cf_example5_has mc_example_size])
    (simp_all add: mc_new_def sa_alloc_mk)

lemma value_for_no_bit_diverges:
  assumes "mc_module c = Inr m" and "mi_input_id x < md_num_inputs m" and "16 \<le> unat (mi_input_id x)"
    and "unat (mi_input_id x) < 32" and "sa_inv (mc_values c)"
  shows "mc_value_for fuel x c = None"
  using assms(1,5)
proof (induction fuel arbitrary: c)
  case (Suc fuel)
  obtain vs cap where vs: "mc_values c = sa_mk vs cap" "length vs \<le> cap" using Suc.prems(2) by (auto elim: sa_invE)
  let ?p = "\<lparr>vp_input = x, vp_value = dv_make (mi_data_type x)\<rparr>"
  have "length (sort_key vp_id (vs @ [?p])) \<le> sa_grow cap (length vs + 1)" by simp
  then have inv: "sa_inv (sa_mk (sort_key vp_id (vs @ [?p])) (sa_grow cap (length vs + 1)))" by (rule sa_inv_mk)
  have "mc_asserts x c = Inr ()" using Suc.prems(1) assms(2) mc_num_values_le by (simp add: mc_asserts_def)
  with vs assms(3,4) have "mc_value_for (Suc fuel) x c = mc_value_for fuel x (c\<lparr>mc_input_ids := mc_input_ids c,
      mc_values := sa_mk (sort_key vp_id (vs @ [?p])) (sa_grow cap (length vs + 1))\<rparr>)"
    by (simp add: shl1_less input_bit_high input_bit_set_high)
  also have "\<dots> = None" using Suc.prems(1) inv by (intro Suc.IH) simp_all
  finally show ?case .
qed simp

text \<open>
  Claim C29. An input identifier of sixteen or more (nothing keeps a module from having that many inputs) has
  no bit in the field. For identifiers 16 to 31 \<open>value_for\<close> adds a value, finds the bit still clear and calls
  itself again, without end, whatever the fuel; from 32 on its first activation already ends in an undefined
  shift, as wide as the \<open>int\<close> it shifts or wider.
\<close>

theorem value_for_high_id_diverges:
  assumes "mc_module c = Inr m" and "mi_input_id x < md_num_inputs m" and "16 \<le> unat (mi_input_id x)"
    and "sa_inv (mc_values c)"
  shows "mc_value_for fuel x c =
    (if fuel = 0 \<or> unat (mi_input_id x) < 32 then None else Some (Inl Arith_ub))"
proof (cases "unat (mi_input_id x) < 32")
  case True
  then have "mc_value_for fuel x c = None" using assms by (intro value_for_no_bit_diverges)
  with True show ?thesis by simp
next
  case False
  moreover have "mc_asserts x c = Inr ()" using assms(1,2) mc_num_values_le by (simp add: mc_asserts_def)
  ultimately show ?thesis by (cases fuel) (simp_all add: shl1_def)
qed

theorem value_for_high_id_diverges_witness:
  "mc_value_for 5 (mi_new\<lparr>mi_input_id := 16\<rparr>) (mc_make (Some (md_new\<lparr>md_num_inputs := 17\<rparr>)) None) = None \<and>
   mc_value_for 5 (mi_new\<lparr>mi_input_id := 40\<rparr>) (mc_make (Some (md_new\<lparr>md_num_inputs := 50\<rparr>)) None) = Some (Inl Arith_ub)"
  using value_for_high_id_diverges [of "mc_make (Some (md_new\<lparr>md_num_inputs := 17\<rparr>)) None" "md_new\<lparr>md_num_inputs := 17\<rparr>"
      "mi_new\<lparr>mi_input_id := 16\<rparr>" 5]
    value_for_high_id_diverges [of "mc_make (Some (md_new\<lparr>md_num_inputs := 50\<rparr>)) None" "md_new\<lparr>md_num_inputs := 50\<rparr>"
      "mi_new\<lparr>mi_input_id := 40\<rparr>" 5]
  by (simp add: mc_make_def mc_new_def mi_new_def sa_alloc_mk)

text \<open>
  Input 15, the last of the documented range 0..15, shares its bit with the clear flag: setting a
  value for it turns the message into a clear message, which is encoded as its three header bytes, without
  the value.
\<close>

theorem input_15_turns_into_clear:
  assumes "mc_module c = Inr m" and "mi_input_id x = 15" and "15 < md_num_inputs m" and "sa_inv (mc_values c)"
    and "\<not> mc_is_clear c" and "eb_ok b" and "eb_room b 3" and "2 \<le> fuel"
  shows "\<exists>k c' b'. mc_value_for fuel x c = Some (Inr (Some k, c')) \<and> mc_is_clear c' \<and>
    mc_encode c' b = Inr (Encode_Success, b') \<and> eb_written b' = eb_written b @ mc_header c'"
proof -
  obtain f where f: "fuel = Suc (Suc f)" using assms(8) by (metis Suc_le_D numeral_2_eq_2 Suc_le_mono)
  obtain vs cap where vs: "mc_values c = sa_mk vs cap" "length vs \<le> cap" using assms(4) by (auto elim: sa_invE)
  let ?p = "\<lparr>vp_input = x, vp_value = dv_make (mi_data_type x)\<rparr>"
  let ?vs = "sort_key vp_id (vs @ [?p])" and ?cap = "sa_grow cap (length vs + 1)"
  have len: "length ?vs \<le> ?cap" by simp
  define c' where "c' = c\<lparr>mc_input_ids := mc_input_ids c OR ucast (2 ^ 15 :: u32), mc_values := sa_mk ?vs ?cap\<rparr>"
  have x: "unat (mi_input_id x) = 15" and shl: "shl1 (mi_input_id x) = Inr (2 ^ 15)"
    using assms(2) shl1_less [of "mi_input_id x"] by simp_all
  have a: "mc_asserts x c = Inr ()" using assms(1-3) mc_num_values_le by (simp add: mc_asserts_def)
  have "mc_value_for fuel x c = mc_value_for (Suc f) x c'"
    unfolding f using vs a shl assms(5) input_bit_test [of 15 "mc_input_ids c"]
    by (simp add: c'_def mc_is_clear_def)
  moreover have bit15: "bit (mc_input_ids c') 15" using input_bit_set [of 15 "mc_input_ids c" 15] by (simp add: c'_def)
  moreover have a': "mc_asserts x c' = Inr ()"
    using assms(1-3) mc_num_values_le [of c'] by (simp add: mc_asserts_def c'_def)
  moreover have "mc_values c' = sa_mk ?vs ?cap" by (simp add: c'_def)
  moreover have "\<exists>q \<in> set ?vs. mi_input_id (vp_input q) = mi_input_id x" by simp
  then obtain k where "index_where (\<lambda>q. mi_input_id (vp_input q) = mi_input_id x) ?vs = Some k"
    using index_where_exists [of ?vs "\<lambda>q. mi_input_id (vp_input q) = mi_input_id x"] by blast
  ultimately have vf: "mc_value_for fuel x c = Some (Inr (Some k, c'))"
    using shl len input_bit_test [of 15 "mc_input_ids c'"] sa_elems_mk [OF len] by simp
  have "mem.writes (mc_encode c') (mc_header c' @ [])"
    unfolding mc_encode_def using bit15
    by (intro mem.writes_unchecked mem.writes_emit) (simp add: mc_is_clear_def mem.writes_ret del: retF_apply)
  then have "mc_encode c' b = Inr (Encode_Success, eb_put (mc_header c') b)"
    using assms(6,7) by (simp add: mem.writesD mc_HeaderSize_def)
  then show ?thesis
    using vf bit15 assms(6,7) by (auto simp: mc_is_clear_def mem.put_outp mc_HeaderSize_def)
qed

theorem input_15_turns_into_clear_witness:
  "\<exists>k c' b'. mc_value_for 2 (mi_new\<lparr>mi_input_id := 15\<rparr>) (mc_make (Some (md_new\<lparr>md_num_inputs := 16\<rparr>)) None)
      = Some (Inr (Some k, c')) \<and> mc_is_clear c' \<and>
    mc_encode c' (eb_new 8) = Inr (Encode_Success, b') \<and> eb_written b' = eb_written (eb_new 8) @ mc_header c'"
  by (rule input_15_turns_into_clear [where m = "md_new\<lparr>md_num_inputs := 16\<rparr>"])
    (simp_all add: mc_make_def mc_new_def mi_new_def sa_alloc_mk mc_is_clear_def)


end
