(* ===== verification/Message.thy ===== *)
theory Message
  imports ModuleControl Crc32
begin

text \<open>
  Messages and their framing: \<^verbatim>\<open>include/crisp/comms/Message.hh\<close>, \<^verbatim>\<open>src/comms/Message.cc\<close>, and the handshake bodies
  of \<^verbatim>\<open>Handshake.hh\<close> and \<^verbatim>\<open>Handshake.cc\<close>. A message is a three-byte header (length of what follows, type), a
  body, and for some types a CRC-32 over header and body. The type is kept as the byte on the wire, since a
  received one need not be an enumerator. The shared, reference-counted body is modelled by its bytes.
\<close>

section \<open>Handshakes\<close>

datatype node_role = MASTER | SLAVE

definition role_code :: "node_role \<Rightarrow> byte" where
  "role_code r = (case r of MASTER \<Rightarrow> 0 | SLAVE \<Rightarrow> 1)"

definition PROTOCOL_NAME :: u32 where
  "PROTOCOL_NAME = push_bit 24 0x55 OR push_bit 16 0x57 OR push_bit 8 0x52 OR 0x54"

definition PROTOCOL_VERSION :: u32 where
  "PROTOCOL_VERSION = 0"

record handshake =
  hs_protocol :: u32
  hs_version :: u32
  hs_role :: byte

text \<open>The default constructor clears the whole object, the protocol name included.\<close>

definition hs_new :: handshake where
  "hs_new = \<lparr>hs_protocol = 0, hs_version = 0, hs_role = 0\<rparr>"

definition hs_make :: "u32 \<Rightarrow> byte \<Rightarrow> handshake" where
  "hs_make v r = \<lparr>hs_protocol = PROTOCOL_NAME, hs_version = v, hs_role = r\<rparr>"

definition hs_size :: nat where
  "hs_size = 9"

definition hs_bytes :: "handshake \<Rightarrow> byte list" where
  "hs_bytes h = le_bytes 4 (unat (hs_protocol h)) @ le_bytes 4 (unat (hs_version h)) @ [hs_role h]"

definition hs_of_bytes :: "byte list \<Rightarrow> handshake \<Rightarrow> handshake" where
  "hs_of_bytes bs h = \<lparr>hs_protocol = of_nat (le_val (take 4 bs)), hs_version = of_nat (le_val (take 4 (drop 4 bs))),
     hs_role = bs ! 8\<rparr>"

definition hs_encode :: "handshake \<Rightarrow> (encode_buffer, encode_result) sfm" where
  "hs_encode h = eb_write (hs_bytes h)"

definition hs_decode_copy :: "(decode_buffer, handshake) sfm" where
  "hs_decode_copy = bindF (db_read hs_size) (\<lambda>r. retF (stored r hs_of_bytes hs_new))"

definition hs_eq :: "handshake \<Rightarrow> handshake \<Rightarrow> bool" where
  "hs_eq a b \<longleftrightarrow> hs_protocol a = hs_protocol b \<and> hs_version a = hs_version b \<and> hs_role a = hs_role b"

datatype handshake_ack = ACK | NACK_UNKNOWN_PROTOCOL | NACK_ROLE_CONFLICT | NACK_VERSION_CONFLICT

definition ack_code :: "handshake_ack \<Rightarrow> byte" where
  "ack_code a = (case a of ACK \<Rightarrow> 0 | NACK_UNKNOWN_PROTOCOL \<Rightarrow> 1 | NACK_ROLE_CONFLICT \<Rightarrow> 2 | NACK_VERSION_CONFLICT \<Rightarrow> 3)"

record handshake_response =
  hr_acknowledge :: byte
  hr_role :: byte

definition hr_size :: nat where
  "hr_size = 2"

definition hr_encode :: "handshake_response \<Rightarrow> (encode_buffer, encode_result) sfm" where
  "hr_encode h = eb_write [hr_acknowledge h, hr_role h]"

text \<open>The response object is not initialised before reading; \<open>junk\<close> is what it holds.\<close>

definition hr_decode_copy :: "handshake_response \<Rightarrow> (decode_buffer, handshake_response) sfm" where
  "hr_decode_copy junk = bindF (db_read hr_size) (\<lambda>r.
     retF (stored r (\<lambda>bs h. \<lparr>hr_acknowledge = bs ! 0, hr_role = bs ! 1\<rparr>) junk))"

definition hr_eq :: "handshake_response \<Rightarrow> handshake_response \<Rightarrow> bool" where
  "hr_eq a b \<longleftrightarrow> hr_acknowledge a = hr_acknowledge b \<and> hr_role a = hr_role b"

section \<open>Message types\<close>

datatype message_type =
    HANDSHAKE | HANDSHAKE_RESPONSE | SYNC | ERROR | CONFIGURATION_QUERY | CONFIGURATION_RESPONSE
  | SENSOR_DATA | MODULE_CONTROL

definition type_code :: "message_type \<Rightarrow> byte" where
  "type_code t =
     (case t of HANDSHAKE \<Rightarrow> 0 | HANDSHAKE_RESPONSE \<Rightarrow> 1 | SYNC \<Rightarrow> 2 | ERROR \<Rightarrow> 3 | CONFIGURATION_QUERY \<Rightarrow> 4
      | CONFIGURATION_RESPONSE \<Rightarrow> 5 | SENSOR_DATA \<Rightarrow> 6 | MODULE_CONTROL \<Rightarrow> 7)"

definition MESSAGE_TYPE_COUNT :: nat where
  "MESSAGE_TYPE_COUNT = 8"

definition MESSAGE_CHECKSUM_SIZE :: nat where
  "MESSAGE_CHECKSUM_SIZE = 4"

datatype flow = TO_MASTER | TO_SLAVE | ANY_FLOW

record type_info =
  ti_type :: message_type
  ti_has_body :: bool
  ti_has_checksum :: bool
  ti_flow :: flow
  ti_body :: "byte list option"

definition SYNC_body :: "byte list" where
  "SYNC_body = [0x53, 0x59, 0x4E, 0x43]"

definition message_type_info :: "type_info list" where
  "message_type_info =
    [\<lparr>ti_type = HANDSHAKE, ti_has_body = True, ti_has_checksum = False, ti_flow = ANY_FLOW, ti_body = None\<rparr>,
     \<lparr>ti_type = HANDSHAKE_RESPONSE, ti_has_body = True, ti_has_checksum = False, ti_flow = ANY_FLOW, ti_body = None\<rparr>,
     \<lparr>ti_type = SYNC, ti_has_body = True, ti_has_checksum = False, ti_flow = ANY_FLOW, ti_body = Some SYNC_body\<rparr>,
     \<lparr>ti_type = ERROR, ti_has_body = True, ti_has_checksum = True, ti_flow = ANY_FLOW, ti_body = None\<rparr>,
     \<lparr>ti_type = CONFIGURATION_QUERY, ti_has_body = False, ti_has_checksum = False, ti_flow = TO_SLAVE, ti_body = None\<rparr>,
     \<lparr>ti_type = CONFIGURATION_RESPONSE, ti_has_body = True, ti_has_checksum = True, ti_flow = TO_MASTER, ti_body = None\<rparr>,
     \<lparr>ti_type = SENSOR_DATA, ti_has_body = True, ti_has_checksum = True, ti_flow = TO_MASTER, ti_body = None\<rparr>,
     \<lparr>ti_type = MODULE_CONTROL, ti_has_body = True, ti_has_checksum = True, ti_flow = TO_SLAVE, ti_body = None\<rparr>]"

definition get_type_info :: "byte \<Rightarrow> fault + type_info" where
  "get_type_info t =
     (if unat t < MESSAGE_TYPE_COUNT
      then let info = message_type_info ! unat t in
           if type_code (ti_type info) = t then Inr info else Inl Assert_failed
      else Inl Assert_failed)"

section \<open>Messages\<close>

record message =
  msg_length :: u16
  msg_type :: byte
  msg_body :: "byte list option"
  msg_checksum :: u32

definition msg_HeaderSize :: nat where
  "msg_HeaderSize = 3"

definition msg_header :: "message \<Rightarrow> byte list" where
  "msg_header m = le_bytes 2 (unat (msg_length m)) @ [msg_type m]"

definition msg_set_header :: "byte list \<Rightarrow> message \<Rightarrow> message" where
  "msg_set_header bs m = m\<lparr>msg_length := of_nat (le_val (take 2 bs)), msg_type := bs ! 2\<rparr>"

definition msg_new :: message where
  "msg_new = \<lparr>msg_length = 0, msg_type = type_code HANDSHAKE, msg_body = None, msg_checksum = 0\<rparr>"

text \<open>The move constructor does not take the checksum over; the move assignment does.\<close>

definition msg_move :: "message \<Rightarrow> message \<times> message" where
  "msg_move m = (m\<lparr>msg_checksum := 0\<rparr>, m\<lparr>msg_body := None\<rparr>)"

definition msg_copy :: "message \<Rightarrow> message" where
  "msg_copy m = m"

definition msg_move_assign :: "message \<Rightarrow> message \<Rightarrow> message \<times> message" where
  "msg_move_assign t m =
     (t\<lparr>msg_length := msg_length m, msg_type := msg_type m, msg_body := msg_body m, msg_checksum := msg_checksum m\<rparr>,
      m\<lparr>msg_body := None\<rparr>)"

definition checksum_size :: "type_info \<Rightarrow> nat" where
  "checksum_size info = (if ti_has_checksum info then MESSAGE_CHECKSUM_SIZE else 0)"

text \<open>The body that is written: the message's own, or the one the type prescribes; null has no length.\<close>

definition body_or :: "message \<Rightarrow> type_info \<Rightarrow> fault + byte list" where
  "body_or m info =
     (case msg_body m of
        Some bs \<Rightarrow> Inr bs
      | None \<Rightarrow> (case ti_body info of Some bs \<Rightarrow> Inr bs | None \<Rightarrow> Inl Null_deref))"

definition msg_encoded_size :: "message \<Rightarrow> fault + nat" where
  "msg_encoded_size m =
     bindE (get_type_info (msg_type m)) (\<lambda>info.
       if ti_has_checksum info \<and> \<not> ti_has_body info then Inl Assert_failed
       else if ti_body info = None \<and> msg_body m = None then Inr (msg_HeaderSize + unat (msg_length m))
       else if ti_has_body info
       then bindE (body_or m info) (\<lambda>bs. Inr (msg_HeaderSize + length bs + checksum_size info))
       else Inr (msg_HeaderSize + checksum_size info))"

definition msg_of_type :: "message_type \<Rightarrow> fault + message" where
  "msg_of_type t =
     (let m = msg_new\<lparr>msg_type := type_code t\<rparr> in
      bindE (msg_encoded_size m) (\<lambda>n. Inr (m\<lparr>msg_length := of_nat (size_sub n msg_HeaderSize)\<rparr>)))"

definition compute_checksum :: "message \<Rightarrow> fault + u32" where
  "compute_checksum m =
     bindE (get_type_info (msg_type m)) (\<lambda>info.
       if \<not> ti_has_checksum info then Inr 0
       else bindE (body_or m info) (\<lambda>bs. Inr (crc32 (msg_header m @ bs))))"

definition checksum_ok :: "message \<Rightarrow> fault + bool" where
  "checksum_ok m =
     bindE (get_type_info (msg_type m)) (\<lambda>info.
       if ti_has_checksum info then bindE (compute_checksum m) (\<lambda>c. Inr (msg_checksum m = c)) else Inr True)"

text \<open>
  Constructing a message from a body object: the object's size and encoder, whose result is dropped. The
  header's length is truncated to sixteen bits.
\<close>

definition msg_of_body :: "message_type \<Rightarrow> fault + nat \<Rightarrow> (encode_buffer, encode_result) sfm \<Rightarrow> fault + message" where
  "msg_of_body t size_of enc =
     bindE (get_type_info (type_code t)) (\<lambda>info.
     bindE size_of (\<lambda>n.
     bindE (enc (eb_new n)) (\<lambda>r.
       let m = \<lparr>msg_length = of_nat (n + checksum_size info), msg_type = type_code t,
                msg_body = Some (eb_data (snd r)), msg_checksum = 0\<rparr>
       in bindE (compute_checksum m) (\<lambda>c. Inr (m\<lparr>msg_checksum := c\<rparr>)))))"

text \<open>\<open>new Buffer(n)\<close>: \<open>malloc\<close> fails beyond the largest object size, which an assertion catches; zeroed.\<close>

definition new_buffer :: "nat \<Rightarrow> fault + byte list" where
  "new_buffer n = (if n < 2 ^ 63 then Inr (replicate n 0) else Inl Assert_failed)"

definition msg_decode :: "(decode_buffer, message) sfm" where
  "msg_decode =
     bindF (db_read msg_HeaderSize) (\<lambda>h.
     let m = stored h msg_set_header msg_new in
     bindF (liftF (get_type_info (msg_type m))) (\<lambda>info.
     bindF (if ti_has_body info
            then let n = size_sub (unat (msg_length m)) (checksum_size info) in
                 bindF (liftF (new_buffer n)) (\<lambda>mem.
                 bindF (db_read n) (\<lambda>r. retF (m\<lparr>msg_body := Some (stored r (\<lambda>bs _. bs) mem)\<rparr>)))
            else retF m) (\<lambda>m1.
     if ti_has_checksum info
     then bindF (db_read 4) (\<lambda>r. retF (stored r (\<lambda>bs. msg_checksum_update (\<lambda>_. of_nat (le_val bs))) m1))
     else retF m1)))"

text \<open>Encoding to memory: no result of a write is looked at, and the stored checksum is recomputed.\<close>

definition msg_encode :: "message \<Rightarrow> (encode_buffer, encode_result) sfm" where
  "msg_encode m =
     uncheckedF (eb_write (msg_header m))
       (bindF (liftF (get_type_info (msg_type m))) (\<lambda>info.
          uncheckedF
            (if ti_has_body info
             then case msg_body m of
                    Some bs \<Rightarrow> bindF (assertF (ti_body info = None)) (\<lambda>_. eb_write bs)
                  | None \<Rightarrow> (case ti_body info of None \<Rightarrow> failF Assert_failed | Some bs \<Rightarrow> eb_write bs)
             else retF Encode_Success)
            (uncheckedF
              (if ti_has_checksum info
               then bindF (liftF (compute_checksum m)) (\<lambda>c. eb_write (le_bytes 4 (unat c)))
               else retF Encode_Success)
              (retF Encode_Success))))"

text \<open>The message object after an encoding: its (mutable) checksum field holds the sum just computed.\<close>

definition msg_sealed :: "message \<Rightarrow> message" where
  "msg_sealed m =
     (case get_type_info (msg_type m) of
        Inl e \<Rightarrow> m
      | Inr info \<Rightarrow>
          if ti_has_checksum info
          then (case compute_checksum m of Inl e \<Rightarrow> m | Inr c \<Rightarrow> m\<lparr>msg_checksum := c\<rparr>) else m)"

text \<open>Encoding to a stream, with its assertion on body and prescribed body.\<close>

definition msg_encode_stream :: "message \<Rightarrow> (stream_buffer, encode_result) sfm" where
  "msg_encode_stream m =
     uncheckedF (st_write (msg_header m))
       (bindF (liftF (get_type_info (msg_type m))) (\<lambda>info.
        bindF (liftF (if ti_has_checksum info \<and> msg_checksum m = 0 then compute_checksum m else Inr 0)) (\<lambda>_.
        bindF (assertF ((msg_body m \<noteq> None \<and> ti_body info = None) \<or> (ti_body info \<noteq> None \<and> msg_body m = None) \<or>
                        (msg_body m = None \<and> ti_body info = None \<and> \<not> ti_has_body info))) (\<lambda>_.
          uncheckedF
            (if ti_has_body info then bindF (liftF (body_or m info)) st_write else retF Encode_Success)
            (uncheckedF
              (if ti_has_checksum info
               then bindF (liftF (compute_checksum m)) (\<lambda>c. st_write (le_bytes 4 (unat c)))
               else retF Encode_Success)
              (retF Encode_Success))))))"

text \<open>The static encoder for message types without a body of their own.\<close>

definition msg_encode_type :: "message_type \<Rightarrow> (encode_buffer, encode_result) sfm" where
  "msg_encode_type t =
     bindF (liftF (get_type_info (type_code t))) (\<lambda>info.
     bindF (assertF (ti_has_checksum info \<longrightarrow> ti_has_body info)) (\<lambda>_.
     bindF (assertF (ti_has_body info \<longrightarrow> ti_body info \<noteq> None)) (\<lambda>_.
       let n = (case ti_body info of None \<Rightarrow> 0 | Some bs \<Rightarrow> length bs) + checksum_size info;
           m = msg_new\<lparr>msg_length := of_nat n, msg_type := type_code t\<rparr> in
       uncheckedF (eb_write (msg_header m))
         (uncheckedF
           (if ti_has_body info
            then bindF (liftF (mem_read (size_sub (unat (msg_length m)) (checksum_size info)) (ti_body info))) eb_write
            else retF Encode_Success)
           (uncheckedF
             (if ti_has_checksum info
              then bindF (liftF (compute_checksum m)) (\<lambda>c. eb_write (le_bytes 4 (unat c)))
              else retF Encode_Success)
             (retF Encode_Success))))))"

definition msg_as :: "(decode_buffer, 'a) sfm \<Rightarrow> message \<Rightarrow> fault + 'a" where
  "msg_as dec m =
     (case msg_body m of
        None \<Rightarrow> Inl (Thrown ''Cannot convert `null` body to object form'')
      | Some bs \<Rightarrow> bindE (dec (db_of bs 0)) (\<lambda>r. Inr (fst r)))"

definition msg_eq :: "message \<Rightarrow> message \<Rightarrow> fault + bool" where
  "msg_eq a b =
     (if msg_length a = msg_length b \<and> msg_type a = msg_type b \<and> msg_body a = msg_body b
      then bindE (compute_checksum a) (\<lambda>c. bindE (compute_checksum b) (\<lambda>d. Inr (c = d)))
      else Inr False)"

section \<open>The type table\<close>

definition info_of :: "message_type \<Rightarrow> type_info" where
  "info_of t = message_type_info ! unat (type_code t)"

lemma info_of_simps [simp]:
  "ti_type (info_of t) = t"
  "ti_has_body (info_of t) = (t \<noteq> CONFIGURATION_QUERY)"
  "ti_has_checksum (info_of t) = (t \<in> {ERROR, CONFIGURATION_RESPONSE, SENSOR_DATA, MODULE_CONTROL})"
  "ti_body (info_of t) = (if t = SYNC then Some SYNC_body else None)"
  by (cases t; simp add: info_of_def message_type_info_def type_code_def)+

lemma get_type_info_code [simp]: "get_type_info (type_code t) = Inr (info_of t)"
  by (cases t) (simp_all add: get_type_info_def info_of_def message_type_info_def type_code_def MESSAGE_TYPE_COUNT_def)

lemma get_type_info_unknown: "8 \<le> unat t \<Longrightarrow> get_type_info t = Inl Assert_failed"
  by (simp add: get_type_info_def MESSAGE_TYPE_COUNT_def)

lemma type_code_less: "unat (type_code t) < 8"
  by (cases t) (simp_all add: type_code_def)

lemma type_code_inj [simp]: "type_code t = type_code u \<longleftrightarrow> t = u"
  by (cases t; cases u) (simp_all add: type_code_def)

text \<open>
  Enumerators of a scoped enumeration compare by their values. The table of types lists every type once, in that order,
  which is what the lookup by index and its assertion rely on.
\<close>

instantiation message_type :: linorder
begin

definition less_eq_message_type :: "message_type \<Rightarrow> message_type \<Rightarrow> bool" where
  "less_eq_message_type t u \<longleftrightarrow> type_code t \<le> type_code u"

definition less_message_type :: "message_type \<Rightarrow> message_type \<Rightarrow> bool" where
  "less_message_type t u \<longleftrightarrow> type_code t < type_code u"

instance
  by standard (auto simp: less_eq_message_type_def less_message_type_def less_le_not_le dest: order_antisym)

end

lemma UNIV_message_type:
  "(UNIV :: message_type set) = {HANDSHAKE, HANDSHAKE_RESPONSE, SYNC, ERROR, CONFIGURATION_QUERY, CONFIGURATION_RESPONSE,
     SENSOR_DATA, MODULE_CONTROL}"
  using message_type.exhaust by blast

lemma message_type_table: "map ti_type message_type_info = sorted_list_of_set UNIV"
proof -
  have "sorted_wrt (<) (map ti_type message_type_info)"
    by (simp add: message_type_info_def less_message_type_def type_code_def)
  moreover have "set (map ti_type message_type_info) = UNIV"
    by (auto simp: message_type_info_def UNIV_message_type)
  moreover have "finite (UNIV :: message_type set)" by (simp add: UNIV_message_type)
  ultimately show ?thesis
    using strict_sorted_equal [of "map ti_type message_type_info" "sorted_list_of_set UNIV"]
    by (simp add: strict_sorted_iff)
qed

lemma message_type_table_code: "k < 8 \<Longrightarrow> type_code (ti_type (message_type_info ! k)) = of_nat k"
  by (auto simp: eval_nat_numeral less_Suc_eq message_type_info_def type_code_def)

lemma get_type_info_known: "unat b < card (UNIV :: message_type set) \<longleftrightarrow> (\<exists>info. get_type_info b = Inr info)"
proof -
  have "card (UNIV :: message_type set) = 8" by (simp add: UNIV_message_type)
  then show ?thesis
    using message_type_table_code [of "unat b"] get_type_info_unknown [of b]
    by (auto simp: get_type_info_def MESSAGE_TYPE_COUNT_def not_less)
qed

section \<open>Well-formed messages and their bytes\<close>

text \<open>\<open>msg_ok t bs m\<close>: \<open>m\<close> is a message of type \<open>t\<close> that is sent with the body \<open>bs\<close>, and its header says so.\<close>

definition msg_ok :: "message_type \<Rightarrow> byte list \<Rightarrow> message \<Rightarrow> bool" where
  "msg_ok t bs m \<longleftrightarrow> msg_type m = type_code t \<and> unat (msg_length m) = length bs + checksum_size (info_of t) \<and>
     msg_body m = (if t \<in> {CONFIGURATION_QUERY, SYNC} then None else Some bs) \<and>
     (t = CONFIGURATION_QUERY \<longrightarrow> bs = []) \<and> (t = SYNC \<longrightarrow> bs = SYNC_body)"

definition msg_sum :: "message_type \<Rightarrow> byte list \<Rightarrow> message \<Rightarrow> u32" where
  "msg_sum t bs m = (if ti_has_checksum (info_of t) then crc32 (msg_header m @ bs) else 0)"

definition msg_wire :: "message_type \<Rightarrow> byte list \<Rightarrow> message \<Rightarrow> byte list" where
  "msg_wire t bs m = msg_header m @ bs @ (if ti_has_checksum (info_of t) then le_bytes 4 (unat (msg_sum t bs m)) else [])"

definition msg_received :: "message_type \<Rightarrow> byte list \<Rightarrow> message \<Rightarrow> message" where
  "msg_received t bs m = \<lparr>msg_length = msg_length m, msg_type = msg_type m,
     msg_body = (if t = CONFIGURATION_QUERY then None else Some bs), msg_checksum = msg_sum t bs m\<rparr>"

lemma length_msg_header [simp, layout_simps]: "length (msg_header m) = msg_HeaderSize"
  by (simp add: msg_header_def msg_HeaderSize_def)

lemma length_msg_wire: "length (msg_wire t bs m) = msg_HeaderSize + length bs + checksum_size (info_of t)"
  by (simp add: msg_wire_def checksum_size_def MESSAGE_CHECKSUM_SIZE_def)

lemma msg_wire_length: "msg_ok t bs m \<Longrightarrow> length (msg_wire t bs m) = msg_HeaderSize + unat (msg_length m)"
  by (simp add: length_msg_wire msg_ok_def)

lemma msg_body_or: "msg_ok t bs m \<Longrightarrow> t \<noteq> CONFIGURATION_QUERY \<Longrightarrow> body_or m (info_of t) = Inr bs"
  by (auto simp: msg_ok_def body_or_def)

lemma msg_checksum_ok_sum:
  "msg_ok t bs m \<Longrightarrow> ti_has_checksum (info_of t) \<Longrightarrow> compute_checksum m = Inr (msg_sum t bs m)"
  using msg_body_or [of t bs m] by (auto simp: compute_checksum_def msg_ok_def msg_sum_def)

lemma msg_encoded_size_law: "msg_ok t bs m \<Longrightarrow> msg_encoded_size m = Inr (length (msg_wire t bs m))"
  using msg_body_or [of t bs m]
  by (auto simp: msg_encoded_size_def length_msg_wire msg_ok_def checksum_size_def)

lemma msg_encode_writes:
  assumes "msg_ok t bs m"
  shows "mem.writes (msg_encode m) (msg_wire t bs m)"
proof -
  have ty: "get_type_info (msg_type m) = Inr (info_of t)" using assms by (simp add: msg_ok_def)
  have body: "mem.writes (if ti_has_body (info_of t)
      then case msg_body m of
             Some bs \<Rightarrow> bindF (assertF (ti_body (info_of t) = None)) (\<lambda>_. eb_write bs)
           | None \<Rightarrow> (case ti_body (info_of t) of None \<Rightarrow> failF Assert_failed | Some bs \<Rightarrow> eb_write bs)
      else retF Encode_Success) bs"
    using assms by (auto simp: msg_ok_def mem.writes_emit mem.writes_ret simp del: retF_apply)
  have sum: "mem.writes (if ti_has_checksum (info_of t)
      then bindF (liftF (compute_checksum m)) (\<lambda>c. eb_write (le_bytes 4 (unat c))) else retF Encode_Success)
      (if ti_has_checksum (info_of t) then le_bytes 4 (unat (msg_sum t bs m)) else [])"
  proof (cases "ti_has_checksum (info_of t)")
    case True
    then show ?thesis using msg_checksum_ok_sum [OF assms True] by (simp only: if_True liftF_simps bindF_retF mem.writes_emit)
  qed (simp add: mem.writes_ret del: retF_apply)
  have "mem.writes (msg_encode m) (msg_header m @ bs @ (if ti_has_checksum (info_of t) then le_bytes 4 (unat (msg_sum t bs m)) else []) @ [])"
    unfolding msg_encode_def ty liftF_simps bindF_retF
    by (intro mem.writes_unchecked mem.writes_emit body sum mem.writes_ret)
  then show ?thesis by (simp only: msg_wire_def append_Nil2)
qed

lemma msg_encode_stream_writes:
  assumes "msg_ok t bs m"
  shows "stm.writes (msg_encode_stream m) (msg_wire t bs m)"
proof -
  have ty: "get_type_info (msg_type m) = Inr (info_of t)" using assms by (simp add: msg_ok_def)
  have pre: "\<exists>c. (if ti_has_checksum (info_of t) \<and> msg_checksum m = 0 then compute_checksum m else Inr 0) = Inr c"
    using msg_checksum_ok_sum [OF assms] by auto
  have asrt: "(msg_body m \<noteq> None \<and> ti_body (info_of t) = None) \<or> (ti_body (info_of t) \<noteq> None \<and> msg_body m = None) \<or>
      (msg_body m = None \<and> ti_body (info_of t) = None \<and> \<not> ti_has_body (info_of t))"
    using assms by (auto simp: msg_ok_def)
  have body: "stm.writes (if ti_has_body (info_of t) then bindF (liftF (body_or m (info_of t))) st_write else retF Encode_Success) bs"
    using assms msg_body_or [OF assms]
    by (cases "t = CONFIGURATION_QUERY") (auto simp: msg_ok_def stm.writes_emit stm.writes_ret simp del: retF_apply)
  have sum: "stm.writes (if ti_has_checksum (info_of t)
      then bindF (liftF (compute_checksum m)) (\<lambda>c. st_write (le_bytes 4 (unat c))) else retF Encode_Success)
      (if ti_has_checksum (info_of t) then le_bytes 4 (unat (msg_sum t bs m)) else [])"
  proof (cases "ti_has_checksum (info_of t)")
    case True
    then show ?thesis using msg_checksum_ok_sum [OF assms True] by (simp only: if_True liftF_simps bindF_retF stm.writes_emit)
  qed (simp add: stm.writes_ret del: retF_apply)
  obtain c where c: "(if ti_has_checksum (info_of t) \<and> msg_checksum m = 0 then compute_checksum m else Inr 0) = Inr c"
    using pre by blast
  have "stm.writes (msg_encode_stream m) (msg_header m @ bs @ (if ti_has_checksum (info_of t) then le_bytes 4 (unat (msg_sum t bs m)) else []) @ [])"
    unfolding msg_encode_stream_def ty liftF_simps bindF_retF c assertF_def if_P [OF asrt]
    by (intro stm.writes_unchecked stm.writes_emit body sum stm.writes_ret)
  then show ?thesis by (simp only: msg_wire_def append_Nil2)
qed

section \<open>Decoding\<close>

lemma msg_set_header_new: "msg_set_header (msg_header m) msg_new = msg_new\<lparr>msg_length := msg_length m, msg_type := msg_type m\<rparr>"
  by (simp add: msg_set_header_def msg_header_def of_nat_le_val_u16 nth_append)

lemma u16_less: "unat (w :: u16) < 65536"
  using unsigned_less [of w, where ?'a = nat] by simp

lemma of_nat_le_val_u32: "of_nat (le_val (le_bytes 4 (unat (w :: u32)))) = w"
proof -
  have "unat w < 256 ^ 4" using unsigned_less [of w, where ?'a = nat] by simp
  then show ?thesis by (simp add: le_val_le_bytes)
qed

lemma msg_decode_consumes:
  assumes "msg_ok t bs m"
  shows "consumes msg_decode (msg_wire t bs m) (msg_received t bs m)"
proof -
  define m0 where "m0 = msg_new\<lparr>msg_length := msg_length m, msg_type := msg_type m\<rparr>"
  define m1 where "m1 = (if t = CONFIGURATION_QUERY then m0 else m0\<lparr>msg_body := Some bs\<rparr>)"
  have ty: "get_type_info (msg_type m0) = Inr (info_of t)" using assms by (simp add: m0_def msg_ok_def)
  have n: "size_sub (unat (msg_length m0)) (checksum_size (info_of t)) = length bs"
    using assms by (simp add: m0_def msg_ok_def)
  have small: "length bs < 2 ^ 63"
    using assms u16_less [of "msg_length m"] by (simp add: msg_ok_def)
  have h: "consumes (db_read msg_HeaderSize) (msg_header m) (Decode_Success, msg_header m)"
    using consumes_read [of "msg_header m"] by simp
  have rd: "consumes (bindF (liftF (new_buffer (length bs))) (\<lambda>mem. bindF (db_read (length bs))
      (\<lambda>r. retF (m0\<lparr>msg_body := Some (stored r (\<lambda>bs _. bs) mem)\<rparr>)))) bs (m0\<lparr>msg_body := Some bs\<rparr>)"
    using small by (simp add: new_buffer_def) (rule consumes_bind_last [OF consumes_read], simp only: stored_simps)
  have body: "consumes (if ti_has_body (info_of t)
      then let n = size_sub (unat (msg_length m0)) (checksum_size (info_of t)) in
           bindF (liftF (new_buffer n)) (\<lambda>mem. bindF (db_read n) (\<lambda>r. retF (m0\<lparr>msg_body := Some (stored r (\<lambda>bs _. bs) mem)\<rparr>)))
      else retF m0) bs m1"
    unfolding n Let_def using rd assms
    by (auto simp: m1_def msg_ok_def consumes_ret simp del: retF_apply)
  have rsum: "consumes (bindF (db_read 4) (\<lambda>r. retF (stored r (\<lambda>bs. msg_checksum_update (\<lambda>_. of_nat (le_val bs))) m1)))
      (le_bytes 4 (unat c)) (m1\<lparr>msg_checksum := c\<rparr>)" for c
    using consumes_read [of "le_bytes 4 (unat c)"] unfolding length_le_bytes
    by (rule consumes_bind_last) (simp only: stored_simps of_nat_le_val_u32)
  have res: "msg_received t bs m = (if ti_has_checksum (info_of t) then m1\<lparr>msg_checksum := msg_sum t bs m\<rparr> else m1)"
    by (auto simp: msg_received_def m1_def m0_def msg_new_def msg_sum_def)
  have sum: "consumes (if ti_has_checksum (info_of t)
      then bindF (db_read 4) (\<lambda>r. retF (stored r (\<lambda>bs. msg_checksum_update (\<lambda>_. of_nat (le_val bs))) m1)) else retF m1)
      (if ti_has_checksum (info_of t) then le_bytes 4 (unat (msg_sum t bs m)) else []) (msg_received t bs m)"
    unfolding res using rsum [of "msg_sum t bs m"] by (cases "ti_has_checksum (info_of t)") (simp_all only: if_True if_False consumes_ret)
  show ?thesis
    unfolding msg_decode_def msg_wire_def Let_def
    by (rule consumes_bind [OF h], unfold stored_simps msg_set_header_new m0_def [symmetric] ty liftF_simps bindF_retF,
        rule consumes_bind [OF body [unfolded Let_def]], rule sum)
qed

text \<open>What was received passes its checksum test and compares equal to what was sent.\<close>

lemma msg_received_ok:
  assumes "msg_ok t bs m" and "t \<noteq> SYNC"
  shows "msg_ok t bs (msg_received t bs m)"
  using assms by (auto simp: msg_ok_def msg_received_def)

lemma msg_received_header: "msg_header (msg_received t bs m) = msg_header m"
  by (simp add: msg_header_def msg_received_def)

lemma msg_received_checks:
  assumes "msg_ok t bs m"
  shows "checksum_ok (msg_received t bs m) = Inr True"
proof -
  have ty: "msg_type (msg_received t bs m) = type_code t" using assms by (simp add: msg_received_def msg_ok_def)
  show ?thesis
  proof (cases "ti_has_checksum (info_of t)")
    case True
    then have "t \<noteq> SYNC" by auto
    from msg_checksum_ok_sum [OF msg_received_ok [OF assms this] True]
    have "compute_checksum (msg_received t bs m) = Inr (msg_sum t bs m)"
      by (simp add: msg_sum_def msg_received_header)
    then show ?thesis using True ty by (simp add: checksum_ok_def) (simp add: msg_received_def)
  qed (use ty in \<open>simp add: checksum_ok_def\<close>)
qed

lemma msg_received_eq:
  assumes "msg_ok t bs m" and "t \<noteq> SYNC"
  shows "msg_eq (msg_received t bs m) m = Inr True"
proof -
  have "\<exists>c. compute_checksum (msg_received t bs m) = Inr c \<and> compute_checksum m = Inr c"
  proof (cases "ti_has_checksum (info_of t)")
    case True
    then show ?thesis
      using msg_checksum_ok_sum [OF msg_received_ok [OF assms] True] msg_checksum_ok_sum [OF assms(1) True]
      by (simp add: msg_sum_def msg_received_header)
  next
    case False
    moreover have "get_type_info (msg_type m) = Inr (info_of t)" "msg_type (msg_received t bs m) = msg_type m"
      using assms by (simp_all add: msg_ok_def msg_received_def)
    ultimately show ?thesis by (simp add: compute_checksum_def)
  qed
  then show ?thesis using assms by (auto simp: msg_eq_def) (auto simp: msg_received_def msg_ok_def)
qed

section \<open>Messages from body objects\<close>

lemma msg_of_body_ok:
  assumes "mem.writes enc bs" and "size_of = Inr (length bs)" and "t \<notin> {SYNC, CONFIGURATION_QUERY}"
    and "length bs + 4 < 65536"
  shows "\<exists>m. msg_of_body t size_of enc = Inr m \<and> msg_ok t bs m"
proof -
  let ?n = "length bs + checksum_size (info_of t)"
  have n: "?n < 65536" using assms(4) by (simp add: checksum_size_def MESSAGE_CHECKSUM_SIZE_def)
  then have len: "unat (of_nat ?n :: u16) = ?n" by (simp only: unat_of_nat) simp
  define m where "m = \<lparr>msg_length = of_nat ?n, msg_type = type_code t, msg_body = Some bs, msg_checksum = 0\<rparr>"
  have ok: "msg_ok t bs m" using assms(3) len by (auto simp: msg_ok_def m_def)
  then obtain c where c: "compute_checksum m = Inr c"
  proof (cases "ti_has_checksum (info_of t)")
    case False
    then show thesis using that [of 0] by (simp add: compute_checksum_def m_def)
  qed (use msg_checksum_ok_sum in blast)
  have "msg_of_body t size_of enc = Inr (m\<lparr>msg_checksum := c\<rparr>)"
    using c write_exact [OF assms(1)] assms(2) by (simp add: msg_of_body_def m_def Let_def)
  moreover have "msg_ok t bs (m\<lparr>msg_checksum := c\<rparr>)" using ok by (simp add: msg_ok_def)
  ultimately show ?thesis by blast
qed

lemma msg_as_consumes:
  assumes "consumes dec bs x" and "msg_body m = Some bs"
  shows "msg_as dec m = Inr x"
  using consumesD [OF assms(1), of "db_of bs 0" "[]"] assms(2) by (simp add: msg_as_def)

lemma hs_writes: "mem.writes (hs_encode h) (hs_bytes h)"
  unfolding hs_encode_def by (rule mem.writes_emit)

lemma length_hs_bytes [simp, layout_simps]: "length (hs_bytes h) = hs_size"
  by (simp add: hs_bytes_def hs_size_def)

lemma hs_consumes: "consumes hs_decode_copy (hs_bytes h) h"
proof -
  have "take 4 (drop 4 (hs_bytes h)) = le_bytes 4 (unat (hs_version h))" "take 4 (hs_bytes h) = le_bytes 4 (unat (hs_protocol h))"
    "hs_bytes h ! 8 = hs_role h"
    by (simp_all add: hs_bytes_def nth_append)
  then have "hs_of_bytes (hs_bytes h) hs_new = h" by (simp add: hs_of_bytes_def of_nat_le_val_u32)
  then show ?thesis
    unfolding hs_decode_copy_def using consumes_read [of "hs_bytes h"]
    by (intro consumes_bind_last [where x = "(Decode_Success, hs_bytes h)"]) (simp_all del: retF_apply)
qed

lemma hr_consumes: "consumes (hr_decode_copy junk) [hr_acknowledge h, hr_role h] h"
proof -
  have "consumes (db_read hr_size) [hr_acknowledge h, hr_role h] (Decode_Success, [hr_acknowledge h, hr_role h])"
    using consumes_read [of "[hr_acknowledge h, hr_role h]"] by (simp add: hr_size_def numeral_2_eq_2)
  moreover have "stored (Decode_Success, [hr_acknowledge h, hr_role h])
      (\<lambda>bs h. \<lparr>hr_acknowledge = bs ! 0, hr_role = bs ! 1\<rparr>) junk = h"
    by simp
  ultimately show ?thesis
    unfolding hr_decode_copy_def by (intro consumes_bind_last) (auto intro: arg_cong [of _ _ retF])
qed

lemma cf_decode_copy_consumes:
  assumes "cf_wf c"
  shows "consumes (cf_decode_copy junk) (cf_encoding c) (cf_received 0 c)"
proof -
  have "consumes (cf_decode junk (cf_make 0)) (cf_encoding c) (Decode_Success, cf_received 0 c)"
    using cf_decode_consumes [OF assms, of "cf_make 0" junk] by (simp add: cf_make_def sa_alloc_mk)
  then show ?thesis unfolding cf_decode_copy_def by (rule consumes_bind_last) (simp only: snd_conv)
qed

section \<open>Properties\<close>

text \<open>
  Claim C4. Framing is exact. For a message whose header agrees with its body (any type: own body, the
  prescribed body of SYNC, none for a query) \<open>get_encoded_size()\<close> is header plus \<open>header.length\<close>; with that
  much room encoding succeeds, decoding at the same place consumes exactly these bytes, and what it returns
  has the same header and body, passes \<open>checksum_ok\<close> and, except for SYNC (whose body becomes explicit),
  compares equal.
\<close>

theorem message_roundtrip:
  assumes "msg_ok t bs m" and "eb_ok b" and "eb_room b (3 + unat (msg_length m))"
  shows "msg_encoded_size m = Inr (3 + unat (msg_length m)) \<and>
    (\<exists>b' c m'. msg_encode m b = Inr (Encode_Success, b') \<and> eb_offset b' = eb_offset b + 3 + unat (msg_length m) \<and>
      msg_decode (db_of (eb_data b') (eb_offset b)) = Inr (m', c) \<and> db_offset c = eb_offset b' \<and>
      msg_header m' = msg_header m \<and> (t \<noteq> CONFIGURATION_QUERY \<longrightarrow> msg_body m' = Some bs) \<and>
      checksum_ok m' = Inr True \<and> (t \<noteq> SYNC \<longrightarrow> msg_eq m' m = Inr True))"
proof -
  have len: "length (msg_wire t bs m) = 3 + unat (msg_length m)"
    using msg_wire_length [OF assms(1)] by (simp add: msg_HeaderSize_def)
  have "t \<noteq> CONFIGURATION_QUERY \<longrightarrow> msg_body (msg_received t bs m) = Some bs" by (simp add: msg_received_def)
  then show ?thesis
    using write_then_read [OF msg_encode_writes [OF assms(1)] msg_decode_consumes [OF assms(1)] assms(2)]
      assms(3) msg_encoded_size_law [OF assms(1)] msg_received_header [of t bs m]
      msg_received_checks [OF assms(1)] msg_received_eq [OF assms(1)]
    unfolding len by (auto simp: add.assoc)
qed

theorem message_roundtrip_witness:
  "msg_encoded_size (msg_new\<lparr>msg_length := 4, msg_type := type_code SYNC\<rparr>) =
      Inr (3 + unat (msg_length (msg_new\<lparr>msg_length := 4, msg_type := type_code SYNC\<rparr>))) \<and>
    (\<exists>b' c m'. msg_encode (msg_new\<lparr>msg_length := 4, msg_type := type_code SYNC\<rparr>) (eb_new 7) = Inr (Encode_Success, b') \<and>
      eb_offset b' = eb_offset (eb_new 7) + 3 + unat (msg_length (msg_new\<lparr>msg_length := 4, msg_type := type_code SYNC\<rparr>)) \<and>
      msg_decode (db_of (eb_data b') (eb_offset (eb_new 7))) = Inr (m', c) \<and> db_offset c = eb_offset b' \<and>
      msg_header m' = msg_header (msg_new\<lparr>msg_length := 4, msg_type := type_code SYNC\<rparr>) \<and>
      (SYNC \<noteq> CONFIGURATION_QUERY \<longrightarrow> msg_body m' = Some SYNC_body) \<and>
      checksum_ok m' = Inr True \<and>
      (SYNC \<noteq> SYNC \<longrightarrow> msg_eq m' (msg_new\<lparr>msg_length := 4, msg_type := type_code SYNC\<rparr>) = Inr True))"
  by (rule message_roundtrip) (simp_all add: msg_ok_def msg_new_def SYNC_body_def checksum_size_def)

text \<open>
  The two encoders agree: for the same message the stream encoder appends to a good stream with
  room exactly the bytes that the memory encoder appends to a buffer with room, and both report success.
\<close>

theorem message_encoders_agree:
  assumes "msg_ok t bs m" and "eb_ok b" and "eb_room b (3 + unat (msg_length m))"
    and "st_ok s" and "st_fits s (3 + unat (msg_length m))"
  shows "\<exists>w b' s'. msg_encode m b = Inr (Encode_Success, b') \<and> msg_encode_stream m s = Inr (Encode_Success, s') \<and>
    eb_written b' = eb_written b @ w \<and> st_out s' = st_out s @ w \<and> length w = 3 + unat (msg_length m) \<and> st_ok s'"
proof -
  have len: "length (msg_wire t bs m) = 3 + unat (msg_length m)"
    using msg_wire_length [OF assms(1)] by (simp add: msg_HeaderSize_def)
  have "msg_encode m b = Inr (Encode_Success, eb_put (msg_wire t bs m) b)"
    using mem.writesD [OF msg_encode_writes [OF assms(1)] assms(2)] assms(3) len by simp
  moreover have "msg_encode_stream m s = Inr (Encode_Success, st_put (msg_wire t bs m) s)"
    using stm.writesD [OF msg_encode_stream_writes [OF assms(1)] assms(4)] assms(5) len by simp
  ultimately show ?thesis
    using assms len by (auto simp: mem.put_outp stm.put_outp stm.put_ok)
qed

theorem message_encoders_agree_witness:
  "\<exists>w b' s'. msg_encode (msg_new\<lparr>msg_length := 4, msg_type := type_code SYNC\<rparr>) (eb_new 7) = Inr (Encode_Success, b') \<and>
    msg_encode_stream (msg_new\<lparr>msg_length := 4, msg_type := type_code SYNC\<rparr>) \<lparr>st_out = [1], st_room = 9, st_bad = False\<rparr>
      = Inr (Encode_Success, s') \<and>
    eb_written b' = eb_written (eb_new 7) @ w \<and> st_out s' = st_out \<lparr>st_out = [1], st_room = 9, st_bad = False\<rparr> @ w \<and>
    length w = 3 + unat (msg_length (msg_new\<lparr>msg_length := 4, msg_type := type_code SYNC\<rparr>)) \<and> st_ok s'"
  by (rule message_encoders_agree [where t = SYNC and bs = SYNC_body])
    (simp_all add: msg_ok_def msg_new_def SYNC_body_def checksum_size_def st_ok_def st_fits_def)

text \<open>
  Claim C16. A corrupted body is noticed: if a checksummed message passes its test and then up to four
  consecutive bytes of its body change, the test fails.
\<close>

theorem corrupted_body_detected:
  assumes "checksum_ok m = Inr True" and "msg_type m = type_code t"
    and "t \<in> {ERROR, CONFIGURATION_RESPONSE, SENSOR_DATA, MODULE_CONTROL}"
    and "msg_body m = Some (us @ xs @ vs)" and "length ys = length xs" and "length xs \<le> 4" and "ys \<noteq> xs"
  shows "checksum_ok (m\<lparr>msg_body := Some (us @ ys @ vs)\<rparr>) = Inr False"
proof -
  have chk: "ti_has_checksum (info_of t)" using assms(3) by auto
  let ?m' = "m\<lparr>msg_body := Some (us @ ys @ vs)\<rparr>"
  have "compute_checksum m = Inr (crc32 ((msg_header m @ us) @ xs @ vs))"
    using assms(2,3,4) by (simp add: compute_checksum_def body_or_def)
  moreover have "compute_checksum ?m' = Inr (crc32 ((msg_header m @ us) @ ys @ vs))"
    using assms(2,3) by (simp add: compute_checksum_def body_or_def msg_header_def)
  moreover have "crc32 ((msg_header m @ us) @ ys @ vs) \<noteq> crc32 ((msg_header m @ us) @ xs @ vs)"
    by (rule crc32_burst_differs) (use assms(5-7) in simp_all)
  ultimately show ?thesis using assms(1,2) chk by (auto simp: checksum_ok_def)
qed

definition msg_example :: message where
  "msg_example = msg_received ERROR [1, 2, 3]
     (msg_new\<lparr>msg_length := 7, msg_type := type_code ERROR, msg_body := Some [1, 2, 3]\<rparr>)"

lemma msg_example_checks: "checksum_ok msg_example = Inr True"
  unfolding msg_example_def
  by (rule msg_received_checks) (simp add: msg_ok_def msg_new_def checksum_size_def MESSAGE_CHECKSUM_SIZE_def)

lemma msg_example_sel: "msg_type msg_example = type_code ERROR" "msg_body msg_example = Some [1, 2, 3]"
  by (simp_all add: msg_example_def msg_received_def)

theorem corrupted_body_detected_witness:
  "checksum_ok (msg_example\<lparr>msg_body := Some ([1] @ [9] @ [3])\<rparr>) = Inr False"
  by (rule corrupted_body_detected [OF msg_example_checks, where t = ERROR and xs = "[2]"])
    (simp_all add: msg_example_sel)

text \<open>
  Claim C5. A configuration reaches its reader: the response message made from a well-formed configuration
  of less than 64 KiB, encoded, decoded, tested and converted back with \<open>as<Configuration>()\<close>, is a
  configuration equal to the one sent.
\<close>

theorem configuration_message_delivers:
  assumes "cf_wf c" and "cf_encoded_size c = Inr n" and "n + 4 < 65536"
  shows "\<exists>m w m' d c'. msg_of_body CONFIGURATION_RESPONSE (cf_encoded_size c) (cf_encode c) = Inr m \<and>
    msg_encode m (eb_new (n + 7)) = Inr (Encode_Success, \<lparr>eb_data = w, eb_offset = n + 7\<rparr>) \<and>
    msg_decode (db_of w 0) = Inr (m', d) \<and> db_rest d = [] \<and> checksum_ok m' = Inr True \<and>
    msg_as (cf_decode_copy junk) m' = Inr c' \<and> cf_eq c' c = Inr True"
proof -
  have n: "n = length (cf_encoding c)" "cf_encoded_size c = Inr (length (cf_encoding c))"
    using assms(1,2) by (simp_all add: cf_encoded_size_law)
  obtain m where m: "msg_of_body CONFIGURATION_RESPONSE (cf_encoded_size c) (cf_encode c) = Inr m"
      "msg_ok CONFIGURATION_RESPONSE (cf_encoding c) m"
    using msg_of_body_ok [OF cf_encode_writes [OF assms(1)] n(2), of CONFIGURATION_RESPONSE] assms(3) n(1) by auto
  let ?w = "msg_wire CONFIGURATION_RESPONSE (cf_encoding c) m"
  let ?m' = "msg_received CONFIGURATION_RESPONSE (cf_encoding c) m"
  have len: "length ?w = n + 7"
    using n(1) by (simp add: length_msg_wire msg_HeaderSize_def checksum_size_def MESSAGE_CHECKSUM_SIZE_def)
  have "msg_decode (db_of ?w 0) = Inr (?m', db_advance (length ?w) (db_of ?w 0))"
    using consumesD [OF msg_decode_consumes [OF m(2)], of "db_of ?w 0" "[]"] by simp
  moreover have "msg_as (cf_decode_copy junk) ?m' = Inr (cf_received 0 c)"
    by (rule msg_as_consumes [OF cf_decode_copy_consumes [OF assms(1)]]) (simp add: msg_received_def)
  moreover have "db_rest (db_advance (length ?w) (db_of ?w 0)) = []" by simp
  moreover have "msg_encode m (eb_new (n + 7)) = Inr (Encode_Success, \<lparr>eb_data = ?w, eb_offset = n + 7\<rparr>)"
    using write_exact [OF msg_encode_writes [OF m(2)]] len by simp
  ultimately show ?thesis
    using m(1) msg_received_checks [OF m(2)] cf_received_eq [OF assms(1), of 0] by blast
qed

theorem configuration_message_delivers_witness:
  "\<exists>m w m' d c'. msg_of_body CONFIGURATION_RESPONSE (cf_encoded_size cf_example) (cf_encode cf_example) = Inr m \<and>
    msg_encode m (eb_new (49 + 7)) = Inr (Encode_Success, \<lparr>eb_data = w, eb_offset = 49 + 7\<rparr>) \<and>
    msg_decode (db_of w 0) = Inr (m', d) \<and> db_rest d = [] \<and> checksum_ok m' = Inr True \<and>
    msg_as (cf_decode_copy (\<lambda>_. 170)) m' = Inr c' \<and> cf_eq c' cf_example = Inr True"
  by (rule configuration_message_delivers [OF cf_example_wf cf_example_size]) simp

text \<open>
  Claim C24. Received headers are trusted. A type byte outside the enumeration aborts the decoder in an
  assertion, and so does a checksummed type whose length is below the four checksum bytes: the body size
  wraps around and the allocation fails.
\<close>

theorem bad_header_aborts:
  assumes "length h = 3" and "8 \<le> unat (h ! 2) \<or>
    (\<exists>t \<in> {ERROR, CONFIGURATION_RESPONSE, SENSOR_DATA, MODULE_CONTROL}. h ! 2 = type_code t) \<and> le_val (take 2 h) < 4"
  shows "msg_decode (db_of (h @ rest) 0) = Inl Assert_failed"
proof -
  let ?b = "db_of (h @ rest) 0"
  let ?m = "msg_set_header h msg_new"
  have rd: "db_read msg_HeaderSize ?b = Inr ((Decode_Success, h), db_advance 3 ?b)"
    using assms(1) by (simp add: db_read_success msg_HeaderSize_def)
  show ?thesis
    using assms(2)
  proof (elim disjE conjE bexE)
    assume "8 \<le> unat (h ! 2)"
    then have "get_type_info (msg_type ?m) = Inl Assert_failed" by (simp add: msg_set_header_def get_type_info_unknown)
    then show ?thesis using rd by (simp add: msg_decode_def bindF_def Let_def)
  next
    fix t assume t: "t \<in> {ERROR, CONFIGURATION_RESPONSE, SENSOR_DATA, MODULE_CONTROL}" "h ! 2 = type_code t"
      and small: "le_val (take 2 h) < 4"
    have "unat (msg_length ?m) < 4"
      using small by (simp add: msg_set_header_def unat_of_nat)
    then have "\<not> size_sub (unat (msg_length ?m)) 4 < 2 ^ 63" by (simp add: size_sub_def size_modulus_def)
    moreover have "get_type_info (msg_type ?m) = Inr (info_of t)" using t(2) by (simp add: msg_set_header_def)
    moreover have "ti_has_body (info_of t)" "checksum_size (info_of t) = 4"
      using t(1) by (auto simp: checksum_size_def MESSAGE_CHECKSUM_SIZE_def)
    ultimately show ?thesis using rd by (simp add: msg_decode_def bindF_def Let_def new_buffer_def)
  qed
qed

theorem bad_header_aborts_witness:
  "msg_decode (db_of ([3, 0, 7] @ [1, 2, 3]) 0) = Inl Assert_failed"
proof (rule bad_header_aborts)
  have "([3, 0, 7] :: byte list) ! 2 = type_code MODULE_CONTROL" by (simp add: type_code_def)
  then show "8 \<le> unat (([3, 0, 7] :: byte list) ! 2) \<or>
    (\<exists>t \<in> {ERROR, CONFIGURATION_RESPONSE, SENSOR_DATA, MODULE_CONTROL}. ([3, 0, 7] :: byte list) ! 2 = type_code t) \<and>
      le_val (take 2 [3, 0, 7]) < 4"
    by auto
qed simp

text \<open>
  The move constructor loses the checksum: a received, valid checksummed message that is passed on
  through it no longer passes \<open>checksum_ok\<close> (unless its sum was zero), while assignment keeps it valid.
\<close>

theorem moved_message_fails_checksum:
  assumes "checksum_ok m = Inr True" and "msg_type m = type_code t" and "ti_has_checksum (info_of t)"
    and "msg_checksum m \<noteq> 0"
  shows "checksum_ok (fst (msg_move m)) = Inr False \<and> checksum_ok (fst (msg_move_assign x m)) = Inr True"
proof -
  have "compute_checksum (fst (msg_move m)) = compute_checksum m" "compute_checksum (fst (msg_move_assign x m)) = compute_checksum m"
    by (simp_all add: compute_checksum_def msg_move_def msg_move_assign_def body_or_def msg_header_def cong: if_cong)
  moreover have ty: "get_type_info (msg_type m) = Inr (info_of t)" using assms(2) by simp
  moreover have "compute_checksum m = Inr (msg_checksum m)"
    using assms(1,3) ty by (cases "compute_checksum m") (auto simp: checksum_ok_def simp del: info_of_simps)
  moreover have "msg_type (fst (msg_move m)) = msg_type m" "msg_checksum (fst (msg_move m)) = 0"
    "msg_type (fst (msg_move_assign x m)) = msg_type m" "msg_checksum (fst (msg_move_assign x m)) = msg_checksum m"
    by (simp_all add: msg_move_def msg_move_assign_def)
  ultimately show ?thesis using assms(3,4) by (simp add: checksum_ok_def del: info_of_simps)
qed

lemma le_bytes_2: "le_bytes 2 v = [of_nat v, of_nat (v div 256)]"
  by (simp add: numeral_2_eq_2)

lemma msg_example_nonzero: "msg_checksum msg_example \<noteq> 0"
proof -
  have "msg_checksum msg_example = crc32 [7, 0, 3, 1, 2, 3]"
    by (simp add: msg_example_def msg_received_def msg_sum_def msg_header_def msg_new_def type_code_def le_bytes_2)
  also have "\<dots> = 0x148f67fa" by (simp add: crc32_def update_crc32_reference crc_byte_def crc_bit_def)
  finally show ?thesis by simp
qed

theorem moved_message_fails_checksum_witness:
  "checksum_ok (fst (msg_move msg_example)) = Inr False \<and> checksum_ok (fst (msg_move_assign msg_new msg_example)) = Inr True"
  by (rule moved_message_fails_checksum [OF msg_example_checks msg_example_sel(1) _ msg_example_nonzero]) simp


end
