(* ===== verification/Block.thy ===== *)
theory Block
  imports Prelude
begin

text \<open>
  Byte blocks and reference counts: \<^verbatim>\<open>util/Buffer.cc\<close> and \<^verbatim>\<open>util/RefCountedObject.cc\<close> with their headers. A
  \<open>Buffer\<close> is a pointer with ownership information, so the allocator is modelled: a store of live blocks, in
  which freeing, reading or writing a block that is not live is a fault. Every pointer the code keeps is the
  start of a block, here the address under which the block is stored; \<open>None\<close> is the null pointer.
\<close>

section \<open>The allocator\<close>

record heap =
  hp_blocks :: "nat \<Rightarrow> byte list option"
  hp_next :: nat

definition hp_empty :: heap where
  "hp_empty = \<lparr>hp_blocks = (\<lambda>_. None), hp_next = 0\<rparr>"

text \<open>\<open>malloc\<close>: null for sizes no allocator grants, otherwise a fresh block with arbitrary contents.\<close>

definition hp_malloc :: "(nat \<Rightarrow> byte) \<Rightarrow> nat \<Rightarrow> (heap, nat option) sfm" where
  "hp_malloc junk n = (\<lambda>h.
     if n < 2 ^ 63
     then Inr (Some (hp_next h), \<lparr>hp_blocks = (hp_blocks h)(hp_next h \<mapsto> map junk [0..<n]), hp_next = Suc (hp_next h)\<rparr>)
     else Inr (None, h))"

definition hp_free :: "nat \<Rightarrow> (heap, unit) sfm" where
  "hp_free a = (\<lambda>h.
     if hp_blocks h a = None then Inl Use_after_free else Inr ((), h\<lparr>hp_blocks := (hp_blocks h)(a := None)\<rparr>))"

definition hp_read :: "nat option \<Rightarrow> nat \<Rightarrow> (heap, byte list) sfm" where
  "hp_read p n = (\<lambda>h.
     case p of
       None \<Rightarrow> if n = 0 then Inr ([], h) else Inl Null_deref
     | Some a \<Rightarrow> (case hp_blocks h a of
         None \<Rightarrow> Inl Use_after_free
       | Some bs \<Rightarrow> if n \<le> length bs then Inr (take n bs, h) else Inl Out_of_bounds))"

definition hp_write :: "nat option \<Rightarrow> nat \<Rightarrow> byte list \<Rightarrow> (heap, unit) sfm" where
  "hp_write p off v = (\<lambda>h.
     case p of
       None \<Rightarrow> if v = [] then Inr ((), h) else Inl Null_deref
     | Some a \<Rightarrow> (case hp_blocks h a of
         None \<Rightarrow> Inl Use_after_free
       | Some bs \<Rightarrow>
           if off + length v \<le> length bs
           then Inr ((), h\<lparr>hp_blocks := (hp_blocks h)(a \<mapsto> overlay off v bs)\<rparr>) else Inl Out_of_bounds))"

definition hp_memcpy :: "nat option \<Rightarrow> nat option \<Rightarrow> nat \<Rightarrow> (heap, unit) sfm" where
  "hp_memcpy dst src n = bindF (hp_read src n) (hp_write dst 0)"

text \<open>
  \<open>realloc\<close> moves the block, keeping the common prefix; of a null pointer it is \<open>malloc\<close>, to size zero it
  frees and returns null, and when it fails it returns null and leaves the block alone.
\<close>

definition hp_realloc :: "(nat \<Rightarrow> byte) \<Rightarrow> nat option \<Rightarrow> nat \<Rightarrow> (heap, nat option) sfm" where
  "hp_realloc junk p n =
     (case p of
        None \<Rightarrow> hp_malloc junk n
      | Some a \<Rightarrow>
          if n = 0 then bindF (hp_free a) (\<lambda>_. retF None)
          else (\<lambda>h. case hp_blocks h a of
                 None \<Rightarrow> Inl Use_after_free
               | Some bs \<Rightarrow>
                   bindF (hp_malloc junk n) (\<lambda>q.
                     if q = None then retF None
                     else bindF (hp_memcpy q (Some a) (min n (length bs))) (\<lambda>_.
                          bindF (hp_free a) (\<lambda>_. retF q))) h))"

section \<open>The code\<close>

text \<open>A free function is known to be C's \<open>free\<close> or one of the caller's; either releases the block.\<close>

datatype free_fn = C_free | Callers_free

record buffer =
  bf_data :: "nat option"
  bf_length :: nat
  bf_owns :: bool
  bf_free :: "free_fn option"
  bf_refs :: int

definition bf_borrow :: "nat option \<Rightarrow> nat \<Rightarrow> buffer" where
  "bf_borrow p n = \<lparr>bf_data = p, bf_length = n, bf_owns = False, bf_free = None, bf_refs = 0\<rparr>"

definition bf_adopt :: "nat option \<Rightarrow> nat \<Rightarrow> free_fn option \<Rightarrow> buffer" where
  "bf_adopt p n ff = \<lparr>bf_data = p, bf_length = n, bf_owns = True, bf_free = ff, bf_refs = 0\<rparr>"

definition bf_alloc :: "(nat \<Rightarrow> byte) \<Rightarrow> nat \<Rightarrow> (heap, buffer) sfm" where
  "bf_alloc junk n =
     bindF (hp_malloc junk n) (\<lambda>p.
     bindF (assertF (p \<noteq> None)) (\<lambda>_.
     bindF (hp_write p 0 (replicate n 0)) (\<lambda>_.
       retF (bf_adopt p n (Some C_free)))))"

definition bf_move :: "buffer \<Rightarrow> buffer \<times> buffer" where
  "bf_move b = (b\<lparr>bf_refs := 0\<rparr>, b\<lparr>bf_owns := False\<rparr>)"

definition bf_default :: buffer where
  "bf_default = bf_borrow None 0"

definition bf_copy :: "(nat \<Rightarrow> byte) \<Rightarrow> buffer \<Rightarrow> (heap, buffer) sfm" where
  "bf_copy junk b =
     bindF (hp_malloc junk (bf_length b)) (\<lambda>p.
     bindF (hp_memcpy p (bf_data b) (bf_length b)) (\<lambda>_.
       retF (bf_adopt p (bf_length b) (Some C_free))))"

text \<open>The base class destructor runs last and throws when references are left.\<close>

definition rc_destroy :: "int \<Rightarrow> (heap, unit) sfm" where
  "rc_destroy n =
     (if n > 0 then failF (Thrown ''destructor called with refCount > 0'')
      else if n < 0 then failF (Thrown ''destructor called with refCount < 0'') else retF ())"

definition bf_release_data :: "buffer \<Rightarrow> (heap, unit) sfm" where
  "bf_release_data b =
     (case bf_data b of
        None \<Rightarrow> retF ()
      | Some a \<Rightarrow> if bf_owns b then (if bf_free b = None then failF Null_call else hp_free a) else retF ())"

definition bf_destroy :: "buffer \<Rightarrow> (heap, unit) sfm" where
  "bf_destroy b = bindF (bf_release_data b) (\<lambda>_. rc_destroy (bf_refs b))"

definition bf_resize :: "(nat \<Rightarrow> byte) \<Rightarrow> nat \<Rightarrow> buffer \<Rightarrow> (heap, buffer) sfm" where
  "bf_resize junk cap b =
     (if \<not> bf_owns b
      then bindF (hp_malloc junk cap) (\<lambda>p.
           bindF (hp_memcpy p (bf_data b) (min (bf_length b) cap)) (\<lambda>_.
           bindF (if bf_length b < cap then hp_write p (bf_length b) (replicate (cap - bf_length b) 0) else retF ()) (\<lambda>_.
             retF (b\<lparr>bf_data := p, bf_length := cap, bf_owns := True\<rparr>))))
      else bindF (hp_realloc junk (bf_data b) cap) (\<lambda>p.
             retF (b\<lparr>bf_data := p, bf_length := cap\<rparr>)))"

text \<open>\<open>reset\<close> releases only when a free function is there, unlike the destructor.\<close>

definition bf_reset :: "buffer \<Rightarrow> buffer \<Rightarrow> (heap, buffer \<times> buffer) sfm" where
  "bf_reset t b =
     bindF (if bf_free t = None then retF () else bf_release_data t) (\<lambda>_.
       retF (t\<lparr>bf_data := bf_data b, bf_length := bf_length b, bf_owns := bf_owns b, bf_free := bf_free b\<rparr>,
             b\<lparr>bf_data := None, bf_owns := False, bf_free := None\<rparr>))"

definition bf_copy_bytes :: "(nat \<Rightarrow> byte) \<Rightarrow> nat option \<Rightarrow> nat \<Rightarrow> (heap, buffer) sfm" where
  "bf_copy_bytes junk p n =
     bindF (bf_alloc junk n) (\<lambda>out. bindF (hp_memcpy (bf_data out) p n) (\<lambda>_. retF out))"

definition bf_copy_buffer :: "(nat \<Rightarrow> byte) \<Rightarrow> buffer \<Rightarrow> (heap, buffer) sfm" where
  "bf_copy_buffer junk b = bf_copy_bytes junk (bf_data b) (bf_length b)"

text \<open>The inline functions of the header pass on to those.\<close>

definition bf_assign :: "buffer \<Rightarrow> buffer \<Rightarrow> (heap, buffer \<times> buffer) sfm" where
  "bf_assign t b = bf_reset t b"

definition bf_take_ownership :: "nat option \<Rightarrow> nat \<Rightarrow> free_fn option \<Rightarrow> buffer" where
  "bf_take_ownership p n ff = bf_adopt p n ff"

definition bf_from_pointer :: "nat option \<Rightarrow> nat \<Rightarrow> buffer" where
  "bf_from_pointer p n = bf_borrow p n"

definition bf_create :: "(nat \<Rightarrow> byte) \<Rightarrow> nat \<Rightarrow> (heap, buffer) sfm" where
  "bf_create junk n = bf_alloc junk n"

subsection \<open>Reference-counted objects\<close>

text \<open>
  The objects on the heap, each a \<open>Buffer\<close>. \<open>intrusive_ptr_release\<close> deletes the object when the count
  reaches zero. The counter is atomic, so each of the two functions is one step.
\<close>

record objects =
  ob_bufs :: "nat \<Rightarrow> buffer option"
  ob_heap :: heap

definition ob_add_ref :: "nat \<Rightarrow> (objects, unit) sfm" where
  "ob_add_ref r = (\<lambda>s.
     case ob_bufs s r of
       None \<Rightarrow> Inl Use_after_free
     | Some b \<Rightarrow> Inr ((), s\<lparr>ob_bufs := (ob_bufs s)(r \<mapsto> b\<lparr>bf_refs := bf_refs b + 1\<rparr>)\<rparr>))"

definition ob_release :: "nat \<Rightarrow> (objects, unit) sfm" where
  "ob_release r = (\<lambda>s.
     case ob_bufs s r of
       None \<Rightarrow> Inl Use_after_free
     | Some b \<Rightarrow>
         let b' = b\<lparr>bf_refs := bf_refs b - 1\<rparr> in
         if bf_refs b' \<noteq> 0 then Inr ((), s\<lparr>ob_bufs := (ob_bufs s)(r \<mapsto> b')\<rparr>)
         else (case bf_destroy b' (ob_heap s) of
                 Inl e \<Rightarrow> Inl e
               | Inr (_, h) \<Rightarrow> Inr ((), \<lparr>ob_bufs = (ob_bufs s)(r := None), ob_heap = h\<rparr>)))"

section \<open>Blocks\<close>

definition hp_ok :: "heap \<Rightarrow> bool" where
  "hp_ok h \<longleftrightarrow> (\<forall>a. hp_blocks h a \<noteq> None \<longrightarrow> a < hp_next h)"

text \<open>A buffer that holds the bytes \<open>bs\<close>, and what its destructor relies on.\<close>

definition bf_holds :: "heap \<Rightarrow> buffer \<Rightarrow> byte list \<Rightarrow> bool" where
  "bf_holds h b bs \<longleftrightarrow> bf_length b = length bs \<and> (\<exists>a. bf_data b = Some a \<and> hp_blocks h a = Some bs)"

definition bf_sound :: "buffer \<Rightarrow> bool" where
  "bf_sound b \<longleftrightarrow> (bf_owns b \<longrightarrow> bf_free b \<noteq> None)"

lemmas heap_defs = hp_malloc_def hp_memcpy_def hp_read_def hp_write_def hp_free_def bindF_def

lemma overlay_prefix:
  "overlay 0 (take (min n (length bs)) bs) (map f [0..<n]) = take n bs @ map f [length bs..<n]"
  by (cases "n \<le> length bs") (auto simp: overlay_def drop_map min_def)

lemma overlay_zeros: "m \<le> n \<Longrightarrow> length xs = m \<Longrightarrow> overlay m (replicate (n - m) 0) (xs @ map f [m..<n]) = xs @ replicate (n - m) 0"
  by (simp add: overlay_def)

lemma bf_resize_owned:
  assumes ok: "hp_ok h" and data: "bf_data b = Some a" "hp_blocks h a = Some bs" and owns: "bf_owns b"
    and cap: "0 < cap" "cap < 2 ^ 63"
  shows "bf_resize junk cap b h = Inr (b\<lparr>bf_data := Some (hp_next h), bf_length := cap\<rparr>,
    \<lparr>hp_blocks = (hp_blocks h)(hp_next h \<mapsto> take cap bs @ map junk [length bs..<cap], a := None), hp_next = Suc (hp_next h)\<rparr>)"
proof -
  have fresh: "hp_next h \<noteq> a"
    using ok data(2) by (auto simp: hp_ok_def)
  then show ?thesis
    using data owns cap
    by (simp add: bf_resize_def hp_realloc_def heap_defs overlay_prefix)
qed

lemma bf_resize_borrowed:
  assumes ok: "hp_ok h" and data: "bf_data b = Some a" "hp_blocks h a = Some bs" "bf_length b = length bs"
    and owns: "\<not> bf_owns b" and cap: "cap < 2 ^ 63"
  shows "bf_resize junk cap b h = Inr (b\<lparr>bf_data := Some (hp_next h), bf_length := cap, bf_owns := True\<rparr>,
    \<lparr>hp_blocks = (hp_blocks h)(hp_next h \<mapsto> take cap bs @ replicate (cap - length bs) 0), hp_next = Suc (hp_next h)\<rparr>)"
proof -
  have fresh: "hp_next h \<noteq> a"
    using ok data(2) by (auto simp: hp_ok_def)
  have prefix: "overlay 0 (take (min (length bs) cap) bs) (map junk [0..<cap]) = take cap bs @ map junk [length bs..<cap]"
    using overlay_prefix [of cap bs junk] by (simp add: min.commute)
  show ?thesis
  proof (cases "length bs < cap")
    case True
    then have "overlay (length bs) (replicate (cap - length bs) 0) (overlay 0 bs (map junk [0..<cap])) =
        bs @ replicate (cap - length bs) 0"
      using prefix overlay_zeros [of "length bs" cap bs junk] by simp
    then show ?thesis
      using True data owns cap fresh by (simp add: bf_resize_def heap_defs)
  next
    case False
    then have "overlay 0 (take cap bs) (map junk [0..<cap]) = take cap bs"
      using prefix by simp
    then show ?thesis
      using False data owns cap fresh by (simp add: bf_resize_def heap_defs)
  qed
qed

lemma hp_ok_alloc: "hp_ok h \<Longrightarrow> hp_ok \<lparr>hp_blocks = (hp_blocks h)(hp_next h \<mapsto> bs), hp_next = Suc (hp_next h)\<rparr>"
  by (auto simp: hp_ok_def less_Suc_eq)

lemma bf_alloc_zeroed:
  "n < 2 ^ 63 \<Longrightarrow> bf_alloc junk n h = Inr (bf_adopt (Some (hp_next h)) n (Some C_free),
     \<lparr>hp_blocks = (hp_blocks h)(hp_next h \<mapsto> replicate n 0), hp_next = Suc (hp_next h)\<rparr>)"
  by (simp add: bf_alloc_def heap_defs overlay_def)

lemma bf_alloc_too_large: "2 ^ 63 \<le> n \<Longrightarrow> bf_alloc junk n h = Inl Assert_failed"
  by (simp add: bf_alloc_def heap_defs)

text \<open>Assignment hands over what the source has; a target that owns its block gives it back.\<close>

lemma bf_assign_hands_over:
  assumes "bf_holds h t ts" and "bf_sound t"
  shows "\<exists>h' t' b'. bf_assign t b h = Inr ((t', b'), h') \<and> bf_data t' = bf_data b \<and> bf_length t' = bf_length b \<and>
    bf_owns t' = bf_owns b \<and> bf_free t' = bf_free b \<and> \<not> bf_owns b' \<and> bf_data b' = None \<and>
    hp_blocks h' = (if bf_owns t then (hp_blocks h)(the (bf_data t) := None) else hp_blocks h)"
  using assms by (auto simp: bf_assign_def bf_reset_def bf_release_data_def bf_holds_def bf_sound_def hp_free_def bindF_def)

lemma bf_copy_separate:
  assumes "hp_ok h" and "bf_holds h b bs" and "length bs < 2 ^ 63"
  shows "\<exists>h'. bf_copy junk b h = Inr (bf_adopt (Some (hp_next h)) (length bs) (Some C_free), h') \<and> hp_ok h' \<and>
    bf_holds h' (bf_adopt (Some (hp_next h)) (length bs) (Some C_free)) bs \<and> bf_holds h' b bs \<and>
    (\<exists>h''. bf_destroy (bf_adopt (Some (hp_next h)) (length bs) (Some C_free)) h' = Inr ((), h'') \<and> hp_blocks h'' = hp_blocks h)"
proof -
  from assms(2) obtain a where a: "bf_data b = Some a" "hp_blocks h a = Some bs" "bf_length b = length bs"
    by (auto simp: bf_holds_def)
  have fresh: "hp_blocks h (hp_next h) = None" "hp_next h \<noteq> a" using assms(1) a(2) by (auto simp: hp_ok_def)
  have "bf_copy junk b h = Inr (bf_adopt (Some (hp_next h)) (length bs) (Some C_free),
     \<lparr>hp_blocks = (hp_blocks h)(hp_next h \<mapsto> bs), hp_next = Suc (hp_next h)\<rparr>)"
    using a assms(3) fresh(2) by (simp add: bf_copy_def heap_defs overlay_def)
  moreover have "(hp_blocks h)(hp_next h := None) = hp_blocks h" using fresh(1) by (simp add: fun_upd_idem)
  ultimately show ?thesis
    using a fresh hp_ok_alloc [OF assms(1)]
    by (simp add: bf_holds_def bf_adopt_def bf_destroy_def bf_release_data_def rc_destroy_def hp_free_def bindF_def)
qed

section \<open>Reference counting\<close>

fun ob_run :: "nat \<Rightarrow> bool list \<Rightarrow> (objects, unit) sfm" where
  "ob_run r [] = retF ()"
| "ob_run r (add # ops) = bindF (if add then ob_add_ref r else ob_release r) (\<lambda>_. ob_run r ops)"

definition rc_net :: "bool list \<Rightarrow> int" where
  "rc_net ops = (\<Sum>add \<leftarrow> ops. if add then 1 else - 1)"

lemma rc_net_simps [simp]: "rc_net [] = 0" "rc_net (add # ops) = (if add then 1 else - 1) + rc_net ops"
  by (simp_all add: rc_net_def)

definition ob_dropped :: "nat \<Rightarrow> buffer \<Rightarrow> objects \<Rightarrow> objects \<Rightarrow> bool" where
  "ob_dropped r b s s' \<longleftrightarrow> ob_bufs s' = (ob_bufs s)(r := None) \<and>
     hp_blocks (ob_heap s') = (if bf_owns b then (hp_blocks (ob_heap s))(the (bf_data b) := None) else hp_blocks (ob_heap s))"

lemma ob_run_counts:
  assumes "ob_bufs s r = Some b" and "bf_holds (ob_heap s) b bs" and "bf_sound b"
    and "\<forall>k < length ops. 0 < bf_refs b + rc_net (take k ops)"
  shows "\<exists>s'. ob_run r ops s = Inr ((), s') \<and>
    (if ops = [] \<or> 0 < bf_refs b + rc_net ops
     then s' = s\<lparr>ob_bufs := (ob_bufs s)(r \<mapsto> b\<lparr>bf_refs := bf_refs b + rc_net ops\<rparr>)\<rparr>
     else bf_refs b + rc_net ops = 0 \<and> ob_dropped r b s s')"
  using assms
proof (induction ops arbitrary: s b)
  case Nil
  then show ?case by (simp add: fun_upd_idem)
next
  case (Cons add ops)
  have pos: "0 < bf_refs b" using Cons.prems(4) by (auto dest: spec [of _ 0])
  let ?c = "bf_refs b + (if add then 1 else - 1)"
  let ?b = "b\<lparr>bf_refs := ?c\<rparr>"
  let ?s = "s\<lparr>ob_bufs := (ob_bufs s)(r \<mapsto> ?b)\<rparr>"
  show ?case
  proof (cases "?c = 0")
    case True
    then have add: "\<not> add" and one: "bf_refs b = 1" using pos by (auto split: if_splits)
    have "ops = []"
    proof (rule ccontr)
      assume "ops \<noteq> []"
      then have "0 < bf_refs b + rc_net (take 1 (add # ops))" using Cons.prems(4) by (auto dest: spec [of _ 1])
      then show False using add one by simp
    qed
    then show ?thesis
      using Cons.prems add one
      by (cases "bf_owns b") (auto simp: ob_release_def bf_destroy_def bf_release_data_def rc_destroy_def hp_free_def
          bindF_def bf_holds_def bf_sound_def ob_dropped_def)
  next
    case False
    then have step: "ob_run r (add # ops) s = ob_run r ops ?s"
      using Cons.prems(1) by (cases add) (simp_all add: ob_add_ref_def ob_release_def bindF_def Let_def)
    have c: "0 < ?c" using pos False by (auto split: if_splits)
    have "\<forall>k < length ops. 0 < bf_refs ?b + rc_net (take k ops)"
    proof (intro allI impI)
      fix k assume "k < length ops"
      then have "0 < bf_refs b + rc_net (take (Suc k) (add # ops))" using Cons.prems(4) by (simp del: take_Suc_Cons)
      then show "0 < bf_refs ?b + rc_net (take k ops)" by simp
    qed
    moreover have "ob_bufs ?s r = Some ?b" "bf_holds (ob_heap ?s) ?b bs" "bf_sound ?b"
      using Cons.prems by (simp_all add: bf_holds_def bf_sound_def)
    ultimately show ?thesis
      using Cons.IH [of ?s ?b] c unfolding step
      by (auto simp: ob_dropped_def algebra_simps split: if_splits)
  qed
qed

section \<open>Properties\<close>

text \<open>
  \<open>Buffer::resize\<close> keeps the common prefix of the contents: a buffer that owns its block moves to
  a block of the new size whose further bytes are arbitrary and gives the old one back, a borrowed one gets a
  zero-filled block of its own and leaves the borrowed one alone. But it forgets to set the free function,
  so the destructor of a resized borrowed buffer calls a null pointer.
\<close>

theorem buffer_resize:
  assumes "hp_ok h" and "bf_data b = Some a" and "hp_blocks h a = Some bs" and "bf_length b = length bs"
    and "0 < cap" and "cap < 2 ^ 63"
  shows "\<exists>b' h'. bf_resize junk cap b h = Inr (b', h') \<and> hp_ok h' \<and> bf_owns b' \<and>
    bf_holds h' b' (take cap bs @ (if bf_owns b then map junk [length bs..<cap] else replicate (cap - length bs) 0)) \<and>
    hp_blocks h' a = (if bf_owns b then None else Some bs) \<and>
    (\<forall>c. c \<noteq> a \<longrightarrow> bf_data b' \<noteq> Some c \<longrightarrow> hp_blocks h' c = hp_blocks h c) \<and>
    (\<not> bf_owns b \<longrightarrow> bf_free b = None \<longrightarrow> bf_destroy b' h' = Inl Null_call)"
proof -
  have fresh: "hp_next h \<noteq> a" using assms(1,3) by (auto simp: hp_ok_def)
  have ok: "hp_ok \<lparr>hp_blocks = (hp_blocks h)(hp_next h \<mapsto> xs, a := None), hp_next = Suc (hp_next h)\<rparr>" for xs
    using hp_ok_alloc [OF assms(1), of xs] by (auto simp: hp_ok_def)
  show ?thesis
  proof (cases "bf_owns b")
    case True
    show ?thesis
      unfolding bf_resize_owned [OF assms(1-3) True assms(5,6)]
      using True fresh ok by (simp add: bf_holds_def)
  next
    case False
    show ?thesis
      unfolding bf_resize_borrowed [OF assms(1-4) False assms(6)]
      using False fresh assms(3) hp_ok_alloc [OF assms(1)]
      by (simp add: bf_holds_def bf_destroy_def bf_release_data_def bindF_def)
  qed
qed

definition hp_example :: heap where
  "hp_example = \<lparr>hp_blocks = (\<lambda>_. None)(0 \<mapsto> [1, 2]), hp_next = 1\<rparr>"

theorem buffer_resize_witness:
  "\<exists>b' h'. bf_resize (\<lambda>_. 7) 3 (bf_borrow (Some 0) 2) hp_example = Inr (b', h') \<and> hp_ok h' \<and> bf_owns b' \<and>
    bf_holds h' b' (take 3 [1, 2] @ (if bf_owns (bf_borrow (Some 0) 2) then map (\<lambda>_. 7) [length [1 :: byte, 2]..<3]
      else replicate (3 - length [1 :: byte, 2]) 0)) \<and>
    hp_blocks h' 0 = (if bf_owns (bf_borrow (Some 0) 2) then None else Some [1, 2]) \<and>
    (\<forall>c. c \<noteq> 0 \<longrightarrow> bf_data b' \<noteq> Some c \<longrightarrow> hp_blocks h' c = hp_blocks hp_example c) \<and>
    (\<not> bf_owns (bf_borrow (Some 0) 2) \<longrightarrow> bf_free (bf_borrow (Some 0) 2) = None \<longrightarrow> bf_destroy b' h' = Inl Null_call)"
  by (rule buffer_resize) (simp_all add: hp_example_def hp_ok_def bf_borrow_def)

text \<open>
  Claim C30. Reference counting: as long as every step finds a positive count, references are only counted
  and the object stays as it is; the release that brings the count to zero destroys it, gives back the block
  it owns and nothing else, and no step faults.
\<close>

theorem references_keep_alive:
  assumes "ob_bufs s r = Some b" and "bf_holds (ob_heap s) b bs" and "bf_sound b" and "0 < bf_refs b"
    and "\<forall>k < length ops. 0 < bf_refs b + rc_net (take k ops)"
  shows "\<exists>s'. ob_run r ops s = Inr ((), s') \<and>
    (if 0 < bf_refs b + rc_net ops
     then s' = s\<lparr>ob_bufs := (ob_bufs s)(r \<mapsto> b\<lparr>bf_refs := bf_refs b + rc_net ops\<rparr>)\<rparr>
     else bf_refs b + rc_net ops = 0 \<and> ob_dropped r b s s')"
  using ob_run_counts [OF assms(1-3,5)] assms(4) by (auto split: if_splits)

definition ob_example :: objects where
  "ob_example = \<lparr>ob_bufs = (\<lambda>_. None)(5 \<mapsto> (bf_adopt (Some 0) 2 (Some C_free))\<lparr>bf_refs := 1\<rparr>), ob_heap = hp_example\<rparr>"

theorem references_keep_alive_witness:
  "\<exists>s'. ob_run 5 [True, False, False] ob_example = Inr ((), s') \<and>
    (if 0 < bf_refs ((bf_adopt (Some 0) 2 (Some C_free))\<lparr>bf_refs := 1\<rparr>) + rc_net [True, False, False]
     then s' = ob_example\<lparr>ob_bufs := (ob_bufs ob_example)(5 \<mapsto> ((bf_adopt (Some 0) 2 (Some C_free))\<lparr>bf_refs := 1\<rparr>)
       \<lparr>bf_refs := bf_refs ((bf_adopt (Some 0) 2 (Some C_free))\<lparr>bf_refs := 1\<rparr>) + rc_net [True, False, False]\<rparr>)\<rparr>
     else bf_refs ((bf_adopt (Some 0) 2 (Some C_free))\<lparr>bf_refs := 1\<rparr>) + rc_net [True, False, False] = 0 \<and>
       ob_dropped 5 ((bf_adopt (Some 0) 2 (Some C_free))\<lparr>bf_refs := 1\<rparr>) ob_example s')"
  by (rule references_keep_alive [where bs = "[1, 2]"])
    (simp_all add: ob_example_def hp_example_def bf_adopt_def bf_holds_def bf_sound_def less_Suc_eq numeral_3_eq_3 numeral_2_eq_2 all_conj_distrib)

end
