(* ===== verification/SharedQueue.thy ===== *)
theory SharedQueue
  imports Prelude "HOL-Library.Multiset"
begin

text \<open>
  The thread-safe queue of \<^verbatim>\<open>include/crisp/util/SharedQueue.hh\<close>. What a thread does while it holds the mutex is
  one step; between its steps other threads run. A thread inside \<open>next\<close> is in one of three places: past the
  first, unlocked, test of the abort flag but not yet holding the mutex (\<open>entering\<close>), waiting on the
  condition variable (\<open>sleeping\<close>), or notified and waiting for the mutex again (\<open>woken\<close>). Waking without a
  notification is allowed, as the standard has it. The unlocked accessors (\<open>empty\<close>, \<open>size\<close>, \<open>front\<close>, \<open>back\<close>) are
  those of \<open>std::queue\<close> and not modelled.
\<close>

section \<open>The code\<close>

text \<open>A call of \<open>next\<close>: the thread, and whether it passes a pointer for the abort flag.\<close>

record caller =
  c_thread :: nat
  c_asks :: bool

record 'v squeue =
  sq_items :: "'v list"
  sq_aborted :: bool
  sq_num_waiters :: "64 word"
  sq_entering :: "caller list"
  sq_sleeping :: "caller list"
  sq_woken :: "caller list"

text \<open>No constructor initialises \<open>m_num_waiters\<close>, and the move constructor does not set \<open>m_aborted\<close> either.\<close>

definition sq_new :: "64 word \<Rightarrow> 'v squeue" where
  "sq_new n = \<lparr>sq_items = [], sq_aborted = False, sq_num_waiters = n, sq_entering = [], sq_sleeping = [], sq_woken = []\<rparr>"

definition sq_move :: "bool \<Rightarrow> 64 word \<Rightarrow> 'v squeue \<Rightarrow> 'v squeue \<times> 'v squeue" where
  "sq_move aborted n q = ((sq_new n)\<lparr>sq_items := sq_items q, sq_aborted := aborted\<rparr>, q\<lparr>sq_items := []\<rparr>)"

text \<open>\<open>notify_one\<close> for the sleeping thread the system picks.\<close>

definition sq_wake :: "caller \<Rightarrow> 'v squeue \<Rightarrow> 'v squeue" where
  "sq_wake c q = q\<lparr>sq_sleeping := remove1 c (sq_sleeping q), sq_woken := c # sq_woken q\<rparr>"

definition sq_wake_all :: "'v squeue \<Rightarrow> 'v squeue" where
  "sq_wake_all q = q\<lparr>sq_aborted := True, sq_sleeping := [], sq_woken := sq_sleeping q @ sq_woken q\<rparr>"

definition sq_push :: "'v \<Rightarrow> caller option \<Rightarrow> 'v squeue \<Rightarrow> 'v squeue" where
  "sq_push v picked q =
     (let q' = q\<lparr>sq_items := sq_items q @ [v]\<rparr> in case picked of None \<Rightarrow> q' | Some c \<Rightarrow> sq_wake c q')"

text \<open>\<open>pop\<close> on an empty \<open>std::queue\<close> is undefined.\<close>

definition sq_pop :: "'v squeue \<Rightarrow> fault + 'v squeue" where
  "sq_pop q = (case sq_items q of [] \<Rightarrow> Inl Out_of_bounds | v # vs \<Rightarrow> Inr (q\<lparr>sq_items := vs\<rparr>))"

text \<open>
  \<open>next\<close> returns the first item, or a default-constructed object (\<open>None\<close>), with the flag set if the caller
  gave a pointer. Its end, under the mutex:
\<close>

datatype 'v event = Put 'v | Got caller 'v | Gave_up caller | Dropped 'v | Internal

definition sq_finish :: "caller \<Rightarrow> 'v squeue \<Rightarrow> fault + 'v event \<times> 'v squeue" where
  "sq_finish c q =
     (if sq_aborted q then Inr (Gave_up c, q)
      else case sq_items q of
             [] \<Rightarrow> Inl Out_of_bounds
           | v # vs \<Rightarrow> Inr (Got c v, q\<lparr>sq_items := vs\<rparr>))"

definition sq_enter :: "caller \<Rightarrow> 'v squeue \<Rightarrow> fault + 'v event \<times> 'v squeue" where
  "sq_enter c q0 =
     (let q = q0\<lparr>sq_entering := remove1 c (sq_entering q0)\<rparr> in
      if sq_items q = []
      then if sq_aborted q
           then sq_finish c (q\<lparr>sq_num_waiters := sq_num_waiters q + 1 - 1\<rparr>)
           else Inr (Internal, q\<lparr>sq_num_waiters := sq_num_waiters q + 1, sq_sleeping := c # sq_sleeping q\<rparr>)
      else sq_finish c q)"

definition sq_resume :: "caller \<Rightarrow> 'v squeue \<Rightarrow> fault + 'v event \<times> 'v squeue" where
  "sq_resume c q0 =
     (let q = q0\<lparr>sq_woken := remove1 c (sq_woken q0)\<rparr> in
      if sq_items q = [] \<and> \<not> sq_aborted q
      then Inr (Internal, q\<lparr>sq_sleeping := c # sq_sleeping q\<rparr>)
      else sq_finish c (q\<lparr>sq_num_waiters := sq_num_waiters q - 1\<rparr>))"

text \<open>The first, unlocked, test.\<close>

definition sq_call :: "caller \<Rightarrow> 'v squeue \<Rightarrow> 'v event \<times> 'v squeue" where
  "sq_call c q =
     (if sq_aborted q \<and> c_asks c then (Gave_up c, q) else (Internal, q\<lparr>sq_entering := c # sq_entering q\<rparr>))"

definition sq_busy :: "'v squeue \<Rightarrow> caller list" where
  "sq_busy q = sq_entering q @ sq_sleeping q @ sq_woken q"

inductive sq_step :: "'v squeue \<Rightarrow> 'v event \<Rightarrow> 'v squeue \<Rightarrow> bool" where
  push_quiet: "sq_sleeping q = [] \<Longrightarrow> sq_step q (Put v) (sq_push v None q)"
| push_wakes: "c \<in> set (sq_sleeping q) \<Longrightarrow> sq_step q (Put v) (sq_push v (Some c) q)"
| popped: "sq_items q = v # vs \<Longrightarrow> sq_pop q = Inr q' \<Longrightarrow> sq_step q (Dropped v) q'"
| wake_all: "sq_step q Internal (sq_wake_all q)"
| spurious: "c \<in> set (sq_sleeping q) \<Longrightarrow> sq_step q Internal (sq_wake c q)"
| called: "c_thread c \<notin> c_thread ` set (sq_busy q) \<Longrightarrow> sq_call c q = (e, q') \<Longrightarrow> sq_step q e q'"
| entered: "c \<in> set (sq_entering q) \<Longrightarrow> sq_enter c q = Inr (e, q') \<Longrightarrow> sq_step q e q'"
| resumed: "c \<in> set (sq_woken q) \<Longrightarrow> sq_resume c q = Inr (e, q') \<Longrightarrow> sq_step q e q'"

inductive sq_run :: "'v squeue \<Rightarrow> 'v event list \<Rightarrow> 'v squeue \<Rightarrow> bool" where
  stop: "sq_run q [] q"
| step: "sq_run q es q' \<Longrightarrow> sq_step q' e q'' \<Longrightarrow> sq_run q (es @ [e]) q''"

section \<open>What every step keeps\<close>

definition sq_inv :: "64 word \<Rightarrow> 'v squeue \<Rightarrow> bool" where
  "sq_inv n q \<longleftrightarrow> distinct (map c_thread (sq_busy q)) \<and>
     sq_num_waiters q = n + of_nat (length (sq_sleeping q) + length (sq_woken q)) \<and>
     (sq_aborted q \<longrightarrow> sq_sleeping q = []) \<and>
     (sq_sleeping q \<noteq> [] \<longrightarrow> length (sq_items q) \<le> length (sq_woken q))"

fun puts :: "'v event list \<Rightarrow> 'v list" where
  "puts [] = []"
| "puts (Put v # es) = v # puts es"
| "puts (e # es) = puts es"

fun outs :: "'v event list \<Rightarrow> 'v list" where
  "outs [] = []"
| "outs (Got c v # es) = v # outs es"
| "outs (Dropped v # es) = v # outs es"
| "outs (e # es) = outs es"

lemma puts_append [simp]: "puts (es @ fs) = puts es @ puts fs"
  by (induction es rule: puts.induct) auto

lemma outs_append [simp]: "outs (es @ fs) = outs es @ outs fs"
  by (induction es rule: outs.induct) auto

lemmas sq_defs = sq_push_def sq_wake_def sq_wake_all_def sq_pop_def sq_call_def sq_enter_def sq_resume_def sq_finish_def

lemma sq_step_fifo: "sq_step q e q' \<Longrightarrow> sq_items q @ puts [e] = outs [e] @ sq_items q'"
  by (induction rule: sq_step.induct) (auto simp: sq_defs Let_def split: list.splits if_splits)

lemma length_remove1_Suc: "c \<in> set xs \<Longrightarrow> Suc (length (remove1 c xs)) = length xs"
  by (induction xs) auto

lemma mset_remove1_add: "c \<in> set xs \<Longrightarrow> add_mset c (mset (remove1 c xs)) = mset xs"
  by simp

lemma distinct_mono_mset:
  assumes "mset xs \<subseteq># mset ys" and "distinct ys"
  shows "distinct xs"
proof -
  have "count (mset ys) a \<le> 1" for a
    using assms(2) unfolding distinct_count_atmost_1 by simp
  then have "count (mset xs) a \<le> 1" for a
    using mset_subset_eq_count [OF assms(1), of a] le_trans by blast
  moreover have "0 < count (mset xs) a" if "a \<in> set xs" for a
    using that by simp
  ultimately show ?thesis
    unfolding distinct_count_atmost_1 by (metis One_nat_def Suc_leI count_mset_0_iff le_antisym)
qed

lemma sq_busy_items [simp]: "sq_busy (sq_items_update f q) = sq_busy q"
  by (simp add: sq_busy_def)

lemma threads_mono:
  assumes "mset (sq_busy q') \<subseteq># mset (sq_busy q)" and "distinct (map c_thread (sq_busy q))"
  shows "distinct (map c_thread (sq_busy q'))"
proof (rule distinct_mono_mset)
  show "mset (map c_thread (sq_busy q')) \<subseteq># mset (map c_thread (sq_busy q))"
    using image_mset_subseteq_mono [OF assms(1), of c_thread] by simp
qed (rule assms(2))

lemma sq_wake_inv:
  assumes c: "c \<in> set (sq_sleeping q)" and inv: "sq_inv n q"
  shows "sq_inv n (sq_wake c q)"
proof -
  have "mset (sq_busy (sq_wake c q)) \<subseteq># mset (sq_busy q)"
    using c by (simp add: sq_busy_def sq_wake_def)
  then have "distinct (map c_thread (sq_busy (sq_wake c q)))"
    using inv by (auto simp: sq_inv_def intro: threads_mono)
  then show ?thesis
    using inv length_remove1_Suc [OF c, symmetric] by (auto simp: sq_inv_def sq_wake_def)
qed

lemma sq_enter_inv:
  assumes "c \<in> set (sq_entering q)" and "sq_enter c q = Inr (e, q')" and "sq_inv n q"
  shows "sq_inv n q'"
proof -
  have "mset (sq_busy q') \<subseteq># mset (sq_busy q)"
    using assms(1,2) by (auto simp: sq_busy_def sq_enter_def sq_finish_def Let_def split: if_splits list.splits)
  then have "distinct (map c_thread (sq_busy q'))"
    using assms(3) by (auto simp: sq_inv_def intro: threads_mono)
  then show ?thesis
    using assms(2,3) by (auto simp: sq_inv_def sq_enter_def sq_finish_def Let_def split: if_splits list.splits)
qed

lemma sq_resume_inv:
  assumes "c \<in> set (sq_woken q)" and "sq_resume c q = Inr (e, q')" and "sq_inv n q"
  shows "sq_inv n q'"
proof -
  have "mset (sq_busy q') \<subseteq># mset (sq_busy q)"
    using assms(1,2) by (auto simp: sq_busy_def sq_resume_def sq_finish_def Let_def split: if_splits list.splits)
  then have "distinct (map c_thread (sq_busy q'))"
    using assms(3) by (auto simp: sq_inv_def intro: threads_mono)
  then show ?thesis
    using assms(2,3) length_remove1_Suc [OF assms(1), symmetric]
    by (auto simp: sq_inv_def sq_resume_def sq_finish_def Let_def split: if_splits list.splits)
qed

lemma sq_call_inv:
  assumes "c_thread c \<notin> c_thread ` set (sq_busy q)" and "sq_call c q = (e, q')" and "sq_inv n q"
  shows "sq_inv n q'"
proof (cases "sq_aborted q \<and> c_asks c")
  case True
  then show ?thesis using assms by (simp add: sq_call_def)
next
  case False
  then have q': "q' = q\<lparr>sq_entering := c # sq_entering q\<rparr>" using assms(2) by (auto simp: sq_call_def)
  have "distinct (map c_thread (c # sq_busy q))" using assms(1,3) by (simp add: sq_inv_def)
  then have "distinct (map c_thread (sq_busy q'))" by (simp only: q' sq_busy_def) simp
  then show ?thesis using assms(3) by (simp add: sq_inv_def q')
qed

lemma sq_step_inv: "sq_step q e q' \<Longrightarrow> sq_inv n q \<Longrightarrow> sq_inv n q'"
proof (induction rule: sq_step.induct)
  case (push_quiet q v)
  then show ?case by (simp add: sq_inv_def sq_push_def)
next
  case (push_wakes c q v)
  then have inv: "sq_inv n (sq_wake c q)" by (blast intro: sq_wake_inv)
  have eq: "sq_push v (Some c) q = (sq_wake c q)\<lparr>sq_items := sq_items q @ [v]\<rparr>"
    by (simp add: sq_push_def sq_wake_def)
  have "sq_sleeping q \<noteq> []" using push_wakes.hyps by auto
  then have "length (sq_items q) \<le> length (sq_woken q)"
    using push_wakes.prems by (simp add: sq_inv_def)
  then show ?case using inv unfolding eq by (simp add: sq_inv_def) (simp add: sq_wake_def)
next
  case (popped q v vs q')
  then show ?case by (auto simp: sq_inv_def sq_pop_def)
next
  case (wake_all q)
  have "mset (sq_busy (sq_wake_all q)) \<subseteq># mset (sq_busy q)"
    by (simp add: sq_busy_def sq_wake_all_def)
  then have "distinct (map c_thread (sq_busy (sq_wake_all q)))"
    using wake_all by (auto simp: sq_inv_def intro: threads_mono)
  then show ?case using wake_all by (simp add: sq_inv_def) (simp add: sq_wake_all_def)
qed (blast intro: sq_wake_inv sq_call_inv sq_enter_inv sq_resume_inv)+

lemma sq_new_inv: "sq_inv n (sq_new n)"
  by (simp add: sq_inv_def sq_new_def sq_busy_def)

lemma sq_run_inv: "sq_run q es q' \<Longrightarrow> sq_inv n q \<Longrightarrow> sq_inv n q'"
  by (induction rule: sq_run.induct) (auto intro: sq_step_inv)

inductive_cases sq_runE: "sq_run q es q'"
inductive_simps sq_run_nil [simp]: "sq_run q [] q'"

text \<open>No step of \<open>next\<close> runs into the front of an empty queue.\<close>

lemma sq_enter_ok: "\<exists>e q'. sq_enter c q = Inr (e, q')"
  by (simp add: sq_enter_def sq_finish_def Let_def split: list.split)

lemma sq_resume_ok: "\<exists>e q'. sq_resume c q = Inr (e, q')"
  by (simp add: sq_resume_def sq_finish_def Let_def split: list.split)

section \<open>Properties\<close>

text \<open>
  Claim C31. The queue is first in, first out whatever the interleaving: in any run, with any number of threads
  pushing, popping, waiting, aborting and being woken without reason, what was in the queue and what was put
  in afterwards is, in order, what was taken out followed by what is left.
\<close>

theorem shared_queue_fifo:
  assumes "sq_run q es q'"
  shows "sq_items q @ puts es = outs es @ sq_items q'"
  using assms
proof (induction rule: sq_run.induct)
  case (stop q)
  then show ?case by simp
next
  case (step q es q' e q'')
  have "sq_items q @ puts (es @ [e]) = (sq_items q @ puts es) @ puts [e]" by simp
  also have "\<dots> = outs es @ (sq_items q' @ puts [e])" using step.IH by simp
  also have "\<dots> = outs (es @ [e]) @ sq_items q''" using sq_step_fifo [OF step.hyps(2)] by simp
  finally show ?case .
qed

definition sq_example_caller :: caller where
  "sq_example_caller = \<lparr>c_thread = 1, c_asks = True\<rparr>"

definition sq_example_waiting :: "nat squeue" where
  "sq_example_waiting = (sq_new 0)\<lparr>sq_num_waiters := 1, sq_sleeping := [sq_example_caller]\<rparr>"

lemma sq_example_waits: "sq_run (sq_new 0) [Internal, Internal] sq_example_waiting"
proof -
  let ?q = "(sq_new 0 :: nat squeue)\<lparr>sq_entering := [sq_example_caller]\<rparr>"
  have "sq_step (sq_new 0) Internal ?q"
    by (rule sq_step.called [of sq_example_caller]) (simp_all add: sq_call_def sq_new_def sq_busy_def)
  from sq_run.step [OF sq_run.stop this] have "sq_run (sq_new 0) [Internal] ?q" by simp
  moreover have "sq_step ?q Internal sq_example_waiting"
    by (rule sq_step.entered [of sq_example_caller]) (simp_all add: sq_enter_def sq_new_def sq_example_waiting_def)
  ultimately show ?thesis using sq_run.step by fastforce
qed

lemma sq_example_gets:
  "sq_run (sq_new 0) [Internal, Internal, Put (7 :: nat), Got sq_example_caller 7] (sq_new 0)"
proof -
  let ?q = "sq_push 7 (Some sq_example_caller) sq_example_waiting"
  have "sq_step sq_example_waiting (Put 7) ?q"
    by (rule sq_step.push_wakes) (simp add: sq_example_waiting_def)
  from sq_run.step [OF sq_example_waits this] have "sq_run (sq_new 0) [Internal, Internal, Put 7] ?q" by simp
  moreover have "sq_step ?q (Got sq_example_caller 7) (sq_new 0)"
    by (rule sq_step.resumed [of sq_example_caller])
      (simp_all add: sq_push_def sq_wake_def sq_resume_def sq_finish_def sq_new_def sq_example_waiting_def)
  ultimately show ?thesis using sq_run.step by fastforce
qed

theorem shared_queue_fifo_witness:
  "sq_items (sq_new 0) @ puts [Internal, Internal, Put 7, Got sq_example_caller (7 :: nat)] =
    outs [Internal, Internal, Put 7, Got sq_example_caller 7] @ sq_items (sq_new 0)"
  by (rule shared_queue_fifo) (rule sq_example_gets)

text \<open>
  Claim C32. No wake-up is lost: in every reachable state a thread sleeps only while the queue is not aborted
  and each item there is already has a woken thread of its own; so when nobody is on the way to the mutex, a
  sleeper means an empty queue. Every thread that is on the way takes its step without a fault, the counter
  of waiting threads is off by its uninitialised start value only, and after \<open>wake_all\<close> nobody sleeps again.
\<close>

theorem shared_queue_wakeups:
  assumes "sq_run (sq_new n) es q"
  shows "(sq_sleeping q \<noteq> [] \<longrightarrow> \<not> sq_aborted q \<and> length (sq_items q) \<le> length (sq_woken q)) \<and>
    (sq_woken q = [] \<and> sq_sleeping q \<noteq> [] \<longrightarrow> sq_items q = []) \<and>
    sq_num_waiters q = n + of_nat (length (sq_sleeping q) + length (sq_woken q)) \<and>
    (\<forall>c \<in> set (sq_entering q). \<exists>e q'. sq_enter c q = Inr (e, q') \<and> sq_step q e q') \<and>
    (\<forall>c \<in> set (sq_woken q). \<exists>e q'. sq_resume c q = Inr (e, q') \<and> sq_step q e q')"
proof -
  have "sq_inv n q" using assms sq_new_inv by (rule sq_run_inv)
  moreover have "\<exists>e q'. sq_enter c q = Inr (e, q') \<and> sq_step q e q'" if "c \<in> set (sq_entering q)" for c
    using sq_enter_ok [of c q] that by (blast intro: sq_step.entered)
  moreover have "\<exists>e q'. sq_resume c q = Inr (e, q') \<and> sq_step q e q'" if "c \<in> set (sq_woken q)" for c
    using sq_resume_ok [of c q] that by (blast intro: sq_step.resumed)
  ultimately show ?thesis by (auto simp: sq_inv_def)
qed

theorem shared_queue_wakeups_witness:
  "\<not> sq_aborted sq_example_waiting \<and> sq_items sq_example_waiting = [] \<and>
    sq_num_waiters sq_example_waiting = 0 + of_nat (1 + 0)"
  using shared_queue_wakeups [OF sq_example_waits] by (simp add: sq_example_waiting_def sq_new_def)

end
