(* ===== verification/Signals.thy ===== *)
theory Signals
  imports Prelude "HOL-Library.Sublist"
begin

text \<open>
  Signals and their actions: \<^verbatim>\<open>include/crisp/util/Signal.hh\<close>, \<^verbatim>\<open>SignalAction.hh\<close> and their \<^verbatim>\<open>bits\<close>. A signal holds
  shared pointers to its actions; copies of a signal share the actions. An action lives as long as some shared
  pointer to it exists, in a signal or elsewhere (\<open>sg_kept\<close>: pointers the program got from \<open>get_pointer\<close> or by locking a
  connection, and those of the emissions that are calling an action), and a weak pointer to it locks exactly then. The iteration order of the hash set is the
  parameter \<open>ord\<close>, what a user function does to the program is the parameter \<open>call\<close>.
\<close>

section \<open>The code\<close>

text \<open>
  Actions are numbered in the order of their creation; \<open>sg_home\<close> is the reference \<open>m_signal\<close> an action keeps.
  \<open>sg_posted\<close> is what was handed to the I/O service and not run yet, \<open>sg_user\<close> the rest of the program.
\<close>

record signal =
  sig_actions :: "nat list"
  sig_service :: bool
  sig_live :: bool

record ('a, 'u) signals =
  sg_signals :: "signal list"
  sg_home :: "nat \<Rightarrow> nat"
  sg_next :: nat
  sg_kept :: "nat list"
  sg_posted :: "(nat \<times> 'a) list"
  sg_user :: 'u

text \<open>Some shared pointer to the action exists.\<close>

definition sg_held :: "('a, 'u) signals \<Rightarrow> nat \<Rightarrow> bool" where
  "sg_held w a \<longleftrightarrow> a \<in> set (sg_kept w) \<or> (\<exists>s \<in> set (sg_signals w). sig_live s \<and> a \<in> set (sig_actions s))"

definition sg_actions :: "('a, 'u) signals \<Rightarrow> nat \<Rightarrow> nat list" where
  "sg_actions w i = sig_actions (sg_signals w ! i)"

definition sg_update :: "nat \<Rightarrow> (signal \<Rightarrow> signal) \<Rightarrow> ('a, 'u) signals \<Rightarrow> ('a, 'u) signals" where
  "sg_update i f w = w\<lparr>sg_signals := (sg_signals w)[i := f (sg_signals w ! i)]\<rparr>"

text \<open>Construction of another signal; its index is the old number of signals.\<close>

definition sg_create :: "bool \<Rightarrow> ('a, 'u) signals \<Rightarrow> ('a, 'u) signals" where
  "sg_create service w = w\<lparr>sg_signals := sg_signals w @ [\<lparr>sig_actions = [], sig_service = service, sig_live = True\<rparr>]\<rparr>"

definition sg_copy :: "nat \<Rightarrow> ('a, 'u) signals \<Rightarrow> ('a, 'u) signals" where
  "sg_copy i w = w\<lparr>sg_signals := sg_signals w @ [(sg_signals w ! i)\<lparr>sig_live := True\<rparr>]\<rparr>"

definition sg_move :: "nat \<Rightarrow> ('a, 'u) signals \<Rightarrow> ('a, 'u) signals" where
  "sg_move i w = sg_update i (\<lambda>s. s\<lparr>sig_actions := []\<rparr>) (sg_copy i w)"

definition sg_assign :: "nat \<Rightarrow> nat \<Rightarrow> ('a, 'u) signals \<Rightarrow> ('a, 'u) signals" where
  "sg_assign i j w =
     sg_update i (\<lambda>s. s\<lparr>sig_actions := sg_actions w j, sig_service := sig_service (sg_signals w ! j)\<rparr>) w"

definition sg_destroy :: "nat \<Rightarrow> ('a, 'u) signals \<Rightarrow> ('a, 'u) signals" where
  "sg_destroy i = sg_update i (\<lambda>s. s\<lparr>sig_actions := [], sig_live := False\<rparr>)"

definition sg_set_io_service :: "nat \<Rightarrow> ('a, 'u) signals \<Rightarrow> ('a, 'u) signals" where
  "sg_set_io_service i = sg_update i (\<lambda>s. s\<lparr>sig_service := True\<rparr>)"

definition sg_clear_io_service :: "nat \<Rightarrow> ('a, 'u) signals \<Rightarrow> ('a, 'u) signals" where
  "sg_clear_io_service i = sg_update i (\<lambda>s. s\<lparr>sig_service := False\<rparr>)"

definition sg_clear :: "nat \<Rightarrow> ('a, 'u) signals \<Rightarrow> ('a, 'u) signals" where
  "sg_clear i = sg_update i (\<lambda>s. s\<lparr>sig_actions := []\<rparr>)"

definition sg_remove :: "nat \<Rightarrow> nat \<Rightarrow> ('a, 'u) signals \<Rightarrow> ('a, 'u) signals" where
  "sg_remove i a w =
     (if sg_held w a then sg_update i (\<lambda>s. s\<lparr>sig_actions := filter (\<lambda>b. b \<noteq> a) (sig_actions s)\<rparr>) w else w)"

text \<open>\<open>connect\<close> returns a weak pointer to the new action.\<close>

definition sg_connect :: "nat \<Rightarrow> ('a, 'u) signals \<Rightarrow> nat \<times> ('a, 'u) signals" where
  "sg_connect i w =
     (let a = sg_next w in
      (a, sg_update i (\<lambda>s. s\<lparr>sig_actions := sig_actions s @ [a]\<rparr>)
            (w\<lparr>sg_home := (sg_home w)(a := i), sg_next := Suc a\<rparr>)))"

text \<open>
  A shared pointer outside the signals: made by \<open>get_pointer\<close> or by locking a weak pointer, which needs one that exists, and
  dropped again.
\<close>

definition sg_get_pointer :: "nat \<Rightarrow> ('a, 'u) signals \<Rightarrow> fault + ('a, 'u) signals" where
  "sg_get_pointer a w = (if sg_held w a then Inr (w\<lparr>sg_kept := a # sg_kept w\<rparr>) else Inl Use_after_free)"

definition sg_drop :: "nat \<Rightarrow> ('a, 'u) signals \<Rightarrow> ('a, 'u) signals" where
  "sg_drop a w = w\<lparr>sg_kept := remove1 a (sg_kept w)\<rparr>"

text \<open>\<open>SignalAction::disconnect\<close>, called through a locked pointer, goes to the signal of creation.\<close>

definition sg_disconnect :: "nat \<Rightarrow> ('a, 'u) signals \<Rightarrow> fault + ('a, 'u) signals" where
  "sg_disconnect a w =
     (if \<not> sg_held w a then Inl Null_deref
      else if \<not> sig_live (sg_signals w ! sg_home w a) then Inl Use_after_free
      else Inr (sg_remove (sg_home w a) a w))"

text \<open>
  The loop of \<open>emit\<close> over the copied weak pointers, and \<open>emit\<close>. A pointer that locks is kept during the call; posting copies the
  function and keeps nothing.
\<close>

fun sg_invoke ::
    "(nat \<Rightarrow> 'a \<Rightarrow> ('a, 'u) signals \<Rightarrow> ('a, 'u) signals) \<Rightarrow> bool \<Rightarrow> 'a \<Rightarrow> nat list \<Rightarrow>
     ('a, 'u) signals \<Rightarrow> ('a, 'u) signals" where
  "sg_invoke call service x [] w = w"
| "sg_invoke call service x (a # as) w =
     sg_invoke call service x as
       (if sg_held w a
        then if service then w\<lparr>sg_posted := sg_posted w @ [(a, x)]\<rparr>
             else sg_drop a (call a x (w\<lparr>sg_kept := a # sg_kept w\<rparr>))
        else w)"

definition sg_emit ::
    "(nat list \<Rightarrow> nat list) \<Rightarrow> (nat \<Rightarrow> 'a \<Rightarrow> ('a, 'u) signals \<Rightarrow> ('a, 'u) signals) \<Rightarrow> nat \<Rightarrow> 'a \<Rightarrow>
     ('a, 'u) signals \<Rightarrow> ('a, 'u) signals" where
  "sg_emit ord call i x w =
     (if sg_actions w i = [] then w
      else sg_invoke call (sig_service (sg_signals w ! i)) x (ord (sg_actions w i)) w)"

text \<open>A thread serving the I/O service runs the posted functions; they were copied when they were posted.\<close>

definition sg_serve ::
    "(nat \<Rightarrow> 'a \<Rightarrow> ('a, 'u) signals \<Rightarrow> ('a, 'u) signals) \<Rightarrow> ('a, 'u) signals \<Rightarrow> ('a, 'u) signals" where
  "sg_serve call w =
     (case sg_posted w of [] \<Rightarrow> w | (a, x) # ps \<Rightarrow> call a x (w\<lparr>sg_posted := ps\<rparr>))"

section \<open>Lives of actions\<close>

text \<open>What every operation keeps: numbers below \<open>sg_next\<close>, and no way back for an action nobody holds.\<close>

definition sg_inv :: "('a, 'u) signals \<Rightarrow> bool" where
  "sg_inv w \<longleftrightarrow> (\<forall>s \<in> set (sg_signals w). distinct (sig_actions s) \<and> (\<forall>a \<in> set (sig_actions s). a < sg_next w))"

definition sg_evolves :: "('a, 'u) signals \<Rightarrow> ('a, 'u) signals \<Rightarrow> bool" where
  "sg_evolves w w' \<longleftrightarrow> sg_next w \<le> sg_next w' \<and> (\<forall>a < sg_next w. sg_held w' a \<longrightarrow> sg_held w a)"

lemma sg_evolves_refl: "sg_evolves w w"
  by (simp add: sg_evolves_def)

lemma sg_evolves_trans: "sg_evolves u v \<Longrightarrow> sg_evolves v w \<Longrightarrow> sg_evolves u w"
  by (auto simp: sg_evolves_def)

lemma set_sg_update:
  "s \<in> set (sg_signals (sg_update i f w)) \<Longrightarrow> s \<in> set (sg_signals w) \<or> i < length (sg_signals w) \<and> s = f (sg_signals w ! i)"
  by (cases "i < length (sg_signals w)") (auto simp: sg_update_def list_update_beyond dest: set_update_subset_insert [THEN subsetD])

lemma sg_update_next [simp]: "sg_next (sg_update i f w) = sg_next w"
  by (simp add: sg_update_def)

lemma sg_update_kept [simp]: "sg_kept (sg_update i f w) = sg_kept w"
  by (simp add: sg_update_def)

lemma sg_update_posted [simp]: "sg_posted (sg_update i f w) = sg_posted w"
  by (simp add: sg_update_def)

lemma sg_update_evolves:
  assumes "\<And>s. set (sig_actions (f s)) \<subseteq> set (sig_actions s)" and "\<And>s. sig_live (f s) \<Longrightarrow> sig_live s"
  shows "sg_evolves w (sg_update i f w)"
  unfolding sg_evolves_def sg_held_def
proof (intro conjI allI impI)
  fix a assume "a \<in> set (sg_kept (sg_update i f w)) \<or> (\<exists>s \<in> set (sg_signals (sg_update i f w)). sig_live s \<and> a \<in> set (sig_actions s))"
  then show "a \<in> set (sg_kept w) \<or> (\<exists>s \<in> set (sg_signals w). sig_live s \<and> a \<in> set (sig_actions s))"
  proof (elim disjE bexE conjE)
    fix s assume s: "s \<in> set (sg_signals (sg_update i f w))" "sig_live s" "a \<in> set (sig_actions s)"
    from set_sg_update [OF s(1)] show ?thesis using s(2,3) assms by (metis nth_mem subsetD)
  qed simp
qed simp

lemma sg_clear_evolves: "sg_evolves w (sg_clear i w)"
  unfolding sg_clear_def by (rule sg_update_evolves) auto

lemma sg_destroy_evolves: "sg_evolves w (sg_destroy i w)"
  unfolding sg_destroy_def by (rule sg_update_evolves) auto

lemma sg_remove_evolves: "sg_evolves w (sg_remove i a w)"
  by (auto simp: sg_remove_def sg_evolves_refl intro: sg_update_evolves)

lemma sg_disconnect_evolves: "sg_disconnect a w = Inr w' \<Longrightarrow> sg_evolves w w'"
  by (auto simp: sg_disconnect_def sg_remove_evolves split: if_splits)

lemma sg_connect_evolves: "sg_evolves w (snd (sg_connect i w))"
proof -
  let ?w = "w\<lparr>sg_home := (sg_home w)(sg_next w := i), sg_next := Suc (sg_next w)\<rparr>"
  have "sg_held w b" if "b < sg_next w"
    "sg_held (sg_update i (\<lambda>s. s\<lparr>sig_actions := sig_actions s @ [sg_next w]\<rparr>) ?w) b" for b
  proof -
    from that(2) consider "b \<in> set (sg_kept w)"
      | s where "s \<in> set (sg_signals (sg_update i (\<lambda>s. s\<lparr>sig_actions := sig_actions s @ [sg_next w]\<rparr>) ?w))"
        "sig_live s" "b \<in> set (sig_actions s)" by (auto simp: sg_held_def)
    then show ?thesis
    proof cases
      case (2 s)
      from set_sg_update [OF 2(1)] show ?thesis using 2(2,3) that(1) by (auto simp: sg_held_def)
    qed (simp add: sg_held_def)
  qed
  then show ?thesis by (simp add: sg_connect_def sg_evolves_def Let_def)
qed

section \<open>Emission\<close>

text \<open>A user function that also writes down its number.\<close>

definition logging ::
    "(nat \<Rightarrow> 'a \<Rightarrow> ('a, nat list) signals \<Rightarrow> ('a, nat list) signals) \<Rightarrow>
     nat \<Rightarrow> 'a \<Rightarrow> ('a, nat list) signals \<Rightarrow> ('a, nat list) signals" where
  "logging eff a x w = (eff a x w)\<lparr>sg_user := sg_user w @ [a]\<rparr>"

lemma sg_held_user [simp]: "sg_held (w\<lparr>sg_user := u\<rparr>) a = sg_held w a"
  by (simp add: sg_held_def)

lemma sg_held_posted [simp]: "sg_held (w\<lparr>sg_posted := p\<rparr>) a = sg_held w a"
  by (simp add: sg_held_def)

lemma sg_keep_evolves: "sg_held w a \<Longrightarrow> sg_evolves w (w\<lparr>sg_kept := a # sg_kept w\<rparr>)"
  by (auto simp: sg_evolves_def sg_held_def)

lemma sg_get_pointer_evolves: "sg_get_pointer a w = Inr w' \<Longrightarrow> sg_evolves w w'"
  by (auto simp: sg_get_pointer_def sg_keep_evolves split: if_splits)

lemma sg_drop_evolves: "sg_evolves w (sg_drop a w)"
  by (auto simp: sg_evolves_def sg_held_def sg_drop_def dest: set_remove1_subset [THEN subsetD])

lemma sg_drop_user [simp]: "sg_user (sg_drop a w) = sg_user w"
  by (simp add: sg_drop_def)

lemma sg_call_evolves:
  assumes "\<And>a w. sg_evolves w (call a x w)" and "sg_held w a"
  shows "sg_evolves w (sg_drop a (call a x (w\<lparr>sg_kept := a # sg_kept w\<rparr>)))"
  using sg_keep_evolves [OF assms(2)] assms(1) sg_drop_evolves by (blast intro: sg_evolves_trans)

lemma logging_evolves: "sg_evolves w (eff a x w) \<Longrightarrow> sg_evolves w (logging eff a x w)"
  by (simp add: sg_evolves_def logging_def)

lemma sg_invoke_append: "sg_invoke call sv x (as @ bs) w = sg_invoke call sv x bs (sg_invoke call sv x as w)"
  by (induction as arbitrary: w) auto

lemma sg_invoke_evolves:
  assumes "\<And>a w. sg_evolves w (call a x w)"
  shows "sg_evolves w (sg_invoke call False x as w)"
proof (induction as arbitrary: w)
  case Nil
  then show ?case by (simp add: sg_evolves_refl)
next
  case (Cons a as)
  show ?case
  proof (cases "sg_held w a")
    case True
    have "sg_evolves w (sg_drop a (call a x (w\<lparr>sg_kept := a # sg_kept w\<rparr>)))"
      using sg_call_evolves [where call = call, OF assms True] .
    from sg_evolves_trans [OF this Cons.IH] True show ?thesis by simp
  next
    case False
    then show ?thesis using Cons.IH by simp
  qed
qed

lemma sg_invoke_logged:
  assumes "distinct as"
  shows "\<exists>called. sg_user (sg_invoke (logging eff) False x as w) = sg_user w @ called \<and> subseq called as \<and>
    (\<forall>xs b ys. as = xs @ b # ys \<longrightarrow> (b \<in> set called \<longleftrightarrow> sg_held (sg_invoke (logging eff) False x xs w) b))"
  using assms
proof (induction as rule: rev_induct)
  case Nil
  then show ?case by simp
next
  case (snoc a as)
  let ?w = "sg_invoke (logging eff) False x as w"
  obtain called where c: "sg_user ?w = sg_user w @ called" "subseq called as"
    "\<And>xs b ys. as = xs @ b # ys \<Longrightarrow> b \<in> set called \<longleftrightarrow> sg_held (sg_invoke (logging eff) False x xs w) b"
    using snoc by auto
  let ?called = "if sg_held ?w a then called @ [a] else called"
  have fresh: "a \<notin> set called" using snoc.prems list_emb_set [OF c(2), of a] by auto
  have "sg_user (sg_invoke (logging eff) False x (as @ [a]) w) = sg_user w @ ?called"
    using c(1) by (simp add: sg_invoke_append logging_def)
  moreover have "subseq ?called (as @ [a])"
    using c(2) by (auto intro: list_emb_append_mono subseq_rev_drop_many)
  moreover have "b \<in> set ?called \<longleftrightarrow> sg_held (sg_invoke (logging eff) False x xs w) b"
    if "as @ [a] = xs @ b # ys" for xs b ys
  proof (cases ys rule: rev_cases)
    case Nil
    then show ?thesis using that fresh by auto
  next
    case (snoc zs z)
    then have "as = xs @ b # zs" "z = a" using that by auto
    moreover then have "b \<noteq> a" using snoc.prems \<open>distinct (as @ [a])\<close> by auto
    ultimately show ?thesis using c(3) by auto
  qed
  ultimately show ?case by blast
qed

lemma sg_invoke_posts:
  assumes "\<forall>a \<in> set as. sg_held w a"
  shows "sg_invoke call True x as w = w\<lparr>sg_posted := sg_posted w @ map (\<lambda>a. (a, x)) as\<rparr>"
  using assms by (induction as arbitrary: w) auto

lemma sg_invoke_held:
  assumes "\<And>a w. sg_evolves w (call a x w)" and "b < sg_next w" and "sg_held (sg_invoke call False x (xs @ b # ys) w) b"
  shows "sg_held (sg_invoke call False x xs w) b"
proof -
  let ?u = "sg_invoke call False x xs w"
  have "sg_evolves w ?u" "sg_evolves ?u (sg_invoke call False x (b # ys) ?u)"
    by (rule sg_invoke_evolves, rule assms(1))+
  then show ?thesis
    using assms(2,3) by (simp only: sg_evolves_def sg_invoke_append) (meson less_le_trans)
qed

section \<open>Properties\<close>

text \<open>
  Claim C33. Emission reaches the connected functions: an emission on a signal without an I/O service works
  through the actions connected at its start, each at most once and in the order of the set, and calls an
  action exactly when some shared pointer to it exists at its turn, in a signal, with the program or with an
  emission further out that is calling it, whatever the functions called before connected,
  disconnected, cleared, kept or released; so all that stay connected are called. With an I/O service all of them are posted.
\<close>

theorem signal_emit_calls:
  assumes "i < length (sg_signals w)" and "sig_live (sg_signals w ! i)" and "sg_inv w"
    and "distinct (ord (sg_actions w i))" and "set (ord (sg_actions w i)) = set (sg_actions w i)"
    and "\<And>a x w. sg_evolves w (eff a x w)"
  shows "if sig_service (sg_signals w ! i)
    then sg_emit ord (logging eff) i x w = w\<lparr>sg_posted := sg_posted w @ map (\<lambda>a. (a, x)) (ord (sg_actions w i))\<rparr>
    else \<exists>called. sg_user (sg_emit ord (logging eff) i x w) = sg_user w @ called \<and>
      subseq called (ord (sg_actions w i)) \<and>
      (\<forall>xs b ys. ord (sg_actions w i) = xs @ b # ys \<longrightarrow>
        (b \<in> set called \<longleftrightarrow> sg_held (sg_invoke (logging eff) False x xs w) b)) \<and>
      (\<forall>b \<in> set (sg_actions w i). sg_held (sg_emit ord (logging eff) i x w) b \<longrightarrow> b \<in> set called)"
proof -
  let ?as = "ord (sg_actions w i)"
  have "?as = []" if "sg_actions w i = []" using assms(5) that by simp
  then have emit: "sg_emit ord (logging eff) i x w = sg_invoke (logging eff) (sig_service (sg_signals w ! i)) x ?as w"
    by (cases "sg_actions w i = []") (simp_all add: sg_emit_def)
  show ?thesis
  proof (cases "sig_service (sg_signals w ! i)")
    case True
    have "\<forall>a \<in> set ?as. sg_held w a"
      using assms(1,2,5) by (auto simp: sg_held_def sg_actions_def)
    from sg_invoke_posts [OF this] show ?thesis using True by (simp add: emit)
  next
    case no_service: False
    let ?w' = "sg_invoke (logging eff) False x ?as w"
    obtain called where called: "sg_user ?w' = sg_user w @ called" "subseq called ?as"
      "\<forall>xs b ys. ?as = xs @ b # ys \<longrightarrow> (b \<in> set called \<longleftrightarrow> sg_held (sg_invoke (logging eff) False x xs w) b)"
      using sg_invoke_logged [OF assms(4), of eff x w] by (elim exE conjE) (rule that)
    have steps: "sg_evolves v (logging eff a x v)" for a v by (rule logging_evolves) (rule assms(6))
    have stay: "\<forall>b \<in> set (sg_actions w i). sg_held ?w' b \<longrightarrow> b \<in> set called"
    proof (intro ballI impI)
      fix b assume b: "b \<in> set (sg_actions w i)" and held: "sg_held ?w' b"
      obtain xs ys where split: "?as = xs @ b # ys" using split_list [of b ?as] b assms(5) by auto
      have "b < sg_next w" using b assms(1,3) by (auto simp: sg_inv_def sg_actions_def)
      then have "sg_held (sg_invoke (logging eff) False x xs w) b"
        using held unfolding split by (rule sg_invoke_held [where call = "logging eff", OF steps])
      then show "b \<in> set called" using called(3) split by (simp only:)
    qed
    have posted: "sg_emit ord (logging eff) i x w = ?w'" using no_service emit by simp
    show ?thesis
      unfolding if_not_P [OF no_service] posted by (intro exI [of _ called] conjI called stay)
  qed
qed

text \<open>Three actions of one signal; the first one disconnects the second.\<close>

definition sg_example :: "(unit, nat list) signals" where
  "sg_example = \<lparr>sg_signals = [\<lparr>sig_actions = [0, 1, 2], sig_service = False, sig_live = True\<rparr>],
     sg_home = (\<lambda>_. 0), sg_next = 3, sg_kept = [], sg_posted = [], sg_user = []\<rparr>"

definition sg_example_call :: "nat \<Rightarrow> unit \<Rightarrow> (unit, nat list) signals \<Rightarrow> (unit, nat list) signals" where
  "sg_example_call a x w = (if a = 0 then sg_remove 0 1 w else w)"

lemma sg_example_emits: "sg_user (sg_emit id (logging sg_example_call) 0 () sg_example) = [0, 2]"
  by (simp add: sg_emit_def sg_actions_def sg_example_def sg_held_def logging_def sg_example_call_def sg_remove_def sg_update_def sg_drop_def)

text \<open>The second action is called all the same when the program keeps a pointer to it.\<close>

lemma kept_action_is_called:
  "sg_user (sg_emit id (logging sg_example_call) 0 () (sg_example\<lparr>sg_kept := [1]\<rparr>)) = [0, 1, 2]"
  by (simp add: sg_emit_def sg_actions_def sg_example_def sg_held_def logging_def sg_example_call_def sg_remove_def sg_update_def sg_drop_def)

theorem signal_emit_calls_witness:
  "if sig_service (sg_signals sg_example ! 0)
    then sg_emit id (logging sg_example_call) 0 () sg_example =
      sg_example\<lparr>sg_posted := sg_posted sg_example @ map (\<lambda>a. (a, ())) (id (sg_actions sg_example 0))\<rparr>
    else \<exists>called. sg_user (sg_emit id (logging sg_example_call) 0 () sg_example) = sg_user sg_example @ called \<and>
      subseq called (id (sg_actions sg_example 0)) \<and>
      (\<forall>xs b ys. id (sg_actions sg_example 0) = xs @ b # ys \<longrightarrow>
        (b \<in> set called \<longleftrightarrow> sg_held (sg_invoke (logging sg_example_call) False () xs sg_example) b)) \<and>
      (\<forall>b \<in> set (sg_actions sg_example 0).
        sg_held (sg_emit id (logging sg_example_call) 0 () sg_example) b \<longrightarrow> b \<in> set called)"
proof (rule signal_emit_calls)
  show "sg_evolves w (sg_example_call a x w)" for a x w
    by (simp add: sg_example_call_def sg_evolves_refl sg_remove_evolves)
qed (simp_all add: sg_example_def sg_inv_def sg_actions_def)

text \<open>
  \<open>disconnect\<close> goes to the signal an action was created for: once that signal's actions are moved to another
  one, disconnecting has no effect there.
\<close>

lemma moved_actions_stay_connected:
  assumes "i < length (sg_signals w)" and "sig_live (sg_signals w ! i)" and "a \<in> set (sg_actions w i)" and "sg_home w a = i"
  shows "\<exists>w'. sg_disconnect a (sg_move i w) = Inr w' \<and> sg_actions w' (length (sg_signals w)) = sg_actions w i"
proof -
  let ?w = "sg_move i w"
  have sigs: "sg_signals ?w = (sg_signals w)[i := (sg_signals w ! i)\<lparr>sig_actions := []\<rparr>] @ [(sg_signals w ! i)\<lparr>sig_live := True\<rparr>]"
    using assms(1) by (simp add: sg_move_def sg_copy_def sg_update_def list_update_append nth_append)
  then have "sg_held ?w a" "sig_live (sg_signals ?w ! i)"
    using assms by (auto simp: sg_held_def sg_actions_def nth_append)
  moreover have "sg_home ?w a = i" using assms(4) by (simp add: sg_move_def sg_update_def sg_copy_def)
  ultimately show ?thesis
    using assms(1) by (simp add: sg_disconnect_def sg_remove_def sg_update_def sg_actions_def sigs nth_append list_update_append)
qed

text \<open>An emission through the I/O service is not affected by a later disconnection.\<close>

lemma posted_call_survives_disconnect:
  assumes "sg_posted w = (a, x) # ps" and "sg_disconnect a w = Inr w'"
  shows "\<exists>u. sg_serve call w' = call a x u"
  using assms by (auto simp: sg_disconnect_def sg_remove_def sg_update_def sg_serve_def split: if_splits)

end
