(* ===== verification/Schedule.thy ===== *)
theory Schedule
  imports Prelude
begin

text \<open>
  Scheduled and periodic actions: \<^verbatim>\<open>src/util/ScheduledAction.cc\<close>, \<^verbatim>\<open>PeriodicAction.cc\<close>, \<^verbatim>\<open>PeriodicScheduleSlot.cc\<close>,
  \<^verbatim>\<open>Scheduler.cc\<close> and their headers, over the documented behaviour of Boost.Asio: setting the expiry of a timer
  or cancelling it hands its waiting handlers to the I/O service with \<open>operation_aborted\<close>; a timer whose expiry
  has come hands them over without an error; the service runs what it was handed in order (one thread). The
  handlers keep raw pointers, so running one of a destroyed object is a fault unless it does not look at the
  object. Time is a number of nanoseconds; what a user function does is the parameter \<open>call\<close>.
\<close>

section \<open>The I/O service and its timers\<close>

text \<open>
  Objects are numbered: scheduled actions and periodic actions by creation, slots by their interval (the key of
  the slot map). A scheduled action owns a timer, and so does a slot.
\<close>

datatype owner = Of_action nat | Of_slot nat

datatype handler = Once nat | Periodic nat | Slot_tick nat

datatype task = Expired handler | Aborted handler | Remove_action nat | Remove_periodic nat

record periodic =
  pa_slot :: nat
  pa_function :: nat
  pa_active :: bool

record 'u scheduler =
  sc_now :: nat
  sc_expiry :: "owner \<Rightarrow> nat"
  sc_waits :: "owner \<Rightarrow> handler list"
  sc_tasks :: "task list"
  sc_actions :: "nat \<Rightarrow> nat option"        \<comment> \<open>live scheduled actions, with their functions\<close>
  sc_moved :: "nat \<Rightarrow> bool"                \<comment> \<open>scheduled actions moved from, which have no timer\<close>
  sc_slots :: "nat \<Rightarrow> nat list option"      \<comment> \<open>periodic actions of each slot\<close>
  sc_periodics :: "nat \<Rightarrow> periodic option"
  sc_next :: nat
  sc_user :: 'u

definition sc_new :: "nat \<Rightarrow> 'u \<Rightarrow> 'u scheduler" where
  "sc_new now u = \<lparr>sc_now = now, sc_expiry = (\<lambda>_. 0), sc_waits = (\<lambda>_. []), sc_tasks = [], sc_actions = (\<lambda>_. None),
     sc_moved = (\<lambda>_. False), sc_slots = (\<lambda>_. None), sc_periodics = (\<lambda>_. None), sc_next = 0, sc_user = u\<rparr>"

definition tm_cancel :: "owner \<Rightarrow> 'u scheduler \<Rightarrow> 'u scheduler" where
  "tm_cancel t s = s\<lparr>sc_tasks := sc_tasks s @ map Aborted (sc_waits s t), sc_waits := (sc_waits s)(t := [])\<rparr>"

definition tm_expires_at :: "owner \<Rightarrow> nat \<Rightarrow> 'u scheduler \<Rightarrow> 'u scheduler" where
  "tm_expires_at t when s = (tm_cancel t s)\<lparr>sc_expiry := (sc_expiry s)(t := when)\<rparr>"

definition tm_expires_from_now :: "owner \<Rightarrow> nat \<Rightarrow> 'u scheduler \<Rightarrow> 'u scheduler" where
  "tm_expires_from_now t d s = tm_expires_at t (sc_now s + d) s"

definition tm_async_wait :: "owner \<Rightarrow> handler \<Rightarrow> 'u scheduler \<Rightarrow> 'u scheduler" where
  "tm_async_wait t h s = s\<lparr>sc_waits := (sc_waits s)(t := sc_waits s t @ [h])\<rparr>"

definition io_post :: "task \<Rightarrow> 'u scheduler \<Rightarrow> 'u scheduler" where
  "io_post k s = s\<lparr>sc_tasks := sc_tasks s @ [k]\<rparr>"

text \<open>The clock, and a timer whose time has come.\<close>

definition io_tick :: "nat \<Rightarrow> 'u scheduler \<Rightarrow> 'u scheduler" where
  "io_tick d s = s\<lparr>sc_now := sc_now s + d\<rparr>"

definition io_fire :: "owner \<Rightarrow> 'u scheduler \<Rightarrow> 'u scheduler" where
  "io_fire t s =
     (if sc_expiry s t \<le> sc_now s
      then s\<lparr>sc_tasks := sc_tasks s @ map Expired (sc_waits s t), sc_waits := (sc_waits s)(t := [])\<rparr> else s)"

section \<open>The code\<close>

subsection \<open>Scheduled actions\<close>

text \<open>
  The constructor asserts that there is a function: the numbers stand for functions that can be called. Its new
  timer's expiry is the epoch.
\<close>

definition sa_make :: "nat \<Rightarrow> 'u scheduler \<Rightarrow> nat \<times> 'u scheduler" where
  "sa_make f s =
     (let a = sc_next s in
      (a, s\<lparr>sc_actions := (sc_actions s)(a \<mapsto> f), sc_moved := (sc_moved s)(a := False),
            sc_expiry := (sc_expiry s)(Of_action a := 0), sc_next := Suc a\<rparr>))"

text \<open>
  The move constructor takes the timer with the handlers that wait on it, which still name the old object, and
  adds its own when the expiry is to come. The operations below need an action that has its timer.
\<close>

definition sa_move_make :: "nat \<Rightarrow> 'u scheduler \<Rightarrow> fault + nat \<times> 'u scheduler" where
  "sa_move_make a s =
     (case sc_actions s a of
        None \<Rightarrow> Inl Use_after_free
      | Some f \<Rightarrow>
          if sc_moved s a then Inl Assert_failed
          else
            let b = sc_next s;
                e = sc_expiry s (Of_action a);
                s1 = s\<lparr>sc_actions := (sc_actions s)(b \<mapsto> f), sc_moved := (sc_moved s)(a := True, b := False),
                       sc_expiry := (sc_expiry s)(Of_action b := e),
                       sc_waits := (sc_waits s)(Of_action a := [], Of_action b := sc_waits s (Of_action a)),
                       sc_next := Suc b\<rparr>
            in Inr (b, if sc_now s < e then tm_async_wait (Of_action b) (Once b) s1 else s1))"

definition sa_reset_at :: "nat \<Rightarrow> nat \<Rightarrow> 'u scheduler \<Rightarrow> 'u scheduler" where
  "sa_reset_at a when s = tm_async_wait (Of_action a) (Once a) (tm_expires_at (Of_action a) when s)"

definition sa_reset :: "nat \<Rightarrow> nat \<Rightarrow> 'u scheduler \<Rightarrow> 'u scheduler" where
  "sa_reset a d s = tm_async_wait (Of_action a) (Once a) (tm_expires_from_now (Of_action a) d s)"

definition sa_reset_function :: "nat \<Rightarrow> nat \<Rightarrow> nat \<Rightarrow> 'u scheduler \<Rightarrow> 'u scheduler" where
  "sa_reset_function a d f s = sa_reset a d (s\<lparr>sc_actions := (sc_actions s)(a \<mapsto> f)\<rparr>)"

definition sa_reset_at_function :: "nat \<Rightarrow> nat \<Rightarrow> nat \<Rightarrow> 'u scheduler \<Rightarrow> 'u scheduler" where
  "sa_reset_at_function a when f s = sa_reset_at a when (s\<lparr>sc_actions := (sc_actions s)(a \<mapsto> f)\<rparr>)"

definition sa_cancel :: "nat \<Rightarrow> 'u scheduler \<Rightarrow> 'u scheduler" where
  "sa_cancel a s = io_post (Remove_action a) (tm_cancel (Of_action a) s)"

definition sa_destroy :: "nat \<Rightarrow> 'u scheduler \<Rightarrow> 'u scheduler" where
  "sa_destroy a s = (tm_cancel (Of_action a) s)\<lparr>sc_actions := (sc_actions s)(a := None)\<rparr>"

definition sa_expired ::
    "(nat \<Rightarrow> nat \<Rightarrow> 'u scheduler \<Rightarrow> 'u scheduler) \<Rightarrow> nat \<Rightarrow> 'u scheduler \<Rightarrow> fault + 'u scheduler" where
  "sa_expired call a s =
     (case sc_actions s a of
        None \<Rightarrow> Inl Use_after_free
      | Some f \<Rightarrow>
          if sc_moved s a then Inr s
          else
            let s1 = call f a s in
            if sc_actions s1 a = None then Inl Use_after_free
            else if sc_moved s1 a then Inl Null_deref
            else if sc_expiry s1 (Of_action a) < sc_now s1 then Inr (sa_cancel a s1) else Inr s1)"

subsection \<open>Periodic actions and their slots\<close>

definition pa_pause :: "nat \<Rightarrow> 'u scheduler \<Rightarrow> 'u scheduler" where
  "pa_pause p s = s\<lparr>sc_periodics := (sc_periodics s)(p := map_option (\<lambda>x. x\<lparr>pa_active := False\<rparr>) (sc_periodics s p))\<rparr>"

definition pa_unpause :: "nat \<Rightarrow> 'u scheduler \<Rightarrow> 'u scheduler" where
  "pa_unpause p s = s\<lparr>sc_periodics := (sc_periodics s)(p := map_option (\<lambda>x. x\<lparr>pa_active := True\<rparr>) (sc_periodics s p))\<rparr>"

definition pa_cancel :: "nat \<Rightarrow> 'u scheduler \<Rightarrow> 'u scheduler" where
  "pa_cancel p s = io_post (Remove_periodic p) (pa_pause p s)"

definition pa_is_active :: "'u scheduler \<Rightarrow> nat \<Rightarrow> bool" where
  "pa_is_active s p = (case sc_periodics s p of None \<Rightarrow> False | Some x \<Rightarrow> pa_active x)"

text \<open>The handler looks at the action only when there was no error.\<close>

definition pa_expired ::
    "(nat \<Rightarrow> nat \<Rightarrow> 'u scheduler \<Rightarrow> 'u scheduler) \<Rightarrow> nat \<Rightarrow> 'u scheduler \<Rightarrow> fault + 'u scheduler" where
  "pa_expired call p s =
     (case sc_periodics s p of
        None \<Rightarrow> Inl Use_after_free
      | Some x \<Rightarrow> if pa_active x then Inr (call (pa_function x) p s) else Inr s)"

definition sl_actions :: "'u scheduler \<Rightarrow> nat \<Rightarrow> nat list" where
  "sl_actions s i = (case sc_slots s i of None \<Rightarrow> [] | Some ps \<Rightarrow> ps)"

definition sl_reset_timer :: "nat \<Rightarrow> 'u scheduler \<Rightarrow> 'u scheduler" where
  "sl_reset_timer i s =
     tm_async_wait (Of_slot i) (Slot_tick i)
       (fold (\<lambda>p. tm_async_wait (Of_slot i) (Periodic p)) (filter (pa_is_active s) (sl_actions s i))
         (tm_expires_from_now (Of_slot i) i s))"

text \<open>The slot's own handler starts the next period unless the timer was cancelled.\<close>

definition sl_expired :: "bool \<Rightarrow> nat \<Rightarrow> 'u scheduler \<Rightarrow> 'u scheduler" where
  "sl_expired aborted i s = (if \<not> aborted then sl_reset_timer i s else s)"

definition sl_emplace :: "nat \<Rightarrow> nat \<Rightarrow> 'u scheduler \<Rightarrow> nat \<times> 'u scheduler" where
  "sl_emplace i f s =
     (let p = sc_next s;
          s1 = s\<lparr>sc_slots := (sc_slots s)(i \<mapsto> p # sl_actions s i),
                 sc_periodics := (sc_periodics s)(p \<mapsto> \<lparr>pa_slot = i, pa_function = f, pa_active = True\<rparr>),
                 sc_next := Suc p\<rparr>
      in (p, if sl_actions s i = [] then sl_reset_timer i s1 else s1))"

text \<open>\<open>push\<close> stores a copy (or the moved contents) of an action made elsewhere.\<close>

definition sl_push :: "nat \<Rightarrow> periodic \<Rightarrow> 'u scheduler \<Rightarrow> nat \<times> 'u scheduler" where
  "sl_push i x s =
     (let p = sc_next s;
          s1 = s\<lparr>sc_slots := (sc_slots s)(i \<mapsto> p # sl_actions s i),
                 sc_periodics := (sc_periodics s)(p \<mapsto> x), sc_next := Suc p\<rparr>
      in (p, if sl_actions s i = [] then sl_reset_timer i s1 else s1))"

definition sl_remove :: "nat \<Rightarrow> nat \<Rightarrow> 'u scheduler \<Rightarrow> 'u scheduler" where
  "sl_remove i p s =
     (let s1 = (if sc_periodics s p = None then s
                else s\<lparr>sc_slots := (sc_slots s)(i \<mapsto> filter (\<lambda>q. q \<noteq> p) (sl_actions s i)),
                       sc_periodics := (sc_periodics s)(p := None)\<rparr>)
      in if sl_actions s1 i = [] then tm_cancel (Of_slot i) s1 else s1)"

subsection \<open>The scheduler\<close>

definition sc_set_timer :: "nat \<Rightarrow> nat \<Rightarrow> 'u scheduler \<Rightarrow> nat \<times> 'u scheduler" where
  "sc_set_timer d f s =
     (case sa_make f s of (a, s1) \<Rightarrow> (a, sa_reset a d s1))"

text \<open>A new slot starts empty; \<open>emplace\<close> then finds it empty and starts its timer.\<close>

definition sc_schedule :: "nat \<Rightarrow> nat \<Rightarrow> 'u scheduler \<Rightarrow> nat \<times> 'u scheduler" where
  "sc_schedule i f s =
     sl_emplace i f (if sc_slots s i = None then s\<lparr>sc_slots := (sc_slots s)(i \<mapsto> [])\<rparr> else s)"

definition sc_remove_action :: "nat \<Rightarrow> 'u scheduler \<Rightarrow> 'u scheduler" where
  "sc_remove_action a s = (if sc_actions s a = None then s else sa_destroy a s)"

definition sc_remove_periodic :: "nat \<Rightarrow> 'u scheduler \<Rightarrow> 'u scheduler" where
  "sc_remove_periodic p s = (case sc_periodics s p of None \<Rightarrow> s | Some x \<Rightarrow> sl_remove (pa_slot x) p s)"

definition rate_hz :: "nat \<Rightarrow> nat" where
  "rate_hz n = 1000000000 div n"

subsection \<open>Running handlers\<close>

fun run_task ::
    "(nat \<Rightarrow> nat \<Rightarrow> 'u scheduler \<Rightarrow> 'u scheduler) \<Rightarrow> task \<Rightarrow> 'u scheduler \<Rightarrow> fault + 'u scheduler" where
  "run_task call (Expired (Once a)) s = sa_expired call a s"
| "run_task call (Expired (Periodic p)) s = pa_expired call p s"
| "run_task call (Expired (Slot_tick i)) s = Inr (sl_expired False i s)"
| "run_task call (Aborted (Once a)) s = (if sc_actions s a = None then Inl Use_after_free else Inr s)"
| "run_task call (Aborted (Periodic p)) s = Inr s"
| "run_task call (Aborted (Slot_tick i)) s = Inr (sl_expired True i s)"
| "run_task call (Remove_action a) s = Inr (sc_remove_action a s)"
| "run_task call (Remove_periodic p) s = Inr (sc_remove_periodic p s)"

definition io_run_one ::
    "(nat \<Rightarrow> nat \<Rightarrow> 'u scheduler \<Rightarrow> 'u scheduler) \<Rightarrow> 'u scheduler \<Rightarrow> fault + 'u scheduler" where
  "io_run_one call s = (case sc_tasks s of [] \<Rightarrow> Inr s | k # ks \<Rightarrow> run_task call k (s\<lparr>sc_tasks := ks\<rparr>))"

fun io_run :: "nat \<Rightarrow> (nat \<Rightarrow> nat \<Rightarrow> 'u scheduler \<Rightarrow> 'u scheduler) \<Rightarrow> 'u scheduler \<Rightarrow> fault + 'u scheduler" where
  "io_run 0 call s = Inr s"
| "io_run (Suc n) call s = bindE (io_run_one call s) (io_run n call)"

section \<open>Running handlers in order\<close>

text \<open>A user function that notes its number and leaves the scheduler alone.\<close>

definition noting :: "nat \<Rightarrow> nat \<Rightarrow> nat list scheduler \<Rightarrow> nat list scheduler" where
  "noting f x s = s\<lparr>sc_user := sc_user s @ [f]\<rparr>"

lemmas timer_defs = tm_cancel_def tm_expires_at_def tm_expires_from_now_def tm_async_wait_def io_post_def io_tick_def

lemma io_run_add: "io_run (m + n) call s = bindE (io_run m call s) (io_run n call)"
proof (induction m arbitrary: s)
  case (Suc m)
  then show ?case by (cases "io_run_one call s") simp_all
qed simp

text \<open>What depends on the actions only.\<close>

lemma sl_actions_frame [simp]:
  "sl_actions (sc_tasks_update g s) i = sl_actions s i"
  "sl_actions (sc_now_update h s) i = sl_actions s i"
  "sl_actions (sc_waits_update k s) i = sl_actions s i"
  "sl_actions (sc_user_update u s) i = sl_actions s i"
  "sl_actions (sc_expiry_update v s) i = sl_actions s i"
  by (simp_all add: sl_actions_def)

lemma pa_is_active_frame [simp]:
  "pa_is_active (sc_tasks_update g s) = pa_is_active s"
  "pa_is_active (sc_now_update h s) = pa_is_active s"
  "pa_is_active (sc_waits_update k s) = pa_is_active s"
  "pa_is_active (sc_user_update u s) = pa_is_active s"
  "pa_is_active (sc_expiry_update v s) = pa_is_active s"
  by (simp_all add: pa_is_active_def fun_eq_iff)

lemma fold_async_wait:
  "fold (\<lambda>p. tm_async_wait t (Periodic p)) ps s = s\<lparr>sc_waits := (sc_waits s)(t := sc_waits s t @ map Periodic ps)\<rparr>"
  by (induction ps arbitrary: s) (simp_all add: tm_async_wait_def)

lemma sl_reset_timer_eq:
  "sl_reset_timer i s = s\<lparr>sc_tasks := sc_tasks s @ map Aborted (sc_waits s (Of_slot i)),
     sc_expiry := (sc_expiry s)(Of_slot i := sc_now s + i),
     sc_waits := (sc_waits s)(Of_slot i := map Periodic (filter (pa_is_active s) (sl_actions s i)) @ [Slot_tick i])\<rparr>"
  by (simp add: sl_reset_timer_def fold_async_wait timer_defs)

definition pa_functions :: "'u scheduler \<Rightarrow> nat list \<Rightarrow> nat list" where
  "pa_functions s ps = map (\<lambda>p. case sc_periodics s p of None \<Rightarrow> 0 | Some x \<Rightarrow> pa_function x) ps"

lemma pa_functions_frame [simp]:
  "pa_functions (sc_tasks_update g s) = pa_functions s"
  "pa_functions (sc_now_update h s) = pa_functions s"
  "pa_functions (sc_waits_update k s) = pa_functions s"
  "pa_functions (sc_user_update u s) = pa_functions s"
  "pa_functions (sc_expiry_update v s) = pa_functions s"
  by (simp_all add: pa_functions_def fun_eq_iff)

lemma io_run_periodics:
  assumes "\<forall>p \<in> set ps. pa_is_active s p" and "sc_tasks s = map (\<lambda>p. Expired (Periodic p)) ps @ ks"
  shows "io_run (length ps) noting s = Inr (s\<lparr>sc_tasks := ks, sc_user := sc_user s @ pa_functions s ps\<rparr>)"
  using assms
proof (induction ps arbitrary: s)
  case Nil
  then show ?case by (simp add: pa_functions_def)
next
  case (Cons p ps)
  obtain x where x: "sc_periodics s p = Some x" "pa_active x"
    using Cons.prems(1) by (auto simp: pa_is_active_def split: option.splits)
  let ?s = "s\<lparr>sc_tasks := map (\<lambda>p. Expired (Periodic p)) ps @ ks, sc_user := sc_user s @ [pa_function x]\<rparr>"
  have "io_run_one noting s = Inr ?s"
    using x Cons.prems(2) by (simp add: io_run_one_def pa_expired_def noting_def)
  moreover have "io_run (length ps) noting ?s = Inr (?s\<lparr>sc_tasks := ks, sc_user := sc_user ?s @ pa_functions ?s ps\<rparr>)"
    using Cons.prems by (intro Cons.IH) (simp_all add: pa_is_active_def)
  ultimately show ?case using x by (simp add: pa_functions_def)
qed

section \<open>Periods\<close>

text \<open>A slot whose timer waits for its active actions and for itself.\<close>

definition sl_armed :: "nat \<Rightarrow> 'u scheduler \<Rightarrow> bool" where
  "sl_armed i s \<longleftrightarrow>
     sc_waits s (Of_slot i) = map Periodic (filter (pa_is_active s) (sl_actions s i)) @ [Slot_tick i]"

definition sl_period :: "nat \<Rightarrow> nat list scheduler \<Rightarrow> fault + nat list scheduler" where
  "sl_period i s =
     (let s1 = io_fire (Of_slot i) (io_tick (sc_expiry s (Of_slot i) - sc_now s) s) in
      io_run (length (sc_tasks s1)) noting s1)"

fun sl_periods :: "nat \<Rightarrow> nat \<Rightarrow> nat list scheduler \<Rightarrow> fault + nat list scheduler" where
  "sl_periods 0 i s = Inr s"
| "sl_periods (Suc n) i s = bindE (sl_period i s) (sl_periods n i)"

lemma sl_period_runs:
  assumes armed: "sl_armed i s" and quiet: "sc_tasks s = []" and future: "sc_now s \<le> sc_expiry s (Of_slot i)"
  shows "sl_period i s = Inr (s\<lparr>sc_now := sc_expiry s (Of_slot i),
    sc_expiry := (sc_expiry s)(Of_slot i := sc_expiry s (Of_slot i) + i),
    sc_user := sc_user s @ pa_functions s (filter (pa_is_active s) (sl_actions s i))\<rparr>)"
proof -
  let ?ps = "filter (pa_is_active s) (sl_actions s i)"
  let ?t = "sc_expiry s (Of_slot i)"
  let ?s1 = "s\<lparr>sc_now := ?t, sc_tasks := map (\<lambda>p. Expired (Periodic p)) ?ps @ [Expired (Slot_tick i)],
     sc_waits := (sc_waits s)(Of_slot i := [])\<rparr>"
  let ?s2 = "?s1\<lparr>sc_tasks := [Expired (Slot_tick i)], sc_user := sc_user s @ pa_functions s ?ps\<rparr>"
  have fire: "io_fire (Of_slot i) (io_tick (?t - sc_now s) s) = ?s1"
    using armed quiet future by (simp add: io_fire_def io_tick_def sl_armed_def)
  have "io_run (length ?ps) noting ?s1 = Inr (?s1\<lparr>sc_tasks := [Expired (Slot_tick i)], sc_user := sc_user ?s1 @ pa_functions ?s1 ?ps\<rparr>)"
    by (rule io_run_periodics) simp_all
  then have run: "io_run (length ?ps) noting ?s1 = Inr ?s2" by simp
  have "io_run 1 noting ?s2 = Inr (sl_reset_timer i (?s2\<lparr>sc_tasks := []\<rparr>))"
    by (simp add: io_run_one_def sl_expired_def)
  moreover have "sl_reset_timer i (?s2\<lparr>sc_tasks := []\<rparr>) = s\<lparr>sc_now := ?t, sc_expiry := (sc_expiry s)(Of_slot i := ?t + i),
      sc_user := sc_user s @ pa_functions s ?ps\<rparr>"
    using armed quiet unfolding sl_reset_timer_eq
    by (simp add: sl_armed_def fun_upd_idem)
  moreover have "length (sc_tasks ?s1) = length ?ps + 1" by simp
  ultimately show ?thesis
    unfolding sl_period_def fire Let_def by (simp only: io_run_add run bindE_simps)
qed

lemma sl_periods_run:
  assumes "sl_armed i s" and "sc_tasks s = []" and "sc_now s \<le> sc_expiry s (Of_slot i)"
  shows "\<exists>s'. sl_periods n i s = Inr s' \<and> sl_armed i s' \<and> sc_tasks s' = [] \<and>
    sc_expiry s' (Of_slot i) = sc_expiry s (Of_slot i) + n * i \<and>
    sc_user s' = sc_user s @ concat (replicate n (pa_functions s (filter (pa_is_active s) (sl_actions s i))))"
  using assms
proof (induction n arbitrary: s)
  case 0
  then show ?case by simp
next
  case (Suc n)
  let ?fs = "pa_functions s (filter (pa_is_active s) (sl_actions s i))"
  let ?s = "s\<lparr>sc_now := sc_expiry s (Of_slot i), sc_expiry := (sc_expiry s)(Of_slot i := sc_expiry s (Of_slot i) + i),
    sc_user := sc_user s @ ?fs\<rparr>"
  have "sl_armed i ?s" using Suc.prems(1) by (simp add: sl_armed_def)
  then obtain s' where "sl_periods n i ?s = Inr s'" "sl_armed i s'" "sc_tasks s' = []"
    "sc_expiry s' (Of_slot i) = sc_expiry ?s (Of_slot i) + n * i"
    "sc_user s' = sc_user ?s @ concat (replicate n ?fs)"
    using Suc.IH [of ?s] Suc.prems(2) by auto
  then show ?case using sl_period_runs [OF Suc.prems] by simp
qed

section \<open>Properties\<close>

text \<open>
  Claim C34. A timer runs its function exactly once: after \<open>set_timer\<close>, nothing happens before the duration has
  passed; once more time has passed, the function runs, and the action is removed from the scheduler with
  nothing left behind, the rest of the scheduler as it was.
\<close>

theorem timer_runs_once:
  assumes "sc_tasks s = []" and "sc_waits s (Of_action (sc_next s)) = []" and "early < d" and "d < late"
  shows "case sc_set_timer d f s of (a, s1) \<Rightarrow>
    io_fire (Of_action a) (io_tick early s1) = io_tick early s1 \<and> sc_tasks (io_tick early s1) = [] \<and>
    (\<exists>s2. io_run 2 noting (io_fire (Of_action a) (io_tick late s1)) = Inr s2 \<and>
      sc_user s2 = sc_user s @ [f] \<and> sc_tasks s2 = [] \<and> sc_waits s2 = sc_waits s \<and>
      sc_actions s2 = (sc_actions s)(a := None) \<and> sc_slots s2 = sc_slots s \<and> sc_periodics s2 = sc_periodics s)"
  using assms
  by (simp add: sc_set_timer_def sa_make_def sa_reset_def Let_def timer_defs io_fire_def numeral_2_eq_2 io_run_one_def
      sa_expired_def noting_def sa_cancel_def sc_remove_action_def sa_destroy_def fun_upd_idem)

definition sc_example :: "nat list scheduler" where
  "sc_example = sc_new 100 []"

theorem timer_runs_once_witness:
  "case sc_set_timer 5 42 sc_example of (a, s1) \<Rightarrow>
    io_fire (Of_action a) (io_tick 4 s1) = io_tick 4 s1 \<and> sc_tasks (io_tick 4 s1) = [] \<and>
    (\<exists>s2. io_run 2 noting (io_fire (Of_action a) (io_tick 6 s1)) = Inr s2 \<and>
      sc_user s2 = sc_user sc_example @ [42] \<and> sc_tasks s2 = [] \<and> sc_waits s2 = sc_waits sc_example \<and>
      sc_actions s2 = (sc_actions sc_example)(a := None) \<and> sc_slots s2 = sc_slots sc_example \<and>
      sc_periodics s2 = sc_periodics sc_example)"
  by (rule timer_runs_once) (simp_all add: sc_example_def sc_new_def)

text \<open>
  Claim C35. A slot keeps its rhythm: scheduling a function on an interval that has no actions yet starts the
  slot's timer, and from then on, for any number of periods, each interval calls it once; after them the timer is armed again,
  one interval later.
\<close>

theorem periodic_actions_run_each_period:
  assumes "sc_tasks s = []" and "sc_slots s i = None" and "sc_waits s (Of_slot i) = []"
  shows "\<exists>s'. sl_periods n i (snd (sc_schedule i f s)) = Inr s' \<and> sl_armed i s' \<and>
    sc_expiry s' (Of_slot i) = sc_now s + Suc n * i \<and> sc_user s' = sc_user s @ replicate n f"
proof -
  let ?p = "sc_next s"
  let ?s = "snd (sc_schedule i f s)"
  let ?x = "\<lparr>pa_slot = i, pa_function = f, pa_active = True\<rparr>"
  have eq: "?s = s\<lparr>sc_slots := (sc_slots s)(i \<mapsto> [?p]), sc_periodics := (sc_periodics s)(?p \<mapsto> ?x), sc_next := Suc ?p,
      sc_expiry := (sc_expiry s)(Of_slot i := sc_now s + i),
      sc_waits := (sc_waits s)(Of_slot i := [Periodic ?p, Slot_tick i])\<rparr>"
    using assms by (simp add: sc_schedule_def sl_emplace_def Let_def sl_reset_timer_eq sl_actions_def pa_is_active_def)
  have one: "sl_actions ?s i = [?p]" "filter (pa_is_active ?s) [?p] = [?p]" "pa_functions ?s [?p] = [f]"
    unfolding eq by (simp_all add: sl_actions_def pa_is_active_def pa_functions_def)
  have "sl_armed i ?s" unfolding sl_armed_def one(1,2) by (simp add: eq)
  moreover have "sc_tasks ?s = []" "sc_now ?s \<le> sc_expiry ?s (Of_slot i)" "sc_expiry ?s (Of_slot i) = sc_now s + i"
    "sc_user ?s = sc_user s"
    using assms(1) by (simp_all add: eq)
  ultimately show ?thesis
    using sl_periods_run [of i ?s n] unfolding one by (auto simp: concat_replicate_single)
qed

theorem periodic_actions_run_each_period_witness:
  "\<exists>s'. sl_periods 3 (rate_hz 1) (snd (sc_schedule (rate_hz 1) 7 sc_example)) = Inr s' \<and> sl_armed (rate_hz 1) s' \<and>
    sc_expiry s' (Of_slot (rate_hz 1)) = sc_now sc_example + Suc 3 * rate_hz 1 \<and>
    sc_user s' = sc_user sc_example @ replicate 3 7"
  by (rule periodic_actions_run_each_period) (simp_all add: sc_example_def sc_new_def)

text \<open>
  Cancelling one of several actions of a slot leaves a handler with a dangling pointer behind: the
  removal destroys the action, but its wait on the slot's timer is only aborted when the slot becomes empty,
  so the next expiry runs the handler of the destroyed action.
\<close>

theorem cancelled_periodic_dangles:
  assumes "sl_armed i s" and "sc_tasks s = []" and "sl_actions s i = p # q # ps" and "p \<notin> set (q # ps)"
    and "sc_periodics s p = Some x" and "pa_slot x = i" and "pa_active x" and "sc_expiry s (Of_slot i) \<le> sc_now s + d"
  shows "\<exists>s1. io_run 1 call (pa_cancel p s) = Inr s1 \<and> sc_periodics s1 p = None \<and>
    io_run 1 call (io_fire (Of_slot i) (io_tick d s1)) = Inl Use_after_free"
proof -
  let ?s = "(pa_pause p s)\<lparr>sc_slots := (sc_slots s)(i \<mapsto> q # ps), sc_periodics := (sc_periodics s)(p := None)\<rparr>"
  have keep: "filter (\<lambda>r. r \<noteq> p) (p # q # ps) = q # ps"
    using assms(4) by (auto simp: filter_id_conv)
  have "io_run 1 call (pa_cancel p s) = Inr ?s"
    using assms(2,3,5,6) keep
    by (simp add: io_run_one_def pa_cancel_def io_post_def pa_pause_def sc_remove_periodic_def sl_remove_def Let_def
        sl_actions_def split: option.splits)
  moreover have "\<exists>hs. sc_waits ?s (Of_slot i) = Periodic p # hs"
    using assms(1,3,5,7) by (simp add: sl_armed_def pa_is_active_def pa_pause_def)
  ultimately show ?thesis
    using assms(2,8) by (auto simp: io_fire_def io_tick_def io_run_one_def pa_expired_def pa_pause_def)
qed

text \<open>Two actions on one interval, after its first period.\<close>

definition sc_pair :: "nat list scheduler" where
  "sc_pair = \<lparr>sc_now = 105, sc_expiry = (\<lambda>_. 0)(Of_slot 5 := 110),
     sc_waits = (\<lambda>_. [])(Of_slot 5 := [Periodic 1, Periodic 0, Slot_tick 5]), sc_tasks = [], sc_actions = (\<lambda>_. None),
     sc_moved = (\<lambda>_. False), sc_slots = [5 \<mapsto> [1, 0]],
     sc_periodics = [0 \<mapsto> \<lparr>pa_slot = 5, pa_function = 7, pa_active = True\<rparr>, 1 \<mapsto> \<lparr>pa_slot = 5, pa_function = 8, pa_active = True\<rparr>],
     sc_next = 2, sc_user = [7]\<rparr>"

lemma sc_pair_reached: "sl_period 5 (snd (sc_schedule 5 8 (snd (sc_schedule 5 7 sc_example)))) = Inr sc_pair"
  by (simp add: sc_pair_def sc_example_def sc_new_def sl_period_def sc_schedule_def sl_emplace_def Let_def sl_reset_timer_eq
      sl_actions_def pa_is_active_def io_fire_def io_tick_def io_run_one_def sl_expired_def pa_expired_def noting_def)

theorem cancelled_periodic_dangles_witness:
  "\<exists>s1. io_run 1 noting (pa_cancel 1 sc_pair) = Inr s1 \<and> sc_periodics s1 1 = None \<and>
    io_run 1 noting (io_fire (Of_slot 5) (io_tick 6 s1)) = Inl Use_after_free"
  by (rule cancelled_periodic_dangles [where q = 0 and ps = "[]" and x = "\<lparr>pa_slot = 5, pa_function = 8, pa_active = True\<rparr>"])
    (simp_all add: sc_pair_def sl_armed_def sl_actions_def pa_is_active_def)

text \<open>
  \<open>Scheduler::remove\<close> on an action whose timer still waits destroys the action, and with it the object of the
  aborted handler.
\<close>

lemma removing_waiting_action_dangles:
  assumes "sc_tasks s = []" and "sc_waits s (Of_action (sc_next s)) = []"
  shows "case sc_set_timer d f s of (a, s1) \<Rightarrow> io_run 1 call (sc_remove_action a s1) = Inl Use_after_free"
  using assms
  by (simp add: sc_set_timer_def sa_make_def sa_reset_def Let_def timer_defs io_run_one_def sc_remove_action_def sa_destroy_def)

section \<open>Moving a scheduled action\<close>

text \<open>
  When the expiry comes, the old object's handler finds no timer and the new object's handler calls the function
  once; but if the old object is destroyed before that, as it is after most moves, its handler reads it.
\<close>

lemma moved_action_runs_once:
  assumes "sc_tasks s = []" and "sc_waits s (Of_action (sc_next s)) = []" and "sc_waits s (Of_action (Suc (sc_next s))) = []"
    and "0 < d" and "d < late"
  shows "\<exists>b s2 s3. sa_move_make (sc_next s) (snd (sc_set_timer d f s)) = Inr (b, s2) \<and>
    io_run 3 noting (io_fire (Of_action b) (io_tick late s2)) = Inr s3 \<and>
    sc_user s3 = sc_user s @ [f] \<and> sc_tasks s3 = [] \<and> sc_waits s3 = sc_waits s"
  using assms
  by (auto simp: sc_set_timer_def sa_make_def sa_move_make_def sa_reset_def Let_def timer_defs io_fire_def numeral_3_eq_3
      io_run_one_def sa_expired_def noting_def sa_cancel_def sc_remove_action_def sa_destroy_def fun_eq_iff)

lemma moved_source_dangles:
  assumes "sc_tasks s = []" and "sc_waits s (Of_action (sc_next s)) = []" and "0 < d" and "d < late"
  shows "\<exists>b s2. sa_move_make (sc_next s) (snd (sc_set_timer d f s)) = Inr (b, s2) \<and>
    io_run 1 call (io_fire (Of_action b) (io_tick late (sa_destroy (sc_next s) s2))) = Inl Use_after_free"
  using assms
  by (auto simp: sc_set_timer_def sa_make_def sa_move_make_def sa_reset_def Let_def timer_defs io_fire_def
      io_run_one_def sa_expired_def sa_destroy_def)

end
