(* ===== verification/Worker.thy ===== *)
theory Worker
  imports SArray
begin

text \<open>
  Worker threads: \<^verbatim>\<open>include/crisp/util/WorkerObject.hh\<close> and \<^verbatim>\<open>src/util/WorkerObject.cc\<close>. A pool keeps its threads in
  an array whose capacity is the size of the pool. A worker thread calls the service's \<open>run\<close> until its \<open>should_halt\<close> is
  set; \<open>run\<close> returns when the service has been stopped or has no work, and running out of work stops the
  service (documented behaviour of Boost.Asio). What counts as work is the pool's own \<open>work\<close> object, the
  operations other objects have pending, such as a timer or an \<open>accept\<close>, and the nops posted while halting.

  \<open>halt\<close> is modelled twice: as a function (\<open>wp_halt\<close>, where a call that never returns is \<open>None\<close>), which the node uses, and as
  a transition system of the threads that take part in it (\<open>hl_moves\<close>): the workers in their loops, the helper that marks
  and joins them, the helper that posts nops. The property below relates the two.
\<close>

section \<open>The code\<close>

record worker =
  wk_thread :: "nat option"     \<comment> \<open>the thread, while it is joinable\<close>
  wk_should_halt :: bool

record pool =
  wp_workers :: "worker sarray"
  wp_waiter :: bool             \<comment> \<open>the \<open>work\<close> object exists\<close>
  wp_stopped :: bool            \<comment> \<open>the service has been stopped\<close>
  wp_next_thread :: nat

definition wk_new :: worker where
  "wk_new = \<lparr>wk_thread = None, wk_should_halt = False\<rparr>"

definition wk_launch :: "nat \<Rightarrow> worker \<Rightarrow> bool \<times> worker" where
  "wk_launch t w = (if wk_thread w = None then (True, w\<lparr>wk_thread := Some t\<rparr>) else (False, w))"

text \<open>
  \<open>halt(wait)\<close>, called on thread \<open>self\<close>; \<open>exits w\<close> says whether the thread of a worker in state \<open>w\<close> has ended or will end,
  without which \<open>join\<close> does not return.
\<close>

definition wk_halt :: "nat \<Rightarrow> (worker \<Rightarrow> bool) \<Rightarrow> bool \<Rightarrow> worker \<Rightarrow> (bool \<times> worker) option" where
  "wk_halt self exits wait w =
     (if wk_thread w = Some self then Some (False, w)
      else if wk_thread w \<noteq> None
      then let w' = w\<lparr>wk_should_halt := True\<rparr> in
           if wait then (if exits w' then Some (True, w'\<lparr>wk_thread := None\<rparr>) else None) else Some (True, w')
      else Some (True, w))"

definition wp_make :: "nat \<Rightarrow> pool" where
  "wp_make n = \<lparr>wp_workers = sa_alloc n, wp_waiter = False, wp_stopped = False, wp_next_thread = 1\<rparr>"

definition wp_spawn :: "pool \<Rightarrow> fault + pool" where
  "wp_spawn p =
     bindE (sa_push wk_new (wp_workers p)) (\<lambda>a.
     bindE (sa_modify (sa_size a - 1) (\<lambda>w. snd (wk_launch (wp_next_thread p) w)) a) (\<lambda>a'.
       Inr (p\<lparr>wp_workers := a', wp_next_thread := wp_next_thread p + 1\<rparr>)))"

definition wp_launch :: "pool \<Rightarrow> fault + bool \<times> pool" where
  "wp_launch p =
     (if sa_size (wp_workers p) < sa_capacity (wp_workers p)
      then bindE (foldE (\<lambda>_. wp_spawn) [sa_size (wp_workers p)..<sa_capacity (wp_workers p)] (p\<lparr>wp_waiter := True\<rparr>))
             (\<lambda>p'. Inr (True, p'))
      else Inr (False, p))"

definition wp_num_live_threads :: "pool \<Rightarrow> fault + nat" where
  "wp_num_live_threads p =
     bindE (sa_elems (wp_workers p)) (\<lambda>ws. Inr (length (filter (\<lambda>w. wk_thread w \<noteq> None) ws)))"

definition wp_running :: "bool \<Rightarrow> pool \<Rightarrow> fault + bool" where
  "wp_running all p =
     bindE (sa_elems (wp_workers p)) (\<lambda>ws.
       Inr (if all then list_all (\<lambda>w. wk_thread w \<noteq> None) ws else list_ex (\<lambda>w. wk_thread w \<noteq> None) ws))"

definition wp_can_halt :: "nat \<Rightarrow> pool \<Rightarrow> fault + bool" where
  "wp_can_halt self p =
     bindE (sa_elems (wp_workers p)) (\<lambda>ws. Inr (\<not> list_ex (\<lambda>w. wk_thread w = Some self) ws))"

text \<open>
  When \<open>run\<close> returns, with \<open>pending\<close> saying whether others have work on the service; and when a thread that is inside \<open>run\<close>
  ends: \<open>while ( ! should_halt ) service.run();\<close>.
\<close>

definition wp_run_returns :: "bool \<Rightarrow> pool \<Rightarrow> bool" where
  "wp_run_returns pending p \<longleftrightarrow> wp_stopped p \<or> \<not> wp_waiter p \<and> \<not> pending"

definition wk_exits :: "bool \<Rightarrow> pool \<Rightarrow> worker \<Rightarrow> bool" where
  "wk_exits pending p w \<longleftrightarrow> wp_run_returns pending p \<and> wk_should_halt w"

text \<open>
  \<open>halt\<close> releases the pool's work object; then a helper thread (thread 0) tells every worker to halt and waits for each,
  while a second helper posts nops that let the workers notice (here they are taken to drain); the results of the single halts are
  dropped.
\<close>

definition wp_release :: "pool \<Rightarrow> pool" where
  "wp_release p = p\<lparr>wp_waiter := False\<rparr>"

fun wk_halt_each :: "(worker \<Rightarrow> bool) \<Rightarrow> bool \<Rightarrow> worker list \<Rightarrow> worker list option" where
  "wk_halt_each exits wait [] = Some []"
| "wk_halt_each exits wait (w # ws) =
     (case wk_halt 0 exits wait w of
        None \<Rightarrow> None
      | Some (_, w') \<Rightarrow> map_option ((#) w') (wk_halt_each exits wait ws))"

definition wp_halt :: "nat \<Rightarrow> bool \<Rightarrow> pool \<Rightarrow> (fault + bool \<times> pool) option" where
  "wp_halt self other_work p =
     (case bindE (wp_can_halt self p) (\<lambda>can. bindE (sa_elems (wp_workers p)) (\<lambda>ws. Inr (can, ws))) of
        Inl e \<Rightarrow> Some (Inl e)
      | Inr (can, ws) \<Rightarrow>
          if \<not> can then Some (Inr (False, p))
          else let p1 = wp_release p; exits = wk_exits other_work p1 in
               case Option.bind (wk_halt_each exits False ws) (wk_halt_each exits True) of
                 None \<Rightarrow> None
               | Some ws' \<Rightarrow>
                   Some (Inr (True, p1\<lparr>wp_stopped := wp_stopped p1 \<or> ws \<noteq> [], wp_workers := sa_clear (wp_workers p1)\<rparr>)))"

text \<open>The destructor ignores the result, and the array then destroys its workers, joining what still runs.\<close>

definition wp_destroy :: "nat \<Rightarrow> bool \<Rightarrow> pool \<Rightarrow> (fault + unit) option" where
  "wp_destroy self other_work p =
     (case wp_halt self other_work p of
        None \<Rightarrow> None
      | Some r \<Rightarrow>
          (case bindE r (\<lambda>(_, p'). wp_can_halt self p') of
             Inl e \<Rightarrow> Some (Inl e)
           | Inr True \<Rightarrow> Some (Inr ())
           | Inr False \<Rightarrow> Some (Inl (Thrown ''Resource deadlock avoided''))))"

text \<open>\<open>sleep_ns\<close>: the seconds and nanoseconds it asks for.\<close>

definition sleep_parts :: "nat \<Rightarrow> nat \<times> nat" where
  "sleep_parts ns = (if ns > 1000000000 then (ns div 1000000000, ns mod 1000000000) else (0, ns))"

section \<open>Pools\<close>

text \<open>Thread numbers are positive and below the next one, so helper 0 and the caller are not workers.\<close>

definition wp_inv :: "pool \<Rightarrow> bool" where
  "wp_inv p \<longleftrightarrow> sa_inv (wp_workers p) \<and>
     (\<forall>w \<in> set (sa_list (wp_workers p)). \<exists>t. wk_thread w = Some t \<and> 0 < t \<and> t < wp_next_thread p)"

lemma sleep_parts_total: "fst (sleep_parts ns) * 1000000000 + snd (sleep_parts ns) = ns"
  by (simp add: sleep_parts_def)

lemma sleep_parts_limit: "snd (sleep_parts 1000000000) = 1000000000"
  by (simp add: sleep_parts_def)

definition wk_on :: "nat \<Rightarrow> worker" where
  "wk_on t = \<lparr>wk_thread = Some t, wk_should_halt = False\<rparr>"

lemma wp_spawn_mk:
  assumes "length ws < cap"
  shows "wp_spawn (p\<lparr>wp_workers := sa_mk ws cap\<rparr>) =
    Inr (p\<lparr>wp_next_thread := wp_next_thread p + 1, wp_workers := sa_mk (ws @ [wk_on (wp_next_thread p)]) cap\<rparr>)"
  using assms by (simp add: wp_spawn_def wk_launch_def wk_new_def wk_on_def sa_grow_def)

lemma wp_spawn_all:
  assumes "length ws + length is \<le> cap"
  shows "foldE (\<lambda>_. wp_spawn) is (p\<lparr>wp_workers := sa_mk ws cap\<rparr>) =
    Inr (p\<lparr>wp_next_thread := wp_next_thread p + length is,
           wp_workers := sa_mk (ws @ map wk_on [wp_next_thread p..<wp_next_thread p + length is]) cap\<rparr>)"
  using assms
proof (induction "is" arbitrary: ws p)
  case Nil
  then show ?case by simp
next
  case (Cons i "is")
  let ?p = "p\<lparr>wp_next_thread := wp_next_thread p + 1\<rparr>"
  have "foldE (\<lambda>_. wp_spawn) is (?p\<lparr>wp_workers := sa_mk (ws @ [wk_on (wp_next_thread p)]) cap\<rparr>) =
    Inr (?p\<lparr>wp_next_thread := wp_next_thread ?p + length is,
      wp_workers := sa_mk ((ws @ [wk_on (wp_next_thread p)]) @
        map wk_on [wp_next_thread ?p..<wp_next_thread ?p + length is]) cap\<rparr>)"
    using Cons.prems by (intro Cons.IH) simp
  moreover have "[wp_next_thread p..<wp_next_thread p + length (i # is)] =
      wp_next_thread p # [wp_next_thread ?p..<wp_next_thread ?p + length is]"
    by (subst upt_conv_Cons) simp_all
  ultimately show ?case
    using Cons.prems by (simp add: wp_spawn_mk del: upt_Suc)
qed

lemma wk_halt_each_mark:
  "\<forall>w \<in> set ws. \<exists>t. wk_thread w = Some t \<and> 0 < t \<Longrightarrow>
    wk_halt_each exits False ws = Some (map (wk_should_halt_update (\<lambda>_. True)) ws)"
  by (induction ws) (auto simp: wk_halt_def Let_def)

lemma wk_halt_each_join:
  "\<forall>w \<in> set ws. \<exists>t. wk_thread w = Some t \<and> 0 < t \<Longrightarrow>
    wk_halt_each (wk_exits pending p) True ws =
      (if wp_run_returns pending p \<or> ws = [] then Some (map (\<lambda>w. w\<lparr>wk_should_halt := True, wk_thread := None\<rparr>) ws) else None)"
  by (induction ws) (auto simp: wk_halt_def wk_exits_def Let_def)

lemma wp_launch_full:
  assumes "wp_inv p" and "wp_workers p = sa_mk [] cap" and "0 < cap"
  shows "wp_launch p = Inr (True, p\<lparr>wp_waiter := True,
      wp_workers := sa_mk (map wk_on [wp_next_thread p..<wp_next_thread p + cap]) cap,
      wp_next_thread := wp_next_thread p + cap\<rparr>)"
proof -
  have eq: "(p\<lparr>wp_waiter := True\<rparr>)\<lparr>wp_workers := sa_mk [] cap\<rparr> = p\<lparr>wp_waiter := True\<rparr>"
    using assms(2) by simp
  have "foldE (\<lambda>_. wp_spawn) [0..<cap] (p\<lparr>wp_waiter := True\<rparr>) = Inr (p\<lparr>wp_waiter := True,
      wp_workers := sa_mk (map wk_on [wp_next_thread p..<wp_next_thread p + cap]) cap,
      wp_next_thread := wp_next_thread p + cap\<rparr>)"
    using wp_spawn_all [of "[]" "[0..<cap]" cap "p\<lparr>wp_waiter := True\<rparr>"] unfolding eq by simp
  then show ?thesis using assms(2,3) by (simp add: wp_launch_def)
qed

lemma wp_halt_eq:
  assumes "wp_inv p" and "wp_workers p = sa_mk ws cap" and "length ws \<le> cap"
  shows "wp_halt self other p =
    (if list_ex (\<lambda>w. wk_thread w = Some self) ws then Some (Inr (False, p))
     else if other \<and> \<not> wp_stopped p \<and> ws \<noteq> [] then None
     else Some (Inr (True, p\<lparr>wp_waiter := False, wp_stopped := wp_stopped p \<or> ws \<noteq> [], wp_workers := sa_mk [] cap\<rparr>)))"
proof -
  have "\<forall>w \<in> set ws. \<exists>t. wk_thread w = Some t \<and> 0 < t"
    using assms by (auto simp: wp_inv_def)
  moreover from this have "\<forall>w \<in> set (map (wk_should_halt_update (\<lambda>_. True)) ws). \<exists>t. wk_thread w = Some t \<and> 0 < t"
    by auto
  ultimately show ?thesis
    using assms(2,3)
    by (auto simp: wp_halt_def wp_can_halt_def wk_halt_each_mark wk_halt_each_join wp_run_returns_def wp_release_def Let_def)
qed

section \<open>The threads of a halt\<close>

text \<open>
  While \<open>halt\<close> runs: where each worker thread is (about to test \<open>should_halt\<close>, inside \<open>run\<close>, ended), how many nops are
  posted and not run, how far the first helper has got, and whether the second still posts.
\<close>

datatype wk_phase = Testing | In_run | Gone

datatype halter = Marking nat | Joining nat | Cleared

record halting =
  hl_pool :: pool
  hl_phases :: "wk_phase list"
  hl_nops :: nat
  hl_halter :: halter
  hl_posting :: bool

definition hl_start :: "pool \<Rightarrow> wk_phase list \<Rightarrow> halting" where
  "hl_start p phs = \<lparr>hl_pool = wp_release p, hl_phases = phs, hl_nops = 0, hl_halter = Marking 0, hl_posting = True\<rparr>"

definition hl_workers :: "halting \<Rightarrow> worker list" where
  "hl_workers s = sa_list (wp_workers (hl_pool s))"

definition hl_put :: "worker sarray \<Rightarrow> halter \<Rightarrow> halting \<Rightarrow> halting" where
  "hl_put a h s = s\<lparr>hl_pool := (hl_pool s)\<lparr>wp_workers := a\<rparr>, hl_halter := h\<rparr>"

text \<open>
  The moves: a worker tests its flag; runs a nop; returns from \<open>run\<close>, which stops the service; the first helper calls \<open>halt\<close> of
  the next worker, without and then with waiting (where it moves when the thread has ended), and clears the array; the second posts a
  nop while \<open>running()\<close> and ends otherwise. \<open>pending\<close> says whether others have work on the service all along.
\<close>

inductive hl_moves :: "bool \<Rightarrow> halting \<Rightarrow> halting \<Rightarrow> bool" for pending :: bool where
  test: "i < length (hl_phases s) \<Longrightarrow> hl_phases s ! i = Testing \<Longrightarrow> i < length (hl_workers s) \<Longrightarrow>
    hl_moves pending s (s\<lparr>hl_phases := (hl_phases s)[i := if wk_should_halt (hl_workers s ! i) then Gone else In_run]\<rparr>)"
| nop: "i < length (hl_phases s) \<Longrightarrow> hl_phases s ! i = In_run \<Longrightarrow> \<not> wp_stopped (hl_pool s) \<Longrightarrow> 0 < hl_nops s \<Longrightarrow>
    hl_moves pending s (s\<lparr>hl_nops := hl_nops s - 1\<rparr>)"
| return: "i < length (hl_phases s) \<Longrightarrow> hl_phases s ! i = In_run \<Longrightarrow> wp_run_returns (pending \<or> 0 < hl_nops s) (hl_pool s) \<Longrightarrow>
    hl_moves pending s (s\<lparr>hl_pool := (hl_pool s)\<lparr>wp_stopped := True\<rparr>, hl_phases := (hl_phases s)[i := Testing]\<rparr>)"
| mark: "hl_halter s = Marking i \<Longrightarrow> i < length (hl_workers s) \<Longrightarrow>
    wk_halt 0 (\<lambda>_. hl_phases s ! i = Gone) False (hl_workers s ! i) = Some (r, w) \<Longrightarrow>
    sa_modify i (\<lambda>_. w) (wp_workers (hl_pool s)) = Inr a \<Longrightarrow> hl_moves pending s (hl_put a (Marking (Suc i)) s)"
| marked: "hl_halter s = Marking i \<Longrightarrow> length (hl_workers s) \<le> i \<Longrightarrow> hl_moves pending s (s\<lparr>hl_halter := Joining 0\<rparr>)"
| join: "hl_halter s = Joining i \<Longrightarrow> i < length (hl_workers s) \<Longrightarrow>
    wk_halt 0 (\<lambda>_. hl_phases s ! i = Gone) True (hl_workers s ! i) = Some (r, w) \<Longrightarrow>
    sa_modify i (\<lambda>_. w) (wp_workers (hl_pool s)) = Inr a \<Longrightarrow> hl_moves pending s (hl_put a (Joining (Suc i)) s)"
| clear: "hl_halter s = Joining i \<Longrightarrow> length (hl_workers s) \<le> i \<Longrightarrow>
    hl_moves pending s (hl_put (sa_clear (wp_workers (hl_pool s))) Cleared s)"
| post: "hl_posting s \<Longrightarrow> wp_running False (hl_pool s) = Inr True \<Longrightarrow> hl_moves pending s (s\<lparr>hl_nops := hl_nops s + 1\<rparr>)"
| posted: "hl_posting s \<Longrightarrow> wp_running False (hl_pool s) = Inr False \<Longrightarrow> hl_moves pending s (s\<lparr>hl_posting := False\<rparr>)"

text \<open>\<open>halt\<close> returns when both helpers have ended.\<close>

definition hl_done :: "halting \<Rightarrow> bool" where
  "hl_done s \<longleftrightarrow> hl_halter s = Cleared \<and> \<not> hl_posting s"

subsection \<open>What every state of a halt looks like\<close>

definition wk_marked :: "worker \<Rightarrow> worker" where
  "wk_marked w = w\<lparr>wk_should_halt := True\<rparr>"

definition wk_joined :: "worker \<Rightarrow> worker" where
  "wk_joined w = w\<lparr>wk_should_halt := True, wk_thread := None\<rparr>"

definition hl_expect :: "worker list \<Rightarrow> halter \<Rightarrow> worker list" where
  "hl_expect ws h =
     (case h of
        Marking i \<Rightarrow> map wk_marked (take i ws) @ drop i ws
      | Joining i \<Rightarrow> map wk_joined (take i ws) @ map wk_marked (drop i ws)
      | Cleared \<Rightarrow> [])"

text \<open>The threads that were waited for have ended.\<close>

fun hl_waited :: "nat \<Rightarrow> halter \<Rightarrow> wk_phase list \<Rightarrow> bool" where
  "hl_waited n (Marking i) phs = (i \<le> n)"
| "hl_waited n (Joining i) phs = (i \<le> n \<and> (\<forall>j < i. phs ! j = Gone))"
| "hl_waited n Cleared phs = (\<forall>j < n. phs ! j = Gone)"

text \<open>The pool \<open>q\<close>, with workers \<open>ws\<close>, is being halted.\<close>

definition hl_inv :: "pool \<Rightarrow> worker list \<Rightarrow> nat \<Rightarrow> halting \<Rightarrow> bool" where
  "hl_inv q ws cap s \<longleftrightarrow>
     (\<exists>st. hl_pool s = q\<lparr>wp_waiter := False, wp_stopped := st, wp_workers := sa_mk (hl_expect ws (hl_halter s)) cap\<rparr>) \<and>
     length (hl_phases s) = length ws \<and> (wp_stopped (hl_pool s) \<or> In_run \<in> set (hl_phases s)) \<and>
     hl_waited (length ws) (hl_halter s) (hl_phases s)"

definition hl_able :: "worker list \<Rightarrow> nat \<Rightarrow> bool" where
  "hl_able ws cap \<longleftrightarrow> length ws \<le> cap \<and> (\<forall>w \<in> set ws. \<exists>t. wk_thread w = Some t \<and> 0 < t)"

lemma length_hl_expect [simp]:
  "i \<le> length ws \<Longrightarrow> length (hl_expect ws (Marking i)) = length ws" "i \<le> length ws \<Longrightarrow> length (hl_expect ws (Joining i)) = length ws"
  "hl_expect ws Cleared = []" "hl_expect ws (Marking 0) = ws"
  by (simp_all add: hl_expect_def)

lemma hl_expect_steps:
  assumes "i < length ws"
  shows "hl_expect ws (Marking i) ! i = ws ! i" "hl_expect ws (Joining i) ! i = wk_marked (ws ! i)"
    and "(hl_expect ws (Marking i))[i := wk_marked (ws ! i)] = hl_expect ws (Marking (Suc i))"
    and "(hl_expect ws (Joining i))[i := wk_joined (ws ! i)] = hl_expect ws (Joining (Suc i))"
proof -
  have d: "drop i ws = ws ! i # drop (Suc i) ws" by (rule Cons_nth_drop_Suc [symmetric, OF assms])
  show "hl_expect ws (Marking i) ! i = ws ! i" "hl_expect ws (Joining i) ! i = wk_marked (ws ! i)"
    using assms by (simp_all add: hl_expect_def nth_append)
  show "(hl_expect ws (Marking i))[i := wk_marked (ws ! i)] = hl_expect ws (Marking (Suc i))"
    "(hl_expect ws (Joining i))[i := wk_joined (ws ! i)] = hl_expect ws (Joining (Suc i))"
    using assms by (simp_all add: hl_expect_def d list_update_append take_Suc_conv_app_nth)
qed

lemma hl_expect_marked: "hl_expect ws (Marking (length ws)) = hl_expect ws (Joining 0)"
  by (simp add: hl_expect_def)

lemma hl_joining_flag: "i \<le> length ws \<Longrightarrow> j < length ws \<Longrightarrow> wk_should_halt (hl_expect ws (Joining i) ! j)"
  by (simp add: hl_expect_def nth_append wk_marked_def wk_joined_def)

lemma wk_halt_able:
  assumes "wk_thread w = Some t" and "0 < t"
  shows "wk_halt 0 e False w = Some (True, wk_marked w)"
    and "wk_halt 0 e True (wk_marked w) = (if e (wk_marked w) then Some (True, wk_joined w) else None)"
  using assms by (simp_all add: wk_halt_def wk_marked_def wk_joined_def Let_def)

lemma hl_invE:
  assumes "hl_inv q ws cap s" and "hl_able ws cap"
  obtains st where "hl_pool s = q\<lparr>wp_waiter := False, wp_stopped := st, wp_workers := sa_mk (hl_expect ws (hl_halter s)) cap\<rparr>"
    and "hl_workers s = hl_expect ws (hl_halter s)" and "length (hl_phases s) = length ws"
    and "length (hl_expect ws (hl_halter s)) \<le> cap"
proof -
  have "length (hl_expect ws (hl_halter s)) \<le> cap"
    using assms by (cases "hl_halter s") (auto simp: hl_inv_def hl_able_def)
  moreover from this have "hl_workers s = hl_expect ws (hl_halter s)"
    using assms(1) by (auto simp: hl_inv_def hl_workers_def)
  ultimately show ?thesis using assms(1) that by (auto simp: hl_inv_def)
qed

lemma hl_start_inv:
  assumes "wp_workers q = sa_mk ws cap" and "length phs = length ws" and "In_run \<in> set phs"
  shows "hl_inv q ws cap (hl_start q phs)"
  using assms by (auto simp: hl_inv_def hl_start_def wp_release_def intro: exI [of _ "wp_stopped q"])

lemma in_run_updated: "In_run \<in> set xs \<Longrightarrow> i < length xs \<Longrightarrow> xs ! i \<noteq> In_run \<Longrightarrow> In_run \<in> set (xs[i := x])"
  by (metis in_set_conv_nth length_list_update nth_list_update_neq)

lemma hl_prefix_updated:
  assumes "hl_inv q ws cap s" and "i < length (hl_phases s)" and "hl_phases s ! i \<noteq> Gone"
  shows "hl_waited (length ws) (hl_halter s) ((hl_phases s)[i := x])"
  using assms by (cases "hl_halter s") (auto simp: hl_inv_def nth_list_update)

lemma hl_moves_inv:
  assumes "hl_moves pending s s'" and inv: "hl_inv q ws cap s" and able: "hl_able ws cap"
  shows "hl_inv q ws cap s'"
proof -
  obtain st where st: "hl_pool s = q\<lparr>wp_waiter := False, wp_stopped := st, wp_workers := sa_mk (hl_expect ws (hl_halter s)) cap\<rparr>"
    and wks: "hl_workers s = hl_expect ws (hl_halter s)" and len: "length (hl_phases s) = length ws"
    and cap: "length (hl_expect ws (hl_halter s)) \<le> cap"
    using hl_invE [OF inv able] .
  have run: "wp_stopped (hl_pool s) \<or> In_run \<in> set (hl_phases s)" using inv by (simp add: hl_inv_def)
  have thread: "\<exists>t. wk_thread (ws ! i) = Some t \<and> 0 < t" if "i < length ws" for i
    using able that by (simp add: hl_able_def)
  show ?thesis
    using assms(1)
  proof cases
    case (test i)
    then show ?thesis
      using hl_prefix_updated [OF inv, of i] in_run_updated [of "hl_phases s" i] run len st by (auto simp: hl_inv_def)
  next
    case (return i)
    then show ?thesis using hl_prefix_updated [OF inv, of i] len st by (auto simp: hl_inv_def intro: exI [of _ True])
  next
    case (mark i r w a)
    then have i: "i < length ws" using inv wks by (auto simp: hl_inv_def)
    obtain t where t: "wk_thread (ws ! i) = Some t" "0 < t" using thread [OF i] by blast
    have w: "w = wk_marked (ws ! i)"
      using mark wks hl_expect_steps(1) [OF i] wk_halt_able(1) [OF t] by simp
    have "a = sa_mk (hl_expect ws (Marking (Suc i))) cap"
      using mark(5) st mark(2) cap i hl_expect_steps(3) [OF i] w by simp
    then show ?thesis using mark(1,2) st len run i by (auto simp: hl_inv_def hl_put_def)
  next
    case (marked i)
    then have "i = length ws" using inv wks by (auto simp: hl_inv_def)
    then show ?thesis using marked st len run hl_expect_marked [of ws] by (auto simp: hl_inv_def)
  next
    case (join i r w a)
    then have i: "i < length ws" using inv wks by (auto simp: hl_inv_def)
    obtain t where t: "wk_thread (ws ! i) = Some t" "0 < t" using thread [OF i] by blast
    have w: "w = wk_joined (ws ! i)" "hl_phases s ! i = Gone"
      using join wks hl_expect_steps(2) [OF i] wk_halt_able(2) [OF t, of "\<lambda>_. hl_phases s ! i = Gone"]
      by (simp_all split: if_splits)
    have "a = sa_mk (hl_expect ws (Joining (Suc i))) cap"
      using join(5) st join(2) cap i hl_expect_steps(4) [OF i] w(1) by simp
    moreover have "\<forall>j < Suc i. hl_phases s ! j = Gone" using inv join(2) w(2) by (auto simp: hl_inv_def less_Suc_eq)
    ultimately show ?thesis using join(1,2) st len run i by (auto simp: hl_inv_def hl_put_def)
  next
    case (clear i)
    then have "i = length ws" using inv wks by (auto simp: hl_inv_def)
    then show ?thesis using clear st len run cap inv by (auto simp: hl_inv_def hl_put_def)
  qed (use inv in \<open>auto simp: hl_inv_def\<close>)
qed

lemma hl_reached_inv:
  assumes "(hl_moves pending)\<^sup>*\<^sup>* s s'" and "hl_inv q ws cap s" and "hl_able ws cap"
  shows "hl_inv q ws cap s'"
  using assms(1,2) by (induction rule: rtranclp_induct) (auto intro: hl_moves_inv [OF _ _ assms(3)])

text \<open>What \<open>halt\<close> has done when it returns.\<close>

lemma hl_done_pool:
  assumes "hl_inv q ws cap s" and "hl_done s"
  shows "hl_pool s = q\<lparr>wp_waiter := False, wp_stopped := True, wp_workers := sa_mk [] cap\<rparr>"
proof -
  obtain st where st: "hl_pool s = q\<lparr>wp_waiter := False, wp_stopped := st, wp_workers := sa_mk [] cap\<rparr>"
    using assms by (auto simp: hl_inv_def hl_done_def)
  moreover have "In_run \<notin> set (hl_phases s)" using assms by (auto simp: hl_inv_def hl_done_def in_set_conv_nth)
  ultimately show ?thesis using assms(1) by (auto simp: hl_inv_def)
qed

text \<open>With others' work pending a thread inside \<open>run\<close> stays there, and \<open>halt\<close> does not return.\<close>

lemma hl_blocked_moves:
  assumes "hl_moves True s s'" and "In_run \<in> set (hl_phases s)" and "\<not> wp_stopped (hl_pool s)"
  shows "In_run \<in> set (hl_phases s') \<and> \<not> wp_stopped (hl_pool s')"
  using assms by cases (auto simp: in_run_updated hl_put_def wp_run_returns_def)

lemma hl_blocked:
  assumes "(hl_moves True)\<^sup>*\<^sup>* s s'" and "hl_inv q ws cap s" and "hl_able ws cap" and "In_run \<in> set (hl_phases s)"
    and "\<not> wp_stopped (hl_pool s)"
  shows "\<not> hl_done s'"
proof
  assume "hl_done s'"
  then have "wp_stopped (hl_pool s')" using hl_done_pool hl_reached_inv [OF assms(1-3)] by fastforce
  moreover have "In_run \<in> set (hl_phases s') \<and> \<not> wp_stopped (hl_pool s')"
    using assms(1,4,5) by (induction rule: rtranclp_induct) (auto dest: hl_blocked_moves)
  ultimately show False by simp
qed

text \<open>Without such work some move always brings \<open>halt\<close> closer to its end.\<close>

definition phase_rank :: "wk_phase \<Rightarrow> nat" where
  "phase_rank ph = (case ph of Testing \<Rightarrow> 1 | In_run \<Rightarrow> 2 | Gone \<Rightarrow> 0)"

definition hl_rank :: "nat \<Rightarrow> halting \<Rightarrow> nat" where
  "hl_rank n s = sum_list (map phase_rank (hl_phases s)) + hl_nops s + of_bool (hl_posting s) +
     (case hl_halter s of Marking i \<Rightarrow> n - i + n + 2 | Joining i \<Rightarrow> n - i + 1 | Cleared \<Rightarrow> 0)"

lemma rank_updated:
  assumes "i < length xs" and "phase_rank x < phase_rank (xs ! i)"
  shows "sum_list (map phase_rank (xs[i := x])) < sum_list (map phase_rank xs)"
proof -
  have "xs = take i xs @ xs ! i # drop (Suc i) xs" by (rule id_take_nth_drop [OF assms(1)])
  then have "sum_list (map phase_rank xs) =
      sum_list (map phase_rank (take i xs)) + phase_rank (xs ! i) + sum_list (map phase_rank (drop (Suc i) xs))"
    by (metis (no_types) list.simps(9) map_append sum_list.Cons sum_list.append add.assoc)
  moreover have "sum_list (map phase_rank (xs[i := x])) =
      sum_list (map phase_rank (take i xs)) + phase_rank x + sum_list (map phase_rank (drop (Suc i) xs))"
    using upd_conv_take_nth_drop [OF assms(1), of x] by simp
  ultimately show ?thesis using assms(2) by simp
qed

lemma hl_progress:
  assumes inv: "hl_inv q ws cap s" and able: "hl_able ws cap" and "\<not> hl_done s"
  shows "\<exists>s'. hl_moves False s s' \<and> hl_rank (length ws) s' < hl_rank (length ws) s"
proof -
  obtain st where st: "hl_pool s = q\<lparr>wp_waiter := False, wp_stopped := st, wp_workers := sa_mk (hl_expect ws (hl_halter s)) cap\<rparr>"
    and wks: "hl_workers s = hl_expect ws (hl_halter s)" and len: "length (hl_phases s) = length ws"
    and cap: "length (hl_expect ws (hl_halter s)) \<le> cap"
    using hl_invE [OF inv able] .
  have thread: "\<exists>t. wk_thread (ws ! i) = Some t \<and> 0 < t" if "i < length ws" for i
    using able that by (simp add: hl_able_def)
  show ?thesis
  proof (cases "hl_halter s")
    case (Marking i)
    then have i: "i \<le> length ws" using inv by (simp add: hl_inv_def)
    show ?thesis
    proof (cases "i < length ws")
      case True
      obtain t where t: "wk_thread (ws ! i) = Some t" "0 < t" using thread [OF True] by blast
      have "hl_moves False s (hl_put (sa_mk (hl_expect ws (Marking (Suc i))) cap) (Marking (Suc i)) s)"
        using hl_moves.mark [OF Marking, of True "wk_marked (ws ! i)"] Marking True i wks st cap t
        by (simp add: hl_expect_steps [OF True] wk_halt_able)
      then show ?thesis using Marking True by (intro exI conjI) (assumption, simp add: hl_rank_def hl_put_def)
    next
      case False
      then have "hl_moves False s (s\<lparr>hl_halter := Joining 0\<rparr>)" using hl_moves.marked [OF Marking] Marking i wks by simp
      then show ?thesis using Marking False by (intro exI conjI) (assumption, simp add: hl_rank_def)
    qed
  next
    case (Joining i)
    then have i: "i \<le> length ws" using inv by (simp add: hl_inv_def)
    show ?thesis
    proof (cases "i < length ws")
      case True
      obtain t where t: "wk_thread (ws ! i) = Some t" "0 < t" using thread [OF True] by blast
      show ?thesis
      proof (cases "hl_phases s ! i")
        case Gone
        have "hl_moves False s (hl_put (sa_mk (hl_expect ws (Joining (Suc i))) cap) (Joining (Suc i)) s)"
          using hl_moves.join [OF Joining, of True "wk_joined (ws ! i)"] Joining True i wks st cap t Gone
          by (simp add: hl_expect_steps [OF True] wk_halt_able)
        then show ?thesis using Joining True by (intro exI conjI) (assumption, simp add: hl_rank_def hl_put_def)
      next
        case Testing
        have "wk_should_halt (hl_workers s ! i)" using hl_joining_flag [OF i True] wks Joining by simp
        then have "hl_moves False s (s\<lparr>hl_phases := (hl_phases s)[i := Gone]\<rparr>)"
          using hl_moves.test [of i s False] Testing True len wks Joining i by simp
        moreover have "sum_list (map phase_rank ((hl_phases s)[i := Gone])) < sum_list (map phase_rank (hl_phases s))"
          using Testing True len by (intro rank_updated) (simp_all add: phase_rank_def)
        ultimately show ?thesis by (intro exI conjI) (assumption, simp add: hl_rank_def)
      next
        case In_run
        show ?thesis
        proof (cases "wp_run_returns (False \<or> 0 < hl_nops s) (hl_pool s)")
          case returns: True
          then have "hl_moves False s (s\<lparr>hl_pool := (hl_pool s)\<lparr>wp_stopped := True\<rparr>, hl_phases := (hl_phases s)[i := Testing]\<rparr>)"
            using hl_moves.return [of i s False] In_run True len by simp
          moreover have "sum_list (map phase_rank ((hl_phases s)[i := Testing])) < sum_list (map phase_rank (hl_phases s))"
            using In_run True len by (intro rank_updated) (simp_all add: phase_rank_def)
          ultimately show ?thesis by (intro exI conjI) (assumption, simp add: hl_rank_def)
        next
          case False
          then have "\<not> wp_stopped (hl_pool s)" "0 < hl_nops s" using st by (auto simp: wp_run_returns_def)
          moreover from this have "hl_moves False s (s\<lparr>hl_nops := hl_nops s - 1\<rparr>)"
            using hl_moves.nop [of i s False] In_run True len by simp
          ultimately show ?thesis by (intro exI conjI) (assumption, simp add: hl_rank_def)
        qed
      qed
    next
      case False
      then have "hl_moves False s (hl_put (sa_clear (wp_workers (hl_pool s))) Cleared s)"
        using hl_moves.clear [OF Joining] Joining i wks by simp
      then show ?thesis using Joining False by (intro exI conjI) (assumption, simp add: hl_rank_def hl_put_def)
    qed
  next
    case Cleared
    then have "hl_posting s" "wp_running False (hl_pool s) = Inr False"
      using assms(3) st by (simp_all add: hl_done_def wp_running_def)
    then have "hl_moves False s (s\<lparr>hl_posting := False\<rparr>)" by (rule hl_moves.posted)
    then show ?thesis using \<open>hl_posting s\<close> by (intro exI conjI) (assumption, simp add: hl_rank_def)
  qed
qed

lemma hl_completes:
  assumes "hl_inv q ws cap s" and able: "hl_able ws cap"
  shows "\<exists>s'. (hl_moves False)\<^sup>*\<^sup>* s s' \<and> hl_done s'"
  using assms(1)
proof (induction "hl_rank (length ws) s" arbitrary: s rule: less_induct)
  case less
  show ?case
  proof (cases "hl_done s")
    case False
    obtain s1 where s1: "hl_moves False s s1" "hl_rank (length ws) s1 < hl_rank (length ws) s"
      using hl_progress [OF less.prems able False] by blast
    then show ?thesis
      using less.hyps [OF s1(2) hl_moves_inv [OF s1(1) less.prems able]] by (meson converse_rtranclp_into_rtranclp)
  qed auto
qed

section \<open>Properties\<close>

text \<open>
  Claim C40. Launching and halting: \<open>launch\<close> fills an idle pool with as many running threads as it has places,
  and a second \<open>launch\<close> is refused. \<open>halt\<close> from one of these threads is refused and changes nothing. From any
  other thread, with some worker inside \<open>run\<close>: if nobody else has work on the service, then from every state that the worker
  loops and the two helpers can reach there is a way on to \<open>halt\<close> returning, and whenever it has returned the pool is the one
  \<open>wp_halt\<close> computes: no thread left, the service stopped, every place free for another launch. If somebody
  else keeps work pending on the service, such as a timer or an \<open>accept\<close>, \<open>halt\<close> never returns, whatever the threads do.
\<close>

theorem worker_pool_lifecycle:
  assumes "wp_inv p" and "wp_workers p = sa_mk [] cap" and "0 < cap" and "0 < wp_next_thread p" and "\<not> wp_stopped p"
    and "self < wp_next_thread p"
  shows "\<exists>q. wp_launch p = Inr (True, q) \<and> wp_inv q \<and> wp_num_live_threads q = Inr cap \<and> wp_running True q = Inr True \<and>
    wp_launch q = Inr (False, q) \<and>
    wp_halt (wp_next_thread p) other q = Some (Inr (False, q)) \<and>
    wp_halt self True q = None \<and>
    (\<forall>phs s. length phs = cap \<and> In_run \<in> set phs \<and> (hl_moves True)\<^sup>*\<^sup>* (hl_start q phs) s \<longrightarrow> \<not> hl_done s) \<and>
    (\<exists>r. wp_halt self False q = Some (Inr (True, r)) \<and> wp_inv r \<and> wp_num_live_threads r = Inr 0 \<and>
      wp_workers r = wp_workers p \<and>
      (\<forall>phs s. length phs = cap \<and> In_run \<in> set phs \<and> (hl_moves False)\<^sup>*\<^sup>* (hl_start q phs) s \<longrightarrow>
        (\<exists>s'. (hl_moves False)\<^sup>*\<^sup>* s s' \<and> hl_done s') \<and> (hl_done s \<longrightarrow> hl_pool s = r)))"
proof -
  let ?ws = "map wk_on [wp_next_thread p..<wp_next_thread p + cap]"
  let ?q = "p\<lparr>wp_waiter := True, wp_workers := sa_mk ?ws cap, wp_next_thread := wp_next_thread p + cap\<rparr>"
  have inv: "wp_inv ?q" using assms(4) by (auto simp: wp_inv_def wk_on_def)
  have halt: "wp_halt s other ?q =
    (if list_ex (\<lambda>w. wk_thread w = Some s) ?ws then Some (Inr (False, ?q))
     else if other \<and> \<not> wp_stopped ?q \<and> ?ws \<noteq> [] then None
     else Some (Inr (True, ?q\<lparr>wp_waiter := False, wp_stopped := wp_stopped ?q \<or> ?ws \<noteq> [], wp_workers := sa_mk [] cap\<rparr>)))"
    for s other by (rule wp_halt_eq [OF inv]) simp_all
  have member: "list_ex (\<lambda>w. wk_thread w = Some s) ?ws \<longleftrightarrow> wp_next_thread p \<le> s \<and> s < wp_next_thread p + cap" for s
    by (auto simp: list_ex_iff wk_on_def)
  have "wp_launch p = Inr (True, ?q)" by (rule wp_launch_full [OF assms(1-3)])
  moreover have "wp_num_live_threads ?q = Inr cap" "wp_running True ?q = Inr True" "wp_launch ?q = Inr (False, ?q)"
    by (simp_all add: wp_num_live_threads_def wp_running_def wp_launch_def wk_on_def list_all_iff filter_map comp_def)
  moreover have "wp_halt (wp_next_thread p) other ?q = Some (Inr (False, ?q))"
    unfolding halt member using assms(3) by simp
  moreover have "wp_halt self True ?q = None"
    unfolding halt member using assms(3,5,6) by simp
  moreover have able: "hl_able ?ws cap" using assms(4) by (auto simp: hl_able_def wk_on_def)
  have start: "hl_inv ?q ?ws cap (hl_start ?q phs)" if "length phs = cap" "In_run \<in> set phs" for phs
    using that by (intro hl_start_inv) simp_all
  have "\<not> hl_done s" if "length phs = cap" "In_run \<in> set phs" "(hl_moves True)\<^sup>*\<^sup>* (hl_start ?q phs) s" for phs s
    using hl_blocked [OF that(3) start [OF that(1,2)] able] that(2) assms(5) by (simp add: hl_start_def wp_release_def)
  moreover
  let ?r = "?q\<lparr>wp_waiter := False, wp_stopped := True, wp_workers := sa_mk [] cap\<rparr>"
  have "wp_halt self False ?q = Some (Inr (True, ?r))" "wp_inv ?r" "wp_num_live_threads ?r = Inr 0" "wp_workers ?r = wp_workers p"
    unfolding halt member using assms(2,3,6) by (simp_all add: wp_inv_def wp_num_live_threads_def)
  moreover have "(\<exists>s'. (hl_moves False)\<^sup>*\<^sup>* s s' \<and> hl_done s') \<and> (hl_done s \<longrightarrow> hl_pool s = ?r)"
    if "length phs = cap" "In_run \<in> set phs" "(hl_moves False)\<^sup>*\<^sup>* (hl_start ?q phs) s" for phs s
    using hl_reached_inv [OF that(3) start [OF that(1,2)] able] hl_completes [OF _ able] hl_done_pool by blast
  ultimately show ?thesis using inv by (intro exI [of _ ?q] conjI exI [of _ ?r]) (assumption | blast)+
qed

theorem worker_pool_lifecycle_witness:
  "\<exists>q. wp_launch (wp_make 6) = Inr (True, q) \<and> wp_inv q \<and> wp_num_live_threads q = Inr 6 \<and> wp_running True q = Inr True \<and>
    wp_launch q = Inr (False, q) \<and>
    wp_halt (wp_next_thread (wp_make 6)) False q = Some (Inr (False, q)) \<and>
    wp_halt 0 True q = None \<and>
    (\<forall>phs s. length phs = 6 \<and> In_run \<in> set phs \<and> (hl_moves True)\<^sup>*\<^sup>* (hl_start q phs) s \<longrightarrow> \<not> hl_done s) \<and>
    (\<exists>r. wp_halt 0 False q = Some (Inr (True, r)) \<and> wp_inv r \<and> wp_num_live_threads r = Inr 0 \<and>
      wp_workers r = wp_workers (wp_make 6) \<and>
      (\<forall>phs s. length phs = 6 \<and> In_run \<in> set phs \<and> (hl_moves False)\<^sup>*\<^sup>* (hl_start q phs) s \<longrightarrow>
        (\<exists>s'. (hl_moves False)\<^sup>*\<^sup>* s s' \<and> hl_done s') \<and> (hl_done s \<longrightarrow> hl_pool s = r)))"
  by (rule worker_pool_lifecycle) (simp_all add: wp_make_def wp_inv_def sa_alloc_mk)

text \<open>
  A pool destroyed on one of its own threads can not halt, and its array then joins the calling thread.
\<close>

lemma destroying_from_a_worker_throws:
  assumes "wp_inv p" and "wp_workers p = sa_mk ws cap" and "length ws \<le> cap" and "w \<in> set ws" and "wk_thread w = Some self"
  shows "wp_destroy self other p = Some (Inl (Thrown ''Resource deadlock avoided''))"
proof -
  have "list_ex (\<lambda>w. wk_thread w = Some self) ws" using assms(4,5) by (auto simp: list_ex_iff)
  then show ?thesis using assms(2,3) by (simp add: wp_destroy_def wp_halt_eq [OF assms(1-3)] wp_can_halt_def)
qed

end
