(* ===== verification/Receive.thy ===== *)
theory Receive
  imports Message Block "HOL-Library.Sublist"
begin

text \<open>
  The receive loop of a node: \<open>receive_loop\<close> and \<open>resync\<close> of \<^verbatim>\<open>include/crisp/comms/bits/BasicNode.tcc\<close>. The loop is a
  coroutine that is suspended at each read and resumed with the bytes read, so it is a state machine over the
  places where it waits. Its read buffer is a \<open>Buffer\<close> on the heap; reads go straight into memory. Bytes
  that a reallocation leaves undetermined are the parameter \<open>junk\<close>.
\<close>

section \<open>The code\<close>

text \<open>\<open>Rx_top\<close> is the head of the loop, where the stop flag is looked at.\<close>

datatype rx_place = Rx_top | Rx_header | Rx_body message | Rx_resync | Rx_exited

record receiver =
  rx_heap :: heap
  rx_buffer :: buffer
  rx_place :: rx_place

definition BUFSIZ :: nat where
  "BUFSIZ = 8192"

definition rx_top :: "bool \<Rightarrow> receiver \<Rightarrow> receiver" where
  "rx_top stopped r =
     (if rx_place r = Rx_top then r\<lparr>rx_place := (if stopped then Rx_exited else Rx_header)\<rparr> else r)"

definition rx_start :: "(nat \<Rightarrow> byte) \<Rightarrow> fault + receiver" where
  "rx_start junk =
     bindE (bf_alloc junk BUFSIZ hp_empty) (\<lambda>(b, h). Inr \<lparr>rx_heap = h, rx_buffer = b, rx_place = Rx_top\<rparr>)"

definition rx_fit :: "(nat \<Rightarrow> byte) \<Rightarrow> nat \<Rightarrow> receiver \<Rightarrow> fault + receiver" where
  "rx_fit junk n r =
     (if bf_length (rx_buffer r) < n
      then bindE (bf_resize junk n (rx_buffer r) (rx_heap r)) (\<lambda>(b, h). Inr (r\<lparr>rx_heap := h, rx_buffer := b\<rparr>))
      else Inr r)"

definition rx_store :: "nat \<Rightarrow> byte list \<Rightarrow> receiver \<Rightarrow> fault + receiver" where
  "rx_store off bs r = bindE (hp_write (bf_data (rx_buffer r)) off bs (rx_heap r)) (\<lambda>(_, h). Inr (r\<lparr>rx_heap := h\<rparr>))"

text \<open>The end of an iteration: decoding, the checksum test, and the message handed to the dispatcher.\<close>

definition rx_decode :: "bool \<Rightarrow> type_info \<Rightarrow> receiver \<Rightarrow> fault + receiver \<times> message option" where
  "rx_decode stopped info r =
     (if stopped then Inr (r\<lparr>rx_place := Rx_exited\<rparr>, None)
      else bindE (hp_read (bf_data (rx_buffer r)) (bf_length (rx_buffer r)) (rx_heap r)) (\<lambda>(mem, _).
           bindE (msg_decode (db_of mem 0)) (\<lambda>(m, _).
           bindE (if ti_has_checksum info then checksum_ok m else Inr True) (\<lambda>ok.
             if ok then Inr (r\<lparr>rx_place := Rx_top\<rparr>, Some m) else Inr (r\<lparr>rx_place := Rx_resync\<rparr>, None)))))"

definition rx_got_header :: "(nat \<Rightarrow> byte) \<Rightarrow> bool \<Rightarrow> byte list \<Rightarrow> receiver \<Rightarrow> fault + receiver \<times> message option" where
  "rx_got_header junk stopped bs r =
     (if stopped then Inr (r\<lparr>rx_place := Rx_exited\<rparr>, None)
      else let m = msg_set_header bs msg_new in
           bindE (msg_encoded_size m) (\<lambda>n.
           bindE (rx_fit junk n r) (\<lambda>r1.
           bindE (rx_store 0 bs r1) (\<lambda>r2.
           bindE (get_type_info (msg_type m)) (\<lambda>info.
             if ti_has_body info then Inr (r2\<lparr>rx_place := Rx_body m\<rparr>, None) else rx_decode stopped info r2)))))"

definition rx_got_body :: "bool \<Rightarrow> message \<Rightarrow> byte list \<Rightarrow> receiver \<Rightarrow> fault + receiver \<times> message option" where
  "rx_got_body stopped m bs r =
     bindE (rx_store msg_HeaderSize bs r) (\<lambda>r1.
     bindE (get_type_info (msg_type m)) (\<lambda>info. rx_decode stopped info r1))"

text \<open>A failed read ends the loop.\<close>

definition rx_failed :: "receiver \<Rightarrow> receiver" where
  "rx_failed r = r\<lparr>rx_place := Rx_exited\<rparr>"

text \<open>
  \<open>resync\<close> waits until what it has read contains the synchronisation string. The library takes that string
  as a C string, so it ends at its first NUL; the bytes read beyond it go away with the local stream buffer.
\<close>

definition sync_string :: "byte list" where
  "sync_string = [0x04, 0x00, 0x02, 0x53, 0x59, 0x4E, 0x43]"

definition sync_delimiter :: "byte list" where
  "sync_delimiter = takeWhile (\<lambda>c. c \<noteq> 0) sync_string"

definition rx_in_sync :: "byte list \<Rightarrow> bool" where
  "rx_in_sync bs = list_ex (\<lambda>i. take (length sync_delimiter) (drop i bs) = sync_delimiter) [0..<length bs]"

definition rx_resynced :: "receiver \<Rightarrow> receiver" where
  "rx_resynced r = r\<lparr>rx_place := Rx_top\<rparr>"

section \<open>Running the loop on a stream\<close>

text \<open>How many bytes the pending read asks for.\<close>

definition rx_wants :: "receiver \<Rightarrow> nat" where
  "rx_wants r = (case rx_place r of Rx_header \<Rightarrow> msg_HeaderSize | Rx_body m \<Rightarrow> unat (msg_length m) | _ \<Rightarrow> 0)"

definition rx_resume :: "(nat \<Rightarrow> byte) \<Rightarrow> bool \<Rightarrow> byte list \<Rightarrow> receiver \<Rightarrow> fault + receiver \<times> message option" where
  "rx_resume junk stopped bs r =
     (case rx_place r of
        Rx_header \<Rightarrow> rx_got_header junk stopped bs r
      | Rx_body m \<Rightarrow> rx_got_body stopped m bs r
      | _ \<Rightarrow> Inr (r, None))"

lemma rx_place_decode: "rx_decode st info r = Inr (r', out) \<Longrightarrow> rx_place r' \<in> {Rx_top, Rx_resync, Rx_exited}"
  by (auto simp: rx_decode_def bindE_def split: if_splits sum.splits)

lemma rx_place_header: "rx_got_header junk st bs r = Inr (r', out) \<Longrightarrow> rx_place r' \<noteq> Rx_header"
  by (auto simp: rx_got_header_def bindE_Inr_iff Let_def split: if_splits dest!: rx_place_decode)

lemma rx_place_body: "rx_got_body st m bs r = Inr (r', out) \<Longrightarrow> rx_place r' \<in> {Rx_top, Rx_resync, Rx_exited}"
  by (auto simp: rx_got_body_def bindE_Inr_iff dest!: rx_place_decode)

definition rx_weight :: "receiver \<Rightarrow> nat" where
  "rx_weight r = (case rx_place r of Rx_body m \<Rightarrow> 3 | Rx_resync \<Rightarrow> 2 | Rx_top \<Rightarrow> 1 | _ \<Rightarrow> 0)"

lemma rx_in_sync_nonempty: "rx_in_sync (take k inp) \<Longrightarrow> 0 < k \<and> 0 < length inp"
  by (cases k) (auto simp: rx_in_sync_def)

text \<open>
  The loop on the bytes that arrive, while nobody stops the node: it ends waiting for more, and has handed
  over a list of messages. \<open>chunk\<close> is how many bytes a resynchronisation happens to take in.
\<close>

function rx_run :: "(nat \<Rightarrow> byte) \<Rightarrow> (byte list \<Rightarrow> nat) \<Rightarrow> byte list \<Rightarrow> receiver \<Rightarrow>
    fault + receiver \<times> byte list \<times> message list" where
  "rx_run junk chunk inp r =
     (case rx_place r of
        Rx_exited \<Rightarrow> Inr (r, inp, [])
      | Rx_top \<Rightarrow> rx_run junk chunk inp (rx_top False r)
      | Rx_resync \<Rightarrow>
          let k = min (chunk inp) (length inp) in
          if rx_in_sync (take k inp) then rx_run junk chunk (drop k inp) (rx_resynced r) else Inr (r, inp, [])
      | _ \<Rightarrow>
          let n = rx_wants r in
          if length inp < n then Inr (r, inp, [])
          else (case rx_resume junk False (take n inp) r of
                  Inl e \<Rightarrow> Inl e
                | Inr (r', out) \<Rightarrow>
                    (case rx_run junk chunk (drop n inp) r' of
                       Inl e \<Rightarrow> Inl e
                     | Inr (q, rest, ms) \<Rightarrow> Inr (q, rest, (case out of None \<Rightarrow> ms | Some m \<Rightarrow> m # ms)))))"
  by pat_completeness auto

termination
proof (relation "measure (\<lambda>(_, _, inp, r). 2 * length inp + rx_weight r)", goal_cases)
  case (3 junk chunk inp r n b r' out)
  then have "rx_place r' \<noteq> Rx_header" "n = 3" "rx_weight r = 0"
    by (auto simp: rx_resume_def rx_wants_def rx_weight_def msg_HeaderSize_def dest: rx_place_header)
  moreover have "rx_weight r' \<le> 3" by (simp add: rx_weight_def split: rx_place.splits)
  ultimately show ?case using 3 by simp
next
  case (4 junk chunk inp r m n b r' out)
  then have "rx_place r' \<in> {Rx_top, Rx_resync, Rx_exited}" by (auto simp: rx_resume_def dest: rx_place_body)
  then show ?case using 4 by (auto simp: rx_weight_def)
next
  case (5 junk chunk inp r k)
  then have "0 < k" "0 < length inp" "rx_weight r = 2" by (auto simp: rx_weight_def dest: rx_in_sync_nonempty)
  then show ?case by (simp add: rx_resynced_def rx_weight_def)
qed (simp_all add: rx_top_def rx_weight_def)

declare rx_run.simps [simp del]

section \<open>The read buffer\<close>

text \<open>The receiver's buffer is its own, has the bytes \<open>mem\<close>, and never shrinks below its first size.\<close>

definition rx_holds :: "receiver \<Rightarrow> byte list \<Rightarrow> bool" where
  "rx_holds r mem \<longleftrightarrow> hp_ok (rx_heap r) \<and> bf_owns (rx_buffer r) \<and> bf_holds (rx_heap r) (rx_buffer r) mem \<and>
     BUFSIZ \<le> length mem"

lemma rx_holds_place [simp]: "rx_holds (r\<lparr>rx_place := p\<rparr>) mem = rx_holds r mem"
  by (simp add: rx_holds_def)

lemma rx_start_holds: "\<exists>r. rx_start junk = Inr r \<and> rx_holds r (replicate BUFSIZ 0) \<and> rx_place r = Rx_top"
proof -
  have "BUFSIZ < 2 ^ 63" by (simp add: BUFSIZ_def)
  moreover have "hp_ok hp_empty" by (simp add: hp_ok_def hp_empty_def)
  ultimately show ?thesis
    using hp_ok_alloc [of hp_empty "replicate BUFSIZ 0"]
    by (simp add: rx_start_def bf_alloc_zeroed rx_holds_def bf_holds_def bf_adopt_def)
qed

lemma rx_store_holds:
  assumes "rx_holds r mem" and "off + length bs \<le> length mem"
  shows "\<exists>r'. rx_store off bs r = Inr r' \<and> rx_holds r' (overlay off bs mem) \<and> rx_place r' = rx_place r"
  using assms by (auto simp: rx_store_def rx_holds_def bf_holds_def hp_write_def hp_ok_def)

lemma rx_store_overflows:
  assumes "rx_holds r mem" and "length mem < off + length bs"
  shows "rx_store off bs r = Inl Out_of_bounds"
  using assms by (auto simp: rx_store_def rx_holds_def bf_holds_def hp_write_def)

lemma rx_fit_holds:
  assumes "rx_holds r mem" and "n < 2 ^ 63"
  shows "\<exists>r' mem'. rx_fit junk n r = Inr r' \<and> rx_holds r' mem' \<and> length mem' = max n (length mem) \<and>
    rx_place r' = rx_place r"
proof (cases "length mem < n")
  case True
  from assms(1) obtain a where a: "hp_ok (rx_heap r)" "bf_data (rx_buffer r) = Some a" "hp_blocks (rx_heap r) a = Some mem"
    "bf_length (rx_buffer r) = length mem" "bf_owns (rx_buffer r)" "BUFSIZ \<le> length mem"
    by (auto simp: rx_holds_def bf_holds_def)
  have "hp_next (rx_heap r) \<noteq> a" using a(1,3) by (auto simp: hp_ok_def)
  moreover have "0 < n" using True by simp
  moreover have "hp_ok \<lparr>hp_blocks = (hp_blocks (rx_heap r))(hp_next (rx_heap r) \<mapsto> xs, a := None), hp_next = Suc (hp_next (rx_heap r))\<rparr>"
    for xs using a(1) by (auto simp: hp_ok_def less_Suc_eq)
  ultimately show ?thesis
    using True a assms(2)
    by (auto simp: rx_fit_def bf_resize_owned [OF a(1-3,5)] rx_holds_def bf_holds_def
        intro!: exI [of _ "mem @ map junk [length mem..<n]"])
next
  case False
  then show ?thesis using assms(1) by (auto simp: rx_fit_def rx_holds_def bf_holds_def)
qed

lemma rx_read_holds: "rx_holds r mem \<Longrightarrow> hp_read (bf_data (rx_buffer r)) (bf_length (rx_buffer r)) (rx_heap r) = Inr (mem, rx_heap r)"
  by (auto simp: rx_holds_def bf_holds_def hp_read_def)

section \<open>Receiving a message\<close>

lemma rx_run_top: "rx_place r = Rx_top \<Longrightarrow> rx_run junk chunk inp r = rx_run junk chunk inp (rx_top False r)"
  by (subst rx_run.simps) simp

lemma rx_run_read:
  assumes "rx_place r = Rx_header \<or> rx_place r = Rx_body m" and "rx_wants r = length bs"
    and "rx_resume junk False bs r = Inr (r', out)"
  shows "rx_run junk chunk (bs @ rest) r = (case rx_run junk chunk rest r' of
      Inl e \<Rightarrow> Inl e | Inr (q, u, ms) \<Rightarrow> Inr (q, u, (case out of None \<Rightarrow> ms | Some m \<Rightarrow> m # ms)))"
  using assms by (subst rx_run.simps) (auto simp: Let_def)

lemma rx_run_read_fault:
  assumes "rx_place r = Rx_header \<or> rx_place r = Rx_body m" and "rx_wants r = length bs"
    and "rx_resume junk False bs r = Inl e"
  shows "rx_run junk chunk (bs @ rest) r = Inl e"
  using assms by (subst rx_run.simps) (auto simp: Let_def)

lemma rx_decode_wire:
  assumes "rx_holds r (msg_wire t bs m @ tail)" and "msg_ok t bs m"
  shows "rx_decode False (info_of t) r = Inr (r\<lparr>rx_place := Rx_top\<rparr>, Some (msg_received t bs m))"
proof -
  have "msg_decode (db_of (msg_wire t bs m @ tail) 0) =
      Inr (msg_received t bs m, db_advance (length (msg_wire t bs m)) (db_of (msg_wire t bs m @ tail) 0))"
    by (rule consumesD [OF msg_decode_consumes [OF assms(2)]]) (simp_all add: db_ok_def db_rest_def db_of_def)
  then show ?thesis
    by (simp add: rx_decode_def rx_read_holds [OF assms(1)] msg_received_checks [OF assms(2)])
qed

text \<open>The header alone: what the message is taken for before its body is there.\<close>

definition msg_headed :: "message \<Rightarrow> message" where
  "msg_headed m = msg_new\<lparr>msg_length := msg_length m, msg_type := msg_type m\<rparr>"

lemma msg_headed_sel [simp]: "msg_length (msg_headed m) = msg_length m" "msg_type (msg_headed m) = msg_type m"
  by (simp_all add: msg_headed_def)

lemma msg_headed_size:
  assumes "msg_ok t bs m"
  shows "msg_encoded_size (msg_headed m) = Inr (msg_HeaderSize + unat (msg_length m))"
  using assms by (auto simp: msg_encoded_size_def msg_headed_def msg_new_def msg_ok_def body_or_def checksum_size_def SYNC_body_def)

lemma overlay_header: "length hs \<le> length mem \<Longrightarrow> overlay 0 hs mem = hs @ drop (length hs) mem"
  by (simp add: overlay_def)

lemma rx_got_header_ok:
  assumes "rx_holds r mem" and "msg_ok t bs m"
  shows "\<exists>r' tail. rx_holds r' (msg_header m @ tail) \<and> msg_HeaderSize + unat (msg_length m) \<le> length (msg_header m @ tail) \<and>
    rx_got_header junk False (msg_header m) r =
      (if t = CONFIGURATION_QUERY then rx_decode False (info_of t) r' else Inr (r'\<lparr>rx_place := Rx_body (msg_headed m)\<rparr>, None))"
proof -
  let ?n = "msg_HeaderSize + unat (msg_length m)"
  have n: "?n < 2 ^ 63" using u16_less [of "msg_length m"] by (simp add: msg_HeaderSize_def)
  obtain r1 mem1 where r1: "rx_fit junk ?n r = Inr r1" "rx_holds r1 mem1" "length mem1 = max ?n (length mem)"
    using rx_fit_holds [OF assms(1) n] by blast
  have hdr: "0 + length (msg_header m) \<le> length mem1" using r1(3) by simp
  obtain r2 where r2: "rx_store 0 (msg_header m) r1 = Inr r2" "rx_holds r2 (overlay 0 (msg_header m) mem1)"
    using rx_store_holds [OF r1(2) hdr] by blast
  have mem2: "overlay 0 (msg_header m) mem1 = msg_header m @ drop msg_HeaderSize mem1"
    using overlay_header [of "msg_header m" mem1] hdr by simp
  have "rx_got_header junk False (msg_header m) r =
      (if t = CONFIGURATION_QUERY then rx_decode False (info_of t) r2 else Inr (r2\<lparr>rx_place := Rx_body (msg_headed m)\<rparr>, None))"
    using assms(2) r1(1) r2(1) msg_headed_size [OF assms(2)]
    by (auto simp: rx_got_header_def Let_def msg_set_header_new simp flip: msg_headed_def) (auto simp: msg_ok_def)
  moreover have "?n \<le> length (msg_header m @ drop msg_HeaderSize mem1)" using r1(3) by simp
  ultimately show ?thesis using r2(2) unfolding mem2 by blast
qed

lemma overlay_body:
  "length hs = n \<Longrightarrow> length bs \<le> length tail \<Longrightarrow> overlay n bs (hs @ tail) = (hs @ bs) @ drop (length bs) tail"
  by (simp add: overlay_def)

text \<open>What follows the header on the wire, and the two resumptions a message with a body takes.\<close>

definition msg_payload :: "message_type \<Rightarrow> byte list \<Rightarrow> message \<Rightarrow> byte list" where
  "msg_payload t bs m = drop msg_HeaderSize (msg_wire t bs m)"

lemma msg_wire_payload: "msg_wire t bs m = msg_header m @ msg_payload t bs m"
  by (simp add: msg_payload_def msg_wire_def)

lemma length_msg_payload: "msg_ok t bs m \<Longrightarrow> length (msg_payload t bs m) = unat (msg_length m)"
  by (simp add: msg_payload_def msg_wire_length)

lemma rx_two:
  assumes "rx_holds r mem" and "rx_place r = Rx_header" and "msg_ok t bs m" and "t \<noteq> CONFIGURATION_QUERY"
  shows "\<exists>r1 r2 mem2. rx_resume junk False (msg_header m) r = Inr (r1, None) \<and> rx_place r1 = Rx_body (msg_headed m) \<and>
    rx_resume junk False (msg_payload t bs m) r1 = Inr (r2, Some (msg_received t bs m)) \<and>
    rx_holds r2 mem2 \<and> rx_place r2 = Rx_top"
proof -
  let ?p = "msg_payload t bs m"
  have len: "length ?p = unat (msg_length m)" by (rule length_msg_payload [OF assms(3)])
  have ty: "get_type_info (msg_type m) = Inr (info_of t)" using assms(3) by (simp add: msg_ok_def)
  obtain r1 tail where r1: "rx_holds r1 (msg_header m @ tail)" "msg_HeaderSize + unat (msg_length m) \<le> length (msg_header m @ tail)"
    and got: "rx_got_header junk False (msg_header m) r = Inr (r1\<lparr>rx_place := Rx_body (msg_headed m)\<rparr>, None)"
    using rx_got_header_ok [OF assms(1,3), of junk] assms(4) by auto
  let ?r = "r1\<lparr>rx_place := Rx_body (msg_headed m)\<rparr>"
  have fits: "length ?p \<le> length tail" using r1(2) len by simp
  have "rx_holds ?r (msg_header m @ tail)" "msg_HeaderSize + length ?p \<le> length (msg_header m @ tail)"
    using r1 len by simp_all
  from rx_store_holds [OF this]
  obtain r2 where r2: "rx_store msg_HeaderSize ?p ?r = Inr r2"
    "rx_holds r2 (overlay msg_HeaderSize ?p (msg_header m @ tail))" by blast
  then have r2': "rx_holds r2 (msg_wire t bs m @ drop (length ?p) tail)"
    using overlay_body [of "msg_header m" msg_HeaderSize ?p tail] fits unfolding msg_wire_payload by simp
  have "rx_resume junk False ?p ?r = Inr (r2\<lparr>rx_place := Rx_top\<rparr>, Some (msg_received t bs m))"
    using r2(1) rx_decode_wire [OF r2' assms(3)] ty by (simp add: rx_resume_def rx_got_body_def)
  moreover have "rx_resume junk False (msg_header m) r = Inr (?r, None)"
    using got assms(2) by (simp add: rx_resume_def)
  ultimately show ?thesis using r2' by (intro exI conjI) (assumption | simp)+
qed

lemma rx_query:
  assumes "rx_holds r mem" and "rx_place r = Rx_header" and "msg_ok CONFIGURATION_QUERY bs m"
  shows "msg_wire CONFIGURATION_QUERY bs m = msg_header m \<and> (\<exists>r2 mem2.
    rx_resume junk False (msg_header m) r = Inr (r2, Some (msg_received CONFIGURATION_QUERY bs m)) \<and>
    rx_holds r2 mem2 \<and> rx_place r2 = Rx_top)"
proof -
  obtain r1 tail where r1: "rx_holds r1 (msg_header m @ tail)"
    "rx_got_header junk False (msg_header m) r = rx_decode False (info_of CONFIGURATION_QUERY) r1"
    using rx_got_header_ok [OF assms(1,3), of junk] by auto
  have wire: "msg_wire CONFIGURATION_QUERY bs m = msg_header m"
    using assms(3) by (simp add: msg_wire_def msg_ok_def)
  then have "rx_resume junk False (msg_header m) r = Inr (r1\<lparr>rx_place := Rx_top\<rparr>, Some (msg_received CONFIGURATION_QUERY bs m))"
    using r1 assms(2) rx_decode_wire [OF _ assms(3), of r1 tail] by (simp add: rx_resume_def)
  then show ?thesis using r1(1) wire by (intro conjI exI) (assumption | simp)+
qed

lemma rx_one:
  assumes "rx_holds r mem" and "rx_place r = Rx_header" and "msg_ok t bs m"
  shows "\<exists>r' mem'. rx_holds r' mem' \<and> rx_place r' = Rx_top \<and>
    rx_run junk chunk (msg_wire t bs m @ rest) r =
      (case rx_run junk chunk rest r' of Inl e \<Rightarrow> Inl e | Inr (q, u, ms) \<Rightarrow> Inr (q, u, msg_received t bs m # ms))"
proof -
  have wants: "rx_wants r = length (msg_header m)" using assms(2) by (simp add: rx_wants_def)
  note len = length_msg_payload [OF assms(3)]
  show ?thesis
  proof (cases "t = CONFIGURATION_QUERY")
    case True
    with rx_query [OF assms(1,2), of bs m junk] assms(3)
    obtain r2 mem2 where wire: "msg_wire t bs m = msg_header m"
      and one: "rx_resume junk False (msg_header m) r = Inr (r2, Some (msg_received t bs m))"
      and r2: "rx_holds r2 mem2" "rx_place r2 = Rx_top" by auto
    from rx_run_read [OF disjI1 [OF assms(2)] wants one] show ?thesis
      unfolding wire using r2 by (intro exI [of _ r2] exI [of _ mem2]) (simp split: sum.splits)
  next
    case False
    obtain r1 r2 mem2 where one: "rx_resume junk False (msg_header m) r = Inr (r1, None)" "rx_place r1 = Rx_body (msg_headed m)"
      and two: "rx_resume junk False (msg_payload t bs m) r1 = Inr (r2, Some (msg_received t bs m))"
      and r2: "rx_holds r2 mem2" "rx_place r2 = Rx_top"
      using rx_two [OF assms False] by blast
    have wants2: "rx_wants r1 = length (msg_payload t bs m)" by (simp add: rx_wants_def one(2) len)
    show ?thesis
      unfolding msg_wire_payload append_assoc rx_run_read [OF disjI1 [OF assms(2)] wants one(1)]
        rx_run_read [OF disjI2 [OF one(2)] wants2 two]
      using r2 by (intro exI [of _ r2] exI [of _ mem2]) (simp split: sum.splits)
  qed
qed

lemma rx_run_wires:
  assumes "\<forall>(t, bs, m) \<in> set xs. msg_ok t bs m" and "rx_holds r mem" and "rx_place r = Rx_top"
    and "length tail < msg_HeaderSize"
  shows "\<exists>r' mem'. rx_run junk chunk (concat (map (\<lambda>(t, bs, m). msg_wire t bs m) xs) @ tail) r =
      Inr (r', tail, map (\<lambda>(t, bs, m). msg_received t bs m) xs) \<and> rx_holds r' mem' \<and> rx_place r' = Rx_header"
  using assms(1-3)
proof (induction xs arbitrary: r mem)
  case Nil
  have "rx_run junk chunk tail r = Inr (rx_top False r, tail, [])"
    using assms(4) Nil.prems(3) unfolding rx_run_top [OF Nil.prems(3)]
    by (subst rx_run.simps) (simp add: rx_top_def rx_wants_def)
  then show ?case using Nil.prems by (auto simp: rx_top_def)
next
  case (Cons x xs)
  obtain t bs m where x: "x = (t, bs, m)" by (cases x)
  have ok: "msg_ok t bs m" "\<forall>(t, bs, m) \<in> set xs. msg_ok t bs m" using Cons.prems(1) x by auto
  have top: "rx_holds (rx_top False r) mem" "rx_place (rx_top False r) = Rx_header"
    using Cons.prems(2,3) by (simp_all add: rx_top_def)
  from rx_one [OF top ok(1)]
  obtain r1 mem1 where r1: "rx_holds r1 mem1" "rx_place r1 = Rx_top"
    "rx_run junk chunk (msg_wire t bs m @ concat (map (\<lambda>(t, bs, m). msg_wire t bs m) xs) @ tail) (rx_top False r) =
      (case rx_run junk chunk (concat (map (\<lambda>(t, bs, m). msg_wire t bs m) xs) @ tail) r1 of
         Inl e \<Rightarrow> Inl e | Inr (q, u, ms) \<Rightarrow> Inr (q, u, msg_received t bs m # ms))" by blast
  from Cons.IH [OF ok(2) r1(1,2)] show ?case
    unfolding rx_run_top [OF Cons.prems(3)] x using r1(3) by auto
qed

section \<open>Arbitrary bytes\<close>

text \<open>
  What the loop keeps on any input. Waiting for a body, it has the header at the front of its buffer, the type
  is known, and the body fits, except for the one type whose size is taken from the type table.
\<close>

definition rx_ok :: "receiver \<Rightarrow> bool" where
  "rx_ok r \<longleftrightarrow> (\<exists>mem. rx_holds r mem \<and>
     (\<forall>m. rx_place r = Rx_body m \<longrightarrow>
       (\<exists>t. msg_type m = type_code t \<and> t \<noteq> CONFIGURATION_QUERY \<and> take msg_HeaderSize mem = msg_header m \<and>
            (t \<noteq> SYNC \<longrightarrow> msg_HeaderSize + unat (msg_length m) \<le> length mem))))"

lemma type_code_cases: "get_type_info c = Inr info \<Longrightarrow> \<exists>t. c = type_code t \<and> info = info_of t"
proof -
  assume a: "get_type_info c = Inr info"
  then have "type_code (ti_type info) = c" by (auto simp: get_type_info_def Let_def split: if_splits)
  then show ?thesis using a by (metis get_type_info_code sum.inject(2))
qed

lemma get_type_info_total: "get_type_info c = Inl Assert_failed \<or> (\<exists>t. c = type_code t)"
  using type_code_cases [of c] by (cases "get_type_info c") (auto simp: get_type_info_def Let_def split: if_splits)

lemma msg_header_parts: "length bs = 3 \<Longrightarrow> msg_header (msg_set_header bs m) = bs"
proof -
  assume "length bs = 3"
  then obtain a b c where bs: "bs = [a, b, c]" by (auto simp: numeral_3_eq_3 length_Suc_conv)
  have "le_bytes 2 (unat (of_nat (le_val [a, b]) :: u16)) = [a, b]"
  proof -
    have "v < 65536 \<Longrightarrow> unat (of_nat v :: u16) = v" for v by (simp add: unat_of_nat)
    from this [of "le_val [a, b]"] have "unat (of_nat (le_val [a, b]) :: u16) = le_val [a, b]"
      using le_val_bound [of "[a, b]"] by (simp del: le_val.simps)
    then show ?thesis using le_bytes_le_val [of "[a, b]"] by (simp add: numeral_2_eq_2 del: le_val.simps le_bytes.simps)
  qed
  then show ?thesis by (simp add: bs msg_header_def msg_set_header_def numeral_2_eq_2)
qed

lemma msg_decode_safe:
  assumes "take msg_HeaderSize mem = msg_header m0" and "msg_type m0 = type_code t" and "msg_HeaderSize \<le> length mem"
    and "t \<noteq> CONFIGURATION_QUERY \<longrightarrow> msg_HeaderSize + unat (msg_length m0) \<le> length mem"
  shows "msg_decode (db_of mem 0) = Inl Assert_failed \<or>
    (\<exists>m b. msg_decode (db_of mem 0) = Inr (m, b) \<and> msg_type m = type_code t \<and> (t \<noteq> CONFIGURATION_QUERY \<longrightarrow> msg_body m \<noteq> None))"
proof -
  let ?b = "db_advance msg_HeaderSize (db_of mem 0)"
  let ?n = "size_sub (unat (msg_length m0)) (checksum_size (info_of t))"
  have b: "db_ok ?b" "length (db_rest ?b) = length mem - msg_HeaderSize"
    using assms(3) by (simp_all add: db_ok_def db_rest_def db_of_def db_advance_def)
  have h: "db_read msg_HeaderSize (db_of mem 0) = Inr ((Decode_Success, msg_header m0), ?b)"
    using assms(1,3) by (simp add: db_read_success db_ok_def db_rest_def db_of_def)
  have info: "get_type_info (msg_type (msg_headed m0)) = Inr (info_of t)" using assms(2) by simp
  have n: "?n \<le> unat (msg_length m0) \<or> 2 ^ 63 \<le> ?n"
    by (simp add: size_sub_def size_modulus_def checksum_size_def MESSAGE_CHECKSUM_SIZE_def)
  have total: "\<exists>r b'. db_read k c = Inr (r, b')" if "db_ok c" for k c using db_read_total [OF that] .
  show ?thesis
  proof (cases "t = CONFIGURATION_QUERY")
    case True
    then show ?thesis using h info assms(2)
      by (simp add: msg_decode_def bindF_def Let_def msg_set_header_new flip: msg_headed_def)
  next
    case False
    have "?n \<le> length (db_rest ?b)" if "?n < 2 ^ 63" using that n assms(4) False b(2) by linarith
    then have body: "?n < 2 ^ 63 \<Longrightarrow> db_read ?n ?b = Inr ((Decode_Success, take ?n (db_rest ?b)), db_advance ?n ?b)"
      "?n < 2 ^ 63 \<Longrightarrow> db_ok (db_advance ?n ?b)"
      by (blast intro: db_read_success [OF b(1)] db_ok_advance [OF b(1)])+
    show ?thesis
      using False h info body total [of "db_advance ?n ?b" 4] assms(2)
      by (auto simp: msg_decode_def bindF_def Let_def msg_set_header_new new_buffer_def stored_def simp flip: msg_headed_def
          split: if_splits)
  qed
qed

definition msg_valid :: "message \<Rightarrow> bool" where
  "msg_valid m \<longleftrightarrow> checksum_ok m = Inr True"

definition rx_fine :: "fault + receiver \<times> message option \<Rightarrow> bool" where
  "rx_fine x = (case x of Inl e \<Rightarrow> e \<in> {Assert_failed, Out_of_bounds}
     | Inr (r, out) \<Rightarrow> rx_ok r \<and> (case out of None \<Rightarrow> True | Some m \<Rightarrow> msg_valid m))"

lemma rx_fine_simps [simp]:
  "rx_fine (Inl e) = (e \<in> {Assert_failed, Out_of_bounds})"
  "rx_fine (Inr (r, None)) = rx_ok r"
  "rx_fine (Inr (r, Some m)) = (rx_ok r \<and> msg_valid m)"
  by (simp_all add: rx_fine_def)

lemma rx_okI: "rx_holds r mem \<Longrightarrow> (\<And>m. p \<noteq> Rx_body m) \<Longrightarrow> rx_ok (r\<lparr>rx_place := p\<rparr>)"
  by (auto simp: rx_ok_def)

lemma checksum_ok_total:
  "msg_type m = type_code t \<Longrightarrow> t \<noteq> CONFIGURATION_QUERY \<longrightarrow> msg_body m \<noteq> None \<Longrightarrow> \<exists>b. checksum_ok m = Inr b"
  by (cases t) (auto simp: checksum_ok_def compute_checksum_def body_or_def)

lemma rx_decode_safe:
  assumes "rx_holds r mem" and "take msg_HeaderSize mem = msg_header m0" and "msg_type m0 = type_code t"
    and "t \<noteq> CONFIGURATION_QUERY \<longrightarrow> msg_HeaderSize + unat (msg_length m0) \<le> length mem"
  shows "rx_fine (rx_decode False (info_of t) r)"
proof -
  have "msg_HeaderSize \<le> length mem" using assms(1) by (simp add: rx_holds_def BUFSIZ_def msg_HeaderSize_def)
  from msg_decode_safe [OF assms(2,3) this assms(4)] show ?thesis
  proof (elim disjE exE conjE)
    assume "msg_decode (db_of mem 0) = Inl Assert_failed"
    then show ?thesis by (simp add: rx_decode_def rx_read_holds [OF assms(1)])
  next
    fix m b assume m: "msg_decode (db_of mem 0) = Inr (m, b)" "msg_type m = type_code t"
      "t \<noteq> CONFIGURATION_QUERY \<longrightarrow> msg_body m \<noteq> None"
    obtain ok where ok: "checksum_ok m = Inr ok" using checksum_ok_total [OF m(2,3)] by blast
    moreover have "checksum_ok m = Inr True" if "\<not> ti_has_checksum (info_of t)"
      using that m(2) by (simp add: checksum_ok_def)
    ultimately show ?thesis
      using m(1) by (auto simp: rx_decode_def rx_read_holds [OF assms(1)] msg_valid_def intro!: rx_okI [OF assms(1)])
  qed
qed

lemma msg_headed_encoded:
  "msg_type m = type_code t \<Longrightarrow> msg_body m = None \<Longrightarrow>
    msg_encoded_size m = Inr (if t = SYNC then 7 else msg_HeaderSize + unat (msg_length m))"
  by (auto simp: msg_encoded_size_def body_or_def checksum_size_def SYNC_body_def msg_HeaderSize_def)

lemma rx_got_header_safe:
  assumes "rx_ok r" and "length bs = msg_HeaderSize"
  shows "rx_fine (rx_got_header junk False bs r)"
proof -
  let ?m = "msg_set_header bs msg_new"
  have body: "msg_body ?m = None" by (simp add: msg_set_header_def msg_new_def)
  have hdr: "msg_header ?m = bs" using assms(2) by (simp add: msg_header_parts msg_HeaderSize_def)
  obtain mem where mem: "rx_holds r mem" using assms(1) by (auto simp: rx_ok_def)
  consider "get_type_info (msg_type ?m) = Inl Assert_failed" | t where "msg_type ?m = type_code t"
    using get_type_info_total [of "msg_type ?m"] by blast
  then show ?thesis
  proof cases
    case 1
    then show ?thesis by (simp add: rx_got_header_def Let_def msg_encoded_size_def)
  next
    case 2
    define n where "n = (if t = SYNC then 7 else msg_HeaderSize + unat (msg_length ?m))"
    have size: "msg_encoded_size ?m = Inr n" using msg_headed_encoded [OF 2 body] by (simp add: n_def)
    have "n < 2 ^ 63" using u16_less [of "msg_length ?m"] by (simp add: n_def msg_HeaderSize_def)
    from rx_fit_holds [OF mem this] obtain r1 mem1 where r1: "rx_fit junk n r = Inr r1" "rx_holds r1 mem1"
      "length mem1 = max n (length mem)" by blast
    have "msg_HeaderSize \<le> length mem" using mem by (simp add: rx_holds_def BUFSIZ_def msg_HeaderSize_def)
    then have fits: "0 + length bs \<le> length mem1" using r1(3) assms(2) by simp
    from rx_store_holds [OF r1(2) fits] obtain r2 where r2: "rx_store 0 bs r1 = Inr r2" "rx_holds r2 (overlay 0 bs mem1)" by blast
    have front: "take msg_HeaderSize (overlay 0 bs mem1) = msg_header ?m" "length (overlay 0 bs mem1) = length mem1"
      using fits assms(2) hdr by (simp_all add: overlay_def)
    have got: "rx_got_header junk False bs r =
        (if t = CONFIGURATION_QUERY then rx_decode False (info_of t) r2 else Inr (r2\<lparr>rx_place := Rx_body ?m\<rparr>, None))"
      using size r1(1) r2(1) 2 by (simp add: rx_got_header_def Let_def)
    show ?thesis
    proof (cases "t = CONFIGURATION_QUERY")
      case True
      then show ?thesis using rx_decode_safe [OF r2(2) front(1) 2] got by simp
    next
      case False
      then have "rx_ok (r2\<lparr>rx_place := Rx_body ?m\<rparr>)"
        unfolding rx_ok_def using r2(2) 2 front r1(3) n_def
        by (intro exI [of _ "overlay 0 bs mem1"]) (auto intro!: exI [of _ t])
      then show ?thesis using got False by simp
    qed
  qed
qed

lemma rx_got_body_safe:
  assumes "rx_ok r" and "rx_place r = Rx_body m" and "length bs = unat (msg_length m)"
  shows "rx_fine (rx_got_body False m bs r)"
proof -
  obtain mem t where mem: "rx_holds r mem" "msg_type m = type_code t" "t \<noteq> CONFIGURATION_QUERY"
    "take msg_HeaderSize mem = msg_header m" using assms(1,2) by (auto simp: rx_ok_def)
  show ?thesis
  proof (cases "msg_HeaderSize + length bs \<le> length mem")
    case True
    from rx_store_holds [OF mem(1) True] obtain r1 where r1: "rx_store msg_HeaderSize bs r = Inr r1"
      "rx_holds r1 (overlay msg_HeaderSize bs mem)" by blast
    have "take msg_HeaderSize (overlay msg_HeaderSize bs mem) = msg_header m" using True mem(4) by (simp add: overlay_def)
    from rx_decode_safe [OF r1(2) this mem(2)] show ?thesis
      using True assms(3) r1(1) mem(2) by (simp add: rx_got_body_def)
  next
    case False
    then show ?thesis using rx_store_overflows [OF mem(1)] by (simp add: rx_got_body_def)
  qed
qed

lemma rx_resume_safe:
  assumes "rx_ok r" and "length bs = rx_wants r"
  shows "rx_fine (rx_resume junk False bs r)"
  using assms rx_got_header_safe [OF assms(1), of bs] rx_got_body_safe [OF assms(1)]
  by (cases "rx_place r") (simp_all add: rx_resume_def rx_wants_def)

text \<open>The judgement on a run: what it may fail with, and what it has delivered.\<close>

definition rx_safe :: "byte list \<Rightarrow> fault + receiver \<times> byte list \<times> message list \<Rightarrow> bool" where
  "rx_safe inp x = (case x of Inl e \<Rightarrow> e = Assert_failed \<or> e = Out_of_bounds
     | Inr (r, rest, ms) \<Rightarrow> rx_ok r \<and> suffix rest inp \<and> list_all msg_valid ms)"

lemma rx_safe_drop: "rx_safe (drop n inp) x \<Longrightarrow> rx_safe inp x"
  by (auto simp: rx_safe_def split: sum.splits intro: suffix_drop suffix_order.trans)

lemma rx_safe_read:
  assumes "rx_ok r" and "rx_place r = Rx_header \<or> rx_place r = Rx_body m"
    and "\<And>r' out. \<not> length inp < rx_wants r \<Longrightarrow> rx_resume junk False (take (rx_wants r) inp) r = Inr (r', out) \<Longrightarrow> rx_ok r' \<Longrightarrow>
      rx_safe (drop (rx_wants r) inp) (rx_run junk chunk (drop (rx_wants r) inp) r')"
  shows "rx_safe inp (rx_run junk chunk inp r)"
proof (cases "length inp < rx_wants r")
  case True
  then show ?thesis using assms(1,2) by (subst rx_run.simps) (auto simp: Let_def rx_safe_def)
next
  case False
  let ?n = "rx_wants r"
  have fine: "rx_fine (rx_resume junk False (take ?n inp) r)" using False by (intro rx_resume_safe assms(1)) simp
  have len: "?n = length (take ?n inp)" using False by simp
  show ?thesis
  proof (cases "rx_resume junk False (take ?n inp) r")
    case (Inl e)
    from rx_run_read_fault [OF assms(2) len Inl, of chunk "drop ?n inp"] show ?thesis
      using fine Inl by (simp add: rx_safe_def)
  next
    case (Inr x)
    obtain r' out where x: "x = (r', out)" by (cases x)
    with Inr fine have ok: "rx_ok r'" "case out of None \<Rightarrow> True | Some m \<Rightarrow> msg_valid m" by (simp_all add: rx_fine_def)
    from rx_run_read [OF assms(2) len Inr [unfolded x], of chunk "drop ?n inp"] assms(3) [OF False Inr [unfolded x] ok(1)] ok(2)
    show ?thesis by (auto simp: rx_safe_def split: sum.splits option.splits intro: suffix_drop suffix_order.trans)
  qed
qed

lemma rx_run_safe: "rx_ok r \<Longrightarrow> rx_safe inp (rx_run junk chunk inp r)"
proof (induction junk chunk inp r rule: rx_run.induct)
  case (1 junk chunk inp r)
  show ?case
  proof (cases "rx_place r")
    case Rx_top
    moreover have "rx_ok (rx_top False r)" using "1.prems" Rx_top by (auto simp: rx_ok_def rx_top_def)
    ultimately show ?thesis using "1.IH"(1) by (simp add: rx_run_top)
  next
    case Rx_header
    show ?thesis by (rule rx_safe_read [OF "1.prems"]) (use "1.IH" Rx_header in blast)+
  next
    case (Rx_body m)
    show ?thesis by (rule rx_safe_read [OF "1.prems", where m = m]) (use "1.IH" Rx_body in blast)+
  next
    case Rx_resync
    let ?k = "min (chunk inp) (length inp)"
    have "rx_ok (rx_resynced r)" using "1.prems" by (auto simp: rx_ok_def rx_resynced_def)
    then have "rx_in_sync (take ?k inp) \<Longrightarrow> rx_safe (drop ?k inp) (rx_run junk chunk (drop ?k inp) (rx_resynced r))"
      using "1.IH" Rx_resync by blast
    then have "rx_in_sync (take ?k inp) \<Longrightarrow> rx_safe inp (rx_run junk chunk (drop ?k inp) (rx_resynced r))"
      by (blast intro: rx_safe_drop)
    moreover have "rx_safe inp (Inr (r, inp, []))" using "1.prems" by (simp add: rx_safe_def)
    ultimately show ?thesis using Rx_resync by (subst rx_run.simps) (simp add: Let_def)
  next
    case Rx_exited
    then show ?thesis using "1.prems" by (subst rx_run.simps) (simp add: rx_safe_def)
  qed
qed

section \<open>Properties\<close>

text \<open>
  The loop delivers what was sent: on the encodings of any well-formed messages one after the other,
  however long, followed by less than a header, it hands over exactly these messages in order, each with its
  checksum, and waits for the rest of the next header.
\<close>

theorem stream_delivers_messages:
  assumes "\<forall>(t, bs, m) \<in> set xs. msg_ok t bs m" and "rx_holds r mem" and "rx_place r = Rx_top"
    and "length tail < msg_HeaderSize"
  shows "\<exists>r' mem'. rx_run junk chunk (concat (map (\<lambda>(t, bs, m). msg_wire t bs m) xs) @ tail) r =
      Inr (r', tail, map (\<lambda>(t, bs, m). msg_received t bs m) xs) \<and> rx_holds r' mem' \<and> rx_place r' = Rx_header"
  by (rule rx_run_wires [OF assms])

definition rx_example :: receiver where
  "rx_example = \<lparr>rx_heap = \<lparr>hp_blocks = (\<lambda>_. None)(0 \<mapsto> replicate BUFSIZ 0), hp_next = 1\<rparr>,
     rx_buffer = bf_adopt (Some 0) BUFSIZ (Some C_free), rx_place = Rx_top\<rparr>"

lemma rx_example_started: "rx_start junk = Inr rx_example"
proof -
  have "BUFSIZ < 2 ^ 63" by (simp add: BUFSIZ_def)
  then show ?thesis by (simp add: rx_start_def bf_alloc_zeroed rx_example_def hp_empty_def)
qed

lemma rx_example_holds: "rx_holds rx_example (replicate BUFSIZ 0)" "rx_place rx_example = Rx_top"
  by (simp_all add: rx_example_def rx_holds_def hp_ok_def bf_holds_def bf_adopt_def)

definition query_example :: message where
  "query_example = msg_new\<lparr>msg_type := type_code CONFIGURATION_QUERY\<rparr>"

definition sync_example :: message where
  "sync_example = msg_new\<lparr>msg_type := type_code SYNC, msg_length := 4\<rparr>"

theorem stream_delivers_messages_witness:
  "\<exists>r' mem'. rx_run (\<lambda>_. 0) length (concat (map (\<lambda>(t, bs, m). msg_wire t bs m)
      [(SYNC, SYNC_body, sync_example), (CONFIGURATION_QUERY, [], query_example)]) @ [9]) rx_example =
    Inr (r', [9], map (\<lambda>(t, bs, m). msg_received t bs m)
      [(SYNC, SYNC_body, sync_example), (CONFIGURATION_QUERY, [], query_example)]) \<and>
    rx_holds r' mem' \<and> rx_place r' = Rx_header"
  by (rule stream_delivers_messages [OF _ rx_example_holds])
    (simp_all add: msg_ok_def sync_example_def query_example_def SYNC_body_def checksum_size_def msg_new_def
      msg_HeaderSize_def del: map_replicate)

text \<open>
  Claim C8. On any bytes whatsoever the loop only hands over messages with a valid checksum, and only
  reads what was sent; no step uses memory that was given back or a null pointer. The ways it can fail are the
  failed assertions of a bad header and the overrun of its read buffer.
\<close>

theorem receiver_safe:
  assumes "rx_ok r"
  shows "case rx_run junk chunk inp r of
      Inl e \<Rightarrow> e = Assert_failed \<or> e = Out_of_bounds
    | Inr (r', rest, ms) \<Rightarrow> rx_ok r' \<and> suffix rest inp \<and> list_all msg_valid ms"
  using rx_run_safe [OF assms] by (simp add: rx_safe_def)

lemma rx_example_ok: "rx_ok rx_example"
  using rx_example_holds by (auto simp: rx_ok_def)

theorem receiver_safe_witness:
  "case rx_run (\<lambda>_. 0) length [3, 0, 9] rx_example of
      Inl e \<Rightarrow> e = Assert_failed \<or> e = Out_of_bounds
    | Inr (r', rest, ms) \<Rightarrow> rx_ok r' \<and> suffix rest [3, 0, 9] \<and> list_all msg_valid ms"
  by (rule receiver_safe [OF rx_example_ok])

text \<open>
  Claim C38. A peer can overrun the read buffer: the buffer is sized by the type table, where a SYNC has four
  bytes, but the read takes its size from the header. A SYNC header with a larger length, followed by that
  many bytes, writes past the buffer's end.
\<close>

theorem oversized_sync_overflows:
  assumes "rx_holds r mem" and "rx_place r = Rx_top" and "length mem < msg_HeaderSize + length bs" and "length bs < 65536"
  shows "rx_run junk chunk (le_bytes 2 (length bs) @ [type_code SYNC] @ bs @ rest) r = Inl Out_of_bounds"
proof -
  let ?h = "le_bytes 2 (length bs) @ [type_code SYNC]"
  define m where "m = msg_new\<lparr>msg_type := type_code SYNC, msg_length := of_nat (length bs)\<rparr>"
  have len: "unat (msg_length m) = length bs" using assms(4) by (simp add: m_def unat_of_nat)
  have hdr: "?h = msg_header m" using len by (simp add: msg_header_def) (simp add: m_def)
  have set: "msg_set_header ?h msg_new = m"
    unfolding hdr msg_set_header_new by (simp add: m_def)
  have size: "msg_encoded_size m = Inr 7"
    using msg_headed_encoded [of m SYNC] by (simp add: m_def msg_new_def)
  let ?r = "rx_top False r"
  have top: "rx_holds ?r mem" "rx_place ?r = Rx_header" using assms(1,2) by (simp_all add: rx_top_def)
  have small: "7 \<le> length mem" using assms(1) by (simp add: rx_holds_def BUFSIZ_def)
  have fit: "rx_fit junk 7 ?r = Inr ?r"
    using top(1) small by (auto simp: rx_fit_def rx_holds_def bf_holds_def)
  have "0 + length ?h \<le> length mem" using small by simp
  from rx_store_holds [OF top(1) this] obtain r1 where r1: "rx_store 0 ?h ?r = Inr r1" "rx_holds r1 (overlay 0 ?h mem)" by blast
  have lmem: "length (overlay 0 ?h mem) = length mem" using small by simp
  have one: "rx_resume junk False ?h ?r = Inr (r1\<lparr>rx_place := Rx_body m\<rparr>, None)"
    using top(2) r1(1) by (simp only: rx_resume_def rx_place.case rx_got_header_def set size fit Let_def bindE_simps if_False)
      (simp add: m_def)
  have two: "rx_resume junk False bs (r1\<lparr>rx_place := Rx_body m\<rparr>) = Inl Out_of_bounds"
    using rx_store_overflows [of "r1\<lparr>rx_place := Rx_body m\<rparr>" "overlay 0 ?h mem" msg_HeaderSize bs] r1(2) lmem assms(3)
    by (simp add: rx_resume_def rx_got_body_def)
  have wants: "rx_wants ?r = length ?h" using top(2) by (simp add: rx_wants_def msg_HeaderSize_def)
  have body: "rx_place (r1\<lparr>rx_place := Rx_body m\<rparr>) = Rx_header \<or> rx_place (r1\<lparr>rx_place := Rx_body m\<rparr>) = Rx_body m" by simp
  have wants2: "rx_wants (r1\<lparr>rx_place := Rx_body m\<rparr>) = length bs" by (simp add: rx_wants_def len)
  show ?thesis
    unfolding rx_run_top [OF assms(2)] using rx_run_read [OF disjI1 [OF top(2)] wants one, of chunk "bs @ rest"]
      rx_run_read_fault [OF body wants2 two, of chunk rest] by simp
qed

theorem oversized_sync_overflows_witness:
  "rx_run (\<lambda>_. 0) length (le_bytes 2 (length (replicate BUFSIZ (7 :: byte))) @ [type_code SYNC] @ replicate BUFSIZ 7 @ [1]) rx_example =
    Inl Out_of_bounds"
proof (rule oversized_sync_overflows [OF rx_example_holds])
  show "length (replicate BUFSIZ (0 :: byte)) < msg_HeaderSize + length (replicate BUFSIZ (7 :: byte))"
    by (simp only: length_replicate) (simp add: msg_HeaderSize_def)
  show "length (replicate BUFSIZ (7 :: byte)) < 65536"
    by (simp only: length_replicate) (simp add: BUFSIZ_def)
qed

text \<open>
  The delimiter \<open>resync\<close> waits for is the single byte 4, and whatever was read with it is gone, even well-formed
  messages after a SYNC.
\<close>

lemma sync_delimiter_eq: "sync_delimiter = [4]"
  by (simp add: sync_delimiter_def sync_string_def)

lemma rx_in_sync_iff: "rx_in_sync bs \<longleftrightarrow> 4 \<in> set bs"
proof -
  have "take 1 (drop i bs) = [4] \<longleftrightarrow> bs ! i = 4" if "i < length bs" for i
    by (subst Cons_nth_drop_Suc [OF that, symmetric]) simp
  then show ?thesis by (auto simp: rx_in_sync_def sync_delimiter_eq list_ex_iff in_set_conv_nth)
qed

lemma resync_drops_all:
  assumes "rx_place r = Rx_resync" and "4 \<in> set inp"
  shows "rx_run junk length inp r = Inr (r\<lparr>rx_place := Rx_header\<rparr>, [], [])"
proof -
  have "rx_in_sync (take (min (length inp) (length inp)) inp)" using assms(2) by (simp add: rx_in_sync_iff)
  then have "rx_run junk length inp r = rx_run junk length [] (rx_resynced r)"
    using assms(1) by (subst rx_run.simps) (simp only: rx_place.case Let_def if_True min.idem take_all drop_all order_refl)
  also have "\<dots> = rx_run junk length [] (r\<lparr>rx_place := Rx_header\<rparr>)"
    unfolding rx_resynced_def by (subst rx_run_top) (simp_all add: rx_top_def)
  also have "\<dots> = Inr (r\<lparr>rx_place := Rx_header\<rparr>, [], [])"
    by (subst rx_run.simps) (simp add: rx_wants_def msg_HeaderSize_def)
  finally show ?thesis .
qed

lemma resync_drops_messages:
  assumes "rx_place r = Rx_resync"
  shows "rx_run junk length (msg_wire SYNC SYNC_body sync_example @ rest) r = Inr (r\<lparr>rx_place := Rx_header\<rparr>, [], [])"
  by (rule resync_drops_all [OF assms])
    (simp add: msg_wire_def msg_header_def sync_example_def le_bytes_2)

end
