(* ===== verification/Node.thy ===== *)
theory Node
  imports Receive SharedQueue Signals Schedule Worker
begin

text \<open>
  A node: \<^verbatim>\<open>include/crisp/comms/BasicNode.hh\<close>, \<^verbatim>\<open>bits/BasicNode.tcc\<close>, and its dispatcher, \<^verbatim>\<open>MessageDispatcher.hh\<close>,
  \<^verbatim>\<open>bits/MessageDispatcher.tcc\<close> and \<^verbatim>\<open>MessageHandler.hh\<close>. The node's scheduler carries the rest of the node as its
  user state, so timers, periodic actions, signals, the outgoing queue, the worker pool and the two
  coroutines are the models of their own theories. Everything that runs later on the I/O service is one of
  three kinds of ready work: a posted callback, a task of the scheduler, or a posted \<open>halt\<close>; which comes
  next is the \<open>choice\<close> of the service and its threads. An exception that leaves a handler ends the program,
  and a call that never returns hangs; both are kept in the node as its outcome. What the default callbacks print
  is left out. A function of the user, connected to a signal of the dispatcher, is a number: the node keeps the calls
  of these functions with what they were given, and what they do besides is left out.
\<close>

section \<open>State\<close>

datatype direction = INCOMING | OUTGOING

datatype notice =
    Plain | A_handshake handshake | A_response handshake_response | A_configuration configuration
  | A_control module_control

datatype callback = Cb_print | Cb_handshake | Cb_response | Cb_query | Cb_user nat

text \<open>\<open>Delayed\<close>: inside a call that returns only once a timer has expired.\<close>

datatype outcome = Alive | Crashed fault | Hung | Delayed

datatype sender = Tx_idle | Tx_top | Tx_fetching | Tx_writing message "byte list" | Tx_exited

record node_data =
  nd_role :: node_role
  nd_configuration :: configuration
  nd_signals :: "(notice, unit) signals"
  nd_callbacks :: "nat \<Rightarrow> callback option"    \<comment> \<open>default callbacks, by action\<close>
  nd_queue :: "message squeue"
  nd_receiver :: "receiver option"
  nd_sender :: sender
  nd_wire :: "byte list"                      \<comment> \<open>bytes written to the socket\<close>
  nd_sync_action :: "nat option"
  nd_halt_action :: "nat option"
  nd_halting :: bool
  nd_stopped :: bool
  nd_socket_open :: bool
  nd_disconnect_emitted :: bool
  nd_disconnects :: nat                       \<comment> \<open>emissions of the disconnect signal\<close>
  nd_pool :: pool
  nd_requests :: nat                          \<comment> \<open>posted calls of \<open>halt\<close>\<close>
  nd_notified :: nat                          \<comment> \<open>notifications of \<open>m_halt_cv\<close>\<close>
  nd_calls :: "(nat \<times> notice) list"          \<comment> \<open>calls of the user's functions, with what they got\<close>
  nd_outcome :: outcome

type_synonym node = "node_data scheduler"

definition nd_update :: "(node_data \<Rightarrow> node_data) \<Rightarrow> node \<Rightarrow> node" where
  "nd_update f s = s\<lparr>sc_user := f (sc_user s)\<rparr>"

definition nd_crash :: "fault \<Rightarrow> node \<Rightarrow> node" where
  "nd_crash e = nd_update (nd_outcome_update (\<lambda>_. Crashed e))"

definition nd_hang :: "node \<Rightarrow> node" where
  "nd_hang = nd_update (nd_outcome_update (\<lambda>_. Hung))"

section \<open>The dispatcher\<close>

text \<open>Six handlers, in the order of the class, each with the signals \<open>sent\<close> and \<open>received\<close>.\<close>

datatype message_handler = H_handshake | H_response | H_sync | H_query | H_configuration | H_control

definition handler_index :: "message_handler \<Rightarrow> nat" where
  "handler_index h =
     (case h of H_handshake \<Rightarrow> 0 | H_response \<Rightarrow> 1 | H_sync \<Rightarrow> 2 | H_query \<Rightarrow> 3 | H_configuration \<Rightarrow> 4 | H_control \<Rightarrow> 5)"

definition sig_of :: "direction \<Rightarrow> message_handler \<Rightarrow> nat" where
  "sig_of dir h = 2 * handler_index h + (case dir of OUTGOING \<Rightarrow> 0 | INCOMING \<Rightarrow> 1)"

definition disconnect_sig :: nat where
  "disconnect_sig = 12"

type_synonym dispatcher = "(notice, unit) signals \<times> (nat \<Rightarrow> callback option)"

definition dp_join :: "direction \<Rightarrow> message_handler \<Rightarrow> callback \<Rightarrow> dispatcher \<Rightarrow> dispatcher" where
  "dp_join dir h cb p = (case sg_connect (sig_of dir h) (fst p) of (a, w) \<Rightarrow> (w, (snd p)(a \<mapsto> cb)))"

text \<open>The connections of \<open>set_default_callbacks\<close>, in its order.\<close>

definition dp_defaults :: "(direction \<times> message_handler \<times> callback) list" where
  "dp_defaults =
     [(OUTGOING, H_sync, Cb_print), (INCOMING, H_sync, Cb_print), (OUTGOING, H_handshake, Cb_print),
      (INCOMING, H_handshake, Cb_handshake), (INCOMING, H_response, Cb_response), (OUTGOING, H_response, Cb_print),
      (INCOMING, H_query, Cb_query), (OUTGOING, H_control, Cb_print), (INCOMING, H_control, Cb_print)]"

definition dp_set_default_callbacks :: "dispatcher \<Rightarrow> dispatcher" where
  "dp_set_default_callbacks p = fold (\<lambda>(dir, h, cb). dp_join dir h cb) dp_defaults p"

definition nd_with_dispatcher :: "dispatcher \<Rightarrow> node_data \<Rightarrow> node_data" where
  "nd_with_dispatcher p d = d\<lparr>nd_signals := fst p, nd_callbacks := snd p\<rparr>"

text \<open>\<open>set_target\<close> and \<open>operator=\<close> on the dispatchers whose signals start at \<open>base\<close> and \<open>other\<close>.\<close>

definition dp_set_target :: "nat \<Rightarrow> ('a, 'u) signals \<Rightarrow> ('a, 'u) signals" where
  "dp_set_target base w = fold (\<lambda>k. sg_set_io_service (base + k)) [0..<12] w"

definition dp_assign :: "bool \<Rightarrow> nat \<Rightarrow> nat \<Rightarrow> ('a, 'u) signals \<Rightarrow> ('a, 'u) signals" where
  "dp_assign has_node base other w =
     (let w' = fold (\<lambda>k. sg_assign (base + k) (other + k)) [0..<12] w in
      if has_node then dp_set_target base w' else w')"

text \<open>The signals of a node post their callbacks, so no callback runs inside an emission.\<close>

definition nd_emit :: "(nat list \<Rightarrow> nat list) \<Rightarrow> nat \<Rightarrow> notice \<Rightarrow> node_data \<Rightarrow> node_data" where
  "nd_emit ord i x d = d\<lparr>nd_signals := sg_emit ord (\<lambda>_ _ w. w) i x (nd_signals d)\<rparr>"

definition call_handler ::
    "(nat list \<Rightarrow> nat list) \<Rightarrow> direction \<Rightarrow> message_handler \<Rightarrow> fault + notice \<Rightarrow> node_data \<Rightarrow> fault + node_data" where
  "call_handler ord dir h body d = bindE body (\<lambda>x. Inr (nd_emit ord (sig_of dir h) x d))"

text \<open>A type byte that is no enumerator matches no case of the \<open>switch\<close>.\<close>

definition dp_dispatch ::
    "(nat list \<Rightarrow> nat list) \<Rightarrow> (nat \<Rightarrow> byte) \<Rightarrow> direction \<Rightarrow> message \<Rightarrow> node_data \<Rightarrow> fault + node_data" where
  "dp_dispatch ord junk dir m d =
     (if msg_type m = type_code HANDSHAKE
      then call_handler ord dir H_handshake (bindE (msg_as hs_decode_copy m) (\<lambda>h. Inr (A_handshake h))) d
      else if msg_type m = type_code HANDSHAKE_RESPONSE
      then call_handler ord dir H_response
             (bindE (msg_as (hr_decode_copy \<lparr>hr_acknowledge = junk 0, hr_role = junk 1\<rparr>) m) (\<lambda>h. Inr (A_response h))) d
      else if msg_type m = type_code SYNC then call_handler ord dir H_sync (Inr Plain) d
      else if msg_type m = type_code ERROR then Inl (Thrown ''Unexpected unimplemented message type ERROR'')
      else if msg_type m = type_code CONFIGURATION_QUERY then call_handler ord dir H_query (Inr Plain) d
      else if msg_type m = type_code CONFIGURATION_RESPONSE
      then call_handler ord dir H_configuration (bindE (msg_as (cf_decode_copy junk) m) (\<lambda>c. Inr (A_configuration c))) d
      else if msg_type m = type_code SENSOR_DATA then Inl (Thrown ''not yet implemented'')
      else if msg_type m = type_code MODULE_CONTROL
      then call_handler ord dir H_control
             (bindE (msg_as (mc_decode junk (nd_configuration d) mc_new) m) (\<lambda>r. Inr (A_control (snd r)))) d
      else Inr d)"

section \<open>Sending\<close>

definition nd_push :: "message \<Rightarrow> node_data \<Rightarrow> node_data" where
  "nd_push m d =
     d\<lparr>nd_queue := sq_push m (case sq_sleeping (nd_queue d) of [] \<Rightarrow> None | c # _ \<Rightarrow> Some c) (nd_queue d)\<rparr>"

text \<open>\<open>send\<close> of an object is \<open>send\<close> of the message constructed from it.\<close>

definition nd_send :: "fault + message \<Rightarrow> node \<Rightarrow> node" where
  "nd_send r s = (case r of Inl e \<Rightarrow> nd_crash e s | Inr m \<Rightarrow> nd_update (nd_push m) s)"

definition hs_message :: "node_role \<Rightarrow> fault + message" where
  "hs_message r = msg_of_body HANDSHAKE (Inr hs_size) (hs_encode (hs_make PROTOCOL_VERSION (role_code r)))"

definition hr_message :: "handshake_response \<Rightarrow> fault + message" where
  "hr_message h = msg_of_body HANDSHAKE_RESPONSE (Inr hr_size) (hr_encode h)"

definition cf_message :: "configuration \<Rightarrow> fault + message" where
  "cf_message c = msg_of_body CONFIGURATION_RESPONSE (cf_encoded_size c) (cf_encode c)"

section \<open>Callbacks\<close>

text \<open>The functions the scheduler calls: 0 halts the node, 1 sends a SYNC.\<close>

definition HALT_FN :: nat where
  "HALT_FN = 0"

definition SYNC_FN :: nat where
  "SYNC_FN = 1"

definition nd_call :: "(node \<Rightarrow> node) \<Rightarrow> nat \<Rightarrow> nat \<Rightarrow> node \<Rightarrow> node" where
  "nd_call halt f a s = (if f = HALT_FN then halt s else if f = SYNC_FN then nd_send (msg_of_type SYNC) s else s)"

definition hs_acknowledge :: "node_role \<Rightarrow> handshake \<Rightarrow> handshake_ack" where
  "hs_acknowledge role h =
     (if hs_protocol h \<noteq> PROTOCOL_NAME then NACK_UNKNOWN_PROTOCOL
      else if hs_role h = role_code role then NACK_ROLE_CONFLICT
      else if hs_version h \<noteq> PROTOCOL_VERSION then NACK_VERSION_CONFLICT
      else ACK)"

definition hs_respond :: "node_role \<Rightarrow> handshake \<Rightarrow> handshake_response" where
  "hs_respond role h =
     \<lparr>hr_acknowledge = ack_code (hs_acknowledge role h),
      hr_role = (if hs_role h = role_code MASTER then role_code SLAVE else role_code MASTER)\<rparr>"

definition nd_accepted :: "node \<Rightarrow> node" where
  "nd_accepted s =
     (let s1 = (case nd_halt_action (sc_user s) of
                  None \<Rightarrow> s
                | Some a \<Rightarrow> if sc_actions s a = None then s else sa_cancel a s);
          s2 = nd_update (nd_halt_action_update (\<lambda>_. None)) s1;
          (p, s3) = sc_schedule (rate_hz 1) SYNC_FN s2
      in nd_update (nd_sync_action_update (\<lambda>_. Some p)) s3)"

definition nd_callback :: "(node \<Rightarrow> node) \<Rightarrow> callback \<Rightarrow> notice \<Rightarrow> node \<Rightarrow> node" where
  "nd_callback halt cb x s =
     (case (cb, x) of
        (Cb_user k, _) \<Rightarrow> nd_update (\<lambda>d. d\<lparr>nd_calls := nd_calls d @ [(k, x)]\<rparr>) s
      | (Cb_handshake, A_handshake h) \<Rightarrow> nd_send (hr_message (hs_respond (nd_role (sc_user s)) h)) s
      | (Cb_response, A_response h) \<Rightarrow> if hr_acknowledge h = ack_code ACK then nd_accepted s else halt s
      | (Cb_query, Plain) \<Rightarrow> nd_send (cf_message (nd_configuration (sc_user s))) s
      | _ \<Rightarrow> s)"

section \<open>Ready work\<close>

datatype choice = Posted | Task | Request

definition nd_serve :: "(node \<Rightarrow> node) \<Rightarrow> node \<Rightarrow> node" where
  "nd_serve halt s =
     (case sg_posted (nd_signals (sc_user s)) of
        [] \<Rightarrow> s
      | (a, x) # ps \<Rightarrow>
          let s1 = nd_update (nd_signals_update (sg_posted_update (\<lambda>_. ps))) s in
          (case nd_callbacks (sc_user s) a of None \<Rightarrow> s1 | Some cb \<Rightarrow> nd_callback halt cb x s1))"

definition nd_ready :: "(node \<Rightarrow> node) \<Rightarrow> choice \<Rightarrow> node \<Rightarrow> node" where
  "nd_ready halt c s =
     (if nd_outcome (sc_user s) \<noteq> Alive then s
      else case c of
        Posted \<Rightarrow> nd_serve halt s
      | Task \<Rightarrow> (case io_run_one (nd_call halt) s of Inl e \<Rightarrow> nd_crash e s | Inr s' \<Rightarrow> s')
      | Request \<Rightarrow>
          if nd_requests (sc_user s) = 0 then s else halt (nd_update (nd_requests_update (\<lambda>n. n - 1)) s))"

section \<open>Halting\<close>

text \<open>\<open>halt\<close> on a thread that is inside \<open>halt\<close> already and holds the mutex, which is not recursive.\<close>

definition nd_halt_locked :: "node \<Rightarrow> node" where
  "nd_halt_locked s =
     (if nd_halting (sc_user s) then s else nd_hang (nd_update (nd_halting_update (\<lambda>_. True)) s))"

text \<open>\<open>poll\<close> runs ready work on the calling thread.\<close>

definition nd_poll :: "choice list \<Rightarrow> node \<Rightarrow> node" where
  "nd_poll cs s = fold (nd_ready nd_halt_locked) cs s"

definition nd_notify :: "node \<Rightarrow> node" where
  "nd_notify s =
     (if nd_outcome (sc_user s) = Alive then nd_update (nd_notified_update Suc) s else s)"

definition nd_close :: "node_data \<Rightarrow> node_data" where
  "nd_close d =
     (let d1 = (if sq_num_waiters (nd_queue d) > 0 then d\<lparr>nd_queue := sq_wake_all (nd_queue d)\<rparr> else d);
          d2 = d1\<lparr>nd_socket_open := False\<rparr>
      in if nd_disconnect_emitted d2 then d2
         else (nd_emit id disconnect_sig Plain d2)\<lparr>nd_disconnect_emitted := True, nd_disconnects := nd_disconnects d2 + 1\<rparr>)"

definition nd_cancel_actions :: "node \<Rightarrow> node" where
  "nd_cancel_actions s =
     (let s1 = (case nd_sync_action (sc_user s) of
                  None \<Rightarrow> s | Some p \<Rightarrow> if sc_periodics s p = None then s else pa_cancel p s);
          s2 = (case nd_halt_action (sc_user s1) of
                  None \<Rightarrow> s1 | Some a \<Rightarrow> if sc_actions s1 a = None then s1 else sa_cancel a s1)
      in nd_update (\<lambda>d. d\<lparr>nd_sync_action := None, nd_halt_action := None\<rparr>) s2)"

text \<open>
  \<open>halt(force)\<close> on thread \<open>self\<close>; \<open>polled\<close> is the ready work the refused call runs. What is pending on the service when the
  pool is halted decides whether that returns. It never does while a thread sleeps in the outgoing queue, a periodic action on the
  1 Hz slot is not about to be removed, a loop waits for the open socket (and its peer), or others have
  work on the service all along (\<open>other\<close>). With none of these but a scheduled action waiting for its timer, it
  returns when that has expired.
\<close>

definition nd_ticking :: "node \<Rightarrow> bool" where
  "nd_ticking s = list_ex (\<lambda>p. Remove_periodic p \<notin> set (sc_tasks s)) (sl_actions s (rate_hz 1))"

definition nd_timing :: "node \<Rightarrow> bool" where
  "nd_timing s = list_ex (\<lambda>a. sc_waits s (Of_action a) \<noteq> []) [0..<sc_next s]"

definition nd_transferring :: "node_data \<Rightarrow> bool" where
  "nd_transferring d \<longleftrightarrow> nd_socket_open d \<and>
     ((case nd_receiver d of
         None \<Rightarrow> False
       | Some r \<Rightarrow> (case rx_place r of Rx_header \<Rightarrow> True | Rx_body _ \<Rightarrow> True | _ \<Rightarrow> False)) \<or>
      (case nd_sender d of Tx_writing _ _ \<Rightarrow> True | _ \<Rightarrow> False))"

definition nd_halt_workers :: "nat \<Rightarrow> bool \<Rightarrow> node \<Rightarrow> node" where
  "nd_halt_workers self other s =
     (let d = sc_user s;
          busy = (other \<or> sq_sleeping (nd_queue d) \<noteq> [] \<or> nd_ticking s \<or> nd_transferring d)
      in case wp_halt self busy (nd_pool d) of
           None \<Rightarrow> nd_hang s
         | Some (Inl e) \<Rightarrow> nd_crash e s
         | Some (Inr (_, p)) \<Rightarrow>
             if wp_halt self (busy \<or> nd_timing s) (nd_pool d) = None then nd_update (nd_outcome_update (\<lambda>_. Delayed)) s
             else nd_update (nd_pool_update (\<lambda>_. p)) s)"

definition nd_halt :: "nat \<Rightarrow> bool \<Rightarrow> bool \<Rightarrow> choice list \<Rightarrow> node \<Rightarrow> bool \<times> node" where
  "nd_halt self other force polled s =
     (if nd_halting (sc_user s) then (False, s)
      else case wp_can_halt self (nd_pool (sc_user s)) of
        Inl e \<Rightarrow> (False, nd_crash e s)
      | Inr can \<Rightarrow>
          if \<not> can \<and> \<not> force then (False, nd_notify (nd_poll polled s))
          else let s1 = nd_update (\<lambda>d. d\<lparr>nd_halting := True, nd_stopped := True\<rparr>) s;
                   s2 = nd_halt_workers self other (nd_cancel_actions (nd_update nd_close s1))
               in (True, nd_notify s2))"

definition nd_step :: "nat \<Rightarrow> bool \<Rightarrow> choice list \<Rightarrow> choice \<Rightarrow> node \<Rightarrow> node" where
  "nd_step self other polled = nd_ready (\<lambda>s. snd (nd_halt self other False polled s))"

section \<open>Construction and launch\<close>

text \<open>The waiter count of the queue is not initialised; \<open>n\<close> is what it holds.\<close>

definition nd_signals_new :: "(notice, unit) signals" where
  "nd_signals_new = fold (\<lambda>_. sg_create True) [0..<13] \<lparr>sg_signals = [], sg_home = (\<lambda>_. 0), sg_next = 0, sg_kept = [], sg_posted = [], sg_user = ()\<rparr>"

definition nd_new :: "nat \<Rightarrow> 64 word \<Rightarrow> node_role \<Rightarrow> node" where
  "nd_new now n role = sc_new now (nd_with_dispatcher (dp_set_default_callbacks (nd_signals_new, \<lambda>_. None))
     \<lparr>nd_role = role, nd_configuration = cf_make 0, nd_signals = nd_signals_new, nd_callbacks = (\<lambda>_. None),
      nd_queue = sq_new n, nd_receiver = None, nd_sender = Tx_idle, nd_wire = [], nd_sync_action = None,
      nd_halt_action = None, nd_halting = False, nd_stopped = False, nd_socket_open = True,
      nd_disconnect_emitted = False, nd_disconnects = 0, nd_pool = wp_make 6, nd_requests = 0, nd_notified = 0,
      nd_calls = [], nd_outcome = Alive\<rparr>)"

definition nd_on_disconnect :: "node_data \<Rightarrow> nat \<times> node_data" where
  "nd_on_disconnect d =
     (case sg_connect disconnect_sig (nd_signals d) of (a, w) \<Rightarrow> (a, d\<lparr>nd_signals := w\<rparr>))"

text \<open>A user connects function \<open>k\<close> to a signal of the dispatcher.\<close>

definition nd_connect :: "direction \<Rightarrow> message_handler \<Rightarrow> nat \<Rightarrow> node_data \<Rightarrow> node_data" where
  "nd_connect dir h k d = nd_with_dispatcher (dp_join dir h (Cb_user k) (nd_signals d, nd_callbacks d)) d"

definition nd_launch :: "(nat \<Rightarrow> byte) \<Rightarrow> node \<Rightarrow> bool \<times> node" where
  "nd_launch junk s =
     (case wp_running False (nd_pool (sc_user s)) of
        Inl e \<Rightarrow> (False, nd_crash e s)
      | Inr running \<Rightarrow>
          if running \<or> nd_stopped (sc_user s) then (False, s)
          else let s1 = nd_send (hs_message (nd_role (sc_user s))) s in
               case bindE (wp_launch (nd_pool (sc_user s1))) (\<lambda>(_, p). bindE (rx_start junk) (\<lambda>r. Inr (p, r))) of
                 Inl e \<Rightarrow> (False, nd_crash e s1)
               | Inr (p, r) \<Rightarrow>
                   let s2 = nd_update (\<lambda>d. d\<lparr>nd_pool := p, nd_receiver := Some (rx_top (nd_stopped d) r), nd_sender := Tx_top\<rparr>) s1;
                       (a, s3) = sc_set_timer 5000000000 HALT_FN s2
                   in (True, nd_update (nd_halt_action_update (\<lambda>_. Some a)) s3))"

text \<open>\<open>run\<close> launches, waits for a notification, and halts unless the node has stopped.\<close>

definition nd_run_woken :: "nat \<Rightarrow> bool \<Rightarrow> choice list \<Rightarrow> node \<Rightarrow> node" where
  "nd_run_woken self other polled s =
     (if nd_stopped (sc_user s) then s else snd (nd_halt self other False polled s))"

definition nd_destroy :: "nat \<Rightarrow> bool \<Rightarrow> choice list \<Rightarrow> node \<Rightarrow> node" where
  "nd_destroy self other polled s = snd (nd_halt self other True polled s)"

section \<open>The coroutines\<close>

text \<open>A loop that ends asks for a halt unless the node has stopped.\<close>

definition nd_loop_ends :: "node_data \<Rightarrow> node_data" where
  "nd_loop_ends d = (if nd_stopped d then d else d\<lparr>nd_requests := nd_requests d + 1\<rparr>)"

definition nd_set_receiver :: "receiver \<Rightarrow> node_data \<Rightarrow> node_data" where
  "nd_set_receiver r d =
     (let r' = rx_top (nd_stopped d) r; d' = d\<lparr>nd_receiver := Some r'\<rparr> in
      if rx_place r' = Rx_exited then nd_loop_ends d' else d')"

definition nd_received ::
    "(nat list \<Rightarrow> nat list) \<Rightarrow> (nat \<Rightarrow> byte) \<Rightarrow> byte list \<Rightarrow> node \<Rightarrow> node" where
  "nd_received ord junk bs s =
     (case nd_receiver (sc_user s) of
        None \<Rightarrow> s
      | Some r \<Rightarrow>
          (case bindE (rx_resume junk (nd_stopped (sc_user s)) bs r) (\<lambda>(r', out).
                  bindE (case out of None \<Rightarrow> Inr (sc_user s) | Some m \<Rightarrow> dp_dispatch ord junk INCOMING m (sc_user s)) (\<lambda>d.
                    Inr (nd_set_receiver r' d))) of
             Inl e \<Rightarrow> nd_crash e s
           | Inr d \<Rightarrow> s\<lparr>sc_user := d\<rparr>))"

definition nd_read_failed :: "node \<Rightarrow> node" where
  "nd_read_failed s =
     (case nd_receiver (sc_user s) of
        None \<Rightarrow> s | Some r \<Rightarrow> nd_update (nd_set_receiver (rx_failed r)) s)"

definition tx_caller :: caller where
  "tx_caller = \<lparr>c_thread = 0, c_asks = True\<rparr>"

definition tx_encode :: "message \<Rightarrow> fault + encode_result \<times> byte list" where
  "tx_encode m =
     bindE (msg_encoded_size m) (\<lambda>n. bindE (msg_encode m (eb_new n)) (\<lambda>(r, b).
       Inr (r, take (eb_offset b) (eb_data b))))"

definition tx_exit :: "node_data \<Rightarrow> node_data" where
  "tx_exit d = nd_loop_ends (d\<lparr>nd_sender := Tx_exited\<rparr>)"

text \<open>What the loop does with what \<open>next\<close> returns.\<close>

definition tx_event :: "message event \<Rightarrow> node_data \<Rightarrow> fault + node_data" where
  "tx_event e d =
     (case e of
        Got c m \<Rightarrow>
          if nd_stopped d then Inr (tx_exit d)
          else bindE (tx_encode m) (\<lambda>(r, bs).
                 if r = Encode_Success then Inr (d\<lparr>nd_sender := Tx_writing m bs\<rparr>) else Inr (d\<lparr>nd_sender := Tx_top\<rparr>))
      | Gave_up c \<Rightarrow> Inr (tx_exit d)
      | _ \<Rightarrow> Inr d)"

definition tx_step :: "node_data \<Rightarrow> fault + node_data" where
  "tx_step d =
     (case nd_sender d of
        Tx_top \<Rightarrow>
          if nd_stopped d then Inr (tx_exit d)
          else (case sq_call tx_caller (nd_queue d) of
                  (e, q) \<Rightarrow> tx_event e (d\<lparr>nd_queue := q, nd_sender := Tx_fetching\<rparr>))
      | Tx_fetching \<Rightarrow>
          if tx_caller \<in> set (sq_entering (nd_queue d))
          then bindE (sq_enter tx_caller (nd_queue d)) (\<lambda>(e, q). tx_event e (d\<lparr>nd_queue := q\<rparr>))
          else if tx_caller \<in> set (sq_woken (nd_queue d))
          then bindE (sq_resume tx_caller (nd_queue d)) (\<lambda>(e, q). tx_event e (d\<lparr>nd_queue := q\<rparr>))
          else Inr d
      | _ \<Rightarrow> Inr d)"

datatype write_result = Written | Try_again | Write_error

definition tx_written ::
    "(nat list \<Rightarrow> nat list) \<Rightarrow> (nat \<Rightarrow> byte) \<Rightarrow> write_result \<Rightarrow> node_data \<Rightarrow> fault + node_data" where
  "tx_written ord junk w d =
     (case nd_sender d of
        Tx_writing m bs \<Rightarrow>
          (case w of
             Written \<Rightarrow> bindE (dp_dispatch ord junk OUTGOING m (d\<lparr>nd_wire := nd_wire d @ bs\<rparr>)) (\<lambda>d'. Inr (d'\<lparr>nd_sender := Tx_top\<rparr>))
           | Try_again \<Rightarrow> Inr ((nd_push (fst (msg_move m)) d)\<lparr>nd_sender := Tx_top\<rparr>)
           | Write_error \<Rightarrow> Inr (tx_exit d))
      | _ \<Rightarrow> Inr d)"

end
