(* ===== verification/Exchange.thy ===== *)
theory Exchange
  imports Node
begin

text \<open>
  What nodes do: delivering received messages to the callbacks, the handshake between two nodes, what is sent,
  and halting.
\<close>

section \<open>Field updates\<close>

lemma nd_update_sel [simp]:
  "sc_user (nd_update f s) = f (sc_user s)" "sc_tasks (nd_update f s) = sc_tasks s" "sc_waits (nd_update f s) = sc_waits s"
  "sc_actions (nd_update f s) = sc_actions s" "sc_moved (nd_update f s) = sc_moved s" "sc_periodics (nd_update f s) = sc_periodics s"
  "sc_slots (nd_update f s) = sc_slots s" "sc_expiry (nd_update f s) = sc_expiry s" "sc_now (nd_update f s) = sc_now s"
  "sc_next (nd_update f s) = sc_next s" "sl_actions (nd_update f s) i = sl_actions s i"
  by (simp_all add: nd_update_def sl_actions_def)

lemma nd_send_Inr [simp]: "nd_send (Inr m) s = nd_update (nd_push m) s"
  by (simp add: nd_send_def)

lemma nd_push_sel [simp]:
  "nd_outcome (nd_push m d) = nd_outcome d" "nd_signals (nd_push m d) = nd_signals d" "nd_role (nd_push m d) = nd_role d"
  "nd_receiver (nd_push m d) = nd_receiver d" "nd_stopped (nd_push m d) = nd_stopped d" "nd_callbacks (nd_push m d) = nd_callbacks d"
  "nd_halt_action (nd_push m d) = nd_halt_action d" "nd_sync_action (nd_push m d) = nd_sync_action d"
  "nd_disconnects (nd_push m d) = nd_disconnects d" "nd_disconnect_emitted (nd_push m d) = nd_disconnect_emitted d"
  "nd_halting (nd_push m d) = nd_halting d"
  by (simp_all add: nd_push_def)

lemma sq_items_push [simp]: "sq_items (nd_queue (nd_push m d)) = sq_items (nd_queue d) @ [m]"
  by (simp add: nd_push_def sq_push_def Let_def sq_wake_def split: list.splits option.splits)

section \<open>Callbacks that are there\<close>

text \<open>A signal with the one callback \<open>cb\<close>, that posts.\<close>

definition nd_listens :: "node_data \<Rightarrow> nat \<Rightarrow> callback \<Rightarrow> bool" where
  "nd_listens d i cb \<longleftrightarrow> (\<exists>a. sg_actions (nd_signals d) i = [a] \<and> sg_held (nd_signals d) a \<and>
     sig_service (sg_signals (nd_signals d) ! i) \<and> nd_callbacks d a = Some cb)"

definition nd_signals_set :: "(notice, unit) signals" where
  "nd_signals_set = \<lparr>sg_signals = map (\<lambda>as. \<lparr>sig_actions = as, sig_service = True, sig_live = True\<rparr>)
     [[2], [3], [5], [4], [0], [1], [], [6], [], [], [7], [8], []],
     sg_home = (\<lambda>_. 0)(0 := 4, 1 := 5, 2 := 0, 3 := 1, 4 := 3, 5 := 2, 6 := 7, 7 := 10, 8 := 11), sg_next = 9,
     sg_kept = [], sg_posted = [], sg_user = ()\<rparr>"

lemma nd_signals_new_eq:
  "nd_signals_new = \<lparr>sg_signals = replicate 13 \<lparr>sig_actions = [], sig_service = True, sig_live = True\<rparr>,
     sg_home = (\<lambda>_. 0), sg_next = 0, sg_kept = [], sg_posted = [], sg_user = ()\<rparr>"
  by (simp add: nd_signals_new_def sg_create_def upt_rec numeral_eq_Suc)

lemma nd_new_signals: "nd_signals (sc_user (nd_new now n role)) = nd_signals_set"
  by (simp add: nd_new_def sc_new_def nd_with_dispatcher_def dp_set_default_callbacks_def dp_defaults_def dp_join_def sg_connect_def sg_update_def Let_def
      sig_of_def handler_index_def nd_signals_new_eq nd_signals_set_def numeral_eq_Suc)

lemma nd_new_callbacks: "nd_callbacks (sc_user (nd_new now n role)) =
  [0 \<mapsto> Cb_print, 1 \<mapsto> Cb_print, 2 \<mapsto> Cb_print, 3 \<mapsto> Cb_handshake, 4 \<mapsto> Cb_response, 5 \<mapsto> Cb_print, 6 \<mapsto> Cb_query,
   7 \<mapsto> Cb_print, 8 \<mapsto> Cb_print]"
  by (simp add: nd_new_def sc_new_def nd_with_dispatcher_def dp_set_default_callbacks_def dp_defaults_def dp_join_def sg_connect_def sg_update_def Let_def
      sig_of_def handler_index_def nd_signals_new_eq numeral_eq_Suc)

lemma nd_new_listens:
  "nd_listens (sc_user (nd_new now n role)) (sig_of INCOMING H_handshake) Cb_handshake"
  "nd_listens (sc_user (nd_new now n role)) (sig_of INCOMING H_response) Cb_response"
  "nd_listens (sc_user (nd_new now n role)) (sig_of INCOMING H_query) Cb_query"
  "nd_listens (sc_user (nd_new now n role)) (sig_of INCOMING H_control) Cb_print"
  "nd_listens (sc_user (nd_new now n role)) (sig_of OUTGOING H_handshake) Cb_print"
  "nd_listens (sc_user (nd_new now n role)) (sig_of OUTGOING H_response) Cb_print"
  unfolding nd_listens_def nd_new_signals nd_new_callbacks
  by (simp_all add: nd_signals_set_def sg_actions_def sg_held_def sig_of_def handler_index_def)

lemma nd_emit_listens:
  assumes "nd_listens d i cb" and "\<And>xs. mset (ord xs) = mset xs"
  shows "\<exists>a. nd_callbacks d a = Some cb \<and>
    nd_emit ord i x d = d\<lparr>nd_signals := (nd_signals d)\<lparr>sg_posted := sg_posted (nd_signals d) @ [(a, x)]\<rparr>\<rparr>"
proof -
  obtain a where a: "sg_actions (nd_signals d) i = [a]" "sg_held (nd_signals d) a" "sig_service (sg_signals (nd_signals d) ! i)"
    "nd_callbacks d a = Some cb" using assms(1) by (auto simp: nd_listens_def)
  have "ord [a] = [a]" using assms(2) [of "[a]"] by simp
  then show ?thesis using a by (intro exI [of _ a]) (simp add: nd_emit_def sg_emit_def)
qed

lemma nd_listens_frame:
  "nd_signals d' = nd_signals d \<Longrightarrow> nd_callbacks d' = nd_callbacks d \<Longrightarrow> nd_listens d' i cb = nd_listens d i cb"
  by (simp add: nd_listens_def)

section \<open>Delivery\<close>

text \<open>The completed reads of up to \<open>k\<close> resumptions, from the bytes that have arrived.\<close>

fun nd_feed :: "(nat list \<Rightarrow> nat list) \<Rightarrow> (nat \<Rightarrow> byte) \<Rightarrow> nat \<Rightarrow> byte list \<Rightarrow> node \<Rightarrow> node" where
  "nd_feed ord junk 0 inp s = s"
| "nd_feed ord junk (Suc k) inp s =
     (case nd_receiver (sc_user s) of
        None \<Rightarrow> s
      | Some r \<Rightarrow>
          if length inp < rx_wants r then s
          else nd_feed ord junk k (drop (rx_wants r) inp) (nd_received ord junk (take (rx_wants r) inp) s))"

text \<open>A node that runs and waits for a header.\<close>

definition nd_receiving :: "node \<Rightarrow> bool" where
  "nd_receiving s \<longleftrightarrow> nd_outcome (sc_user s) = Alive \<and> \<not> nd_stopped (sc_user s) \<and>
     (\<exists>r mem. nd_receiver (sc_user s) = Some r \<and> rx_holds r mem \<and> rx_place r = Rx_header)"

lemma nd_feed_message:
  assumes "nd_receiving s" and "msg_ok t bs m" and "t \<noteq> CONFIGURATION_QUERY"
  shows "\<exists>r1 r2 mem2. rx_holds r2 mem2 \<and> rx_place r2 = Rx_top \<and>
    nd_feed ord junk 2 (msg_wire t bs m) s =
      (case dp_dispatch ord junk INCOMING (msg_received t bs m) ((sc_user s)\<lparr>nd_receiver := Some r1\<rparr>) of
         Inl e \<Rightarrow> nd_crash e (s\<lparr>sc_user := (sc_user s)\<lparr>nd_receiver := Some r1\<rparr>\<rparr>)
       | Inr d \<Rightarrow> s\<lparr>sc_user := nd_set_receiver r2 d\<rparr>)"
proof -
  obtain r mem where r: "nd_receiver (sc_user s) = Some r" "rx_holds r mem" "rx_place r = Rx_header" "\<not> nd_stopped (sc_user s)"
    using assms(1) by (auto simp: nd_receiving_def)
  obtain r1 r2 mem2 where one: "rx_resume junk False (msg_header m) r = Inr (r1, None)" "rx_place r1 = Rx_body (msg_headed m)"
    and two: "rx_resume junk False (msg_payload t bs m) r1 = Inr (r2, Some (msg_received t bs m))"
    and r2: "rx_holds r2 mem2" "rx_place r2 = Rx_top"
    using rx_two [OF r(2,3) assms(2,3)] by blast
  let ?d1 = "(sc_user s)\<lparr>nd_receiver := Some r1\<rparr>"
  let ?s1 = "s\<lparr>sc_user := ?d1\<rparr>"
  have wants: "rx_wants r = length (msg_header m)" using r(3) by (simp add: rx_wants_def)
  have len: "rx_wants r1 = length (msg_payload t bs m)"
    using one(2) length_msg_payload [OF assms(2)] by (simp add: rx_wants_def)
  have step1: "nd_received ord junk (msg_header m) s = ?s1"
    using r one by (simp add: nd_received_def nd_set_receiver_def rx_top_def Let_def)
  have step2: "nd_received ord junk (msg_payload t bs m) ?s1 =
      (case dp_dispatch ord junk INCOMING (msg_received t bs m) ?d1 of
         Inl e \<Rightarrow> nd_crash e ?s1 | Inr d \<Rightarrow> s\<lparr>sc_user := nd_set_receiver r2 d\<rparr>)"
    using r two by (simp add: nd_received_def split: sum.splits)
  have "nd_feed ord junk 2 (msg_wire t bs m) s = nd_received ord junk (msg_payload t bs m) ?s1"
    using r wants len step1 by (simp add: numeral_2_eq_2 msg_wire_payload)
  then show ?thesis using step2 r2 by (intro exI conjI) (assumption | simp)+
qed

text \<open>Serving the one posted callback.\<close>

lemma nd_serve_posted:
  assumes "sg_posted (nd_signals (sc_user s)) = [(a, x)]" and "nd_callbacks (sc_user s) a = Some cb"
    and "nd_outcome (sc_user s) = Alive"
  shows "nd_ready halt Posted s = nd_callback halt cb x (nd_update (nd_signals_update (sg_posted_update (\<lambda>_. []))) s)"
  using assms by (simp add: nd_ready_def nd_serve_def)

lemma nd_set_receiver_running:
  "\<not> nd_stopped d \<Longrightarrow> rx_place r = Rx_top \<Longrightarrow> nd_set_receiver r d = d\<lparr>nd_receiver := Some (r\<lparr>rx_place := Rx_header\<rparr>)\<rparr>"
  by (simp add: nd_set_receiver_def rx_top_def Let_def)

text \<open>A dispatched message, emitted to its one callback, when the callback has been served.\<close>

lemma nd_served:
  assumes "nd_receiving s" and "nd_listens (sc_user s) i cb" and "\<And>xs. mset (ord xs) = mset xs"
    and "sg_posted (nd_signals (sc_user s)) = []" and "rx_place r2 = Rx_top"
  shows "nd_ready halt Posted (s\<lparr>sc_user := nd_set_receiver r2 (nd_emit ord i x ((sc_user s)\<lparr>nd_receiver := q\<rparr>))\<rparr>) =
    nd_callback halt cb x (nd_update (nd_receiver_update (\<lambda>_. Some (r2\<lparr>rx_place := Rx_header\<rparr>))) s)"
proof -
  let ?r = "r2\<lparr>rx_place := Rx_header\<rparr>"
  have run: "nd_outcome (sc_user s) = Alive" "\<not> nd_stopped (sc_user s)" using assms(1) by (simp_all add: nd_receiving_def)
  have "nd_listens ((sc_user s)\<lparr>nd_receiver := q\<rparr>) i cb" using assms(2) by (simp add: nd_listens_def)
  from nd_emit_listens [OF this assms(3), of x] obtain a where a: "nd_callbacks (sc_user s) a = Some cb"
    "nd_emit ord i x ((sc_user s)\<lparr>nd_receiver := q\<rparr>) =
      (sc_user s)\<lparr>nd_receiver := q, nd_signals := (nd_signals (sc_user s))\<lparr>sg_posted := [(a, x)]\<rparr>\<rparr>"
    using assms(4) by auto
  let ?s = "s\<lparr>sc_user := (sc_user s)\<lparr>nd_signals := (nd_signals (sc_user s))\<lparr>sg_posted := [(a, x)]\<rparr>, nd_receiver := Some ?r\<rparr>\<rparr>"
  have emitted: "s\<lparr>sc_user := nd_set_receiver r2 (nd_emit ord i x ((sc_user s)\<lparr>nd_receiver := q\<rparr>))\<rparr> = ?s"
    unfolding a(2) using run(2) assms(5) by (simp add: nd_set_receiver_running)
  have restored: "nd_signals_update (sg_posted_update (\<lambda>_. [])) (sc_user ?s) = (sc_user s)\<lparr>nd_receiver := Some ?r\<rparr>"
    using assms(4) by simp
  have "nd_ready halt Posted ?s = nd_callback halt cb x (nd_update (nd_signals_update (sg_posted_update (\<lambda>_. []))) ?s)"
    by (rule nd_serve_posted) (use a(1) run in simp_all)
  also have "nd_update (nd_signals_update (sg_posted_update (\<lambda>_. []))) ?s = nd_update (nd_receiver_update (\<lambda>_. Some ?r)) s"
    unfolding nd_update_def restored by simp
  finally show ?thesis unfolding emitted .
qed

lemma nd_deliver:
  assumes "nd_receiving s" and "msg_ok t bs m" and "t \<noteq> CONFIGURATION_QUERY"
    and "\<And>d. nd_configuration d = nd_configuration (sc_user s) \<Longrightarrow>
      dp_dispatch ord junk INCOMING (msg_received t bs m) d = call_handler ord INCOMING h (Inr x) d"
    and "nd_listens (sc_user s) (sig_of INCOMING h) cb" and "\<And>xs. mset (ord xs) = mset xs"
    and "sg_posted (nd_signals (sc_user s)) = []"
  shows "\<exists>r2 mem2. rx_holds r2 mem2 \<and> rx_place r2 = Rx_header \<and>
    nd_ready halt Posted (nd_feed ord junk 2 (msg_wire t bs m) s) =
      nd_callback halt cb x (nd_update (nd_receiver_update (\<lambda>_. Some r2)) s)"
proof -
  obtain r1 r2 mem2 where r2: "rx_holds r2 mem2" "rx_place r2 = Rx_top"
    and feed: "nd_feed ord junk 2 (msg_wire t bs m) s =
      (case dp_dispatch ord junk INCOMING (msg_received t bs m) ((sc_user s)\<lparr>nd_receiver := Some r1\<rparr>) of
         Inl e \<Rightarrow> nd_crash e (s\<lparr>sc_user := (sc_user s)\<lparr>nd_receiver := Some r1\<rparr>\<rparr>)
       | Inr d \<Rightarrow> s\<lparr>sc_user := nd_set_receiver r2 d\<rparr>)"
    using nd_feed_message [OF assms(1-3)] by blast
  have disp: "dp_dispatch ord junk INCOMING (msg_received t bs m) ((sc_user s)\<lparr>nd_receiver := Some r1\<rparr>) =
      call_handler ord INCOMING h (Inr x) ((sc_user s)\<lparr>nd_receiver := Some r1\<rparr>)" by (rule assms(4)) simp
  have "nd_ready halt Posted (nd_feed ord junk 2 (msg_wire t bs m) s) =
      nd_callback halt cb x (nd_update (nd_receiver_update (\<lambda>_. Some (r2\<lparr>rx_place := Rx_header\<rparr>))) s)"
    unfolding feed disp call_handler_def bindE_simps sum.case by (rule nd_served [OF assms(1,5,6,7) r2(2)])
  then show ?thesis using r2(1) by (intro exI [of _ "r2\<lparr>rx_place := Rx_header\<rparr>"] exI [of _ mem2]) simp
qed

section \<open>Handshake messages\<close>

lemma hs_message_ok: "\<exists>m. hs_message r = Inr m \<and> msg_ok HANDSHAKE (hs_bytes (hs_make PROTOCOL_VERSION (role_code r))) m"
  unfolding hs_message_def
  by (rule msg_of_body_ok [OF hs_writes]) (simp_all add: hs_size_def)

definition hr_bytes :: "handshake_response \<Rightarrow> byte list" where
  "hr_bytes h = [hr_acknowledge h, hr_role h]"

lemma hr_message_ok: "\<exists>m. hr_message h = Inr m \<and> msg_ok HANDSHAKE_RESPONSE (hr_bytes h) m"
  unfolding hr_message_def
proof (rule msg_of_body_ok)
  show "mem.writes (hr_encode h) (hr_bytes h)" unfolding hr_encode_def hr_bytes_def by (rule mem.writes_emit)
qed (simp_all add: hr_size_def hr_bytes_def)

lemma tx_encode_ok: "msg_ok t bs m \<Longrightarrow> tx_encode m = Inr (Encode_Success, msg_wire t bs m)"
  using write_exact [OF msg_encode_writes, of t bs m] msg_encoded_size_law [of t bs m] by (simp add: tx_encode_def)

lemma dispatch_handshake:
  assumes "msg_ok HANDSHAKE (hs_bytes h) m"
  shows "dp_dispatch ord junk dir (msg_received HANDSHAKE (hs_bytes h) m) d = call_handler ord dir H_handshake (Inr (A_handshake h)) d"
proof -
  have "msg_as hs_decode_copy (msg_received HANDSHAKE (hs_bytes h) m) = Inr h"
    by (rule msg_as_consumes [OF hs_consumes]) (simp add: msg_received_def)
  moreover have "msg_type (msg_received HANDSHAKE (hs_bytes h) m) = type_code HANDSHAKE"
    using assms by (simp add: msg_received_def msg_ok_def)
  ultimately show ?thesis by (simp add: dp_dispatch_def)
qed

lemma dispatch_response:
  assumes "msg_ok HANDSHAKE_RESPONSE (hr_bytes h) m"
  shows "dp_dispatch ord junk dir (msg_received HANDSHAKE_RESPONSE (hr_bytes h) m) d = call_handler ord dir H_response (Inr (A_response h)) d"
proof -
  have "msg_as (hr_decode_copy j) (msg_received HANDSHAKE_RESPONSE (hr_bytes h) m) = Inr h" for j
    by (rule msg_as_consumes [OF hr_consumes]) (simp add: msg_received_def hr_bytes_def)
  moreover have "msg_type (msg_received HANDSHAKE_RESPONSE (hr_bytes h) m) = type_code HANDSHAKE_RESPONSE"
    using assms by (simp add: msg_received_def msg_ok_def)
  ultimately show ?thesis by (simp add: dp_dispatch_def)
qed

section \<open>A launched node\<close>

definition nd_ready_to_talk :: "node \<Rightarrow> bool" where
  "nd_ready_to_talk s \<longleftrightarrow> nd_receiving s \<and> sg_posted (nd_signals (sc_user s)) = [] \<and>
     nd_listens (sc_user s) (sig_of INCOMING H_handshake) Cb_handshake \<and> nd_listens (sc_user s) (sig_of INCOMING H_response) Cb_response \<and>
     nd_listens (sc_user s) (sig_of INCOMING H_query) Cb_query \<and> sg_actions (nd_signals (sc_user s)) (sig_of INCOMING H_configuration) = []"

lemma nd_ready_frame:
  assumes "nd_ready_to_talk s" and "nd_outcome d = Alive" and "\<not> nd_stopped d" and "nd_receiver d = nd_receiver (sc_user s)"
    and "nd_signals d = nd_signals (sc_user s)" and "nd_callbacks d = nd_callbacks (sc_user s)" and "sc_user s' = d"
  shows "nd_ready_to_talk s'"
  using assms by (simp add: nd_ready_to_talk_def nd_receiving_def nd_listens_def)

lemma wp_make_idle: "wp_inv (wp_make n)" "wp_workers (wp_make n) = sa_mk [] n"
  by (simp_all add: wp_make_def wp_inv_def sa_alloc_mk)

text \<open>Installing a dispatcher leaves the rest of the node alone.\<close>

lemma nd_with_dispatcher_sel [simp]:
  "nd_role (nd_with_dispatcher p d) = nd_role d" "nd_pool (nd_with_dispatcher p d) = nd_pool d"
  "nd_stopped (nd_with_dispatcher p d) = nd_stopped d" "nd_outcome (nd_with_dispatcher p d) = nd_outcome d"
  "nd_queue (nd_with_dispatcher p d) = nd_queue d" "nd_halting (nd_with_dispatcher p d) = nd_halting d"
  "nd_disconnect_emitted (nd_with_dispatcher p d) = nd_disconnect_emitted d"
  "nd_sync_action (nd_with_dispatcher p d) = nd_sync_action d" "nd_requests (nd_with_dispatcher p d) = nd_requests d"
  "nd_disconnects (nd_with_dispatcher p d) = nd_disconnects d" "nd_wire (nd_with_dispatcher p d) = nd_wire d"
  "nd_notified (nd_with_dispatcher p d) = nd_notified d"
  by (simp_all add: nd_with_dispatcher_def)

lemma nd_new_fields:
  "nd_role (sc_user (nd_new now n role)) = role" "nd_pool (sc_user (nd_new now n role)) = wp_make 6"
  "\<not> nd_stopped (sc_user (nd_new now n role))" "nd_outcome (sc_user (nd_new now n role)) = Alive"
  "nd_queue (sc_user (nd_new now n role)) = sq_new n"
  "\<not> nd_halting (sc_user (nd_new now n role))" "\<not> nd_disconnect_emitted (sc_user (nd_new now n role))"
  "nd_sync_action (sc_user (nd_new now n role)) = None" "nd_requests (sc_user (nd_new now n role)) = 0"
  "nd_disconnects (sc_user (nd_new now n role)) = 0" "nd_wire (sc_user (nd_new now n role)) = []"
  "nd_notified (sc_user (nd_new now n role)) = 0"
  unfolding nd_new_def sc_new_def scheduler.select_convs
  by simp_all

lemma nd_new_scheduler:
  "sc_next (nd_new now n role) = 0" "sc_waits (nd_new now n role) = (\<lambda>_. [])" "sc_now (nd_new now n role) = now"
  "sc_tasks (nd_new now n role) = []" "sc_periodics (nd_new now n role) = (\<lambda>_. None)" "sc_slots (nd_new now n role) = (\<lambda>_. None)"
  by (simp_all add: nd_new_def sc_new_def)

text \<open>Launching a new node queues its handshake, starts the pool and the loops, and sets the five-second timer.\<close>

lemma nd_launch_new:
  "\<exists>s m. nd_launch junk (nd_new now n role) = (True, s) \<and> nd_ready_to_talk s \<and> nd_role (sc_user s) = role \<and>
    hs_message role = Inr m \<and> sq_items (nd_queue (sc_user s)) = [m] \<and> nd_sender (sc_user s) = Tx_top \<and>
    nd_halt_action (sc_user s) = Some 0 \<and> sc_actions s 0 = Some HALT_FN \<and> sc_waits s (Of_action 0) = [Once 0] \<and>
    sc_expiry s (Of_action 0) = now + 5000000000 \<and> sc_tasks s = [] \<and> sc_slots s = (\<lambda>_. None) \<and> sc_next s = 1 \<and>
    wp_inv (nd_pool (sc_user s)) \<and> \<not> wp_stopped (nd_pool (sc_user s)) \<and> \<not> nd_halting (sc_user s) \<and>
    wp_workers (nd_pool (sc_user s)) = sa_mk (map wk_on [1..<7]) 6 \<and> nd_sync_action (sc_user s) = None \<and>
    sq_sleeping (nd_queue (sc_user s)) = [] \<and> nd_listens (sc_user s) (sig_of INCOMING H_control) Cb_print \<and>
    sq_entering (nd_queue (sc_user s)) = [] \<and> sq_woken (nd_queue (sc_user s)) = [] \<and> \<not> sq_aborted (nd_queue (sc_user s)) \<and>
    nd_wire (sc_user s) = [] \<and> nd_listens (sc_user s) (sig_of OUTGOING H_handshake) Cb_print \<and>
    nd_listens (sc_user s) (sig_of OUTGOING H_response) Cb_print \<and> sc_waits s (Of_slot (rate_hz 1)) = [] \<and>
    nd_requests (sc_user s) = 0 \<and> sq_num_waiters (nd_queue (sc_user s)) = n \<and> \<not> sc_moved s 0 \<and> sc_now s = now \<and>
    nd_notified (sc_user s) = 0 \<and> nd_disconnects (sc_user s) = 0 \<and> \<not> nd_disconnect_emitted (sc_user s)"
proof -
  let ?s = "nd_new now n role"
  obtain m where m: "hs_message role = Inr m" using hs_message_ok by blast
  let ?p = "(wp_make 6)\<lparr>wp_waiter := True, wp_workers := sa_mk (map wk_on [1..<7]) 6, wp_next_thread := 7\<rparr>"
  have next1: "wp_next_thread (wp_make 6) = 1" by (simp add: wp_make_def)
  have p: "wp_launch (wp_make 6) = Inr (True, ?p)"
    using wp_launch_full [OF wp_make_idle, of 6] unfolding next1 by simp
  have pinv: "wp_inv ?p" by (auto simp: wp_inv_def wk_on_def)
  have idle: "wp_running False (wp_make 6) = Inr False"
    using wp_make_idle(2) [of 6] by (simp add: wp_running_def)
  obtain r where r: "rx_start junk = Inr r" "rx_holds r (replicate BUFSIZ 0)" "rx_place r = Rx_top"
    using rx_start_holds by blast
  let ?d = "(nd_push m (sc_user ?s))\<lparr>nd_pool := ?p, nd_receiver := Some (rx_top False r), nd_sender := Tx_top, nd_halt_action := Some 0\<rparr>"
  let ?t = "(sc_set_timer 5000000000 HALT_FN ?s)"
  have "nd_launch junk ?s = (True, (snd ?t)\<lparr>sc_user := ?d\<rparr>)"
    using m p idle r(1) by (simp add: nd_launch_def nd_new_fields nd_update_def sc_set_timer_def sa_make_def sa_reset_def timer_defs
        nd_new_scheduler Let_def nd_push_def)
  moreover have "nd_ready_to_talk ((snd ?t)\<lparr>sc_user := ?d\<rparr>)"
  proof -
    have "nd_listens ?d i cb = nd_listens (sc_user ?s) i cb" for i cb by (rule nd_listens_frame) simp_all
    moreover have "sg_posted (nd_signals ?d) = []" "sg_actions (nd_signals ?d) (sig_of INCOMING H_configuration) = []"
      by (simp_all add: nd_new_signals) (simp_all add: nd_signals_set_def sg_actions_def sig_of_def handler_index_def)
    moreover have "rx_holds (rx_top False r) (replicate BUFSIZ 0)" "rx_place (rx_top False r) = Rx_header"
      using r(2,3) by (simp_all add: rx_top_def)
    ultimately show ?thesis
      using nd_new_listens [of now n role] by (auto simp: nd_ready_to_talk_def nd_receiving_def nd_new_fields)
  qed
  moreover have "nd_listens ?d (sig_of INCOMING H_control) Cb_print" "nd_listens ?d (sig_of OUTGOING H_handshake) Cb_print"
    "nd_listens ?d (sig_of OUTGOING H_response) Cb_print"
    using nd_new_listens(4-6) [of now n role] nd_listens_frame [of ?d "sc_user ?s"] by simp_all
  moreover have "sq_items (nd_queue ?d) = [m]"
    using sq_items_push [of m "sc_user ?s"] by (simp add: nd_new_fields sq_new_def)
  moreover have "sq_sleeping (nd_queue ?d) = []" "sq_entering (nd_queue ?d) = []" "sq_woken (nd_queue ?d) = []"
    "\<not> sq_aborted (nd_queue ?d)" "nd_wire ?d = []" "nd_requests ?d = 0" "sq_num_waiters (nd_queue ?d) = n" "nd_notified ?d = 0"
    by (simp_all add: nd_push_def nd_new_fields sq_new_def sq_push_def)
  ultimately show ?thesis
    using m pinv by (intro exI [of _ "(snd ?t)\<lparr>sc_user := ?d\<rparr>"] exI [of _ m])
      (simp add: sc_set_timer_def sa_make_def sa_reset_def timer_defs nd_new_scheduler nd_new_fields Let_def, simp add: wp_make_def)
qed

section \<open>Accepted handshakes\<close>

text \<open>A node whose SYNC action runs, with the handshake timer out of its hands.\<close>

definition nd_syncing :: "node \<Rightarrow> bool" where
  "nd_syncing s \<longleftrightarrow> nd_halt_action (sc_user s) = None \<and>
     (\<exists>p. nd_sync_action (sc_user s) = Some p \<and> p \<in> set (sl_actions s (rate_hz 1)) \<and>
       sc_periodics s p = Some \<lparr>pa_slot = rate_hz 1, pa_function = SYNC_FN, pa_active = True\<rparr>)"

lemma sl_reset_timer_frame [simp]:
  "sc_user (sl_reset_timer i s) = sc_user s" "sc_periodics (sl_reset_timer i s) = sc_periodics s"
  "sl_actions (sl_reset_timer i s) j = sl_actions s j" "sc_waits (sl_reset_timer i s) (Of_action a) = sc_waits s (Of_action a)"
  "sc_actions (sl_reset_timer i s) = sc_actions s" "sc_slots (sl_reset_timer i s) = sc_slots s" "sc_next (sl_reset_timer i s) = sc_next s"
  "Remove_periodic q \<in> set (sc_tasks (sl_reset_timer i s)) \<longleftrightarrow> Remove_periodic q \<in> set (sc_tasks s)"
  by (auto simp add: sl_reset_timer_eq sl_actions_def)

lemma sc_schedule_effect:
  assumes "sc_schedule i f s = (p, s')"
  shows "p = sc_next s" "sl_actions s' i = p # sl_actions s i" "sc_periodics s' = (sc_periodics s)(p \<mapsto> \<lparr>pa_slot = i, pa_function = f, pa_active = True\<rparr>)"
    "sc_user s' = sc_user s" "sc_waits s' (Of_action a) = sc_waits s (Of_action a)" "sc_actions s' = sc_actions s" "sc_next s' = Suc p"
    "Remove_periodic q \<in> set (sc_tasks s') \<longleftrightarrow> Remove_periodic q \<in> set (sc_tasks s)"
  using assms by (auto simp: sc_schedule_def sl_emplace_def Let_def sl_actions_def split: if_splits)

lemma nd_accepted_effect:
  "nd_syncing (nd_accepted s)"
  "nd_halt_action (sc_user s) = Some t \<Longrightarrow> sc_actions s t \<noteq> None \<Longrightarrow> sc_waits (nd_accepted s) (Of_action t) = []"
  "sc_user (nd_accepted s) = (sc_user s)\<lparr>nd_halt_action := None, nd_sync_action := Some (sc_next s)\<rparr>"
  "sl_actions (nd_accepted s) (rate_hz 1) = sc_next s # sl_actions s (rate_hz 1)" "sc_next (nd_accepted s) = Suc (sc_next s)"
  "Remove_periodic q \<in> set (sc_tasks (nd_accepted s)) \<longleftrightarrow> Remove_periodic q \<in> set (sc_tasks s)"
  "sc_periodics (nd_accepted s) (sc_next s) \<noteq> None"
proof -
  define s1 where "s1 = (case nd_halt_action (sc_user s) of None \<Rightarrow> s | Some a \<Rightarrow> if sc_actions s a = None then s else sa_cancel a s)"
  define s2 where "s2 = nd_update (nd_halt_action_update (\<lambda>_. None)) s1"
  obtain p s3 where s3: "sc_schedule (rate_hz 1) SYNC_FN s2 = (p, s3)" by (cases "sc_schedule (rate_hz 1) SYNC_FN s2")
  note eff = sc_schedule_effect [OF s3]
  have acc: "nd_accepted s = nd_update (nd_sync_action_update (\<lambda>_. Some p)) s3"
    using s3 by (simp add: nd_accepted_def Let_def flip: s1_def s2_def)
  have s1: "sc_user s1 = sc_user s" "sl_actions s1 i = sl_actions s i" "sc_next s1 = sc_next s"
      "Remove_periodic q \<in> set (sc_tasks s1) \<longleftrightarrow> Remove_periodic q \<in> set (sc_tasks s)" for i
    by (auto simp: s1_def sa_cancel_def io_post_def tm_cancel_def sl_actions_def split: option.splits)
  note user = s1(1)
  show "nd_syncing (nd_accepted s)"
    using eff(2,3) user by (simp add: nd_syncing_def acc eff(4)) (simp add: s2_def)
  show "sc_user (nd_accepted s) = (sc_user s)\<lparr>nd_halt_action := None, nd_sync_action := Some (sc_next s)\<rparr>"
    using user eff(1) s1(3) by (simp add: acc eff(4) s2_def)
  show "sl_actions (nd_accepted s) (rate_hz 1) = sc_next s # sl_actions s (rate_hz 1)" "sc_next (nd_accepted s) = Suc (sc_next s)"
    using eff(1,2,7) s1 by (simp_all add: acc s2_def)
  show "Remove_periodic q \<in> set (sc_tasks (nd_accepted s)) \<longleftrightarrow> Remove_periodic q \<in> set (sc_tasks s)"
    using eff(8) s1(4) by (simp add: acc s2_def)
  show "sc_periodics (nd_accepted s) (sc_next s) \<noteq> None"
    using eff(1,3) s1(3) by (simp add: acc s2_def)
  assume "nd_halt_action (sc_user s) = Some t" "sc_actions s t \<noteq> None"
  then show "sc_waits (nd_accepted s) (Of_action t) = []"
    by (auto simp: acc eff(5) s2_def s1_def sa_cancel_def io_post_def tm_cancel_def)
qed

section \<open>Properties\<close>

text \<open>
  Claim C6. The handshake of two nodes. The message a node sends at launch is encoded, read by the other node's
  receive loop, dispatched to its callback and answered with exactly one response; that response, encoded,
  read and dispatched by the first node, is an acceptance exactly when the two nodes have different roles.
  Then the first node's five-second timer is disarmed and its SYNC action scheduled; otherwise it calls
  \<open>halt\<close>.
\<close>

theorem handshake_exchange:
  assumes "nd_ready_to_talk a" and "nd_ready_to_talk b" and "nd_halt_action (sc_user a) = Some t" and "sc_actions a t \<noteq> None"
    and "\<And>xs. mset (ord xs) = mset xs"
  shows "\<exists>m w m' w' a' b'. hs_message (nd_role (sc_user a)) = Inr m \<and> tx_encode m = Inr (Encode_Success, w) \<and>
    b' = nd_ready halt Posted (nd_feed ord junk 2 w b) \<and> nd_ready_to_talk b' \<and>
    sq_items (nd_queue (sc_user b')) = sq_items (nd_queue (sc_user b)) @ [m'] \<and>
    tx_encode m' = Inr (Encode_Success, w') \<and> a' = nd_ready halt Posted (nd_feed ord junk 2 w' a) \<and>
    (if nd_role (sc_user a) \<noteq> nd_role (sc_user b)
     then nd_ready_to_talk a' \<and> nd_syncing a' \<and> sc_waits a' (Of_action t) = []
     else \<exists>r. a' = halt (nd_update (nd_receiver_update (\<lambda>_. Some r)) a))"
proof -
  let ?ra = "nd_role (sc_user a)" and ?rb = "nd_role (sc_user b)"
  let ?h = "hs_make PROTOCOL_VERSION (role_code ?ra)"
  let ?x = "hs_respond ?rb ?h"
  obtain m where m: "hs_message ?ra = Inr m" "msg_ok HANDSHAKE (hs_bytes ?h) m" using hs_message_ok by blast
  obtain m' where m': "hr_message ?x = Inr m'" "msg_ok HANDSHAKE_RESPONSE (hr_bytes ?x) m'" using hr_message_ok by blast
  let ?w = "msg_wire HANDSHAKE (hs_bytes ?h) m" and ?w' = "msg_wire HANDSHAKE_RESPONSE (hr_bytes ?x) m'"
  have ready: "nd_receiving a" "nd_receiving b" "sg_posted (nd_signals (sc_user a)) = []" "sg_posted (nd_signals (sc_user b)) = []"
    "nd_listens (sc_user a) (sig_of INCOMING H_response) Cb_response" "nd_listens (sc_user b) (sig_of INCOMING H_handshake) Cb_handshake"
    using assms(1,2) by (simp_all add: nd_ready_to_talk_def)
  obtain rb memb where rb: "rx_holds rb memb" "rx_place rb = Rx_header"
    "nd_ready halt Posted (nd_feed ord junk 2 ?w b) =
      nd_callback halt Cb_handshake (A_handshake ?h) (nd_update (nd_receiver_update (\<lambda>_. Some rb)) b)"
    using nd_deliver [OF ready(2) m(2) _ dispatch_handshake [OF m(2)] ready(6) assms(5) ready(4), of halt junk] by auto
  let ?b = "nd_update (nd_push m') (nd_update (nd_receiver_update (\<lambda>_. Some rb)) b)"
  have b: "nd_ready halt Posted (nd_feed ord junk 2 ?w b) = ?b"
    unfolding rb(3) using m'(1) by (simp add: nd_callback_def)
  have talkb: "nd_ready_to_talk ?b"
    using assms(2) rb(1,2) by (auto simp: nd_ready_to_talk_def nd_receiving_def nd_listens_def)
  obtain ra mema where ra: "rx_holds ra mema" "rx_place ra = Rx_header"
    "nd_ready halt Posted (nd_feed ord junk 2 ?w' a) =
      nd_callback halt Cb_response (A_response ?x) (nd_update (nd_receiver_update (\<lambda>_. Some ra)) a)"
    using nd_deliver [OF ready(1) m'(2) _ dispatch_response [OF m'(2)] ready(5) assms(5) ready(3), of halt junk] by auto
  let ?start = "nd_update (nd_receiver_update (\<lambda>_. Some ra)) a"
  have ack: "hr_acknowledge ?x = ack_code ACK \<longleftrightarrow> ?ra \<noteq> ?rb"
    by (cases ?ra; cases ?rb) (simp_all add: hs_respond_def hs_acknowledge_def hs_make_def role_code_def ack_code_def)
  have a: "nd_ready halt Posted (nd_feed ord junk 2 ?w' a) = (if ?ra \<noteq> ?rb then nd_accepted ?start else halt ?start)"
    unfolding ra(3) using ack by (simp add: nd_callback_def)
  note p = nd_accepted_effect(3) [of ?start]
  have talka: "nd_ready_to_talk (nd_accepted ?start)"
    using assms(1) ra(1,2) p by (auto simp: nd_ready_to_talk_def nd_receiving_def nd_listens_def)
  let ?a = "nd_ready halt Posted (nd_feed ord junk 2 ?w' a)"
  have fin: "if ?ra \<noteq> ?rb then nd_ready_to_talk ?a \<and> nd_syncing ?a \<and> sc_waits ?a (Of_action t) = []
     else \<exists>r. ?a = halt (nd_update (nd_receiver_update (\<lambda>_. Some r)) a)"
    unfolding a using talka nd_accepted_effect(1) [of ?start] nd_accepted_effect(2) [of ?start t] assms(3,4) by auto
  have items: "sq_items (nd_queue (sc_user ?b)) = sq_items (nd_queue (sc_user b)) @ [m']" by simp
  show ?thesis
    by (rule exI [of _ m], rule exI [of _ ?w], rule exI [of _ m'], rule exI [of _ ?w'], rule exI [of _ ?a], rule exI [of _ ?b])
      (intro conjI m(1) tx_encode_ok [OF m(2)] tx_encode_ok [OF m'(2)] b [symmetric] talkb items refl fin)
qed

definition node_a :: node where
  "node_a = snd (nd_launch (\<lambda>_. 0) (nd_new 0 0 MASTER))"

definition node_b :: node where
  "node_b = snd (nd_launch (\<lambda>_. 0) (nd_new 7 0 SLAVE))"

lemma node_ab_facts:
  "nd_ready_to_talk node_a" "nd_ready_to_talk node_b" "nd_halt_action (sc_user node_a) = Some 0" "sc_actions node_a 0 \<noteq> None"
  "nd_listens (sc_user node_b) (sig_of INCOMING H_control) Cb_print"
  using nd_launch_new [of "\<lambda>_. 0" 0 0 MASTER] nd_launch_new [of "\<lambda>_. 0" 7 0 SLAVE]
  by (auto simp: node_a_def node_b_def)

lemma node_a_facts:
  "nd_receiving node_a" "\<not> nd_halting (sc_user node_a)" "sc_tasks node_a = []" "sc_slots node_a = (\<lambda>_. None)" "sc_next node_a = 1"
  "sq_sleeping (nd_queue (sc_user node_a)) = []" "nd_sender (sc_user node_a) = Tx_top" "wp_inv (nd_pool (sc_user node_a))"
  "\<not> wp_stopped (nd_pool (sc_user node_a))" "wp_workers (nd_pool (sc_user node_a)) = sa_mk (map wk_on [1..<7]) 6"
  using nd_launch_new [of "\<lambda>_. 0" 0 0 MASTER] by (auto simp: node_a_def nd_ready_to_talk_def simp del: upt_Suc)

lemma node_a_waits: "sc_waits node_a (Of_action 0) = [Once 0]"
  using nd_launch_new [of "\<lambda>_. 0" 0 0 MASTER] by (auto simp: node_a_def)

theorem handshake_exchange_witness:
  "\<exists>m w m' w' a' b'. hs_message (nd_role (sc_user node_a)) = Inr m \<and> tx_encode m = Inr (Encode_Success, w) \<and>
    b' = nd_ready id Posted (nd_feed id (\<lambda>_. 0) 2 w node_b) \<and> nd_ready_to_talk b' \<and>
    sq_items (nd_queue (sc_user b')) = sq_items (nd_queue (sc_user node_b)) @ [m'] \<and>
    tx_encode m' = Inr (Encode_Success, w') \<and> a' = nd_ready id Posted (nd_feed id (\<lambda>_. 0) 2 w' node_a) \<and>
    (if nd_role (sc_user node_a) \<noteq> nd_role (sc_user node_b)
     then nd_ready_to_talk a' \<and> nd_syncing a' \<and> sc_waits a' (Of_action 0) = []
     else \<exists>r. a' = id (nd_update (nd_receiver_update (\<lambda>_. Some r)) node_a))"
  by (rule handshake_exchange [OF node_ab_facts(1-4)]) simp

section \<open>Halting\<close>

lemma nd_emit_sel [simp]:
  "nd_emit ord i x d = d\<lparr>nd_signals := sg_emit ord (\<lambda>_ _ w. w) i x (nd_signals d)\<rparr>"
  by (simp add: nd_emit_def)

lemma nd_close_sel:
  "nd_outcome (nd_close d) = nd_outcome d" "nd_stopped (nd_close d) = nd_stopped d" "nd_halting (nd_close d) = nd_halting d"
  "nd_pool (nd_close d) = nd_pool d" "nd_sync_action (nd_close d) = nd_sync_action d" "nd_halt_action (nd_close d) = nd_halt_action d"
  "\<not> nd_socket_open (nd_close d)" "nd_disconnect_emitted (nd_close d)" "nd_notified (nd_close d) = nd_notified d"
  "nd_disconnects (nd_close d) = (if nd_disconnect_emitted d then nd_disconnects d else nd_disconnects d + 1)"
  "nd_queue (nd_close d) = (if sq_num_waiters (nd_queue d) > 0 then sq_wake_all (nd_queue d) else nd_queue d)"
  by (simp_all add: nd_close_def Let_def)

lemma sa_cancel_sel [simp]:
  "sc_user (sa_cancel a s) = sc_user s" "sl_actions (sa_cancel a s) i = sl_actions s i" "set (sc_tasks s) \<subseteq> set (sc_tasks (sa_cancel a s))"
  by (auto simp: sa_cancel_def io_post_def tm_cancel_def sl_actions_def)

lemma pa_cancel_sel [simp]:
  "sc_user (pa_cancel p s) = sc_user s" "sl_actions (pa_cancel p s) i = sl_actions s i" "Remove_periodic p \<in> set (sc_tasks (pa_cancel p s))"
  "sc_tasks (pa_cancel p s) = sc_tasks s @ [Remove_periodic p]"
  by (auto simp: pa_cancel_def pa_pause_def io_post_def sl_actions_def)

definition nd_cancelled_sync :: "node \<Rightarrow> node" where
  "nd_cancelled_sync s =
     (case nd_sync_action (sc_user s) of None \<Rightarrow> s | Some p \<Rightarrow> if sc_periodics s p = None then s else pa_cancel p s)"

lemma nd_cancelled_sync_sel [simp]:
  "sc_user (nd_cancelled_sync s) = sc_user s" "sl_actions (nd_cancelled_sync s) i = sl_actions s i"
  by (simp_all add: nd_cancelled_sync_def split: option.splits)

lemma nd_cancel_actions_eq:
  "nd_cancel_actions s = nd_update (\<lambda>d. d\<lparr>nd_sync_action := None, nd_halt_action := None\<rparr>)
     (case nd_halt_action (sc_user s) of None \<Rightarrow> nd_cancelled_sync s
      | Some a \<Rightarrow> if sc_actions (nd_cancelled_sync s) a = None then nd_cancelled_sync s else sa_cancel a (nd_cancelled_sync s))"
  by (simp add: nd_cancel_actions_def Let_def flip: nd_cancelled_sync_def)

lemma nd_cancel_actions_sel:
  "sc_user (nd_cancel_actions s) = (sc_user s)\<lparr>nd_sync_action := None, nd_halt_action := None\<rparr>"
  "sl_actions (nd_cancel_actions s) i = sl_actions s i"
  "nd_sync_action (sc_user s) = Some p \<Longrightarrow> sc_periodics s p \<noteq> None \<Longrightarrow> Remove_periodic p \<in> set (sc_tasks (nd_cancel_actions s))"
  by (auto simp: nd_cancel_actions_eq split: option.splits)
    (auto simp: nd_cancelled_sync_def sa_cancel_def io_post_def tm_cancel_def)

text \<open>The pool of a node: its threads, and whether a given thread is one of them.\<close>

definition nd_pooled :: "node_data \<Rightarrow> worker list \<Rightarrow> bool" where
  "nd_pooled d ws \<longleftrightarrow> wp_inv (nd_pool d) \<and> (\<exists>cap. length ws \<le> cap \<and> wp_workers (nd_pool d) = sa_mk ws cap) \<and>
     \<not> wp_stopped (nd_pool d)"

definition on_worker :: "nat \<Rightarrow> worker list \<Rightarrow> bool" where
  "on_worker self ws = list_ex (\<lambda>w. wk_thread w = Some self) ws"

lemma nd_can_halt: "nd_pooled d ws \<Longrightarrow> wp_can_halt self (nd_pool d) = Inr (\<not> on_worker self ws)"
  by (auto simp: nd_pooled_def wp_can_halt_def on_worker_def)

lemma nd_halt_workers_ok:
  assumes "nd_pooled (sc_user s) ws" and "\<not> on_worker self ws" and "sq_sleeping (nd_queue (sc_user s)) = []" and "\<not> nd_ticking s"
    and "\<not> nd_transferring (sc_user s)" and "\<not> nd_timing s"
  shows "\<exists>p. nd_halt_workers self False s = nd_update (nd_pool_update (\<lambda>_. p)) s \<and> wp_num_live_threads p = Inr 0"
proof -
  obtain cap where cap: "wp_inv (nd_pool (sc_user s))" "wp_workers (nd_pool (sc_user s)) = sa_mk ws cap" "length ws \<le> cap"
    using assms(1) by (auto simp: nd_pooled_def)
  show ?thesis
    using assms(2-6) by (simp add: nd_halt_workers_def Let_def wp_halt_eq [OF cap] on_worker_def)
      (intro exI conjI, rule refl, simp add: wp_num_live_threads_def)
qed

lemma nd_halt_workers_hangs:
  assumes "nd_pooled (sc_user s) ws" and "\<not> on_worker self ws" and "ws \<noteq> []"
    and "other \<or> sq_sleeping (nd_queue (sc_user s)) \<noteq> [] \<or> nd_ticking s \<or> nd_transferring (sc_user s)"
  shows "nd_halt_workers self other s = nd_hang s"
proof -
  obtain cap where cap: "wp_inv (nd_pool (sc_user s))" "wp_workers (nd_pool (sc_user s)) = sa_mk ws cap" "length ws \<le> cap"
    using assms(1) by (auto simp: nd_pooled_def)
  then show ?thesis
    using assms by (auto simp: nd_halt_workers_def Let_def wp_halt_eq [OF cap] on_worker_def nd_pooled_def)
qed

text \<open>Everything \<open>halt\<close> does before it waits for the pool.\<close>

definition nd_shut :: "node \<Rightarrow> node" where
  "nd_shut s = nd_cancel_actions (nd_update nd_close (nd_update (\<lambda>d. d\<lparr>nd_halting := True, nd_stopped := True\<rparr>) s))"

lemma nd_shut_sel:
  "nd_outcome (sc_user (nd_shut s)) = nd_outcome (sc_user s)" "nd_stopped (sc_user (nd_shut s))" "nd_halting (sc_user (nd_shut s))"
  "nd_pool (sc_user (nd_shut s)) = nd_pool (sc_user s)" "nd_sync_action (sc_user (nd_shut s)) = None"
  "nd_halt_action (sc_user (nd_shut s)) = None" "\<not> nd_socket_open (sc_user (nd_shut s))"
  "nd_disconnect_emitted (sc_user (nd_shut s))" "nd_notified (sc_user (nd_shut s)) = nd_notified (sc_user s)"
  "nd_disconnects (sc_user (nd_shut s)) =
    (if nd_disconnect_emitted (sc_user s) then nd_disconnects (sc_user s) else nd_disconnects (sc_user s) + 1)"
  "nd_queue (sc_user (nd_shut s)) =
    (if sq_num_waiters (nd_queue (sc_user s)) > 0 then sq_wake_all (nd_queue (sc_user s)) else nd_queue (sc_user s))"
  "sl_actions (nd_shut s) i = sl_actions s i"
  by (simp_all add: nd_shut_def nd_cancel_actions_sel nd_close_sel)

lemma nd_shut_closed: "\<not> nd_transferring (sc_user (nd_shut s))"
  by (simp add: nd_transferring_def nd_shut_sel)

text \<open>The handshake timer is cancelled, and no other timer is touched.\<close>

lemma sa_cancel_waits [simp]:
  "sc_waits (sa_cancel a s) = (sc_waits s)(Of_action a := [])" "sc_next (sa_cancel a s) = sc_next s"
  "sc_actions (sa_cancel a s) = sc_actions s"
  by (simp_all add: sa_cancel_def io_post_def tm_cancel_def)

lemma nd_cancelled_sync_waits [simp]:
  "sc_waits (nd_cancelled_sync s) = sc_waits s" "sc_next (nd_cancelled_sync s) = sc_next s"
  "sc_actions (nd_cancelled_sync s) = sc_actions s"
  by (simp_all add: nd_cancelled_sync_def pa_cancel_def pa_pause_def io_post_def split: option.splits)

lemma nd_shut_waits:
  "sc_next (nd_shut s) = sc_next s"
  "nd_halt_action (sc_user s) = Some a \<Longrightarrow> sc_actions s a \<noteq> None \<Longrightarrow> sc_waits (nd_shut s) = (sc_waits s)(Of_action a := [])"
  "nd_halt_action (sc_user s) = None \<Longrightarrow> sc_waits (nd_shut s) = sc_waits s"
  by (auto simp: nd_shut_def nd_cancel_actions_eq nd_close_sel split: option.splits)

lemma nd_timing_quiet: "\<not> nd_timing s \<longleftrightarrow> (\<forall>a < sc_next s. sc_waits s (Of_action a) = [])"
  by (auto simp: nd_timing_def list_ex_iff)

lemma nd_shut_removes:
  assumes "nd_sync_action (sc_user s) = Some p" and "sc_periodics s p \<noteq> None"
  shows "Remove_periodic p \<in> set (sc_tasks (nd_shut s))"
  unfolding nd_shut_def by (rule nd_cancel_actions_sel(3)) (use assms in \<open>simp_all add: nd_close_sel\<close>)

lemma nd_halt_outside:
  assumes "\<not> nd_halting (sc_user s)" and "nd_pooled (sc_user s) ws" and "\<not> on_worker self ws"
  shows "nd_halt self other force polled s = (True, nd_notify (nd_halt_workers self other (nd_shut s)))"
  using assms by (simp add: nd_halt_def nd_can_halt Let_def nd_shut_def)

text \<open>A halt from outside that nothing holds up: no sleeper is left, and nothing ticks.\<close>

lemma nd_halt_quiet:
  assumes "nd_outcome (sc_user s) = Alive" and "\<not> nd_halting (sc_user s)" and "nd_pooled (sc_user s) ws" and "\<not> on_worker self ws"
    and "sq_num_waiters (nd_queue (sc_user s)) > 0 \<or> sq_sleeping (nd_queue (sc_user s)) = []" and "\<not> nd_ticking (nd_shut s)"
    and "\<not> nd_timing (nd_shut s)"
  shows "\<exists>q. nd_halt self False force polled s =
      (True, nd_update (nd_notified_update Suc) (nd_update (nd_pool_update (\<lambda>_. q)) (nd_shut s))) \<and> wp_num_live_threads q = Inr 0"
proof -
  have pool: "nd_pooled (sc_user (nd_shut s)) ws" using assms(3) by (simp add: nd_pooled_def nd_shut_sel)
  have awake: "sq_sleeping (nd_queue (sc_user (nd_shut s))) = []"
    using assms(5) by (auto simp: nd_shut_sel sq_wake_all_def)
  obtain q where q: "nd_halt_workers self False (nd_shut s) = nd_update (nd_pool_update (\<lambda>_. q)) (nd_shut s)"
    "wp_num_live_threads q = Inr 0" using nd_halt_workers_ok [OF pool assms(4) awake assms(6) nd_shut_closed assms(7)] by blast
  have "nd_halt self False force polled s =
      (True, nd_update (nd_notified_update Suc) (nd_update (nd_pool_update (\<lambda>_. q)) (nd_shut s)))"
    unfolding nd_halt_outside [OF assms(2-4)] q(1) using assms(1) by (simp add: nd_notify_def nd_shut_sel)
  with q(2) show ?thesis by blast
qed

text \<open>
  Claim C36. \<open>halt\<close> called on a thread that is not one of the node's succeeds and returns at once, under these conditions: nobody
  else has work on the service (\<open>other\<close> is \<open>False\<close>), the queue's waiter count is positive or nobody sleeps in the queue, the only
  periodic action of the 1 Hz slot, if any, is the SYNC action the node remembers, and the only scheduled action
  that waits for a timer, if any, is the handshake timer it remembers. Then the node is stopped and its socket closed, no scheduled
  action waits for a timer any more (the handshake timer's wait is cancelled), the removal of the SYNC action is
  posted, its threads are gone, the disconnect signal has been emitted if it had not been before, a thread blocked in \<open>run\<close> is
  notified, and from then on \<open>halt\<close> does nothing.
\<close>

theorem halt_stops_node:
  assumes "nd_outcome (sc_user s) = Alive" and "\<not> nd_halting (sc_user s)" and "nd_pooled (sc_user s) ws" and "\<not> on_worker self ws"
    and "sq_num_waiters (nd_queue (sc_user s)) > 0 \<or> sq_sleeping (nd_queue (sc_user s)) = []"
    and "\<And>p. p \<in> set (sl_actions s (rate_hz 1)) \<Longrightarrow> nd_sync_action (sc_user s) = Some p \<and> sc_periodics s p \<noteq> None"
    and "\<And>a. a < sc_next s \<Longrightarrow> sc_waits s (Of_action a) \<noteq> [] \<Longrightarrow> nd_halt_action (sc_user s) = Some a \<and> sc_actions s a \<noteq> None"
  shows "\<exists>s'. nd_halt self False force polled s = (True, s') \<and> nd_outcome (sc_user s') = Alive \<and> nd_stopped (sc_user s') \<and>
    \<not> nd_socket_open (sc_user s') \<and> wp_num_live_threads (nd_pool (sc_user s')) = Inr 0 \<and>
    sc_next s' = sc_next s \<and> (\<forall>a < sc_next s'. sc_waits s' (Of_action a) = []) \<and>
    (\<forall>p \<in> set (sl_actions s (rate_hz 1)). Remove_periodic p \<in> set (sc_tasks s')) \<and>
    nd_sync_action (sc_user s') = None \<and> nd_halt_action (sc_user s') = None \<and>
    nd_disconnects (sc_user s') = nd_disconnects (sc_user s) + (if nd_disconnect_emitted (sc_user s) then 0 else 1) \<and>
    nd_notified (sc_user s') = nd_notified (sc_user s) + 1 \<and> nd_halt self' other' force' polled' s' = (False, s')"
proof -
  have rm: "\<forall>p \<in> set (sl_actions s (rate_hz 1)). Remove_periodic p \<in> set (sc_tasks (nd_shut s))"
    using nd_shut_removes assms(6) by blast
  then have quiet: "\<not> nd_ticking (nd_shut s)" by (auto simp: nd_ticking_def nd_shut_sel list_ex_iff)
  have waits: "\<forall>a < sc_next (nd_shut s). sc_waits (nd_shut s) (Of_action a) = []"
  proof (intro allI impI)
    fix a assume a: "a < sc_next (nd_shut s)"
    show "sc_waits (nd_shut s) (Of_action a) = []"
    proof (cases "sc_waits s (Of_action a) = []")
      case True
      then show ?thesis
        by (cases "nd_halt_action (sc_user s)")
          (auto simp: nd_shut_def nd_cancel_actions_eq nd_close_sel split: option.splits)
    next
      case False
      then show ?thesis using a assms(7) [of a] by (simp add: nd_shut_waits)
    qed
  qed
  then have untimed: "\<not> nd_timing (nd_shut s)" by (simp add: nd_timing_quiet)
  obtain q where q: "nd_halt self False force polled s =
      (True, nd_update (nd_notified_update Suc) (nd_update (nd_pool_update (\<lambda>_. q)) (nd_shut s)))" "wp_num_live_threads q = Inr 0"
    using nd_halt_quiet [OF assms(1-5) quiet untimed] by blast
  let ?s = "nd_update (nd_notified_update Suc) (nd_update (nd_pool_update (\<lambda>_. q)) (nd_shut s))"
  have "nd_halt self' other' force' polled' ?s = (False, ?s)" by (simp add: nd_halt_def nd_shut_sel)
  then show ?thesis
    unfolding q(1) using rm waits q(2) assms(1) by (simp add: nd_shut_sel nd_shut_waits(1))
qed

lemma node_a_pooled: "nd_pooled (sc_user node_a) (map wk_on [1..<7])" "map wk_on [1..<7] \<noteq> []" "\<not> on_worker 0 (map wk_on [1..<7])"
  "on_worker 3 (map wk_on [1..<7])"
  using node_a_facts(8-10) by (auto simp: nd_pooled_def on_worker_def list_ex_iff wk_on_def)

theorem halt_stops_node_witness:
  "sc_waits node_a (Of_action 0) = [Once 0] \<and> (\<exists>s'. nd_halt 0 False False [] node_a = (True, s') \<and> nd_outcome (sc_user s') = Alive \<and>
    nd_stopped (sc_user s') \<and> \<not> nd_socket_open (sc_user s') \<and> wp_num_live_threads (nd_pool (sc_user s')) = Inr 0 \<and>
    sc_next s' = sc_next node_a \<and> (\<forall>a < sc_next s'. sc_waits s' (Of_action a) = []) \<and>
    (\<forall>p \<in> set (sl_actions node_a (rate_hz 1)). Remove_periodic p \<in> set (sc_tasks s')) \<and>
    nd_sync_action (sc_user s') = None \<and> nd_halt_action (sc_user s') = None \<and>
    nd_disconnects (sc_user s') = nd_disconnects (sc_user node_a) + (if nd_disconnect_emitted (sc_user node_a) then 0 else 1) \<and>
    nd_notified (sc_user s') = nd_notified (sc_user node_a) + 1 \<and> nd_halt 3 True True [] s' = (False, s'))"
proof (rule conjI [OF node_a_waits halt_stops_node])
  show "nd_outcome (sc_user node_a) = Alive" using node_a_facts(1) by (simp add: nd_receiving_def)
  show "nd_pooled (sc_user node_a) (map wk_on [1..<7])" by (rule node_a_pooled(1))
  show "nd_halt_action (sc_user node_a) = Some a \<and> sc_actions node_a a \<noteq> None" if "a < sc_next node_a" for a
    using that node_ab_facts(3,4) node_a_facts(5) by simp
qed (use node_a_pooled(3) node_a_facts in \<open>simp_all add: sl_actions_def\<close>)

text \<open>
  Nothing keeps a peer from accepting twice, and each acceptance schedules another SYNC action while
  the node remembers the last one only. Then \<open>halt\<close> cancels one of them, the other keeps the service busy,
  and the call never returns.
\<close>

theorem repeated_acceptance_hangs_halt:
  assumes "\<not> nd_halting (sc_user s)" and "nd_pooled (sc_user s) ws" and "ws \<noteq> []"
    and "\<not> on_worker self ws" and "Remove_periodic (sc_next s) \<notin> set (sc_tasks s)"
  shows "nd_outcome (sc_user (snd (nd_halt self False force polled (nd_accepted (nd_accepted s))))) = Hung"
proof -
  let ?s = "nd_accepted (nd_accepted s)"
  have pool: "nd_pooled (sc_user ?s) ws" "nd_pooled (sc_user (nd_shut ?s)) ws" "\<not> nd_halting (sc_user ?s)"
    using assms(1,2) by (simp_all add: nd_pooled_def nd_shut_sel nd_accepted_effect(3))
  have user: "nd_sync_action (sc_user ?s) = Some (Suc (sc_next s))" "nd_halt_action (sc_user ?s) = None"
    by (simp_all add: nd_accepted_effect)
  have "sc_tasks (nd_shut ?s) = sc_tasks ?s @ [Remove_periodic (Suc (sc_next s))]"
    using user nd_accepted_effect(7) [of "nd_accepted s"]
    by (simp add: nd_shut_def nd_cancel_actions_eq nd_cancelled_sync_def nd_close_sel nd_accepted_effect(5))
  then have "Remove_periodic (sc_next s) \<notin> set (sc_tasks (nd_shut ?s))"
    using assms(5) by (simp add: nd_accepted_effect(6))
  then have "nd_ticking (nd_shut ?s)"
    unfolding nd_ticking_def nd_shut_sel nd_accepted_effect(4) by simp
  from nd_halt_workers_hangs [OF pool(2) assms(4,3), of False] this
  have "nd_halt_workers self False (nd_shut ?s) = nd_hang (nd_shut ?s)" by blast
  then show ?thesis
    unfolding nd_halt_outside [OF pool(3,1) assms(4)] by (simp add: nd_notify_def nd_hang_def)
qed

theorem repeated_acceptance_hangs_halt_witness:
  "nd_outcome (sc_user (snd (nd_halt 0 False False [] (nd_accepted (nd_accepted node_a))))) = Hung"
  by (rule repeated_acceptance_hangs_halt [OF node_a_facts(2) node_a_pooled(1-3)]) (simp add: node_a_facts(3))

text \<open>
  Claim C39. Two halts requested at once lock the node up. When the connection breaks, the receive loop and the send
  loop each post a \<open>halt\<close>. On a worker thread the first one is refused, but before it tells anybody it runs
  other ready work while it holds the mutex, the second \<open>halt\<close> among it, which waits for the same mutex forever.
\<close>

theorem broken_connection_deadlocks:
  assumes "nd_receiving s" and "nd_sender (sc_user s) = Tx_writing m bs" and "\<not> nd_halting (sc_user s)"
    and "nd_pooled (sc_user s) ws" and "on_worker self ws"
  shows "\<exists>d. tx_written ord junk Write_error (sc_user (nd_read_failed s)) = Inr d \<and>
    nd_requests d = nd_requests (sc_user s) + 2 \<and>
    nd_outcome (sc_user (nd_step self other [Request] Request ((nd_read_failed s)\<lparr>sc_user := d\<rparr>))) = Hung"
proof -
  obtain r where r: "nd_receiver (sc_user s) = Some r" "\<not> nd_stopped (sc_user s)" "nd_outcome (sc_user s) = Alive"
    using assms(1) by (auto simp: nd_receiving_def)
  let ?d1 = "(sc_user s)\<lparr>nd_receiver := Some (rx_failed r), nd_requests := nd_requests (sc_user s) + 1\<rparr>"
  let ?d = "?d1\<lparr>nd_sender := Tx_exited, nd_requests := nd_requests (sc_user s) + 2\<rparr>"
  have "rx_top False (rx_failed r) = rx_failed r" "rx_place (rx_failed r) = Rx_exited"
    by (simp_all add: rx_top_def rx_failed_def)
  then have one: "sc_user (nd_read_failed s) = ?d1"
    using r by (simp add: nd_read_failed_def nd_set_receiver_def nd_loop_ends_def Let_def)
  then have "tx_written ord junk Write_error (sc_user (nd_read_failed s)) = Inr ?d"
    using r(2) assms(2) by (simp add: tx_written_def tx_exit_def nd_loop_ends_def)
  moreover have "nd_outcome (sc_user (nd_step self other [Request] Request ((nd_read_failed s)\<lparr>sc_user := ?d\<rparr>))) = Hung"
  proof -
    have "wp_can_halt self (nd_pool ?d) = Inr False"
      using nd_can_halt [OF assms(4), of self] assms(5) by simp
    then show ?thesis
      using r assms(3) by (simp add: nd_step_def nd_ready_def nd_halt_def nd_poll_def nd_halt_locked_def nd_hang_def nd_notify_def)
  qed
  ultimately show ?thesis by (intro exI [of _ ?d]) simp
qed

definition node_w :: node where
  "node_w = nd_update (nd_sender_update (\<lambda>_. Tx_writing msg_new [])) node_a"

theorem broken_connection_deadlocks_witness:
  "\<exists>d. tx_written id (\<lambda>_. 0) Write_error (sc_user (nd_read_failed node_w)) = Inr d \<and>
    nd_requests d = nd_requests (sc_user node_w) + 2 \<and>
    nd_outcome (sc_user (nd_step 3 False [Request] Request ((nd_read_failed node_w)\<lparr>sc_user := d\<rparr>))) = Hung"
proof (rule broken_connection_deadlocks)
  show "nd_receiving node_w" using node_a_facts(1) by (simp add: node_w_def nd_receiving_def)
  show "nd_pooled (sc_user node_w) (map wk_on [1..<7])" using node_a_pooled(1) by (simp add: node_w_def nd_pooled_def)
qed (use node_a_pooled(4) node_a_facts(2) in \<open>simp_all add: node_w_def\<close>)

text \<open>
  Two of the message types a peer may send end the program: dispatching an ERROR or a SENSOR_DATA
  message, however well-formed, throws an exception that nothing on the way out of the receive loop catches.
\<close>

theorem unimplemented_types_crash:
  assumes "nd_receiving s" and "msg_ok t bs m" and "t = ERROR \<or> t = SENSOR_DATA"
  shows "nd_outcome (sc_user (nd_feed ord junk 2 (msg_wire t bs m) s)) =
    Crashed (Thrown (if t = ERROR then ''Unexpected unimplemented message type ERROR'' else ''not yet implemented''))"
proof -
  have "msg_type (msg_received t bs m) = type_code t" using assms(2) by (simp add: msg_received_def msg_ok_def)
  then have "dp_dispatch ord junk INCOMING (msg_received t bs m) d =
      Inl (Thrown (if t = ERROR then ''Unexpected unimplemented message type ERROR'' else ''not yet implemented''))" for d
    using assms(3) by (auto simp: dp_dispatch_def)
  moreover have "t \<noteq> CONFIGURATION_QUERY" using assms(3) by auto
  ultimately show ?thesis
    using nd_feed_message [OF assms(1,2), of ord junk] by (auto simp: nd_crash_def)
qed

theorem unimplemented_types_crash_witness:
  "nd_outcome (sc_user (nd_feed id (\<lambda>_. 0) 2 (msg_wire ERROR [1, 2, 3]
      (msg_new\<lparr>msg_type := type_code ERROR, msg_length := 7, msg_body := Some [1, 2, 3]\<rparr>)) node_a)) =
    Crashed (Thrown (if ERROR = ERROR then ''Unexpected unimplemented message type ERROR'' else ''not yet implemented''))"
  by (rule unimplemented_types_crash [OF node_a_facts(1)]) (simp_all add: msg_ok_def checksum_size_def MESSAGE_CHECKSUM_SIZE_def)

section \<open>The send loop\<close>

text \<open>Fetching a message, writing it, and telling the callbacks.\<close>

definition tx_cycle :: "(nat list \<Rightarrow> nat list) \<Rightarrow> (nat \<Rightarrow> byte) \<Rightarrow> node_data \<Rightarrow> fault + node_data" where
  "tx_cycle ord junk d = bindE (tx_step d) (\<lambda>d1. bindE (tx_step d1) (tx_written ord junk Written))"

fun tx_cycles :: "(nat list \<Rightarrow> nat list) \<Rightarrow> (nat \<Rightarrow> byte) \<Rightarrow> nat \<Rightarrow> node_data \<Rightarrow> fault + node_data" where
  "tx_cycles ord junk 0 d = Inr d"
| "tx_cycles ord junk (Suc n) d = bindE (tx_cycle ord junk d) (tx_cycles ord junk n)"

text \<open>The types whose callbacks get no decoded body, or one that decodes from any bytes.\<close>

definition tx_plain :: "message_type \<Rightarrow> bool" where
  "tx_plain t \<longleftrightarrow> t \<in> {HANDSHAKE, HANDSHAKE_RESPONSE, SYNC, CONFIGURATION_QUERY}"

lemma call_handler_keeps: "call_handler ord dir h (Inr x) d = Inr (d\<lparr>nd_signals := nd_signals (nd_emit ord (sig_of dir h) x d)\<rparr>)"
  by (simp add: call_handler_def)

lemma dispatch_plain:
  assumes "msg_ok t bs m" and "tx_plain t"
  shows "\<exists>w. dp_dispatch ord junk dir m d = Inr (d\<lparr>nd_signals := w\<rparr>)"
proof -
  have ty: "msg_type m = type_code t" using assms(1) by (simp add: msg_ok_def)
  have total: "\<exists>r b'. db_read n (db_of bs 0) = Inr (r, b')" for n
    by (rule db_read_total) (simp add: db_ok_def db_of_def)
  have body: "\<exists>x. msg_as hs_decode_copy m = Inr x" if "t = HANDSHAKE"
    using that assms(1) total [of hs_size] by (auto simp: msg_as_def msg_ok_def hs_decode_copy_def bindF_def)
  have body2: "\<exists>x. msg_as (hr_decode_copy j) m = Inr x" if "t = HANDSHAKE_RESPONSE" for j
    using that assms(1) total [of hr_size] by (auto simp: msg_as_def msg_ok_def hr_decode_copy_def bindF_def)
  consider "t = HANDSHAKE" | "t = HANDSHAKE_RESPONSE" | "t = SYNC \<or> t = CONFIGURATION_QUERY"
    using assms(2) by (auto simp: tx_plain_def)
  then show ?thesis
  proof cases
    case 1
    then show ?thesis using body ty by (auto simp: dp_dispatch_def call_handler_keeps)
  next
    case 2
    then show ?thesis using body2 [of "\<lparr>hr_acknowledge = junk 0, hr_role = junk 1\<rparr>"] ty
      by (auto simp: dp_dispatch_def call_handler_keeps)
  next
    case 3
    then show ?thesis using ty by (auto simp: dp_dispatch_def call_handler_keeps)
  qed
qed

lemma dispatch_checksum: "dp_dispatch ord junk dir (m\<lparr>msg_checksum := k\<rparr>) d = dp_dispatch ord junk dir m d"
  by (simp add: dp_dispatch_def msg_as_def)

lemma dispatch_sent:
  assumes "msg_ok t bs m" and "t \<noteq> CONFIGURATION_QUERY" and "t \<noteq> SYNC"
  shows "dp_dispatch ord junk dir (msg_received t bs m) d = dp_dispatch ord junk dir m d"
proof -
  have "msg_received t bs m = m\<lparr>msg_checksum := msg_sum t bs m\<rparr>"
    using assms by (auto simp: msg_received_def msg_ok_def)
  then show ?thesis by (simp add: dispatch_checksum)
qed

text \<open>A message the dispatcher of a node with configuration \<open>cfg\<close> takes on its way out.\<close>

definition tx_dispatches :: "(nat list \<Rightarrow> nat list) \<Rightarrow> (nat \<Rightarrow> byte) \<Rightarrow> configuration \<Rightarrow> message \<Rightarrow> bool" where
  "tx_dispatches ord junk cfg m \<longleftrightarrow>
     (\<forall>d. nd_configuration d = cfg \<longrightarrow> (\<exists>w. dp_dispatch ord junk OUTGOING m d = Inr (d\<lparr>nd_signals := w\<rparr>)))"

text \<open>The loop at its head, nobody else in the queue.\<close>

definition tx_free :: "node_data \<Rightarrow> bool" where
  "tx_free d \<longleftrightarrow> nd_sender d = Tx_top \<and> \<not> nd_stopped d \<and> \<not> sq_aborted (nd_queue d) \<and> sq_entering (nd_queue d) = []"

lemma tx_cycle_sends:
  assumes "tx_free d" and "sq_items (nd_queue d) = m # ms" and "msg_ok t bs m" and "tx_dispatches ord junk (nd_configuration d) m"
  shows "\<exists>d'. tx_cycle ord junk d = Inr d' \<and> tx_free d' \<and> sq_items (nd_queue d') = ms \<and> nd_wire d' = nd_wire d @ msg_wire t bs m \<and>
    nd_configuration d' = nd_configuration d"
proof -
  let ?q = "nd_queue d"
  let ?d2 = "d\<lparr>nd_queue := ?q\<lparr>sq_entering := [], sq_items := ms\<rparr>, nd_sender := Tx_writing m (msg_wire t bs m)\<rparr>"
  let ?d3 = "?d2\<lparr>nd_wire := nd_wire d @ msg_wire t bs m\<rparr>"
  have one: "tx_step d = Inr (d\<lparr>nd_queue := ?q\<lparr>sq_entering := [tx_caller]\<rparr>, nd_sender := Tx_fetching\<rparr>)"
    using assms(1) by (simp add: tx_step_def tx_free_def sq_call_def tx_event_def)
  have two: "tx_step (d\<lparr>nd_queue := ?q\<lparr>sq_entering := [tx_caller]\<rparr>, nd_sender := Tx_fetching\<rparr>) = Inr ?d2"
    using assms(1,2) by (simp add: tx_step_def tx_free_def sq_enter_def sq_finish_def Let_def tx_event_def tx_encode_ok [OF assms(3)])
  have "nd_configuration ?d3 = nd_configuration d" by simp
  then obtain w where w: "dp_dispatch ord junk OUTGOING m ?d3 = Inr (?d3\<lparr>nd_signals := w\<rparr>)"
    using assms(4) unfolding tx_dispatches_def by blast
  have "tx_cycle ord junk d = Inr ((?d3\<lparr>nd_signals := w\<rparr>)\<lparr>nd_sender := Tx_top\<rparr>)"
    using w by (simp add: tx_cycle_def one two tx_written_def)
  then show ?thesis using assms(1) by (simp add: tx_free_def)
qed

lemma tx_cycles_send:
  assumes "tx_free d" and "sq_items (nd_queue d) = map (\<lambda>(t, bs, m). m) xs"
    and "\<forall>(t, bs, m) \<in> set xs. msg_ok t bs m \<and> tx_dispatches ord junk (nd_configuration d) m"
  shows "\<exists>d'. tx_cycles ord junk (length xs) d = Inr d' \<and> tx_free d' \<and> sq_items (nd_queue d') = [] \<and>
    nd_wire d' = nd_wire d @ concat (map (\<lambda>(t, bs, m). msg_wire t bs m) xs)"
  using assms
proof (induction xs arbitrary: d)
  case Nil
  then show ?case by simp
next
  case (Cons x xs)
  obtain t bs m where x: "x = (t, bs, m)" by (cases x)
  have ok: "msg_ok t bs m" "tx_dispatches ord junk (nd_configuration d) m" using Cons.prems(3) x by auto
  have items: "sq_items (nd_queue d) = m # map (\<lambda>(t, bs, m). m) xs" using Cons.prems(2) x by simp
  from tx_cycle_sends [OF Cons.prems(1) items ok]
  obtain d1 where d1: "tx_cycle ord junk d = Inr d1" "tx_free d1" "sq_items (nd_queue d1) = map (\<lambda>(t, bs, m). m) xs"
    "nd_wire d1 = nd_wire d @ msg_wire t bs m" "nd_configuration d1 = nd_configuration d" by blast
  moreover have "\<forall>(t, bs, m) \<in> set xs. msg_ok t bs m \<and> tx_dispatches ord junk (nd_configuration d1) m"
    using Cons.prems(3) d1(5) by simp
  ultimately show ?case using Cons.IH [of d1] x by auto
qed

text \<open>The send loop ends the program on the two types the dispatcher does not know, after the bytes have been written.\<close>

lemma unimplemented_types_crash_sender:
  assumes "nd_sender d = Tx_writing m bs" and "msg_type m = type_code t" and "t = ERROR \<or> t = SENSOR_DATA"
  shows "\<exists>text. tx_written ord junk Written d = Inl (Thrown text)"
  using assms by (auto simp: tx_written_def dp_dispatch_def)

section \<open>What every step keeps\<close>

text \<open>The steps of a node and of the world around it.\<close>

inductive nd_trans :: "node \<Rightarrow> node \<Rightarrow> bool" where
  ran: "nd_trans s (nd_step self other polled c s)"
| halted: "nd_trans s (snd (nd_halt self other force polled s))"
| woken: "nd_trans s (nd_run_woken self other polled s)"
| launched: "nd_trans s (snd (nd_launch junk s))"
| sent: "nd_trans s (nd_send m s)"
| listened: "nd_trans s (nd_update (\<lambda>d. snd (nd_on_disconnect d)) s)"
| received: "nd_trans s (nd_received ord junk bs s)"
| read_failed: "nd_trans s (nd_read_failed s)"
| fetched: "tx_step (sc_user s) = Inr d \<Longrightarrow> nd_trans s (s\<lparr>sc_user := d\<rparr>)"
| written: "tx_written ord junk w (sc_user s) = Inr d \<Longrightarrow> nd_trans s (s\<lparr>sc_user := d\<rparr>)"
| connected: "nd_trans s (nd_update (nd_connect dir h k) s)"
| passed: "nd_trans s (io_tick n s)"
| fired: "nd_trans s (io_fire t s)"

inductive nd_reach :: "node \<Rightarrow> node \<Rightarrow> bool" where
  here: "nd_reach s s"
| there: "nd_reach s s' \<Longrightarrow> nd_trans s' s'' \<Longrightarrow> nd_reach s s''"

text \<open>The flags around the end of a node, and what holds of them.\<close>

definition nd_flags :: "node_data \<Rightarrow> bool \<times> bool \<times> bool \<times> bool \<times> nat" where
  "nd_flags d = (nd_halting d, nd_stopped d, nd_socket_open d, nd_disconnect_emitted d, nd_disconnects d)"

definition nd_inv :: "node_data \<Rightarrow> bool" where
  "nd_inv d \<longleftrightarrow> nd_disconnects d = (if nd_disconnect_emitted d then 1 else 0) \<and>
     (nd_stopped d \<longrightarrow> nd_halting d \<and> nd_disconnect_emitted d) \<and> (nd_disconnect_emitted d \<longrightarrow> nd_stopped d \<and> \<not> nd_socket_open d)"

lemma nd_inv_flags: "nd_flags d' = nd_flags d \<Longrightarrow> nd_inv d \<Longrightarrow> nd_inv d'"
  by (simp add: nd_flags_def nd_inv_def)

lemma nd_send_flags: "nd_flags (sc_user (nd_send m s)) = nd_flags (sc_user s)"
  by (simp add: nd_send_def nd_flags_def nd_crash_def nd_push_def split: sum.splits)

lemma dp_dispatch_flags:
  assumes "dp_dispatch ord junk dir m d = Inr d'"
  shows "nd_flags d' = nd_flags d"
  using assms by (auto simp: dp_dispatch_def call_handler_def bindE_Inr_iff nd_flags_def split: if_splits)

lemma nd_loop_ends_flags: "nd_flags (nd_loop_ends d) = nd_flags d"
  by (simp add: nd_loop_ends_def nd_flags_def)

lemma nd_set_receiver_flags: "nd_flags (nd_set_receiver r d) = nd_flags d"
  by (simp add: nd_set_receiver_def Let_def nd_loop_ends_def nd_flags_def)

lemma tx_event_flags: "tx_event e d = Inr d' \<Longrightarrow> nd_flags d' = nd_flags d"
  by (auto simp: tx_event_def tx_exit_def nd_loop_ends_def nd_flags_def bindE_Inr_iff split: event.splits if_splits)

lemma tx_step_flags:
  assumes "tx_step d = Inr d'"
  shows "nd_flags d' = nd_flags d"
  using assms
  by (auto simp: tx_step_def tx_exit_def nd_loop_ends_def bindE_Inr_iff split: sender.splits if_splits prod.splits
      dest!: tx_event_flags) (auto simp: nd_flags_def)

lemma tx_written_flags:
  assumes "tx_written ord junk w d = Inr d'"
  shows "nd_flags d' = nd_flags d"
  using assms
  by (auto simp: tx_written_def tx_exit_def nd_loop_ends_def bindE_Inr_iff split: sender.splits if_splits write_result.splits
      dest!: dp_dispatch_flags) (auto simp: nd_flags_def nd_push_def)

text \<open>Ready work changes the flags only through \<open>halt\<close>.\<close>

lemma sc_user_timers [simp]:
  "sc_user (tm_cancel t s) = sc_user s" "sc_user (io_post k s) = sc_user s" "sc_user (io_tick n s) = sc_user s"
  "sc_user (io_fire t s) = sc_user s" "sc_user (sc_remove_action a s) = sc_user s" "sc_user (sc_remove_periodic p s) = sc_user s"
  by (simp_all add: tm_cancel_def io_post_def io_tick_def io_fire_def sc_remove_action_def sa_destroy_def sc_remove_periodic_def
      sl_remove_def Let_def split: option.splits)

lemma run_task_user:
  assumes "\<And>f a s. P (sc_user s) \<Longrightarrow> P (sc_user (call f a s))" and "P (sc_user s)" and "run_task call k s = Inr s'"
  shows "P (sc_user s')"
  using assms
  by (cases "(call, k, s)" rule: run_task.cases)
    (auto simp: sa_expired_def pa_expired_def sl_expired_def Let_def split: option.splits if_splits)

lemma nd_callback_inv:
  assumes "\<And>s. nd_inv (sc_user s) \<Longrightarrow> nd_inv (sc_user (halt s))" and "nd_inv (sc_user s)"
  shows "nd_inv (sc_user (nd_callback halt cb x s))"
proof -
  have "nd_inv (sc_user (nd_send m s))" for m using assms(2) nd_inv_flags [OF nd_send_flags] by blast
  moreover have "nd_inv (sc_user (nd_accepted s))"
    using assms(2) by (simp add: nd_accepted_effect(3) nd_inv_def)
  moreover have "nd_inv (d\<lparr>nd_calls := cs\<rparr>) = nd_inv d" for cs and d :: node_data by (simp add: nd_inv_def)
  ultimately show ?thesis using assms by (auto simp: nd_callback_def split: callback.splits notice.splits)
qed

lemma nd_ready_inv:
  assumes "\<And>s. nd_inv (sc_user s) \<Longrightarrow> nd_inv (sc_user (halt s))" and "nd_inv (sc_user s)"
  shows "nd_inv (sc_user (nd_ready halt c s))"
proof -
  have posted: "nd_inv (sc_user (nd_serve halt s))"
  proof -
    have "nd_inv (sc_user (nd_update (nd_signals_update f) s))" for f using assms(2) by (simp add: nd_inv_def)
    then show ?thesis
      using assms(2) by (simp add: nd_serve_def Let_def nd_callback_inv [OF assms(1)] split: list.splits prod.splits option.splits)
  qed
  have call: "nd_inv (sc_user (nd_call halt f a q))" if "nd_inv (sc_user q)" for f a q
    using that assms(1) [OF that] nd_inv_flags [OF nd_send_flags that] by (simp add: nd_call_def)
  have "nd_inv (sc_user q)" if "run_task (nd_call halt) k (s\<lparr>sc_tasks := ks\<rparr>) = Inr q" for k ks q
    by (rule run_task_user [where P = nd_inv, OF call _ that]) (use assms(2) in simp_all)
  then have task: "nd_inv (sc_user q)" if "io_run_one (nd_call halt) s = Inr q" for q
    using that assms(2) by (auto simp: io_run_one_def split: list.splits)
  have "nd_inv (nd_requests_update f (sc_user s))" "nd_inv (nd_outcome_update g (sc_user s))" for f g
    using assms(2) by (simp_all add: nd_inv_def)
  then show ?thesis
    using posted task assms by (auto simp: nd_ready_def nd_crash_def split: choice.splits sum.splits)
qed

lemma nd_poll_inv: "nd_inv (sc_user s) \<Longrightarrow> nd_inv (sc_user (nd_poll cs s))"
proof (induction cs arbitrary: s)
  case (Cons c cs)
  have "nd_inv (sc_user q) \<Longrightarrow> nd_inv (sc_user (nd_halt_locked q))" for q
    by (auto simp: nd_halt_locked_def nd_hang_def nd_inv_def)
  from nd_ready_inv [OF this Cons.prems, where c = c] show ?case using Cons.IH by (simp add: nd_poll_def)
qed (simp add: nd_poll_def)

lemma nd_halt_inv:
  assumes "nd_inv (sc_user s)"
  shows "nd_inv (sc_user (snd (nd_halt self other force polled s)))"
proof -
  have upd: "nd_inv (nd_outcome_update f d) = nd_inv d" "nd_inv (nd_pool_update h d) = nd_inv d" "nd_inv (nd_notified_update g d) = nd_inv d"
    for f g h and d :: node_data by (simp_all add: nd_inv_def)
  have note_inv: "nd_inv (sc_user (nd_notify q)) = nd_inv (sc_user q)" for q by (simp add: nd_notify_def upd)
  have shut: "nd_inv (sc_user (nd_shut s))" using assms by (auto simp: nd_inv_def nd_shut_sel)
  have "nd_inv (sc_user (nd_halt_workers self other q)) = nd_inv (sc_user q)" for q
    by (simp add: nd_halt_workers_def Let_def nd_hang_def nd_crash_def upd split: option.splits sum.splits prod.splits)
  then show ?thesis
    using assms shut nd_poll_inv [OF assms]
    by (auto simp: nd_halt_def Let_def note_inv nd_crash_def upd simp flip: nd_shut_def split: sum.splits)
qed

lemma nd_launch_inv: "nd_inv (sc_user s) \<Longrightarrow> nd_inv (sc_user (snd (nd_launch junk s)))"
proof -
  assume inv: "nd_inv (sc_user s)"
  then have sent: "nd_inv (sc_user (nd_send m s))" for m by (rule nd_inv_flags [OF nd_send_flags])
  have timer: "sc_set_timer d f q = (a, q') \<Longrightarrow> sc_user q' = sc_user q" for d f and q :: node and a q'
    by (auto simp: sc_set_timer_def sa_make_def Let_def sa_reset_def tm_async_wait_def tm_expires_from_now_def tm_expires_at_def)
  have upd: "nd_inv (nd_outcome_update f d) = nd_inv d" "nd_inv (nd_halt_action_update k d) = nd_inv d"
    "nd_inv (d\<lparr>nd_pool := p, nd_receiver := r, nd_sender := t\<rparr>) = nd_inv d"
    for f k p r t and d :: node_data by (simp_all add: nd_inv_def)
  show ?thesis
    using inv sent by (auto simp: nd_launch_def Let_def nd_crash_def upd split: sum.splits prod.splits dest!: timer)
qed

lemma nd_trans_inv: "nd_trans s s' \<Longrightarrow> nd_inv (sc_user s) \<Longrightarrow> nd_inv (sc_user s')"
proof (induction rule: nd_trans.induct)
  case (ran s self other polled c)
  then show ?case unfolding nd_step_def by (intro nd_ready_inv nd_halt_inv)
next
  case (woken s self other polled)
  then show ?case by (simp add: nd_run_woken_def nd_halt_inv)
next
  case (sent s m)
  then show ?case by (rule nd_inv_flags [OF nd_send_flags])
next
  case (listened s)
  then show ?case by (auto simp add: nd_on_disconnect_def nd_inv_def split: prod.splits)
next
  case (received s ord junk bs)
  have crash: "nd_inv (sc_user (nd_crash e s))" for e using received by (simp add: nd_crash_def nd_inv_def)
  have set: "nd_inv (nd_set_receiver r d)" if "nd_flags d = nd_flags (sc_user s)" for r d
    using that received by (intro nd_inv_flags [OF _ received]) (simp add: nd_set_receiver_flags)
  show ?case
  proof (cases "nd_receiver (sc_user s)")
    case (Some r)
    let ?body = "bindE (rx_resume junk (nd_stopped (sc_user s)) bs r) (\<lambda>(r', out).
      bindE (case out of None \<Rightarrow> Inr (sc_user s) | Some m \<Rightarrow> dp_dispatch ord junk INCOMING m (sc_user s)) (\<lambda>d.
        Inr (nd_set_receiver r' d)))"
    have "nd_inv d" if "?body = Inr d" for d
      using that set by (auto simp: bindE_Inr_iff split: option.splits dest!: dp_dispatch_flags)
    then show ?thesis using Some crash by (auto simp: nd_received_def split: sum.splits)
  qed (simp add: nd_received_def received)
next
  case (connected s dir h k)
  then show ?case by (simp add: nd_connect_def nd_with_dispatcher_def nd_inv_def)
next
  case (read_failed s)
  then show ?case by (auto simp: nd_read_failed_def split: option.splits intro: nd_inv_flags [OF nd_set_receiver_flags])
next
  case (fetched s d)
  then show ?case using nd_inv_flags [OF tx_step_flags] by simp
next
  case (written ord junk w s d)
  then show ?case using nd_inv_flags [OF tx_written_flags] by simp
qed (simp_all add: nd_halt_inv nd_launch_inv)

lemma nd_new_inv: "nd_inv (sc_user (nd_new now n role))"
  by (simp add: nd_inv_def nd_new_fields)

text \<open>
  Claim C9. However a node is used, its disconnect signal is emitted at most once, and exactly when the node
  stops: in every state reached from a new node by any sequence of steps, of the node, its peer, its users and
  the clock, the signal has been emitted once if the node has stopped and not at all otherwise, and a stopped
  node has its socket closed.
\<close>

theorem disconnect_signalled_once:
  assumes "nd_reach (nd_new now n role) s"
  shows "nd_disconnects (sc_user s) = (if nd_stopped (sc_user s) then 1 else 0) \<and>
    (nd_stopped (sc_user s) \<longrightarrow> nd_halting (sc_user s) \<and> \<not> nd_socket_open (sc_user s))"
proof -
  have "nd_inv (sc_user s)" using assms
    by (induction "nd_new now n role" s rule: nd_reach.induct) (simp_all add: nd_new_inv nd_trans_inv)
  then show ?thesis by (auto simp: nd_inv_def)
qed

lemma node_a_stops: "nd_stopped (sc_user (snd (nd_halt 0 False False [] node_a)))"
  unfolding nd_halt_outside [OF node_a_facts(2) node_a_pooled(1,3)]
  by (simp add: nd_halt_workers_def Let_def nd_notify_def nd_hang_def nd_crash_def nd_shut_sel split: option.splits sum.splits prod.splits)

theorem disconnect_signalled_once_witness:
  "nd_disconnects (sc_user (snd (nd_halt 0 False False [] node_a))) = 1 \<and>
    nd_halting (sc_user (snd (nd_halt 0 False False [] node_a))) \<and> \<not> nd_socket_open (sc_user (snd (nd_halt 0 False False [] node_a)))"
  using disconnect_signalled_once [of 0 0 MASTER "snd (nd_halt 0 False False [] node_a)"] node_a_stops
    nd_reach.there [OF nd_reach.there [OF nd_reach.here nd_trans.launched] nd_trans.halted]
  by (simp add: node_a_def)

section \<open>Configurations\<close>

lemma nd_feed_query:
  assumes "nd_receiving s" and "msg_ok CONFIGURATION_QUERY bs m"
  shows "\<exists>r2 mem2. rx_holds r2 mem2 \<and> rx_place r2 = Rx_top \<and>
    nd_feed ord junk 1 (msg_wire CONFIGURATION_QUERY bs m) s =
      (case dp_dispatch ord junk INCOMING (msg_received CONFIGURATION_QUERY bs m) (sc_user s) of
         Inl e \<Rightarrow> nd_crash e s | Inr d \<Rightarrow> s\<lparr>sc_user := nd_set_receiver r2 d\<rparr>)"
proof -
  obtain r mem where r: "nd_receiver (sc_user s) = Some r" "rx_holds r mem" "rx_place r = Rx_header" "\<not> nd_stopped (sc_user s)"
    using assms(1) by (auto simp: nd_receiving_def)
  obtain r2 mem2 where wire: "msg_wire CONFIGURATION_QUERY bs m = msg_header m"
    and one: "rx_resume junk False (msg_header m) r = Inr (r2, Some (msg_received CONFIGURATION_QUERY bs m))"
    and r2: "rx_holds r2 mem2" "rx_place r2 = Rx_top"
    using rx_query [OF r(2,3) assms(2), of junk] by blast
  have "rx_wants r = length (msg_header m)" using r(3) by (simp add: rx_wants_def)
  then have "nd_feed ord junk 1 (msg_wire CONFIGURATION_QUERY bs m) s = nd_received ord junk (msg_header m) s"
    using r(1) by (simp add: wire)
  also have "\<dots> = (case dp_dispatch ord junk INCOMING (msg_received CONFIGURATION_QUERY bs m) (sc_user s) of
         Inl e \<Rightarrow> nd_crash e s | Inr d \<Rightarrow> s\<lparr>sc_user := nd_set_receiver r2 d\<rparr>)"
    using r one by (simp add: nd_received_def split: sum.splits)
  finally show ?thesis using r2 by (intro exI conjI)
qed

lemma nd_deliver_query:
  assumes "nd_receiving s" and "msg_ok CONFIGURATION_QUERY bs m"
    and "nd_listens (sc_user s) (sig_of INCOMING H_query) cb" and "\<And>xs. mset (ord xs) = mset xs"
    and "sg_posted (nd_signals (sc_user s)) = []"
  shows "\<exists>r2 mem2. rx_holds r2 mem2 \<and> rx_place r2 = Rx_header \<and>
    nd_ready halt Posted (nd_feed ord junk 1 (msg_wire CONFIGURATION_QUERY bs m) s) =
      nd_callback halt cb Plain (nd_update (nd_receiver_update (\<lambda>_. Some r2)) s)"
proof -
  obtain r2 mem2 where r2: "rx_holds r2 mem2" "rx_place r2 = Rx_top"
    and feed: "nd_feed ord junk 1 (msg_wire CONFIGURATION_QUERY bs m) s =
      (case dp_dispatch ord junk INCOMING (msg_received CONFIGURATION_QUERY bs m) (sc_user s) of
         Inl e \<Rightarrow> nd_crash e s | Inr d \<Rightarrow> s\<lparr>sc_user := nd_set_receiver r2 d\<rparr>)"
    using nd_feed_query [OF assms(1,2)] by blast
  have "msg_type (msg_received CONFIGURATION_QUERY bs m) = type_code CONFIGURATION_QUERY"
    using assms(2) by (simp add: msg_received_def msg_ok_def)
  then have disp: "dp_dispatch ord junk INCOMING (msg_received CONFIGURATION_QUERY bs m) d =
      Inr (nd_emit ord (sig_of INCOMING H_query) Plain d)" for d
    by (simp add: dp_dispatch_def call_handler_def)
  have "(sc_user s)\<lparr>nd_receiver := nd_receiver (sc_user s)\<rparr> = sc_user s" by simp
  then have "nd_ready halt Posted (nd_feed ord junk 1 (msg_wire CONFIGURATION_QUERY bs m) s) =
      nd_callback halt cb Plain (nd_update (nd_receiver_update (\<lambda>_. Some (r2\<lparr>rx_place := Rx_header\<rparr>))) s)"
    using nd_served [OF assms(1,3,4,5) r2(2), of halt Plain "nd_receiver (sc_user s)"] unfolding feed disp sum.case by simp
  then show ?thesis using r2(1) by (intro exI [of _ "r2\<lparr>rx_place := Rx_header\<rparr>"] exI [of _ mem2]) simp
qed

text \<open>A configuration response is decoded and then dropped: nothing listens to it.\<close>

lemma nd_feed_configuration:
  assumes "nd_receiving a" and "msg_ok CONFIGURATION_RESPONSE (cf_encoding c) m" and "cf_wf c"
    and "sg_actions (nd_signals (sc_user a)) (sig_of INCOMING H_configuration) = []"
  shows "\<exists>r. nd_feed ord junk 2 (msg_wire CONFIGURATION_RESPONSE (cf_encoding c) m) a = nd_update (nd_receiver_update (\<lambda>_. Some r)) a"
proof -
  let ?m = "msg_received CONFIGURATION_RESPONSE (cf_encoding c) m"
  obtain r1 r2 mem2 where r2: "rx_holds r2 mem2" "rx_place r2 = Rx_top"
    and feed: "nd_feed ord junk 2 (msg_wire CONFIGURATION_RESPONSE (cf_encoding c) m) a =
      (case dp_dispatch ord junk INCOMING ?m ((sc_user a)\<lparr>nd_receiver := Some r1\<rparr>) of
         Inl e \<Rightarrow> nd_crash e (a\<lparr>sc_user := (sc_user a)\<lparr>nd_receiver := Some r1\<rparr>\<rparr>)
       | Inr d \<Rightarrow> a\<lparr>sc_user := nd_set_receiver r2 d\<rparr>)"
    using nd_feed_message [OF assms(1,2)] by blast
  have "msg_as (cf_decode_copy junk) ?m = Inr (cf_received 0 c)"
    by (rule msg_as_consumes [OF cf_decode_copy_consumes [OF assms(3)]]) (simp add: msg_received_def)
  moreover have "msg_type ?m = type_code CONFIGURATION_RESPONSE" using assms(2) by (simp add: msg_received_def msg_ok_def)
  ultimately have "dp_dispatch ord junk INCOMING ?m ((sc_user a)\<lparr>nd_receiver := q\<rparr>) = Inr ((sc_user a)\<lparr>nd_receiver := q\<rparr>)" for q
    using assms(4) by (simp add: dp_dispatch_def call_handler_def sg_emit_def)
  moreover have "\<not> nd_stopped (sc_user a)" using assms(1) by (simp add: nd_receiving_def)
  ultimately have "nd_feed ord junk 2 (msg_wire CONFIGURATION_RESPONSE (cf_encoding c) m) a =
      nd_update (nd_receiver_update (\<lambda>_. Some (r2\<lparr>rx_place := Rx_header\<rparr>))) a"
    unfolding feed using r2(2) by (simp add: nd_set_receiver_running nd_update_def)
  then show ?thesis by blast
qed

text \<open>
  Claim C11. Asking for a configuration. A node that receives a CONFIGURATION_QUERY answers with one message, which
  carries its configuration whole: what the asking node decodes from it equals the sender's. But no callback
  is installed for it, so the asking node changes in nothing: its own configuration stays as it was.
\<close>

theorem configuration_exchange:
  assumes "nd_ready_to_talk a" and "nd_ready_to_talk b" and "\<And>xs. mset (ord xs) = mset xs"
    and "cf_wf (nd_configuration (sc_user b))" and "cf_encoded_size (nd_configuration (sc_user b)) = Inr n" and "n + 4 < 65536"
  shows "\<exists>q w m' w' b' c r. msg_of_type CONFIGURATION_QUERY = Inr q \<and> tx_encode q = Inr (Encode_Success, w) \<and>
    b' = nd_ready halt Posted (nd_feed ord junk 1 w b) \<and> nd_ready_to_talk b' \<and>
    sq_items (nd_queue (sc_user b')) = sq_items (nd_queue (sc_user b)) @ [m'] \<and>
    tx_encode m' = Inr (Encode_Success, w') \<and>
    msg_as (cf_decode_copy junk) m' = Inr c \<and> cf_eq c (nd_configuration (sc_user b)) = Inr True \<and>
    nd_feed ord junk 2 w' a = nd_update (nd_receiver_update (\<lambda>_. Some r)) a \<and>
    nd_configuration (sc_user (nd_feed ord junk 2 w' a)) = nd_configuration (sc_user a)"
proof -
  let ?c = "nd_configuration (sc_user b)"
  obtain q where q: "msg_of_type CONFIGURATION_QUERY = Inr q" "msg_ok CONFIGURATION_QUERY [] q"
    by (simp add: msg_of_type_def msg_encoded_size_def msg_new_def Let_def checksum_size_def msg_ok_def)
  have n: "n = length (cf_encoding ?c)" "cf_encoded_size ?c = Inr (length (cf_encoding ?c))"
    using assms(4,5) by (simp_all add: cf_encoded_size_law)
  obtain m' where m': "cf_message ?c = Inr m'" "msg_ok CONFIGURATION_RESPONSE (cf_encoding ?c) m'"
    using msg_of_body_ok [OF cf_encode_writes [OF assms(4)] n(2), of CONFIGURATION_RESPONSE] assms(6) n(1)
    by (auto simp: cf_message_def)
  let ?w = "msg_wire CONFIGURATION_QUERY [] q" and ?w' = "msg_wire CONFIGURATION_RESPONSE (cf_encoding ?c) m'"
  have ready: "nd_receiving a" "nd_receiving b" "sg_posted (nd_signals (sc_user b)) = []"
    "nd_listens (sc_user b) (sig_of INCOMING H_query) Cb_query" "sg_actions (nd_signals (sc_user a)) (sig_of INCOMING H_configuration) = []"
    using assms(1,2) by (simp_all add: nd_ready_to_talk_def)
  obtain rb memb where rb: "rx_holds rb memb" "rx_place rb = Rx_header"
    "nd_ready halt Posted (nd_feed ord junk 1 ?w b) =
      nd_callback halt Cb_query Plain (nd_update (nd_receiver_update (\<lambda>_. Some rb)) b)"
    using nd_deliver_query [OF ready(2) q(2) ready(4) assms(3) ready(3), of halt junk] by blast
  let ?b = "nd_update (nd_push m') (nd_update (nd_receiver_update (\<lambda>_. Some rb)) b)"
  have b: "nd_ready halt Posted (nd_feed ord junk 1 ?w b) = ?b"
    unfolding rb(3) using m'(1) by (simp add: nd_callback_def)
  have talkb: "nd_ready_to_talk ?b"
    using assms(2) rb(1,2) by (auto simp: nd_ready_to_talk_def nd_receiving_def nd_listens_def)
  have as: "msg_as (cf_decode_copy junk) m' = Inr (cf_received 0 ?c)"
    by (rule msg_as_consumes [OF cf_decode_copy_consumes [OF assms(4)]]) (use m'(2) in \<open>simp add: msg_ok_def\<close>)
  obtain r where a: "nd_feed ord junk 2 ?w' a = nd_update (nd_receiver_update (\<lambda>_. Some r)) a"
    using nd_feed_configuration [OF ready(1) m'(2) assms(4) ready(5)] by blast
  have items: "sq_items (nd_queue (sc_user ?b)) = sq_items (nd_queue (sc_user b)) @ [m']" by simp
  have keep: "nd_configuration (sc_user (nd_feed ord junk 2 ?w' a)) = nd_configuration (sc_user a)" unfolding a by simp
  show ?thesis
    by (rule exI [of _ q], rule exI [of _ ?w], rule exI [of _ m'], rule exI [of _ ?w'], rule exI [of _ ?b],
        rule exI [of _ "cf_received 0 ?c"], rule exI [of _ r])
      (intro conjI q(1) tx_encode_ok [OF q(2)] b [symmetric] talkb items tx_encode_ok [OF m'(2)] as
        cf_received_eq [OF assms(4)] a keep)
qed

definition node_c :: node where
  "node_c = nd_update (nd_configuration_update (\<lambda>_. cf_example)) node_b"

theorem configuration_exchange_witness:
  "\<exists>q w m' w' b' c r. msg_of_type CONFIGURATION_QUERY = Inr q \<and> tx_encode q = Inr (Encode_Success, w) \<and>
    b' = nd_ready id Posted (nd_feed id (\<lambda>_. 0) 1 w node_c) \<and> nd_ready_to_talk b' \<and>
    sq_items (nd_queue (sc_user b')) = sq_items (nd_queue (sc_user node_c)) @ [m'] \<and>
    tx_encode m' = Inr (Encode_Success, w') \<and>
    msg_as (cf_decode_copy (\<lambda>_. 0)) m' = Inr c \<and> cf_eq c (nd_configuration (sc_user node_c)) = Inr True \<and>
    nd_feed id (\<lambda>_. 0) 2 w' node_a = nd_update (nd_receiver_update (\<lambda>_. Some r)) node_a \<and>
    nd_configuration (sc_user (nd_feed id (\<lambda>_. 0) 2 w' node_a)) = nd_configuration (sc_user node_a)"
proof (rule configuration_exchange [OF node_ab_facts(1)])
  show "nd_ready_to_talk node_c"
    using node_ab_facts(2) by (simp add: node_c_def nd_ready_to_talk_def nd_receiving_def nd_listens_def)
  show "cf_encoded_size (nd_configuration (sc_user node_c)) = Inr 49" "(49 :: nat) + 4 < 65536"
    by (simp_all add: node_c_def cf_example_size)
qed (simp_all add: node_c_def cf_example_wf)

end
