(* ===== verification/Server.thy ===== *)
theory Server
  imports Exchange
begin

text \<open>
  A server of nodes: \<^verbatim>\<open>include/crisp/comms/NodeServer.hh\<close> and \<^verbatim>\<open>bits/NodeServer.tcc\<close>. Its main routine is a coroutine, here
  a place in the server's state; nodes are numbered in the order of their creation, and a deleted node is
  absent. What runs later on the I/O service is an event of its own. A wait on the condition variable blocks
  the thread; what the server prints is left out.
\<close>

section \<open>The code\<close>

text \<open>
  Assigning the server's dispatcher to a node's copies the sets of actions. The node's world of signals takes
  in the actions of the server under numbers of its own, as signals behind the node's.
\<close>

definition dp_import :: "dispatcher \<Rightarrow> node_data \<Rightarrow> node_data" where
  "dp_import p d =
     (let w = nd_signals d; n = sg_next w in
      d\<lparr>nd_signals := w\<lparr>
          sg_signals := sg_signals w @ map (sig_actions_update (map (\<lambda>a. n + a))) (sg_signals (fst p)),
          sg_home := (\<lambda>a. if a < n then sg_home w a else length (sg_signals w) + sg_home (fst p) (a - n)),
          sg_next := n + sg_next (fst p)\<rparr>,
        nd_callbacks := (\<lambda>a. if a < n then nd_callbacks d a else snd p (a - n))\<rparr>)"

definition nd_assign_dispatcher :: "dispatcher \<Rightarrow> node_data \<Rightarrow> node_data" where
  "nd_assign_dispatcher p d =
     (dp_import p d)\<lparr>nd_signals := dp_assign True 0 (length (sg_signals (nd_signals d))) (nd_signals (dp_import p d))\<rparr>"

definition nd_set_target :: "node_data \<Rightarrow> node_data" where
  "nd_set_target d = d\<lparr>nd_signals := dp_set_target 0 (nd_signals d)\<rparr>"

text \<open>The dispatcher of a server has no node, and its signals no service.\<close>

definition dp_new :: dispatcher where
  "dp_new = dp_set_default_callbacks
     (fold (\<lambda>_. sg_create False) [0..<12] \<lparr>sg_signals = [], sg_home = (\<lambda>_. 0), sg_next = 0, sg_kept = [], sg_posted = [], sg_user = ()\<rparr>,
      \<lambda>_. None)"

datatype sv_place = Sv_idle | Sv_spawned | Sv_slot | Sv_accepting | Sv_connecting | Sv_draining | Sv_done

record server =
  sv_configuration :: configuration
  sv_dispatcher :: dispatcher
  sv_connected :: "nat list"                  \<comment> \<open>emissions of the connect signal\<close>
  sv_heap :: "nat \<Rightarrow> node option"
  sv_created :: nat
  sv_variable :: "nat \<Rightarrow> nat option"          \<comment> \<open>the variable \<open>node\<close> of each turn of the loop, while the turn lasts\<close>
  sv_nodes :: "nat list"                      \<comment> \<open>the set of connected nodes\<close>
  sv_launches :: "nat list"                   \<comment> \<open>posted calls of \<open>launch\<close>\<close>
  sv_max_simultaneous :: nat
  sv_max_cumulative :: nat
  sv_num_cumulative :: nat
  sv_listening :: bool
  sv_open :: bool
  sv_halting :: bool
  sv_stopped :: bool
  sv_place :: sv_place
  sv_outcome :: outcome

text \<open>The constructor ignores its argument for simultaneous connections.\<close>

definition sv_new :: "nat \<Rightarrow> nat \<Rightarrow> server" where
  "sv_new max_simultaneous max_cumulative =
     \<lparr>sv_configuration = cf_make 0, sv_dispatcher = dp_new, sv_connected = [], sv_heap = (\<lambda>_. None), sv_created = 0,
      sv_variable = (\<lambda>_. None), sv_nodes = [], sv_launches = [], sv_max_simultaneous = 0, sv_max_cumulative = max_cumulative,
      sv_num_cumulative = 0, sv_listening = False, sv_open = True, sv_halting = False, sv_stopped = False,
      sv_place = Sv_idle, sv_outcome = Alive\<rparr>"

definition sv_launch :: "server \<Rightarrow> server" where
  "sv_launch s = s\<lparr>sv_place := Sv_spawned\<rparr>"

definition sv_crash :: "fault \<Rightarrow> server \<Rightarrow> server" where
  "sv_crash e s = s\<lparr>sv_outcome := Crashed e\<rparr>"

text \<open>\<open>halt\<close> and \<open>delete\<close> of one node of the set, on thread \<open>self\<close> (see \<open>nd_halt\<close>).\<close>

definition sv_drop :: "nat \<Rightarrow> bool \<Rightarrow> choice list \<Rightarrow> nat \<Rightarrow> server \<Rightarrow> server" where
  "sv_drop self other polled i s =
     (if sv_outcome s \<noteq> Alive then s
      else case sv_heap s i of
        None \<Rightarrow> sv_crash Use_after_free s
      | Some nd \<Rightarrow>
          let nd1 = snd (nd_halt self other False polled nd);
              nd2 = (if nd_outcome (sc_user nd1) = Alive then nd_destroy self other polled nd1 else nd1)
          in s\<lparr>sv_heap := (sv_heap s)(i := None), sv_outcome := nd_outcome (sc_user nd2)\<rparr>)"

text \<open>The end of the main routine: it waits for the set to become empty and halts the server.\<close>

definition sv_drain :: "(server \<Rightarrow> server) \<Rightarrow> server \<Rightarrow> server" where
  "sv_drain halt s = (if sv_nodes s \<noteq> [] then s\<lparr>sv_place := Sv_draining\<rparr> else (halt s)\<lparr>sv_place := Sv_done\<rparr>)"

text \<open>
  \<open>halt\<close>: closing the acceptor aborts a pending \<open>accept\<close>, and \<open>poll_one\<close> may pick its completion; the main
  routine then goes on inside \<open>halt\<close>, where a call of \<open>halt\<close> has no effect, and a wait of it blocks this thread.
  \<open>ord\<close> is the iteration order of the set of nodes.
\<close>

definition sv_halt ::
    "(nat list \<Rightarrow> nat list) \<Rightarrow> nat \<Rightarrow> bool \<Rightarrow> choice list \<Rightarrow> bool \<Rightarrow> server \<Rightarrow> server" where
  "sv_halt ord self other polled resumes s =
     (if sv_halting s then s
      else let s1 = s\<lparr>sv_halting := True, sv_stopped := True, sv_open := False\<rparr>;
               s2 = (if resumes \<and> sv_place s1 = Sv_accepting then sv_drain id s1 else s1)
           in if sv_place s2 = Sv_draining \<and> sv_place s \<noteq> Sv_draining then s2\<lparr>sv_outcome := Hung\<rparr>
              else fold (sv_drop self other polled) (ord (sv_nodes s2)) s2)"

text \<open>The top of the accepting loop; a wait for a slot ends when the set is below the limit.\<close>

definition sv_top :: "(server \<Rightarrow> server) \<Rightarrow> server \<Rightarrow> server" where
  "sv_top halt s =
     (if (sv_num_cumulative s < sv_max_cumulative s \<or> sv_max_cumulative s = 0) \<and> \<not> sv_stopped s
      then if sv_max_simultaneous s > 0 \<and> length (sv_nodes s) > sv_max_simultaneous s
           then s\<lparr>sv_place := Sv_slot\<rparr> else s\<lparr>sv_place := Sv_accepting\<rparr>
      else sv_drain halt s)"

definition SIZE_MAX :: nat where
  "SIZE_MAX = size_modulus - 1"

definition sv_main :: "(server \<Rightarrow> server) \<Rightarrow> server \<Rightarrow> server" where
  "sv_main halt s =
     sv_top halt (s\<lparr>sv_listening := True,
       sv_max_cumulative := if sv_max_cumulative s = 0 then SIZE_MAX else sv_max_cumulative s\<rparr>)"

text \<open>A new node takes over the server's configuration and callbacks.\<close>

definition sv_equip :: "configuration \<Rightarrow> dispatcher \<Rightarrow> node_data \<Rightarrow> fault + node_data" where
  "sv_equip cfg p d =
     bindE (cf_assign (nd_configuration d) cfg) (\<lambda>c.
       Inr (nd_set_target (nd_assign_dispatcher p (d\<lparr>nd_configuration := c\<rparr>))))"

text \<open>
  One turn of the loop for an accepted connection: the node, its place in the set, its launch and the emission of the connect signal.
  While the functions of that signal run, other threads serve the launch and what follows from it. Then the turn ends,
  and with it the turn's variable \<open>node\<close>.
\<close>

definition sv_connect :: "nat \<Rightarrow> 64 word \<Rightarrow> server \<Rightarrow> server" where
  "sv_connect now waiters s =
     (let s1 = s\<lparr>sv_num_cumulative := sv_num_cumulative s + 1\<rparr>;
          nd = nd_new now waiters SLAVE;
          i = sv_created s1
      in case sv_equip (sv_configuration s1) (sv_dispatcher s1) (sc_user nd) of
           Inl e \<Rightarrow> sv_crash e s1
         | Inr d \<Rightarrow>
             let nd' = nd\<lparr>sc_user := snd (nd_on_disconnect d)\<rparr> in
             s1\<lparr>sv_heap := (sv_heap s1)(i \<mapsto> nd'), sv_created := i + 1, sv_variable := (sv_variable s1)(i \<mapsto> i),
               sv_nodes := sv_nodes s1 @ [i], sv_launches := sv_launches s1 @ [i], sv_connected := sv_connected s1 @ [i],
               sv_place := Sv_connecting\<rparr>)"

definition sv_end_turn :: "(server \<Rightarrow> server) \<Rightarrow> server \<Rightarrow> server" where
  "sv_end_turn halt s = sv_top halt (s\<lparr>sv_variable := (sv_variable s)(sv_created s - 1 := None)\<rparr>)"

definition sv_accepted :: "(server \<Rightarrow> server) \<Rightarrow> nat \<Rightarrow> 64 word \<Rightarrow> server \<Rightarrow> server" where
  "sv_accepted halt now waiters s =
     (let s1 = sv_connect now waiters s in if sv_outcome s1 = Alive then sv_end_turn halt s1 else s1)"

text \<open>
  The function connected to the disconnect signal of node \<open>i\<close> holds a reference to the variable \<open>node\<close> of turn \<open>i\<close>. It reads the
  variable, takes the node out of the set, deletes it and notifies whoever waits for the set (see \<open>Sv_wake\<close>).
\<close>

definition sv_delete :: "nat \<Rightarrow> bool \<Rightarrow> choice list \<Rightarrow> nat \<Rightarrow> server \<Rightarrow> server" where
  "sv_delete self other polled i s =
     (case sv_heap s i of
        None \<Rightarrow> sv_crash Use_after_free s
      | Some nd \<Rightarrow> s\<lparr>sv_heap := (sv_heap s)(i := None), sv_outcome := nd_outcome (sc_user (nd_destroy self other polled nd))\<rparr>)"

definition sv_forget :: "nat \<Rightarrow> bool \<Rightarrow> choice list \<Rightarrow> nat \<Rightarrow> server \<Rightarrow> server" where
  "sv_forget self other polled i s =
     (case sv_variable s i of
        None \<Rightarrow> sv_crash Use_after_free s
      | Some n \<Rightarrow> sv_delete self other polled n (s\<lparr>sv_nodes := removeAll n (sv_nodes s)\<rparr>))"

text \<open>
  The events. \<open>Sv_accept\<close> is a turn that nothing interrupts; \<open>Sv_connect\<close> and \<open>Sv_connected\<close> are its two halves, between which anything
  may happen. \<open>Sv_disconnected\<close> is the call of the function connected to a node's disconnect signal, \<open>Sv_node\<close> anything that
  happens in one node.
\<close>

datatype sv_event =
    Sv_enter
  | Sv_accept nat "64 word"
  | Sv_connect nat "64 word"
  | Sv_connected
  | Sv_accept_error
  | Sv_wake
  | Sv_disconnected nat
  | Sv_launch_node "nat \<Rightarrow> byte"
  | Sv_halt bool
  | Sv_node nat "node \<Rightarrow> node"

definition sv_run_launch :: "(nat \<Rightarrow> byte) \<Rightarrow> server \<Rightarrow> server" where
  "sv_run_launch junk s =
     (case sv_launches s of
        [] \<Rightarrow> s
      | i # is \<Rightarrow>
          let s1 = s\<lparr>sv_launches := is\<rparr> in
          (case sv_heap s i of
             None \<Rightarrow> sv_crash Use_after_free s1
           | Some nd \<Rightarrow> s1\<lparr>sv_heap := (sv_heap s)(i \<mapsto> snd (nd_launch junk nd))\<rparr>))"

definition sv_do ::
    "(nat list \<Rightarrow> nat list) \<Rightarrow> nat \<Rightarrow> bool \<Rightarrow> choice list \<Rightarrow> sv_event \<Rightarrow> server \<Rightarrow> server" where
  "sv_do ord self other polled e s =
     (let halt = sv_halt ord self other polled in
      if sv_outcome s \<noteq> Alive then s
      else case e of
        Sv_enter \<Rightarrow> if sv_place s = Sv_spawned then sv_main (halt False) s else s
      | Sv_accept now n \<Rightarrow> if sv_place s = Sv_accepting \<and> sv_open s then sv_accepted (halt False) now n s else s
      | Sv_connect now n \<Rightarrow> if sv_place s = Sv_accepting \<and> sv_open s then sv_connect now n s else s
      | Sv_connected \<Rightarrow> if sv_place s = Sv_connecting then sv_end_turn (halt False) s else s
      | Sv_accept_error \<Rightarrow> if sv_place s = Sv_accepting then sv_drain (halt False) s else s
      | Sv_wake \<Rightarrow>
          if sv_place s = Sv_slot
          then if length (sv_nodes s) \<ge> sv_max_simultaneous s then s else s\<lparr>sv_place := Sv_accepting\<rparr>
          else if sv_place s = Sv_draining then sv_drain (halt False) s else s
      | Sv_disconnected i \<Rightarrow> if i \<in> set (sv_nodes s) then sv_forget self other polled i s else s
      | Sv_launch_node junk \<Rightarrow> sv_run_launch junk s
      | Sv_halt resumes \<Rightarrow> halt resumes s
      | Sv_node i f \<Rightarrow>
          if i \<notin> set (sv_nodes s) then s
          else (case sv_heap s i of None \<Rightarrow> sv_crash Use_after_free s | Some nd \<Rightarrow> s\<lparr>sv_heap := (sv_heap s)(i \<mapsto> f nd)\<rparr>))"

text \<open>\<open>run\<close> serves the I/O service itself until the server has stopped.\<close>

fun sv_loop ::
    "(nat list \<Rightarrow> nat list) \<Rightarrow> nat \<Rightarrow> bool \<Rightarrow> choice list \<Rightarrow> sv_event list \<Rightarrow> server \<Rightarrow> server" where
  "sv_loop ord self other polled [] s = s"
| "sv_loop ord self other polled (e # es) s =
     (if sv_stopped s then s else sv_loop ord self other polled es (sv_do ord self other polled e s))"

definition sv_run ::
    "(nat list \<Rightarrow> nat list) \<Rightarrow> nat \<Rightarrow> bool \<Rightarrow> choice list \<Rightarrow> sv_event list \<Rightarrow> server \<Rightarrow> server" where
  "sv_run ord self other polled es s = sv_loop ord self other polled es (sv_launch s)"

definition sv_destroy ::
    "(nat list \<Rightarrow> nat list) \<Rightarrow> nat \<Rightarrow> bool \<Rightarrow> choice list \<Rightarrow> bool \<Rightarrow> server \<Rightarrow> server" where
  "sv_destroy = sv_halt"

section \<open>What an accepted node has\<close>

lemma sg_assign_nth:
  "i < length (sg_signals w) \<Longrightarrow> sg_signals (sg_assign i j w) ! k =
     (if k = i then (sg_signals w ! i)\<lparr>sig_actions := sg_actions w j, sig_service := sig_service (sg_signals w ! j)\<rparr>
      else sg_signals w ! k)"
  by (simp add: sg_assign_def sg_update_def nth_list_update)

lemma sg_length_simps [simp]:
  "length (sg_signals (sg_assign i j w)) = length (sg_signals w)"
  "length (sg_signals (sg_set_io_service i w)) = length (sg_signals w)"
  by (simp_all add: sg_assign_def sg_set_io_service_def sg_update_def)

lemma sg_assign_fold:
  assumes "m \<le> b" and "m \<le> length (sg_signals w)"
  shows "length (sg_signals (fold (\<lambda>k. sg_assign k (b + k)) [0..<m] w)) = length (sg_signals w) \<and>
    (\<forall>k. sg_signals (fold (\<lambda>k. sg_assign k (b + k)) [0..<m] w) ! k =
      (if k < m then (sg_signals w ! k)\<lparr>sig_actions := sg_actions w (b + k), sig_service := sig_service (sg_signals w ! (b + k))\<rparr>
       else sg_signals w ! k))"
  using assms
proof (induction m)
  case (Suc m)
  then show ?case by (auto simp: sg_assign_nth sg_actions_def less_Suc_eq)
qed simp

lemma sg_service_fold:
  "m \<le> length (sg_signals w) \<Longrightarrow>
    length (sg_signals (fold (\<lambda>k. sg_set_io_service k) [0..<m] w)) = length (sg_signals w) \<and>
    (\<forall>k. sg_signals (fold (\<lambda>k. sg_set_io_service k) [0..<m] w) ! k =
      (if k < m then (sg_signals w ! k)\<lparr>sig_service := True\<rparr> else sg_signals w ! k))"
  by (induction m) (auto simp: sg_set_io_service_def sg_update_def nth_list_update less_Suc_eq)

text \<open>A node whose signals call, through the I/O service, what the dispatcher \<open>p\<close> calls.\<close>

definition nd_answers :: "dispatcher \<Rightarrow> node_data \<Rightarrow> bool" where
  "nd_answers p d \<longleftrightarrow> (\<forall>k < 12.
     sig_service (sg_signals (nd_signals d) ! k) \<and> sig_live (sg_signals (nd_signals d) ! k) \<and>
     map (nd_callbacks d) (sg_actions (nd_signals d) k) = map (snd p) (sg_actions (fst p) k))"

lemma nd_assign_dispatcher_answers:
  assumes "length (sg_signals (fst p)) = 12" and "length (sg_signals (nd_signals d)) = 13"
    and "\<And>k. k < 12 \<Longrightarrow> sig_live (sg_signals (nd_signals d) ! k)"
  shows "nd_answers p (nd_set_target (nd_assign_dispatcher p d))"
    and "length (sg_signals (nd_signals (nd_set_target (nd_assign_dispatcher p d)))) = 25"
proof -
  let ?w = "nd_signals (dp_import p d)"
  have len: "length (sg_signals ?w) = 25" using assms by (simp add: dp_import_def Let_def)
  let ?w1 = "fold (\<lambda>k. sg_assign k (13 + k)) [0..<12] ?w"
  let ?w2 = "fold (\<lambda>k. sg_set_io_service k) [0..<12] ?w1"
  let ?w3 = "fold (\<lambda>k. sg_set_io_service k) [0..<12] ?w2"
  have 1: "length (sg_signals ?w1) = 25" "k < 12 \<Longrightarrow> sg_signals ?w1 ! k =
      (sg_signals ?w ! k)\<lparr>sig_actions := sg_actions ?w (13 + k), sig_service := sig_service (sg_signals ?w ! (13 + k))\<rparr>" for k
    using sg_assign_fold [of 12 13 ?w] len by simp_all
  have 2: "length (sg_signals ?w2) = 25" "k < 12 \<Longrightarrow> sg_signals ?w2 ! k = (sg_signals ?w1 ! k)\<lparr>sig_service := True\<rparr>" for k
    using sg_service_fold [of 12 ?w1] 1(1) by simp_all
  have 3: "length (sg_signals ?w3) = 25" "k < 12 \<Longrightarrow> sg_signals ?w3 ! k = (sg_signals ?w2 ! k)\<lparr>sig_service := True\<rparr>" for k
    using sg_service_fold [of 12 ?w2] 2(1) by simp_all
  have sig: "nd_signals (nd_set_target (nd_assign_dispatcher p d)) = ?w3"
    unfolding nd_set_target_def nd_assign_dispatcher_def dp_set_target_def dp_assign_def assms(2) add_0 Let_def by simp
  have cb: "nd_callbacks (nd_set_target (nd_assign_dispatcher p d)) = nd_callbacks (dp_import p d)"
    by (simp add: nd_set_target_def nd_assign_dispatcher_def)
  have "sig_live (sg_signals ?w ! k)" if "k < 12" for k
    using assms that by (simp add: dp_import_def Let_def nth_append)
  moreover have "map (nd_callbacks (dp_import p d)) (sg_actions ?w (13 + k)) = map (snd p) (sg_actions (fst p) k)" if "k < 12" for k
    using assms that by (simp add: dp_import_def Let_def nth_append sg_actions_def)
  ultimately show "nd_answers p (nd_set_target (nd_assign_dispatcher p d))"
    unfolding nd_answers_def sig cb by (simp add: 1 2 3 sg_actions_def)
  show "length (sg_signals (nd_signals (nd_set_target (nd_assign_dispatcher p d)))) = 25"
    unfolding sig by (rule 3)
qed

lemma nd_signals_set_live: "length (sg_signals nd_signals_set) = 13" "\<forall>x \<in> set (sg_signals nd_signals_set). sig_live x"
  by (simp_all add: nd_signals_set_def)

lemma nd_new_live: "k < 12 \<Longrightarrow> sig_live (sg_signals (nd_signals (sc_user (nd_new now n role))) ! k)"
  unfolding nd_new_signals using nd_signals_set_live by simp

lemma nd_on_disconnect_answers:
  assumes "nd_answers p d" and "length (sg_signals (nd_signals d)) > 12"
  shows "nd_answers p (snd (nd_on_disconnect d))"
proof -
  have "sg_signals (nd_signals (snd (nd_on_disconnect d))) ! k = sg_signals (nd_signals d) ! k" if "k < 12" for k
    using that by (simp add: nd_on_disconnect_def sg_connect_def sg_update_def disconnect_sig_def Let_def)
  moreover have "nd_callbacks (snd (nd_on_disconnect d)) = nd_callbacks d"
    by (simp add: nd_on_disconnect_def sg_connect_def Let_def)
  ultimately show ?thesis using assms by (simp add: nd_answers_def sg_actions_def)
qed


text \<open>The node of an accepted connection, before its launch.\<close>

definition sv_equipped :: "configuration \<Rightarrow> dispatcher \<Rightarrow> node \<Rightarrow> bool" where
  "sv_equipped c p nd \<longleftrightarrow> nd_configuration (sc_user nd) = c \<and> nd_role (sc_user nd) = SLAVE \<and>
     nd_answers p (sc_user nd) \<and> nd_outcome (sc_user nd) = Alive \<and> \<not> nd_stopped (sc_user nd)"

lemma sv_equip_ok:
  assumes "cf_assign (cf_make 0) cfg = Inr c" and "length (sg_signals (fst p)) = 12"
  obtains d where "sv_equip cfg p (sc_user (nd_new now n SLAVE)) = Inr d"
    and "sv_equipped c p ((nd_new now n SLAVE)\<lparr>sc_user := snd (nd_on_disconnect d)\<rparr>)"
proof -
  let ?u = "sc_user (nd_new now n SLAVE)"
  let ?d = "nd_set_target (nd_assign_dispatcher p (?u\<lparr>nd_configuration := c\<rparr>))"
  have "nd_configuration ?u = cf_make 0" by (simp add: nd_new_def sc_new_def nd_with_dispatcher_def)
  then have eq: "sv_equip cfg p ?u = Inr ?d" using assms(1) by (simp add: sv_equip_def)
  have len: "length (sg_signals (nd_signals ?u)) = 13" by (simp add: nd_new_signals nd_signals_set_live)
  have ans: "nd_answers p ?d" and l: "length (sg_signals (nd_signals ?d)) = 25"
    using assms(2) len by (intro nd_assign_dispatcher_answers; simp add: nd_new_live)+
  have same: "nd_configuration ?d = c" "nd_role ?d = SLAVE" "nd_outcome ?d = Alive" "\<not> nd_stopped ?d"
    by (simp_all add: nd_set_target_def nd_assign_dispatcher_def dp_import_def Let_def nd_new_fields)
  from l have "length (sg_signals (nd_signals ?d)) > 12" by simp
  then have "nd_answers p (snd (nd_on_disconnect ?d))" by (rule nd_on_disconnect_answers [OF ans])
  moreover have "nd_configuration (snd (nd_on_disconnect ?d)) = c" "nd_role (snd (nd_on_disconnect ?d)) = SLAVE"
    "nd_outcome (snd (nd_on_disconnect ?d)) = Alive" "\<not> nd_stopped (snd (nd_on_disconnect ?d))"
    using same by (simp_all add: nd_on_disconnect_def sg_connect_def Let_def)
  ultimately show ?thesis using that [OF eq] by (simp add: sv_equipped_def)
qed

section \<open>Accepting\<close>

definition sv_serving :: "configuration \<Rightarrow> configuration \<Rightarrow> dispatcher \<Rightarrow> nat \<Rightarrow> nat \<Rightarrow> server \<Rightarrow> bool" where
  "sv_serving cfg c p limit k s \<longleftrightarrow>
     sv_configuration s = cfg \<and> sv_dispatcher s = p \<and> sv_outcome s = Alive \<and> sv_open s \<and> \<not> sv_stopped s \<and>
     \<not> sv_halting s \<and> sv_max_simultaneous s = 0 \<and> sv_max_cumulative s = limit \<and> sv_num_cumulative s = k \<and> sv_created s = k \<and>
     sv_nodes s = [0..<k] \<and> sv_launches s = [0..<k] \<and> sv_connected s = [0..<k] \<and>
     (\<forall>i < k. \<exists>nd. sv_heap s i = Some nd \<and> sv_equipped c p nd)"

lemma sv_top_serving:
  assumes "sv_serving cfg c p limit k s" and "k \<le> limit" and "0 < limit"
  shows "sv_serving cfg c p limit k (sv_top halt s) \<and>
    sv_place (sv_top halt s) = (if k = limit then Sv_draining else Sv_accepting)"
  using assms by (auto simp: sv_serving_def sv_top_def sv_drain_def)

lemma sv_accepted_serving:
  assumes "sv_serving cfg c p limit k s" and "Suc k \<le> limit" and "cf_assign (cf_make 0) cfg = Inr c"
    and "length (sg_signals (fst p)) = 12"
  shows "sv_serving cfg c p limit (Suc k) (sv_accepted halt now n s) \<and>
    sv_place (sv_accepted halt now n s) = (if Suc k = limit then Sv_draining else Sv_accepting)"
proof -
  obtain d where d: "sv_equip cfg p (sc_user (nd_new now n SLAVE)) = Inr d"
    and e: "sv_equipped c p ((nd_new now n SLAVE)\<lparr>sc_user := snd (nd_on_disconnect d)\<rparr>)"
    using sv_equip_ok [OF assms(3,4)] by metis
  let ?s = "s\<lparr>sv_num_cumulative := k + 1, sv_heap := (sv_heap s)(k \<mapsto> (nd_new now n SLAVE)\<lparr>sc_user := snd (nd_on_disconnect d)\<rparr>),
    sv_created := k + 1, sv_nodes := sv_nodes s @ [k], sv_launches := sv_launches s @ [k], sv_connected := sv_connected s @ [k],
    sv_place := Sv_connecting, sv_variable := (sv_variable s)(k := None)\<rparr>"
  have "sv_accepted halt now n s = sv_top halt ?s"
    using assms(1) d by (simp add: sv_accepted_def sv_connect_def sv_end_turn_def sv_serving_def Let_def)
  moreover have "sv_serving cfg c p limit (Suc k) ?s"
    using assms(1) e by (simp add: sv_serving_def less_Suc_eq)
  ultimately show ?thesis using sv_top_serving [of cfg c p limit "Suc k" ?s halt] assms(2) by simp
qed

lemma sv_accepts_serving:
  assumes "cf_assign (cf_make 0) cfg = Inr c" and "length (sg_signals (fst p)) = 12"
    and "sv_serving cfg c p limit k s" and "sv_place s = Sv_accepting" and "k + length cs \<le> limit" and "k < limit"
  shows "sv_serving cfg c p limit (k + length cs) (fold (sv_do ord self other polled) (map (\<lambda>(now, n). Sv_accept now n) cs) s) \<and>
    sv_place (fold (sv_do ord self other polled) (map (\<lambda>(now, n). Sv_accept now n) cs) s) =
      (if k + length cs = limit then Sv_draining else Sv_accepting)"
  using assms(3-)
proof (induction cs arbitrary: k s)
  case (Cons x cs)
  obtain now n where x: "x = (now, n)" by fastforce
  let ?h = "sv_halt ord self other polled False"
  let ?s = "sv_accepted ?h now n s"
  have do: "sv_do ord self other polled (Sv_accept now n) s = ?s"
    using Cons.prems(1,2) by (simp add: sv_do_def sv_serving_def Let_def)
  have step: "sv_serving cfg c p limit (Suc k) ?s" "sv_place ?s = (if Suc k = limit then Sv_draining else Sv_accepting)"
    using sv_accepted_serving [OF Cons.prems(1) _ assms(1,2), of ?h now n] Cons.prems(3) by simp_all
  show ?case
  proof (cases "Suc k = limit")
    case True
    then have "cs = []" using Cons.prems(3) by (cases cs) simp_all
    with step True show ?thesis by (simp add: x do)
  next
    case False
    then have "Suc k < limit" using Cons.prems(3,4) by simp
    with False step Cons.IH [of "Suc k" ?s] Cons.prems(3) show ?thesis by (simp add: x do)
  qed
qed simp

text \<open>
  Claim C10. A server accepts up to the given number of connections (0: as many as fit a \<open>size_t\<close>), however small the
  given number of simultaneous ones is. Every connection gets a live slave node with the server's configuration,
  whose signals call what the server's dispatcher calls; its launch is posted and the connection is signalled once, in order.
  At the limit the server accepts no more and waits for the connections to close.
\<close>

theorem server_accepts:
  assumes "cf_assign (cf_make 0) cfg = Inr c" and "length (sg_signals (fst p)) = 12"
    and "limit = (if max_cumulative = 0 then SIZE_MAX else max_cumulative)" and "length cs \<le> limit"
  shows "\<exists>s. fold (sv_do ord self other polled) (Sv_enter # map (\<lambda>(now, n). Sv_accept now n) cs)
      (sv_launch ((sv_new max_simultaneous max_cumulative)\<lparr>sv_configuration := cfg, sv_dispatcher := p\<rparr>)) = s \<and>
    sv_outcome s = Alive \<and> sv_place s = (if length cs = limit then Sv_draining else Sv_accepting) \<and>
    sv_nodes s = [0..<length cs] \<and> sv_launches s = [0..<length cs] \<and> sv_connected s = [0..<length cs] \<and>
    (\<forall>i < length cs. \<exists>nd. sv_heap s i = Some nd \<and> sv_equipped c p nd)"
proof -
  let ?s0 = "sv_launch ((sv_new max_simultaneous max_cumulative)\<lparr>sv_configuration := cfg, sv_dispatcher := p\<rparr>)"
  let ?s1 = "sv_do ord self other polled Sv_enter ?s0"
  have pos: "0 < limit" using assms(3) by (simp add: SIZE_MAX_def size_modulus_def)
  have "sv_serving cfg c p limit 0 ?s1 \<and> sv_place ?s1 = Sv_accepting"
    using pos assms(3) by (auto simp: sv_do_def sv_launch_def sv_new_def sv_main_def sv_top_def sv_serving_def Let_def)
  then have "sv_serving cfg c p limit (0 + length cs) (fold (sv_do ord self other polled) (map (\<lambda>(now, n). Sv_accept now n) cs) ?s1) \<and>
    sv_place (fold (sv_do ord self other polled) (map (\<lambda>(now, n). Sv_accept now n) cs) ?s1) =
      (if 0 + length cs = limit then Sv_draining else Sv_accepting)"
    using assms(1,2,4) pos by (intro sv_accepts_serving) simp_all
  then show ?thesis by (simp add: sv_serving_def)
qed

lemma length_sg_creates: "length (sg_signals (fold (\<lambda>_. sg_create b) ks w)) = length (sg_signals w) + length ks"
  by (induction ks arbitrary: w) (simp_all add: sg_create_def)

lemma length_dp_defaults: "length (sg_signals (fst (dp_set_default_callbacks p))) = length (sg_signals (fst p))"
proof -
  have "length (sg_signals (fst (fold (\<lambda>(dir, h, cb). dp_join dir h cb) xs q))) = length (sg_signals (fst q))" for xs q
    by (induction xs arbitrary: q) (auto simp: dp_join_def sg_connect_def sg_update_def Let_def)
  then show ?thesis by (simp add: dp_set_default_callbacks_def)
qed

lemma length_dp_new: "length (sg_signals (fst dp_new)) = 12"
  by (simp add: dp_new_def length_dp_defaults length_sg_creates)

theorem server_accepts_witness:
  "\<exists>s. fold (sv_do id 7 False []) [Sv_enter, Sv_accept 5 0, Sv_accept 9 1, Sv_accept 9 2]
      (sv_launch ((sv_new 1 3)\<lparr>sv_configuration := cf_make 0, sv_dispatcher := dp_new\<rparr>)) = s \<and>
    sv_outcome s = Alive \<and> sv_place s = Sv_draining \<and> sv_nodes s = [0, 1, 2] \<and> sv_launches s = [0, 1, 2]"
proof -
  have c: "cf_assign (cf_make 0) (cf_make 0) = Inr (cf_make 0)"
    by (simp add: cf_assign_def cf_make_def sa_assign_via_def sa_alloc_def sa_elems_def sa_clear_def
        sa_ensure_capacity_def)
  show ?thesis
    using server_accepts [OF c length_dp_new, of 3 3 "[(5, 0), (9, 1), (9, 2)]" id 7 False "[]" 1] by (simp add: upt_rec)
qed

section \<open>Ending\<close>

text \<open>Only the turn that lasts has its variable, and only nodes of earlier turns are in the set.\<close>

definition sv_inv :: "server \<Rightarrow> bool" where
  "sv_inv s \<longleftrightarrow> (sv_place s = Sv_done \<longrightarrow> sv_nodes s = []) \<and> (\<forall>i \<in> set (sv_nodes s). i < sv_created s) \<and>
     (\<forall>i n. sv_variable s i = Some n \<longrightarrow> n = i \<and> Suc i = sv_created s \<and> sv_place s = Sv_connecting)"

text \<open>A node whose turn is over, and which is still in the set.\<close>

definition sv_settled :: "nat \<Rightarrow> server \<Rightarrow> bool" where
  "sv_settled i s \<longleftrightarrow> sv_inv s \<and> i < sv_created s \<and> sv_variable s i = None \<and> (sv_outcome s = Alive \<longrightarrow> i \<in> set (sv_nodes s))"

text \<open>What leaves the nodes and the turns alone, and does not revive a server.\<close>

definition sv_same :: "server \<Rightarrow> server \<Rightarrow> bool" where
  "sv_same s s' \<longleftrightarrow> sv_nodes s' = sv_nodes s \<and> sv_created s' = sv_created s \<and> sv_variable s' = sv_variable s \<and>
     (sv_outcome s' = Alive \<longrightarrow> sv_outcome s = Alive) \<and>
     (sv_place s' = sv_place s \<or> (sv_place s \<noteq> Sv_connecting \<or> sv_variable s = (\<lambda>_. None)) \<and> (sv_place s' = Sv_done \<longrightarrow> sv_nodes s = []))"

lemma sv_same_refl [simp]: "sv_same s s"
  by (simp add: sv_same_def)

lemma sv_same_trans: "sv_same s s' \<Longrightarrow> sv_same s' s'' \<Longrightarrow> sv_same s s''"
  by (auto simp: sv_same_def)

lemma sv_same_inv: "sv_same s s' \<Longrightarrow> sv_inv s \<Longrightarrow> sv_inv s'"
  by (cases "sv_place s' = sv_place s") (auto simp: sv_same_def sv_inv_def)

lemma sv_same_settled: "sv_same s s' \<Longrightarrow> sv_settled i s \<Longrightarrow> sv_settled i s'"
  using sv_same_inv [of s s'] by (simp add: sv_settled_def sv_same_def)

lemma sv_drop_same: "sv_same s (sv_drop self other polled i s)"
  by (simp add: sv_same_def sv_drop_def sv_crash_def Let_def split: option.splits)

lemma sv_drops_same: "sv_same s (fold (sv_drop self other polled) is s)"
  by (induction "is" arbitrary: s) (auto intro: sv_same_trans [OF sv_drop_same])

lemma sv_halt_same: "sv_same s (sv_halt ord self other polled resumes s)"
proof (cases "sv_halting s")
  case False
  define s2 where "s2 = (let s1 = s\<lparr>sv_halting := True, sv_stopped := True, sv_open := False\<rparr> in
    if resumes \<and> sv_place s1 = Sv_accepting then sv_drain id s1 else s1)"
  have "sv_same s s2" by (simp add: s2_def Let_def sv_same_def sv_drain_def)
  moreover have "sv_same s2 (s2\<lparr>sv_outcome := Hung\<rparr>)" by (simp add: sv_same_def)
  moreover have "sv_halt ord self other polled resumes s =
      (if sv_place s2 = Sv_draining \<and> sv_place s \<noteq> Sv_draining then s2\<lparr>sv_outcome := Hung\<rparr>
       else fold (sv_drop self other polled) (ord (sv_nodes s2)) s2)"
    using False by (simp add: sv_halt_def s2_def Let_def)
  ultimately show ?thesis using sv_same_trans sv_drops_same by metis
qed (simp add: sv_halt_def)

lemma sv_drain_same:
  assumes "sv_place s \<noteq> Sv_connecting \<or> sv_variable s = (\<lambda>_. None)"
  shows "sv_same s (sv_drain (sv_halt ord self other polled resumes) s)"
  using assms sv_halt_same [of s ord self other polled resumes] by (auto simp: sv_drain_def sv_same_def)

lemma sv_top_same:
  assumes "sv_place s \<noteq> Sv_connecting \<or> sv_variable s = (\<lambda>_. None)"
  shows "sv_same s (sv_top (sv_halt ord self other polled resumes) s)"
  using sv_drain_same [OF assms] assms by (auto simp: sv_top_def sv_same_def)

lemma sv_connect_effect:
  assumes "sv_inv s" and "sv_place s = Sv_accepting"
  shows "sv_inv (sv_connect now n s)" "sv_settled i s \<Longrightarrow> sv_settled i (sv_connect now n s)"
proof -
  let ?eq = "sv_equip (sv_configuration s) (sv_dispatcher s) (sc_user (nd_new now n SLAVE))"
  show inv: "sv_inv (sv_connect now n s)"
    using assms by (cases ?eq) (auto simp: sv_connect_def sv_inv_def sv_crash_def Let_def less_SucI)
  show "sv_settled i (sv_connect now n s)" if "sv_settled i s"
    using that inv by (cases ?eq) (auto simp: sv_settled_def sv_connect_def sv_crash_def Let_def)
qed

lemma sv_end_turn_effect:
  assumes "sv_inv s"
  shows "sv_inv (sv_end_turn (sv_halt ord self other polled resumes) s)"
    "sv_settled i s \<Longrightarrow> sv_settled i (sv_end_turn (sv_halt ord self other polled resumes) s)"
proof -
  let ?s = "s\<lparr>sv_variable := (sv_variable s)(sv_created s - 1 := None)\<rparr>"
  have none: "sv_variable ?s = (\<lambda>_. None)"
  proof
    fix i show "sv_variable ?s i = None"
    proof (cases "sv_variable s i")
      case (Some n)
      then have "Suc i = sv_created s" using assms by (simp add: sv_inv_def)
      then show ?thesis using Some by auto
    qed simp
  qed
  have same: "sv_same ?s (sv_end_turn (sv_halt ord self other polled resumes) s)"
    unfolding sv_end_turn_def by (rule sv_top_same) (use none in blast)
  have inv: "sv_inv ?s" using assms none by (auto simp: sv_inv_def)
  show "sv_inv (sv_end_turn (sv_halt ord self other polled resumes) s)" by (rule sv_same_inv [OF same inv])
  show "sv_settled i (sv_end_turn (sv_halt ord self other polled resumes) s)" if "sv_settled i s"
    by (rule sv_same_settled [OF same]) (use that inv in \<open>simp add: sv_settled_def\<close>)
qed

lemma sv_accepted_effect:
  assumes "sv_inv s" and "sv_place s = Sv_accepting"
  shows "sv_inv (sv_accepted (sv_halt ord self other polled resumes) now n s)"
    "sv_settled i s \<Longrightarrow> sv_settled i (sv_accepted (sv_halt ord self other polled resumes) now n s)"
  using sv_connect_effect [OF assms] sv_end_turn_effect [of "sv_connect now n s"]
  by (simp_all add: sv_accepted_def Let_def)

text \<open>The function of a disconnect signal: it reads its variable only during its node's turn.\<close>

lemma sv_forget_effect:
  assumes "sv_inv s" and "sv_outcome s = Alive"
  shows "sv_inv (sv_forget self other polled j s)" "sv_settled i s \<Longrightarrow> sv_settled i (sv_forget self other polled j s)"
proof -
  show inv: "sv_inv (sv_forget self other polled j s)"
    using assms by (auto simp: sv_forget_def sv_delete_def sv_crash_def sv_inv_def split: option.splits)
  show "sv_settled i (sv_forget self other polled j s)" if "sv_settled i s"
  proof (cases "sv_variable s j")
    case (Some n)
    then have "n = j" "i \<noteq> j" using assms(1) that by (auto simp: sv_inv_def sv_settled_def)
    then show ?thesis using that inv assms(2) Some
      by (auto simp: sv_settled_def sv_forget_def sv_delete_def sv_crash_def split: option.splits)
  next
    case None
    then show ?thesis using that inv by (simp add: sv_settled_def sv_forget_def sv_crash_def)
  qed
qed

lemma sv_do_effect:
  assumes "sv_inv s"
  shows "sv_inv (sv_do ord self other polled e s) \<and> (sv_settled i s \<longrightarrow> sv_settled i (sv_do ord self other polled e s))"
proof (cases "sv_outcome s = Alive")
  case True
  have same: "sv_inv s' \<and> (sv_settled i s \<longrightarrow> sv_settled i s')" if "sv_same s s'" for s'
    using sv_same_inv [OF that assms] sv_same_settled [OF that] by blast
  show ?thesis
  proof (cases e)
    case Sv_enter
    let ?s = "s\<lparr>sv_listening := True, sv_max_cumulative := if sv_max_cumulative s = 0 then SIZE_MAX else sv_max_cumulative s\<rparr>"
    have "sv_same s (sv_main (sv_halt ord self other polled False) s)" if "sv_place s = Sv_spawned"
      unfolding sv_main_def by (rule sv_same_trans [of s ?s, OF _ sv_top_same]) (use that in \<open>simp_all add: sv_same_def\<close>)
    with Sv_enter same show ?thesis by (simp add: sv_do_def Let_def)
  next
    case (Sv_accept now n)
    with assms True sv_accepted_effect [OF assms] show ?thesis by (simp add: sv_do_def Let_def)
  next
    case (Sv_connect now n)
    with assms True sv_connect_effect [OF assms] show ?thesis by (simp add: sv_do_def Let_def)
  next
    case Sv_connected
    with assms True sv_end_turn_effect [OF assms] show ?thesis by (simp add: sv_do_def Let_def)
  next
    case Sv_accept_error
    then show ?thesis using True by (intro same) (simp add: sv_do_def Let_def sv_drain_same)
  next
    case Sv_wake
    then show ?thesis using True by (intro same) (simp add: sv_do_def Let_def sv_drain_same, simp add: sv_same_def)
  next
    case (Sv_disconnected j)
    with assms True sv_forget_effect [OF assms True] show ?thesis by (simp add: sv_do_def Let_def)
  next
    case (Sv_launch_node junk)
    have "sv_same s (sv_run_launch junk s)"
      by (simp add: sv_same_def sv_run_launch_def sv_crash_def Let_def split: list.splits option.splits)
    with Sv_launch_node same show ?thesis by (simp add: sv_do_def Let_def)
  next
    case (Sv_halt resumes)
    then show ?thesis using True by (intro same) (simp add: sv_do_def Let_def sv_halt_same)
  next
    case (Sv_node j f)
    then show ?thesis using True by (intro same) (simp add: sv_do_def Let_def sv_same_def sv_crash_def split: option.splits)
  qed
qed (use assms in \<open>simp add: sv_do_def Let_def\<close>)

lemma sv_runs_effect:
  assumes "sv_inv s"
  shows "sv_inv (fold (sv_do ord self other polled) es s) \<and>
    (sv_settled i s \<longrightarrow> sv_settled i (fold (sv_do ord self other polled) es s))"
  using assms
proof (induction es arbitrary: s)
  case (Cons e es)
  then show ?case using sv_do_effect [OF Cons.prems, of ord self other polled e i] Cons.IH by simp
qed simp

text \<open>
  Claim C37. The function connected to a node's disconnect signal removes and deletes the node as it should only while the turn of the
  accepting loop that created the node still lasts. Take any run of a server, a node in its set whose turn is over, and whatever
  happens afterwards. As long as no fault has stopped the server, the node stays in the set and the main routine does not reach
  its end: a call of the function reads a variable that is gone, and a \<open>halt\<close> during which the aborted \<open>accept\<close> is served waits
  forever for the connections to close. A node whose turn lasts leaves the set and is deleted.
\<close>

theorem server_never_finishes:
  assumes "fold (sv_do ord self other polled) es (sv_launch (sv_new m n)) = s" and "i \<in> set (sv_nodes s)" and "sv_variable s i = None"
    and "sv_outcome (fold (sv_do ord self other polled) es' s) = Alive"
  shows "\<exists>s'. fold (sv_do ord self other polled) es' s = s' \<and> i \<in> set (sv_nodes s') \<and> sv_place s' \<noteq> Sv_done \<and>
    sv_outcome (sv_do ord self other polled (Sv_disconnected i) s') = Crashed Use_after_free \<and>
    (sv_place s' = Sv_accepting \<and> \<not> sv_halting s' \<longrightarrow> sv_outcome (sv_do ord self other polled (Sv_halt True) s') = Hung) \<and>
    (\<forall>j \<in> set (sv_nodes s'). sv_variable s' j \<noteq> None \<and> sv_heap s' j \<noteq> None \<longrightarrow>
      sv_nodes (sv_do ord self other polled (Sv_disconnected j) s') = removeAll j (sv_nodes s') \<and>
      sv_heap (sv_do ord self other polled (Sv_disconnected j) s') j = None)"
proof -
  let ?s = "fold (sv_do ord self other polled) es' s"
  have "sv_inv (sv_launch (sv_new m n))" by (simp add: sv_inv_def sv_launch_def sv_new_def)
  then have inv: "sv_inv s" using sv_runs_effect [of _ ord self other polled es] assms(1) by blast
  then have "sv_settled i s" using assms(2,3) by (simp add: sv_settled_def sv_inv_def)
  then have at: "sv_settled i ?s" using sv_runs_effect [OF inv, of ord self other polled es' i] by blast
  then have i: "i \<in> set (sv_nodes ?s)" "sv_variable ?s i = None" and inv': "sv_inv ?s" using assms(4) by (simp_all add: sv_settled_def)
  then have "sv_place ?s \<noteq> Sv_done" "sv_nodes ?s \<noteq> []" by (auto simp: sv_inv_def)
  moreover have "sv_outcome (sv_do ord self other polled (Sv_disconnected i) ?s) = Crashed Use_after_free"
    using assms(4) i by (simp add: sv_do_def Let_def sv_forget_def sv_crash_def)
  moreover have "sv_outcome (sv_do ord self other polled (Sv_halt True) ?s) = Hung" if "sv_place ?s = Sv_accepting" "\<not> sv_halting ?s"
    using that assms(4) \<open>sv_nodes ?s \<noteq> []\<close> by (simp add: sv_do_def sv_halt_def sv_drain_def Let_def)
  moreover have "sv_nodes (sv_do ord self other polled (Sv_disconnected j) ?s) = removeAll j (sv_nodes ?s) \<and>
      sv_heap (sv_do ord self other polled (Sv_disconnected j) ?s) j = None"
    if "j \<in> set (sv_nodes ?s)" "sv_variable ?s j \<noteq> None" "sv_heap ?s j \<noteq> None" for j
  proof -
    have "sv_variable ?s j = Some j" using that(2) inv' by (auto simp: sv_inv_def)
    then show ?thesis using that(1,3) assms(4) by (auto simp: sv_do_def Let_def sv_forget_def sv_delete_def)
  qed
  ultimately show ?thesis using i(1) by blast
qed

theorem server_never_finishes_witness:
  "\<exists>s s'. fold (sv_do id 7 False []) [Sv_enter, Sv_accept 5 0] (sv_launch (sv_new 0 0)) = s \<and> sv_place s = Sv_accepting \<and>
    fold (sv_do id 7 False []) [Sv_wake, Sv_wake] s = s' \<and> 0 \<in> set (sv_nodes s') \<and>
    sv_outcome (sv_do id 7 False [] (Sv_disconnected 0) s') = Crashed Use_after_free \<and>
    sv_outcome (sv_do id 7 False [] (Sv_halt True) s') = Hung"
proof -
  let ?s = "fold (sv_do id 7 False []) [Sv_enter, Sv_accept 5 0] (sv_launch (sv_new 0 0))"
  have c: "cf_assign (cf_make 0) (cf_make 0) = Inr (cf_make 0)"
    by (simp add: cf_assign_def cf_make_def sa_assign_via_def sa_alloc_def sa_elems_def sa_clear_def sa_ensure_capacity_def)
  have "sv_serving (cf_make 0) (cf_make 0) dp_new SIZE_MAX 0 (sv_do id 7 False [] Sv_enter (sv_launch (sv_new 0 0))) \<and>
      sv_place (sv_do id 7 False [] Sv_enter (sv_launch (sv_new 0 0))) = Sv_accepting"
    by (auto simp: sv_do_def sv_launch_def sv_new_def sv_main_def sv_top_def sv_serving_def Let_def SIZE_MAX_def size_modulus_def)
  then have serving: "sv_serving (cf_make 0) (cf_make 0) dp_new SIZE_MAX 1 ?s" "sv_place ?s = Sv_accepting"
    using sv_accepts_serving [OF c length_dp_new, of SIZE_MAX 0 _ "[(5, 0)]" id 7 False "[]"]
    by (simp_all add: SIZE_MAX_def size_modulus_def)
  have start: "sv_inv (sv_launch (sv_new 0 0))" by (simp add: sv_inv_def sv_launch_def sv_new_def)
  obtain s where run: "?s = s" by blast
  note s = serving [unfolded run]
  have "sv_inv s" using sv_runs_effect [OF start, of id 7 False "[]"] run by blast
  then have v: "sv_variable s 0 = None" using s(2) by (cases "sv_variable s 0") (auto simp: sv_inv_def)
  have wakes: "fold (sv_do id 7 False []) [Sv_wake, Sv_wake] s = s" using s(2) by (simp add: sv_do_def Let_def)
  have nodes: "0 \<in> set (sv_nodes s)" "sv_outcome s = Alive" "\<not> sv_halting s" using s(1) by (simp_all add: sv_serving_def)
  from server_never_finishes [OF run nodes(1) v, of "[Sv_wake, Sv_wake]"]
  have "sv_outcome (sv_do id 7 False [] (Sv_disconnected 0) s) = Crashed Use_after_free"
    "sv_outcome (sv_do id 7 False [] (Sv_halt True) s) = Hung"
    unfolding wakes using nodes s(2) by blast+
  then show ?thesis using run s(2) wakes nodes(1) by blast
qed

end
