(* ===== verification/Input.thy ===== *)
theory Input
  imports Signals Complex_Main
begin

text \<open>
  Event sources of an input device: \<^verbatim>\<open>include/crisp/input/MappedEventSource.hh\<close>, \<^verbatim>\<open>Axis.hh\<close>, \<^verbatim>\<open>Button.hh\<close> and
  their sources under \<^verbatim>\<open>src/input\<close>. A \<open>double\<close> is a real number or one of the non-finite values, and its
  operations round to the nearest of 53 significant bits, ties to even, with gradual underflow and overflow to
  infinity; the sign of a zero is left out, since every zero the code divides by is converted from an integer.
  The rounding of \<open>std::pow\<close> is open in C++, so it is the parameter \<open>pw\<close>. An \<open>int32_t\<close> is an integer whose
  arithmetic faults when it leaves the width.
\<close>

section \<open>Arithmetic of the language\<close>

datatype double = Fin real | Infty bool | Not_a_number

definition i32 :: "int \<Rightarrow> fault + int" where
  "i32 x = (if - (2 ^ 31) \<le> x \<and> x < 2 ^ 31 then Inr x else Inl Arith_ub)"

text \<open>The nearest integer, ties to even, and the nearest double.\<close>

definition nearest_even :: "real \<Rightarrow> int" where
  "nearest_even x =
     (let n = \<lfloor>x\<rfloor>; r = x - of_int n in
      if r < 1 / 2 then n else if 1 / 2 < r then n + 1 else if even n then n else n + 1)"

definition unit_exp :: "real \<Rightarrow> int" where
  "unit_exp x = max (\<lfloor>log 2 \<bar>x\<bar>\<rfloor> - 52) (- 1074)"

definition nearest :: "real \<Rightarrow> real" where
  "nearest x = (if x = 0 then 0 else of_int (nearest_even (x * 2 powi (- unit_exp x))) * 2 powi unit_exp x)"

definition fl :: "real \<Rightarrow> double" where
  "fl x = (if 2 ^ 1024 \<le> \<bar>nearest x\<bar> then Infty (x < 0) else Fin (nearest x))"

definition d_int :: "int \<Rightarrow> double" where
  "d_int i = Fin (of_int i)"

fun d_div :: "double \<Rightarrow> double \<Rightarrow> double" where
  "d_div (Fin x) (Fin y) = (if y \<noteq> 0 then fl (x / y) else if x = 0 then Not_a_number else Infty (x < 0))"
| "d_div (Fin x) (Infty s) = Fin 0"
| "d_div (Infty s) (Fin y) = Infty (s \<noteq> (y < 0))"
| "d_div _ _ = Not_a_number"

fun d_add :: "double \<Rightarrow> double \<Rightarrow> double" where
  "d_add (Fin x) (Fin y) = fl (x + y)"
| "d_add (Fin x) (Infty s) = Infty s"
| "d_add (Infty s) (Fin y) = Infty s"
| "d_add (Infty s) (Infty t) = (if s = t then Infty s else Not_a_number)"
| "d_add _ _ = Not_a_number"

fun d_mul :: "double \<Rightarrow> double \<Rightarrow> double" where
  "d_mul (Fin x) (Fin y) = fl (x * y)"
| "d_mul (Fin x) (Infty s) = (if x = 0 then Not_a_number else Infty (s \<noteq> (x < 0)))"
| "d_mul (Infty s) (Fin y) = (if y = 0 then Not_a_number else Infty (s \<noteq> (y < 0)))"
| "d_mul (Infty s) (Infty t) = Infty (s \<noteq> t)"
| "d_mul _ _ = Not_a_number"

fun d_abs :: "double \<Rightarrow> double" where
  "d_abs (Fin x) = Fin \<bar>x\<bar>"
| "d_abs (Infty s) = Infty False"
| "d_abs Not_a_number = Not_a_number"

fun d_less :: "double \<Rightarrow> double \<Rightarrow> bool" where
  "d_less (Fin x) (Fin y) = (x < y)"
| "d_less (Fin x) (Infty s) = (\<not> s)"
| "d_less (Infty s) (Fin y) = s"
| "d_less (Infty s) (Infty t) = (s \<and> \<not> t)"
| "d_less _ _ = False"

definition d_max :: "double \<Rightarrow> double \<Rightarrow> double" where
  "d_max x y = (if d_less x y then y else x)"

section \<open>The code\<close>

text \<open>\<open>MappedEventSource::State\<close> for the two kinds of source, with the identifier of the source.\<close>

datatype button_state = UNKNOWN | PRESSED | RELEASED

datatype input_notice = Axis_moved u32 int double | Button_changed u32 int button_state

datatype axis_type = ABSOLUTE | RELATIVE

datatype map_method = MAP_NONE | LINEAR | POLYNOMIAL

record raw_config =
  rc_neutral :: int
  rc_minimum :: int
  rc_maximum :: int
  rc_deadzone_lower :: int
  rc_deadzone_upper :: int

record event_source =
  es_id :: u32
  es_signal :: nat

record axis = event_source +
  ax_type :: axis_type
  ax_mode :: axis_type
  ax_last :: int
  ax_map_method :: map_method
  ax_raw :: raw_config
  ax_coefficients :: "double list"

type_synonym 'u input_world = "(input_notice, 'u) signals"

text \<open>Construction; the signal of a source is created with it and has no I/O service.\<close>

definition es_new :: "u32 \<Rightarrow> 'u input_world \<Rightarrow> event_source \<times> 'u input_world" where
  "es_new i w = (\<lparr>es_id = i, es_signal = length (sg_signals w)\<rparr>, sg_create False w)"

definition es_move :: "('x event_source_scheme) \<Rightarrow> 'u input_world \<Rightarrow> event_source \<times> 'u input_world" where
  "es_move s w = (\<lparr>es_id = es_id s, es_signal = length (sg_signals w)\<rparr>, sg_move (es_signal s) w)"

definition es_hook :: "('x event_source_scheme) \<Rightarrow> 'u input_world \<Rightarrow> nat \<times> 'u input_world" where
  "es_hook s = sg_connect (es_signal s)"

text \<open>A \<open>RawConfig\<close> that is value-initialised.\<close>

definition raw_zero :: raw_config where
  "raw_zero = \<lparr>rc_neutral = 0, rc_minimum = 0, rc_maximum = 0, rc_deadzone_lower = 0, rc_deadzone_upper = 0\<rparr>"

definition ax_extend :: "axis_type \<Rightarrow> raw_config \<Rightarrow> map_method \<Rightarrow> event_source \<Rightarrow> axis" where
  "ax_extend t c m s =
     event_source.extend s
       \<lparr>ax_type = t, ax_mode = t, ax_last = 0, ax_map_method = m, ax_raw = c, ax_coefficients = []\<rparr>"

definition ax_of_type :: "axis_type \<Rightarrow> u32 \<Rightarrow> 'u input_world \<Rightarrow> axis \<times> 'u input_world" where
  "ax_of_type t i w = (case es_new i w of (s, w') \<Rightarrow> (ax_extend t raw_zero MAP_NONE s, w'))"

definition ax_linear :: "raw_config \<Rightarrow> u32 \<Rightarrow> 'u input_world \<Rightarrow> axis \<times> 'u input_world" where
  "ax_linear c i w = (case es_new i w of (s, w') \<Rightarrow> (ax_extend ABSOLUTE c LINEAR s, w'))"

definition ax_set_coefficients :: "double list \<Rightarrow> axis \<Rightarrow> axis" where
  "ax_set_coefficients cs a = a\<lparr>ax_map_method := POLYNOMIAL, ax_coefficients := rev cs\<rparr>"

definition ax_polynomial :: "raw_config \<Rightarrow> u32 \<Rightarrow> double list \<Rightarrow> 'u input_world \<Rightarrow> axis \<times> 'u input_world" where
  "ax_polynomial c i cs w =
     (case es_new i w of (s, w') \<Rightarrow> (ax_set_coefficients cs (ax_extend ABSOLUTE c POLYNOMIAL s), w'))"

definition ax_move :: "axis \<Rightarrow> 'u input_world \<Rightarrow> axis \<times> 'u input_world" where
  "ax_move a w = (case es_move a w of (s, w') \<Rightarrow> (a\<lparr>es_signal := es_signal s, ax_last := 0\<rparr>, w'))"

text \<open>\<open>map(Value)\<close> and \<open>map(RawValue)\<close>.\<close>

fun poly_loop :: "(double \<Rightarrow> nat \<Rightarrow> double) \<Rightarrow> double list \<Rightarrow> double \<Rightarrow> nat \<Rightarrow> double \<Rightarrow> double" where
  "poly_loop pw cs x 0 out = out"
| "poly_loop pw cs x (Suc i) out = poly_loop pw cs x i (d_add out (d_mul (cs ! i) (pw x i)))"

definition ax_map_value :: "(double \<Rightarrow> nat \<Rightarrow> double) \<Rightarrow> axis \<Rightarrow> double \<Rightarrow> double" where
  "ax_map_value pw a x =
     (case ax_map_method a of
        POLYNOMIAL \<Rightarrow> poly_loop pw (ax_coefficients a) x (length (ax_coefficients a)) (Fin 0)
      | _ \<Rightarrow> x)"

definition ax_unhandled :: string where
  "ax_unhandled = ''Unhandled edge case in Axis::map(RawValue)''"

definition ax_base :: "raw_config \<Rightarrow> int \<Rightarrow> fault + double" where
  "ax_base c r =
     bindE (i32 (rc_maximum c - rc_neutral c)) (\<lambda>hi.
     bindE (i32 (rc_minimum c - rc_neutral c)) (\<lambda>lo.
     bindE (i32 (r - rc_neutral c)) (\<lambda>v.
     bindE (i32 (- rc_minimum c)) (\<lambda>m.
       if rc_maximum c = m \<or> rc_minimum c = rc_neutral c then Inr (d_div (d_int v) (d_int hi))
       else if rc_maximum c = rc_neutral c then Inr (d_div (d_int v) (d_int lo))
       else bindE (i32 \<bar>hi\<bar>) (\<lambda>p. bindE (i32 \<bar>lo\<bar>) (\<lambda>q.
         if p \<noteq> q then Inr (d_div (d_int v) (d_max (d_abs (d_int hi)) (d_abs (d_int lo))))
         else Inl (Thrown ax_unhandled)))))))"

definition ax_map :: "(double \<Rightarrow> nat \<Rightarrow> double) \<Rightarrow> axis \<Rightarrow> int \<Rightarrow> fault + double" where
  "ax_map pw a r = bindE (ax_base (ax_raw a) r) (\<lambda>x. Inr (ax_map_value pw a x))"

text \<open>\<open>post\<close>: emulation of the other axis type, clipping, mapping; what it emits is \<open>Axis_moved\<close>.\<close>

definition ax_emulate :: "int \<Rightarrow> axis \<Rightarrow> fault + int \<times> axis" where
  "ax_emulate r a =
     (if ax_mode a = ax_type a then Inr (r, a)
      else case ax_mode a of
        RELATIVE \<Rightarrow> bindE (i32 (r - ax_last a)) (\<lambda>s. Inr (s, a\<lparr>ax_last := r\<rparr>))
      | ABSOLUTE \<Rightarrow> bindE (i32 (r + ax_last a)) (\<lambda>s. Inr (s, a\<lparr>ax_last := s\<rparr>)))"

definition ax_clip :: "axis \<Rightarrow> int \<Rightarrow> int" where
  "ax_clip a r =
     (if ax_type a = ABSOLUTE \<or> ax_mode a = ABSOLUTE
      then min (max r (rc_minimum (ax_raw a))) (rc_maximum (ax_raw a)) else r)"

definition ax_state :: "(double \<Rightarrow> nat \<Rightarrow> double) \<Rightarrow> int \<Rightarrow> axis \<Rightarrow> fault + (int \<times> double) \<times> axis" where
  "ax_state pw r a =
     bindE (ax_emulate r a) (\<lambda>(s, a').
       let s' = ax_clip a' s in
       bindE (if ax_map_method a' = MAP_NONE then Inr (Fin 0) else ax_map pw a' s') (\<lambda>v. Inr ((s', v), a')))"

definition ax_post ::
    "(nat list \<Rightarrow> nat list) \<Rightarrow> (nat \<Rightarrow> input_notice \<Rightarrow> 'u input_world \<Rightarrow> 'u input_world) \<Rightarrow>
     (double \<Rightarrow> nat \<Rightarrow> double) \<Rightarrow> int \<Rightarrow> axis \<Rightarrow> 'u input_world \<Rightarrow> fault + axis \<times> 'u input_world" where
  "ax_post ord call pw r a w =
     bindE (ax_state pw r a) (\<lambda>((s, v), a'). Inr (a', sg_emit ord call (es_signal a) (Axis_moved (es_id a) s v) w))"

text \<open>A button posts as \<open>MappedEventSource\<close> does.\<close>

definition bt_map :: "int \<Rightarrow> button_state" where
  "bt_map r = (if r \<noteq> 0 then PRESSED else RELEASED)"

definition bt_post ::
    "(nat list \<Rightarrow> nat list) \<Rightarrow> (nat \<Rightarrow> input_notice \<Rightarrow> 'u input_world \<Rightarrow> 'u input_world) \<Rightarrow>
     int \<Rightarrow> event_source \<Rightarrow> 'u input_world \<Rightarrow> 'u input_world" where
  "bt_post ord call r b w = sg_emit ord call (es_signal b) (Button_changed (es_id b) r (bt_map r)) w"

section \<open>Rounding\<close>

lemma nearest_even_near: "\<bar>of_int (nearest_even x) - x\<bar> \<le> 1 / 2"
proof -
  have "of_int \<lfloor>x\<rfloor> \<le> x" "x < of_int \<lfloor>x\<rfloor> + 1" by linarith+
  then show ?thesis by (simp add: nearest_even_def Let_def abs_le_iff)
qed

lemma nearest_even_le: "x \<le> of_int n \<Longrightarrow> nearest_even x \<le> n"
  using nearest_even_near [of x] by linarith

lemma nearest_even_ge: "of_int n \<le> x \<Longrightarrow> n \<le> nearest_even x"
  using nearest_even_near [of x] by linarith

lemma nearest_even_of_int [simp]: "nearest_even (of_int n) = n"
  by (intro antisym nearest_even_le nearest_even_ge) simp_all

lemma nearest_even_mono: "x \<le> y \<Longrightarrow> nearest_even x \<le> nearest_even y"
proof (cases "\<lfloor>x\<rfloor> = \<lfloor>y\<rfloor>")
  case True
  assume "x \<le> y"
  with True show ?thesis by (auto simp: nearest_even_def Let_def)
next
  case False
  assume "x \<le> y"
  then have "\<lfloor>x\<rfloor> \<le> \<lfloor>y\<rfloor>" by (rule floor_mono)
  with False have "\<lfloor>x\<rfloor> + 1 \<le> \<lfloor>y\<rfloor>" by simp
  moreover have "nearest_even x \<le> \<lfloor>x\<rfloor> + 1" by (rule nearest_even_le) linarith
  moreover have "\<lfloor>y\<rfloor> \<le> nearest_even y" by (rule nearest_even_ge) simp
  ultimately show ?thesis by linarith
qed

text \<open>Rounding stays between two numbers of the grid it rounds to.\<close>

lemma nearest_le:
  assumes "x \<le> of_int n * 2 powi unit_exp x" and "x \<noteq> 0"
  shows "nearest x \<le> of_int n * 2 powi unit_exp x"
proof -
  have "x * 2 powi (- unit_exp x) \<le> of_int n"
    using assms(1) by (simp add: power_int_minus field_simps)
  then have "nearest_even (x * 2 powi (- unit_exp x)) \<le> n" by (rule nearest_even_le)
  with assms(2) show ?thesis by (simp add: nearest_def)
qed

lemma nearest_ge:
  assumes "of_int n * 2 powi unit_exp x \<le> x" and "x \<noteq> 0"
  shows "of_int n * 2 powi unit_exp x \<le> nearest x"
proof -
  have "of_int n \<le> x * 2 powi (- unit_exp x)"
    using assms(1) by (simp add: power_int_minus field_simps)
  then have "n \<le> nearest_even (x * 2 powi (- unit_exp x))" by (rule nearest_even_ge)
  with assms(2) show ?thesis by (simp add: nearest_def)
qed

lemma nearest_0 [simp]: "nearest 0 = 0"
  by (simp add: nearest_def)

lemma nearest_nonneg: "0 \<le> x \<Longrightarrow> 0 \<le> nearest x"
  by (cases "x = 0") (use nearest_ge [of 0 x] in auto)

lemma power_on_grid:
  assumes "unit_exp x \<le> k"
  shows "(2::real) powi k = of_int (2 ^ nat (k - unit_exp x)) * 2 powi unit_exp x"
proof -
  have "(2::real) powi k = 2 powi ((k - unit_exp x) + unit_exp x)" by simp
  also have "\<dots> = 2 powi (k - unit_exp x) * 2 powi unit_exp x" by (rule power_int_add) simp
  also have "(2::real) powi (k - unit_exp x) = 2 ^ nat (k - unit_exp x)"
    using assms by (simp add: power_int_def)
  finally show ?thesis by simp
qed

lemma nearest_le_power: "unit_exp x \<le> k \<Longrightarrow> x \<le> 2 powi k \<Longrightarrow> nearest x \<le> 2 powi k"
  by (cases "x = 0") (use nearest_le [of x "2 ^ nat (k - unit_exp x)"] power_on_grid [of x k] in auto)

lemma nearest_ge_power: "unit_exp x \<le> k \<Longrightarrow> 2 powi k \<le> x \<Longrightarrow> 2 powi k \<le> nearest x"
  by (cases "x = 0") (use nearest_ge [of "2 ^ nat (k - unit_exp x)" x] power_on_grid [of x k] in auto)

lemma nearest_power: "unit_exp (2 powi k) \<le> k \<Longrightarrow> nearest (2 powi k) = 2 powi k"
  by (intro antisym nearest_le_power nearest_ge_power) simp_all

lemma unit_exp_minus [simp]: "unit_exp (- x) = unit_exp x"
  by (simp add: unit_exp_def)

lemma nearest_even_minus: "nearest_even (- x) = - nearest_even x"
proof (cases "x = of_int \<lfloor>x\<rfloor>")
  case True
  then show ?thesis by (metis nearest_even_of_int of_int_minus)
next
  case False
  then have "\<lceil>x\<rceil> = \<lfloor>x\<rfloor> + 1" by (simp add: ceiling_altdef)
  then have "\<lfloor>- x\<rfloor> = - \<lfloor>x\<rfloor> - 1" by (simp add: ceiling_def)
  then show ?thesis by (simp add: nearest_even_def Let_def)
qed

lemma nearest_minus: "nearest (- x) = - nearest x"
  by (simp add: nearest_def nearest_even_minus)

lemma floor_log_bounds:
  assumes "0 < x"
  shows "2 powi \<lfloor>log 2 x\<rfloor> \<le> x" and "x < 2 powi (\<lfloor>log 2 x\<rfloor> + 1)"
proof -
  have "x = 2 powr log 2 x" using assms by simp
  moreover have "2 powr of_int \<lfloor>log 2 x\<rfloor> \<le> (2::real) powr log 2 x" by (rule powr_mono) simp_all
  moreover have "(2::real) powr log 2 x < 2 powr of_int (\<lfloor>log 2 x\<rfloor> + 1)" by (rule powr_less_mono) linarith+
  ultimately show "2 powi \<lfloor>log 2 x\<rfloor> \<le> x" and "x < 2 powi (\<lfloor>log 2 x\<rfloor> + 1)"
    using powr_real_of_int' [of 2 "\<lfloor>log 2 x\<rfloor>"] powr_real_of_int' [of 2 "\<lfloor>log 2 x\<rfloor> + 1"] by simp_all
qed

lemma nearest_mono_pos:
  assumes "0 < x" and "x \<le> y"
  shows "nearest x \<le> nearest y"
proof (cases "unit_exp x = unit_exp y")
  case True
  have "nearest_even (x * 2 powi (- unit_exp x)) \<le> nearest_even (y * 2 powi (- unit_exp y))"
    using assms True by (intro nearest_even_mono) (simp add: mult_right_mono)
  with True assms show ?thesis by (simp add: nearest_def mult_right_mono)
next
  case False
  let ?k = "\<lfloor>log 2 y\<rfloor>"
  have le: "\<lfloor>log 2 x\<rfloor> \<le> ?k" using assms by (intro floor_mono) simp
  with False assms have e: "unit_exp x < unit_exp y" by (auto simp: unit_exp_def)
  then have y: "unit_exp y = ?k - 52" and lt: "\<lfloor>log 2 x\<rfloor> < ?k" using assms le by (auto simp: unit_exp_def)
  have "x < 2 powi (\<lfloor>log 2 x\<rfloor> + 1)" using assms by (intro floor_log_bounds) simp
  also have "(2::real) powi (\<lfloor>log 2 x\<rfloor> + 1) \<le> 2 powi ?k" using lt by (simp add: power_int_increasing)
  finally have "nearest x \<le> 2 powi ?k" using e y by (intro nearest_le_power) simp_all
  also have "2 powi ?k \<le> nearest y"
    using y assms floor_log_bounds(1) [of y] by (intro nearest_ge_power) simp_all
  finally show ?thesis .
qed

lemma nearest_mono: "x \<le> y \<Longrightarrow> nearest x \<le> nearest y"
proof -
  assume le: "x \<le> y"
  consider "0 < x" | "x \<le> 0" "0 \<le> y" | "y < 0" by linarith
  then show ?thesis
  proof cases
    case 1
    with le show ?thesis by (rule nearest_mono_pos [rotated -1])
  next
    case 2
    then have "0 \<le> nearest y" and "0 \<le> nearest (- x)" by (auto intro: nearest_nonneg)
    then show ?thesis by (simp add: nearest_minus)
  next
    case 3
    with le have "nearest (- y) \<le> nearest (- x)" by (intro nearest_mono_pos) simp_all
    then show ?thesis by (simp add: nearest_minus)
  qed
qed

lemma nearest_1 [simp]: "nearest 1 = 1"
  using nearest_power [of 0] by (simp add: unit_exp_def)

text \<open>Numbers between -1 and 1 round to such numbers.\<close>

lemma fl_unit:
  assumes "\<bar>x\<bar> \<le> 1"
  shows "fl x = Fin (nearest x)" and "\<bar>nearest x\<bar> \<le> 1"
proof -
  have "nearest x \<le> nearest 1" "nearest (- 1) \<le> nearest x" using assms by (intro nearest_mono; simp)+
  then show *: "\<bar>nearest x\<bar> \<le> 1" by (simp add: nearest_minus [of 1])
  have "(1::real) < 2 ^ 1024" by (rule one_less_power) simp_all
  with * have "\<not> (2 ^ 1024 \<le> \<bar>nearest x\<bar>)" by linarith
  then show "fl x = Fin (nearest x)" by (simp only: fl_def if_False)
qed

section \<open>The linear map\<close>

text \<open>
  A configuration a device can have: the neutral value lies in a proper range, and the range fits the width. It is
  regular when neither the base case nor the missing case of \<open>map\<close> spoils it.
\<close>

definition rc_ok :: "raw_config \<Rightarrow> bool" where
  "rc_ok c \<longleftrightarrow> rc_minimum c \<le> rc_neutral c \<and> rc_neutral c \<le> rc_maximum c \<and> rc_minimum c < rc_maximum c \<and>
     - (2 ^ 31) < rc_minimum c \<and> rc_maximum c < 2 ^ 31 \<and> rc_maximum c - rc_minimum c < 2 ^ 31"

definition rc_regular :: "raw_config \<Rightarrow> bool" where
  "rc_regular c \<longleftrightarrow> (rc_maximum c = - rc_minimum c \<longrightarrow> rc_neutral c \<le> 0) \<and>
     (rc_maximum c - rc_neutral c = rc_neutral c - rc_minimum c \<longrightarrow> rc_neutral c = 0)"

definition rc_scale :: "raw_config \<Rightarrow> int" where
  "rc_scale c =
     (if rc_maximum c = - rc_minimum c \<or> rc_minimum c = rc_neutral c then rc_maximum c - rc_neutral c
      else if rc_maximum c = rc_neutral c then rc_minimum c - rc_neutral c
      else max (rc_maximum c - rc_neutral c) (rc_neutral c - rc_minimum c))"

lemma i32_in [simp]: "- (2 ^ 31) \<le> x \<Longrightarrow> x < 2 ^ 31 \<Longrightarrow> i32 x = Inr x"
  by (simp add: i32_def)

lemma ax_base_ok:
  assumes "rc_ok c" and "rc_minimum c \<le> r" and "r \<le> rc_maximum c"
  shows "ax_base c r =
    (if rc_maximum c \<noteq> - rc_minimum c \<and> rc_maximum c - rc_neutral c = rc_neutral c - rc_minimum c
     then Inl (Thrown ax_unhandled) else Inr (d_div (d_int (r - rc_neutral c)) (d_int (rc_scale c))))"
proof -
  have i: "i32 (rc_maximum c - rc_neutral c) = Inr (rc_maximum c - rc_neutral c)"
    "i32 (rc_minimum c - rc_neutral c) = Inr (rc_minimum c - rc_neutral c)"
    "i32 (r - rc_neutral c) = Inr (r - rc_neutral c)" "i32 (- rc_minimum c) = Inr (- rc_minimum c)"
    "i32 \<bar>rc_maximum c - rc_neutral c\<bar> = Inr (rc_maximum c - rc_neutral c)"
    "i32 \<bar>rc_minimum c - rc_neutral c\<bar> = Inr (rc_neutral c - rc_minimum c)"
    using assms by (auto simp: rc_ok_def i32_def)
  have m: "d_max (d_abs (d_int (rc_maximum c - rc_neutral c))) (d_abs (d_int (rc_minimum c - rc_neutral c))) =
      d_int (max (rc_maximum c - rc_neutral c) (rc_neutral c - rc_minimum c))"
    using assms by (auto simp: rc_ok_def d_int_def d_max_def max_def)
  show ?thesis
    using assms(1) by (auto simp: ax_base_def i m rc_scale_def rc_ok_def)
qed

lemma ax_map_unhandled:
  assumes "rc_ok c" and "rc_maximum c \<noteq> - rc_minimum c"
    and "rc_maximum c - rc_neutral c = rc_neutral c - rc_minimum c" and "rc_minimum c \<le> r" and "r \<le> rc_maximum c"
  shows "ax_base c r = Inl (Thrown ax_unhandled)"
  using assms by (simp add: ax_base_ok)

text \<open>The rounded quotient, its range and its slope.\<close>

definition rc_value :: "raw_config \<Rightarrow> int \<Rightarrow> real" where
  "rc_value c r = nearest (of_int (r - rc_neutral c) / of_int (rc_scale c))"

lemma rc_scale_bounds:
  assumes "rc_ok c" and "rc_regular c" and "rc_minimum c \<le> r" and "r \<le> rc_maximum c"
  shows "rc_scale c \<noteq> 0" and "\<bar>r - rc_neutral c\<bar> \<le> \<bar>rc_scale c\<bar>"
    and "rc_scale c < 0 \<longleftrightarrow> rc_neutral c = rc_maximum c"
  using assms by (auto simp: rc_ok_def rc_regular_def rc_scale_def max_def)

lemma ax_base_regular:
  assumes "rc_ok c" and "rc_regular c" and "rc_minimum c \<le> r" and "r \<le> rc_maximum c"
  shows "ax_base c r = Inr (Fin (rc_value c r))" and "\<bar>rc_value c r\<bar> \<le> 1"
proof -
  let ?q = "of_int (r - rc_neutral c) / of_int (rc_scale c) :: real"
  have "\<bar>real_of_int (r - rc_neutral c)\<bar> \<le> \<bar>real_of_int (rc_scale c)\<bar>"
    using rc_scale_bounds(2) [OF assms] by linarith
  then have q: "\<bar>?q\<bar> \<le> 1" using rc_scale_bounds(1) [OF assms] by (simp add: abs_divide)
  show "\<bar>rc_value c r\<bar> \<le> 1" unfolding rc_value_def by (rule fl_unit [OF q])
  have "\<not> (rc_maximum c \<noteq> - rc_minimum c \<and> rc_maximum c - rc_neutral c = rc_neutral c - rc_minimum c)"
    using assms(1,2) by (auto simp: rc_ok_def rc_regular_def)
  then show "ax_base c r = Inr (Fin (rc_value c r))"
    using rc_scale_bounds(1) [OF assms] fl_unit(1) [OF q]
    by (simp add: ax_base_ok [OF assms(1,3,4)] rc_value_def d_int_def)
qed

lemma rc_value_mono:
  assumes "rc_ok c" and "rc_regular c" and "rc_minimum c \<le> r" and "r \<le> s" and "s \<le> rc_maximum c"
  shows "if rc_neutral c = rc_maximum c then rc_value c s \<le> rc_value c r else rc_value c r \<le> rc_value c s"
proof -
  have r: "rc_minimum c \<le> r" "r \<le> rc_maximum c" using assms by simp_all
  note sign = rc_scale_bounds(3) [OF assms(1,2) r] and nz = rc_scale_bounds(1) [OF assms(1,2) r]
  have le: "real_of_int (r - rc_neutral c) \<le> of_int (s - rc_neutral c)" using assms(4) by simp
  show ?thesis
  proof (cases "rc_neutral c = rc_maximum c")
    case True
    with sign have "real_of_int (rc_scale c) < 0" by simp
    with le True show ?thesis by (auto simp: rc_value_def intro!: nearest_mono divide_right_mono_neg)
  next
    case False
    with sign nz have "0 < real_of_int (rc_scale c)" by simp
    with le False show ?thesis by (auto simp: rc_value_def intro!: nearest_mono divide_right_mono)
  qed
qed

lemma rc_value_neutral: "rc_value c (rc_neutral c) = 0"
  by (simp add: rc_value_def)

text \<open>
  Claim C26. For a regular configuration the linear map of an axis does what its documentation says: every raw
  value of the range maps to a double between -1 and 1, the neutral value to 0, a larger raw value never to a
  smaller output, and with the neutral value at the maximum never to a larger one.
\<close>

theorem axis_linear_map:
  assumes "rc_ok (ax_raw a)" and "rc_regular (ax_raw a)" and "ax_map_method a \<noteq> POLYNOMIAL"
    and "rc_minimum (ax_raw a) \<le> r" and "r \<le> s" and "s \<le> rc_maximum (ax_raw a)"
  shows "\<exists>x y. ax_map pw a r = Inr (Fin x) \<and> ax_map pw a s = Inr (Fin y) \<and> \<bar>x\<bar> \<le> 1 \<and> \<bar>y\<bar> \<le> 1 \<and>
    (r = rc_neutral (ax_raw a) \<longrightarrow> x = 0) \<and>
    (if rc_neutral (ax_raw a) = rc_maximum (ax_raw a) then y \<le> x else x \<le> y)"
proof -
  have v: "ax_map pw a t = Inr (Fin (rc_value (ax_raw a) t)) \<and> \<bar>rc_value (ax_raw a) t\<bar> \<le> 1"
    if "rc_minimum (ax_raw a) \<le> t" "t \<le> rc_maximum (ax_raw a)" for t
    using ax_base_regular [OF assms(1,2) that] assms(3)
    by (auto simp: ax_map_def ax_map_value_def split: map_method.splits)
  show ?thesis
    by (rule exI [of _ "rc_value (ax_raw a) r"], rule exI [of _ "rc_value (ax_raw a) s"])
      (use v [of r] v [of s] assms rc_value_mono [OF assms(1,2,4,5,6)] rc_value_neutral in auto)
qed

definition pad_axis :: axis where
  "pad_axis = fst (ax_linear \<lparr>rc_neutral = 128, rc_minimum = 0, rc_maximum = 255, rc_deadzone_lower = 0, rc_deadzone_upper = 0\<rparr> 0
     (\<lparr>sg_signals = [], sg_home = (\<lambda>_. 0), sg_next = 0, sg_kept = [], sg_posted = [], sg_user = ()\<rparr> :: unit input_world))"

lemma pad_axis_simps: "rc_minimum (ax_raw pad_axis) = 0" "rc_maximum (ax_raw pad_axis) = 255"
  "rc_neutral (ax_raw pad_axis) = 128" "ax_map_method pad_axis = LINEAR"
  by (simp_all add: pad_axis_def ax_linear_def es_new_def ax_extend_def event_source.defs)

theorem axis_linear_map_witness:
  "\<exists>x y. ax_map (\<lambda>x _. x) pad_axis 3 = Inr (Fin x) \<and> ax_map (\<lambda>x _. x) pad_axis 128 = Inr (Fin y) \<and>
    \<bar>x\<bar> \<le> 1 \<and> \<bar>y\<bar> \<le> 1 \<and> x \<le> y"
  using axis_linear_map [of pad_axis 3 128 "\<lambda>x _. x"] by (auto simp: rc_ok_def rc_regular_def pad_axis_simps)

lemma nearest_gt_1:
  assumes "1 + 2 powi (-52) \<le> x"
  shows "1 < nearest x"
proof -
  have "\<lfloor>log 2 (1 + 2 powi (-52))\<rfloor> = 0"
    by (simp add: floor_eq_iff log_less_iff power_int_minus)
  then have "unit_exp (1 + 2 powi (-52)) = -52" by (simp add: unit_exp_def power_int_minus)
  then have "1 + 2 powi (-52) \<le> nearest (1 + 2 powi (-52))"
    using nearest_ge [of "2 ^ 52 + 1" "1 + 2 powi (-52)"] by (simp add: power_int_minus field_simps)
  also have "\<dots> \<le> nearest x" using assms by (rule nearest_mono)
  finally show ?thesis by (simp add: power_int_minus)
qed

text \<open>
  The other configurations break the map. When the neutral value is the middle of a range that is not
  symmetric about 0, every value of the range throws; when the range is symmetric about 0 and the neutral value is
  positive, the lowest value maps to no double between -1 and 1.
\<close>

theorem axis_irregular_map:
  assumes "rc_ok (ax_raw a)" and "\<not> rc_regular (ax_raw a)" and "ax_map_method a \<noteq> POLYNOMIAL"
    and "rc_minimum (ax_raw a) \<le> r" and "r \<le> rc_maximum (ax_raw a)"
  shows "if rc_maximum (ax_raw a) \<noteq> - rc_minimum (ax_raw a) then ax_map pw a r = Inl (Thrown ax_unhandled)
    else \<exists>x. ax_map pw a (rc_minimum (ax_raw a)) = Inr x \<and> (\<forall>y. x = Fin y \<longrightarrow> 1 < \<bar>y\<bar>)"
proof (cases "rc_maximum (ax_raw a) = - rc_minimum (ax_raw a)")
  case False
  with assms show ?thesis by (auto simp: rc_regular_def ax_map_def ax_map_unhandled)
next
  case True
  let ?c = "ax_raw a"
  have n: "0 < rc_neutral ?c" using True assms(1,2) by (auto simp: rc_regular_def rc_ok_def)
  have "ax_base ?c (rc_minimum ?c) = Inr (d_div (d_int (rc_minimum ?c - rc_neutral ?c)) (d_int (rc_maximum ?c - rc_neutral ?c)))"
    using assms(1) True by (simp add: ax_base_ok rc_scale_def rc_ok_def)
  then have m: "ax_map pw a (rc_minimum ?c) = Inr (d_div (d_int (rc_minimum ?c - rc_neutral ?c)) (d_int (rc_maximum ?c - rc_neutral ?c)))"
    using assms(3) by (auto simp: ax_map_def ax_map_value_def split: map_method.splits)
  have "1 < \<bar>y\<bar>" if "d_div (d_int (rc_minimum ?c - rc_neutral ?c)) (d_int (rc_maximum ?c - rc_neutral ?c)) = Fin y" for y
  proof -
    let ?x = "of_int (rc_neutral ?c - rc_minimum ?c) / of_int (rc_maximum ?c - rc_neutral ?c) :: real"
    have d: "rc_maximum ?c - rc_neutral ?c \<noteq> 0" using that assms(1) n True by (auto simp: d_int_def rc_ok_def)
    with assms(1) have d0: "0 < rc_maximum ?c - rc_neutral ?c" "rc_maximum ?c - rc_neutral ?c < 2 ^ 31" by (auto simp: rc_ok_def)
    have "of_int (rc_minimum ?c - rc_neutral ?c) / of_int (rc_maximum ?c - rc_neutral ?c) = - ?x" by (simp add: minus_divide_left)
    with that d have y: "y = - nearest ?x"
      by (simp add: d_int_def fl_def nearest_minus split: if_splits)
    have "real_of_int (rc_maximum ?c - rc_neutral ?c) * (1 + 2 powi (-52)) \<le> of_int (rc_neutral ?c - rc_minimum ?c)"
    proof -
      have "real_of_int (rc_maximum ?c - rc_neutral ?c) * 2 powi (-52) \<le> 1"
        using d0 by (simp add: power_int_minus field_simps)
      moreover have "real_of_int (rc_maximum ?c - rc_neutral ?c) + 1 \<le> of_int (rc_neutral ?c - rc_minimum ?c)"
        using n True by simp
      ultimately show ?thesis unfolding distrib_left mult_1_right by linarith
    qed
    then have "1 + 2 powi (-52) \<le> ?x" using d0(1) by (simp add: pos_le_divide_eq mult.commute)
    then have "1 < nearest ?x" by (rule nearest_gt_1)
    then show "1 < \<bar>y\<bar>" using y by simp
  qed
  with m True show ?thesis by auto
qed

theorem axis_irregular_map_witness:
  "ax_map (\<lambda>x _. x) (pad_axis\<lparr>ax_raw := (ax_raw pad_axis)\<lparr>rc_maximum := 256\<rparr>\<rparr>) 3 = Inl (Thrown ax_unhandled)"
  using axis_irregular_map [of "pad_axis\<lparr>ax_raw := (ax_raw pad_axis)\<lparr>rc_maximum := 256\<rparr>\<rparr>" 3 "\<lambda>x _. x"]
  by (simp add: rc_ok_def rc_regular_def pad_axis_simps)

section \<open>Polynomials and emulation\<close>

lemma poly_loop_fold:
  "i \<le> length cs \<Longrightarrow> poly_loop pw cs x i out =
     fold (\<lambda>k out. d_add out (d_mul (rev cs ! k) (pw x (length cs - 1 - k)))) [length cs - i..<length cs] out"
proof (induction i arbitrary: out)
  case (Suc i)
  then have "[length cs - Suc i..<length cs] = (length cs - Suc i) # [length cs - i..<length cs]"
    by (metis Suc_diff_Suc Suc_le_lessD diff_less zero_less_Suc less_le_trans upt_conv_Cons)
  moreover have "rev cs ! (length cs - Suc i) = cs ! i" using Suc.prems by (simp add: rev_nth)
  moreover have "length cs - 1 - (length cs - Suc i) = i" using Suc.prems by simp
  ultimately show ?case using Suc by simp
qed simp

text \<open>
  The coefficients of a polynomial axis are given highest order first: the mapped value is the sum, in the
  order given and rounded after every operation, of each coefficient times the power of the linear value that its
  distance from the end of the list tells.
\<close>

theorem axis_polynomial_order:
  "ax_map_value pw (ax_set_coefficients cs a) x =
     fold (\<lambda>k out. d_add out (d_mul (cs ! k) (pw x (length cs - 1 - k)))) [0..<length cs] (Fin 0)"
  using poly_loop_fold [of "length (rev cs)" "rev cs" pw x "Fin 0"]
  by (simp add: ax_map_value_def ax_set_coefficients_def)

text \<open>The moves between posted positions, and the positions after posted moves.\<close>

fun moves_of :: "int \<Rightarrow> int list \<Rightarrow> int list" where
  "moves_of l [] = []"
| "moves_of l (r # rs) = (r - l) # moves_of r rs"

fun positions_of :: "int \<Rightarrow> int list \<Rightarrow> int list" where
  "positions_of l [] = []"
| "positions_of l (r # rs) = (r + l) # positions_of (r + l) rs"

definition emulated :: "axis \<Rightarrow> int list \<Rightarrow> int list" where
  "emulated a rs = (if ax_mode a = RELATIVE then moves_of (ax_last a) rs else positions_of (ax_last a) rs)"

fun ax_states :: "(double \<Rightarrow> nat \<Rightarrow> double) \<Rightarrow> int list \<Rightarrow> axis \<Rightarrow> fault + (int \<times> double) list \<times> axis" where
  "ax_states pw [] a = Inr ([], a)"
| "ax_states pw (r # rs) a =
     bindE (ax_state pw r a) (\<lambda>(s, a'). bindE (ax_states pw rs a') (\<lambda>(ss, a''). Inr (s # ss, a'')))"

lemma ax_map_last [simp]: "ax_map pw (a\<lparr>ax_last := l\<rparr>) r = ax_map pw a r"
  by (cases "ax_map_method a") (simp_all add: ax_map_def ax_map_value_def)

lemma ax_clip_last [simp]: "ax_clip (a\<lparr>ax_last := l\<rparr>) r = ax_clip a r"
  by (simp add: ax_clip_def)

lemma ax_clip_range:
  "ax_mode a \<noteq> ax_type a \<Longrightarrow> rc_minimum (ax_raw a) \<le> rc_maximum (ax_raw a) \<Longrightarrow>
   rc_minimum (ax_raw a) \<le> ax_clip a r \<and> ax_clip a r \<le> rc_maximum (ax_raw a)"
  by (cases "ax_mode a"; cases "ax_type a") (auto simp: ax_clip_def)

lemma positions_of_moves: "positions_of l (moves_of l rs) = rs"
  by (induction rs arbitrary: l) simp_all

text \<open>
  Claim C28. An axis that emulates the other type reports, for a sequence of raw values, their differences or
  their running sums, each clipped to the raw range of the axis and then mapped. The clipping applies to the
  differences too.
\<close>

theorem axis_emulation:
  assumes "ax_mode a \<noteq> ax_type a" and "rc_minimum (ax_raw a) \<le> rc_maximum (ax_raw a)"
    and "\<And>x. rc_minimum (ax_raw a) \<le> x \<Longrightarrow> x \<le> rc_maximum (ax_raw a) \<Longrightarrow>
      (if ax_map_method a = MAP_NONE then Inr (Fin 0) else ax_map pw a x) = Inr (g x)"
    and "\<And>d. d \<in> set (emulated a rs) \<Longrightarrow> i32 d = Inr d"
  shows "\<exists>l. ax_states pw rs a = Inr (map (\<lambda>d. (ax_clip a d, g (ax_clip a d))) (emulated a rs), a\<lparr>ax_last := l\<rparr>)"
  using assms
proof (induction rs arbitrary: a)
  case Nil
  show ?case by (rule exI [of _ "ax_last a"]) (simp add: emulated_def)
next
  case (Cons r rs)
  define d where "d = (if ax_mode a = RELATIVE then r - ax_last a else r + ax_last a)"
  define l where "l = (if ax_mode a = RELATIVE then r else d)"
  let ?d = d and ?a = "a\<lparr>ax_last := l\<rparr>"
  have e: "emulated a (r # rs) = ?d # emulated ?a rs" by (simp add: emulated_def d_def l_def)
  then have "i32 ?d = Inr ?d" using Cons.prems(4) by simp
  then have "ax_emulate r a = Inr (?d, ?a)"
    using Cons.prems(1) by (cases "ax_mode a") (auto simp: ax_emulate_def d_def l_def)
  moreover have "(if ax_map_method a = MAP_NONE then Inr (Fin 0) else ax_map pw a (ax_clip a ?d)) = Inr (g (ax_clip a ?d))"
    using ax_clip_range [OF Cons.prems(1,2), of ?d] by (intro Cons.prems(3)) simp_all
  ultimately have s: "ax_state pw r a = Inr ((ax_clip a ?d, g (ax_clip a ?d)), ?a)"
    by (cases "ax_map_method a = MAP_NONE") (simp_all add: ax_state_def Let_def)
  have m: "(if ax_map_method ?a = MAP_NONE then Inr (Fin 0) else ax_map pw ?a x) = Inr (g x)"
    if "rc_minimum (ax_raw ?a) \<le> x" "x \<le> rc_maximum (ax_raw ?a)" for x
    using Cons.prems(3) [of x] that by (cases "ax_map_method a = MAP_NONE") simp_all
  have "\<exists>l. ax_states pw rs ?a = Inr (map (\<lambda>d. (ax_clip ?a d, g (ax_clip ?a d))) (emulated ?a rs), ?a\<lparr>ax_last := l\<rparr>)"
    by (rule Cons.IH [OF _ _ m]) (use Cons.prems(1,2,4) e in simp_all)
  then show ?case unfolding ax_states.simps s e by auto
qed

definition emulating_pad :: axis where
  "emulating_pad = pad_axis\<lparr>ax_mode := RELATIVE, ax_map_method := MAP_NONE\<rparr>"

theorem axis_emulation_witness:
  "\<exists>l. ax_states (\<lambda>x _. x) [100, 90, 130] emulating_pad =
    Inr ([(100, Fin 0), (0, Fin 0), (40, Fin 0)], emulating_pad\<lparr>ax_last := l\<rparr>)"
proof -
  have s: "emulated emulating_pad [100, 90, 130] = [100, - 10, 40]" "ax_mode emulating_pad = RELATIVE"
    "ax_map_method emulating_pad = MAP_NONE" "ax_raw emulating_pad = ax_raw pad_axis" "ax_type emulating_pad = ABSOLUTE"
    by (simp_all add: emulated_def emulating_pad_def pad_axis_def ax_linear_def es_new_def ax_extend_def event_source.defs)
  have i: "i32 d = Inr d" if "d = 100 \<or> d = - 10 \<or> d = 40" for d
    using that by (auto simp: i32_def)
  show ?thesis
    using axis_emulation [of emulating_pad "\<lambda>x _. x" "\<lambda>_. Fin 0" "[100, 90, 130]"]
    by (simp add: s i pad_axis_simps ax_clip_def del: ax_states.simps)
qed

end
