(* ===== verification/Controllers.thy ===== *)
theory Controllers
  imports Input
begin

text \<open>
  Input devices: \<^verbatim>\<open>include/crisp/input/Controller.hh\<close>, \<^verbatim>\<open>EvDevController.hh\<close>, \<^verbatim>\<open>MultiplexController.hh\<close> and their
  sources under \<^verbatim>\<open>src/input\<close>. What \<open>libevdev\<close> tells of a device is the parameter of type \<open>device\<close>; what \<open>open\<close>,
  \<open>libevdev_new_from_fd\<close>, \<open>select\<close> and \<open>read\<close> return is given with each call. Printing is left out.
\<close>

section \<open>The code\<close>

record controller =
  ct_axes :: "axis list"
  ct_buttons :: "event_source list"

definition ct_new :: controller where
  "ct_new = \<lparr>ct_axes = [], ct_buttons = []\<rparr>"

text \<open>Event types and the numbers of codes, from the kernel's header.\<close>

definition EV_SYN :: nat where "EV_SYN = 0"
definition EV_KEY :: nat where "EV_KEY = 1"
definition EV_REL :: nat where "EV_REL = 2"
definition EV_ABS :: nat where "EV_ABS = 3"
definition EV_CNT :: nat where "EV_CNT = 32"
definition REL_CNT :: nat where "REL_CNT = 16"
definition ABS_CNT :: nat where "ABS_CNT = 64"
definition KEY_CNT :: nat where "KEY_CNT = 768"

lemmas ev_types = EV_SYN_def EV_KEY_def EV_REL_def EV_ABS_def

record absinfo =
  ai_value :: int
  ai_minimum :: int
  ai_maximum :: int
  ai_flat :: int

record device =
  dv_has_type :: "nat \<Rightarrow> bool"
  dv_has_code :: "nat \<Rightarrow> nat \<Rightarrow> bool"
  dv_abs_info :: "nat \<Rightarrow> absinfo option"

record evdev = controller +
  ev_axis_map :: "nat \<times> nat \<Rightarrow> nat option"
  ev_button_map :: "nat \<Rightarrow> nat option"
  ev_closes :: nat                            \<comment> \<open>calls of \<open>close(m_fd)\<close>\<close>

text \<open>The local array \<open>_axes\<close> has \<open>ABS_CNT + REL_CNT\<close> slots; the loop over relative axes goes to \<open>EV_CNT\<close>.\<close>

datatype axis_slot = Abs_slot nat absinfo | Rel_slot nat

definition ev_put :: "axis_slot \<Rightarrow> axis_slot list \<Rightarrow> fault + axis_slot list" where
  "ev_put x xs = (if length xs < ABS_CNT + REL_CNT then Inr (xs @ [x]) else Inl Out_of_bounds)"

definition ev_scan_abs :: "device \<Rightarrow> nat \<Rightarrow> axis_slot list \<Rightarrow> fault + axis_slot list" where
  "ev_scan_abs dev i xs =
     (case dv_abs_info dev i of
        None \<Rightarrow> Inr xs
      | Some info \<Rightarrow> if ai_minimum info \<noteq> ai_maximum info then ev_put (Abs_slot i info) xs else Inr xs)"

definition ev_scan_rel :: "device \<Rightarrow> nat \<Rightarrow> axis_slot list \<Rightarrow> fault + axis_slot list" where
  "ev_scan_rel dev i xs = (if dv_has_code dev EV_REL i then ev_put (Rel_slot i) xs else Inr xs)"

definition ev_slots :: "device \<Rightarrow> fault + axis_slot list" where
  "ev_slots dev =
     bindE (if dv_has_type dev EV_ABS then foldE (ev_scan_abs dev) [0..<ABS_CNT] [] else Inr []) (\<lambda>xs.
       if dv_has_type dev EV_REL then foldE (ev_scan_rel dev) [0..<EV_CNT] xs else Inr xs)"

definition slot_key :: "axis_slot \<Rightarrow> nat \<times> nat" where
  "slot_key x = (case x of Abs_slot i _ \<Rightarrow> (EV_ABS, i) | Rel_slot i \<Rightarrow> (EV_REL, i))"

text \<open>The current value of an absolute axis becomes its neutral value.\<close>

definition slot_axis :: "axis_slot \<Rightarrow> 'u input_world \<Rightarrow> axis \<times> 'u input_world" where
  "slot_axis x w =
     (case x of
        Abs_slot i info \<Rightarrow>
          ax_linear \<lparr>rc_neutral = ai_value info, rc_minimum = ai_minimum info, rc_maximum = ai_maximum info,
                     rc_deadzone_lower = ai_flat info, rc_deadzone_upper = ai_flat info\<rparr> (of_nat i) w
      | Rel_slot i \<Rightarrow> ax_of_type RELATIVE (of_nat i) w)"

text \<open>\<open>emplace\<close> keeps an entry that is there.\<close>

definition map_emplace :: "'k \<Rightarrow> 'v \<Rightarrow> ('k \<Rightarrow> 'v option) \<Rightarrow> 'k \<Rightarrow> 'v option" where
  "map_emplace k v m = (if m k = None then m(k \<mapsto> v) else m)"

fun ev_add_axes :: "nat \<Rightarrow> axis_slot list \<Rightarrow> evdev \<Rightarrow> 'u input_world \<Rightarrow> evdev \<times> 'u input_world" where
  "ev_add_axes i [] c w = (c, w)"
| "ev_add_axes i (x # xs) c w =
     (case slot_axis x w of (a, w') \<Rightarrow>
        ev_add_axes (i + 1) xs
          (c\<lparr>ct_axes := ct_axes c @ [a], ev_axis_map := map_emplace (slot_key x) i (ev_axis_map c)\<rparr>) w')"

fun ev_add_buttons :: "nat \<Rightarrow> nat list \<Rightarrow> evdev \<Rightarrow> 'u input_world \<Rightarrow> evdev \<times> 'u input_world" where
  "ev_add_buttons i [] c w = (c, w)"
| "ev_add_buttons i (k # ks) c w =
     (case es_new (of_nat k) w of (b, w') \<Rightarrow>
        ev_add_buttons (i + 1) ks
          (c\<lparr>ct_buttons := ct_buttons c @ [b], ev_button_map := map_emplace k i (ev_button_map c)\<rparr>) w')"

text \<open>The array of button codes has one slot per code, so its loop is a filter.\<close>

definition ev_button_codes :: "device \<Rightarrow> nat list" where
  "ev_button_codes dev =
     (if dv_has_type dev EV_KEY then filter (dv_has_code dev EV_KEY) [0..<KEY_CNT] else [])"

definition ev_new :: "int \<Rightarrow> int \<Rightarrow> device \<Rightarrow> 'u input_world \<Rightarrow> fault + evdev \<times> 'u input_world" where
  "ev_new opened made dev w =
     (if opened < 0 \<or> made < 0 then Inl (Thrown ''system_error'')
      else bindE (ev_slots dev) (\<lambda>xs.
        let c = controller.extend ct_new \<lparr>ev_axis_map = (\<lambda>_. None), ev_button_map = (\<lambda>_. None), ev_closes = 0\<rparr>;
            (c1, w1) = ev_add_axes 0 xs c w
        in Inr (ev_add_buttons 0 (ev_button_codes dev) c1 w1)))"

definition ev_stop :: "evdev \<Rightarrow> evdev" where
  "ev_stop c = c\<lparr>ev_closes := ev_closes c + 1\<rparr>"

definition ev_destroy :: "evdev \<Rightarrow> evdev" where
  "ev_destroy c = c\<lparr>ev_closes := ev_closes c + 1\<rparr>"

text \<open>\<open>run\<close>: one iteration takes what \<open>select\<close> and \<open>read\<close> return, \<open>select\<close> on a closed descriptor fails.\<close>

record input_event =
  ie_type :: nat
  ie_code :: nat
  ie_value :: int

definition ev_wait :: "int \<Rightarrow> int \<Rightarrow> evdev \<Rightarrow> int" where
  "ev_wait selected got c = (if ev_closes c > 0 then - 1 else if selected > 0 then got else selected)"

definition ev_handle ::
    "(nat list \<Rightarrow> nat list) \<Rightarrow> (nat \<Rightarrow> input_notice \<Rightarrow> 'u input_world \<Rightarrow> 'u input_world) \<Rightarrow>
     (double \<Rightarrow> nat \<Rightarrow> double) \<Rightarrow> input_event \<Rightarrow> evdev \<Rightarrow> 'u input_world \<Rightarrow> fault + evdev \<times> 'u input_world" where
  "ev_handle ord call pw e c w =
     (if ie_type e = EV_REL \<or> ie_type e = EV_ABS
      then (case ev_axis_map c (ie_type e, ie_code e) of
              None \<Rightarrow> Inr (c, w)
            | Some i \<Rightarrow>
                if i < length (ct_axes c)
                then bindE (ax_post ord call pw (ie_value e) (ct_axes c ! i) w) (\<lambda>(a, w').
                       Inr (c\<lparr>ct_axes := (ct_axes c)[i := a]\<rparr>, w'))
                else Inl Out_of_bounds)
      else if ie_type e = EV_KEY
      then (case ev_button_map c (ie_code e) of
              None \<Rightarrow> Inr (c, w)
            | Some i \<Rightarrow>
                if i < length (ct_buttons c) then Inr (c, bt_post ord call (ie_value e) (ct_buttons c ! i) w)
                else Inl Out_of_bounds)
      else Inr (c, w))"

text \<open>The answer \<open>False\<close>: the loop has ended; \<open>True\<close>: it waits for more.\<close>

fun ev_run ::
    "(nat list \<Rightarrow> nat list) \<Rightarrow> (nat \<Rightarrow> input_notice \<Rightarrow> 'u input_world \<Rightarrow> 'u input_world) \<Rightarrow>
     (double \<Rightarrow> nat \<Rightarrow> double) \<Rightarrow> (int \<times> int \<times> input_event) list \<Rightarrow> evdev \<Rightarrow> 'u input_world \<Rightarrow>
     fault + bool \<times> evdev \<times> 'u input_world" where
  "ev_run ord call pw [] c w = Inr (True, c, w)"
| "ev_run ord call pw ((s, n, e) # es) c w =
     (if ev_wait s n c > 0
      then bindE (ev_handle ord call pw e c w) (\<lambda>(c', w'). ev_run ord call pw es c' w')
      else Inr (False, c, w))"

text \<open>
  The multiplexer holds shared pointers to controllers, axes and buttons, here their addresses. \<open>run\<close> starts a
  detached thread for each controller before the first one equal to the last, then runs the last one itself.
\<close>

record multiplexer =
  mx_axes :: "nat list"
  mx_buttons :: "nat list"
  mx_controllers :: "nat list"

definition mx_new :: multiplexer where
  "mx_new = \<lparr>mx_axes = [], mx_buttons = [], mx_controllers = []\<rparr>"

definition mx_add :: "nat \<Rightarrow> nat list \<Rightarrow> nat list \<Rightarrow> multiplexer \<Rightarrow> multiplexer" where
  "mx_add c as bs m =
     m\<lparr>mx_controllers := mx_controllers m @ [c], mx_axes := mx_axes m @ as, mx_buttons := mx_buttons m @ bs\<rparr>"

fun mx_start :: "nat \<Rightarrow> nat list \<Rightarrow> fault + nat list" where
  "mx_start back [] = Inl Out_of_bounds"
| "mx_start back (c # cs) = (if c = back then Inr [] else bindE (mx_start back cs) (\<lambda>ts. Inr (c # ts)))"

definition mx_run :: "multiplexer \<Rightarrow> fault + nat list \<times> nat" where
  "mx_run m =
     (if mx_controllers m = [] then Inl Out_of_bounds
      else bindE (mx_start (last (mx_controllers m)) (mx_controllers m)) (\<lambda>ts. Inr (ts, last (mx_controllers m))))"

definition mx_stop :: "multiplexer \<Rightarrow> nat list" where
  "mx_stop m = mx_controllers m"

text \<open>What a detached thread does: it runs its controller and, when that has returned, stops all of them.\<close>

datatype controller_call = Run_controller nat | Stop_controller nat

definition mx_thread :: "nat \<Rightarrow> multiplexer \<Rightarrow> controller_call list" where
  "mx_thread c m = Run_controller c # map Stop_controller (mx_stop m)"

section \<open>The inventory of a device\<close>

definition dev_abs :: "device \<Rightarrow> nat \<Rightarrow> bool" where
  "dev_abs dev i = (case dv_abs_info dev i of None \<Rightarrow> False | Some info \<Rightarrow> ai_minimum info \<noteq> ai_maximum info)"

definition dev_slots :: "device \<Rightarrow> axis_slot list" where
  "dev_slots dev =
     (if dv_has_type dev EV_ABS
      then map (\<lambda>i. Abs_slot i (the (dv_abs_info dev i))) (filter (dev_abs dev) [0..<ABS_CNT]) else []) @
     (if dv_has_type dev EV_REL then map Rel_slot (filter (dv_has_code dev EV_REL) [0..<EV_CNT]) else [])"

lemma ev_scan_abs_eq:
  "ev_scan_abs dev i xs = (if dev_abs dev i then ev_put (Abs_slot i (the (dv_abs_info dev i))) xs else Inr xs)"
  by (auto simp: ev_scan_abs_def dev_abs_def split: option.splits)

lemma scan_abs_all:
  "n \<le> ABS_CNT \<Longrightarrow> foldE (ev_scan_abs dev) [0..<n] [] =
     Inr (map (\<lambda>i. Abs_slot i (the (dv_abs_info dev i))) (filter (dev_abs dev) [0..<n]))"
proof (induction n)
  case (Suc n)
  have "length (filter (dev_abs dev) [0..<n]) \<le> n" using length_filter_le [of "dev_abs dev" "[0..<n]"] by simp
  then have "length (filter (dev_abs dev) [0..<n]) < ABS_CNT + REL_CNT" using Suc.prems by (simp add: REL_CNT_def)
  with Suc show ?case
    by (auto simp: foldE_append ev_scan_abs_eq [abs_def] ev_put_def)
qed simp

lemma scan_rel_all:
  assumes "\<And>i. REL_CNT \<le> i \<Longrightarrow> \<not> dv_has_code dev EV_REL i" and "length xs \<le> ABS_CNT"
  shows "foldE (ev_scan_rel dev) [0..<n] xs = Inr (xs @ map Rel_slot (filter (dv_has_code dev EV_REL) [0..<n]))"
proof (induction n)
  case (Suc n)
  have "length (filter (dv_has_code dev EV_REL) [0..<n]) \<le> n"
    using length_filter_le [of "dv_has_code dev EV_REL" "[0..<n]"] by simp
  then have "dv_has_code dev EV_REL n \<Longrightarrow> length xs + length (filter (dv_has_code dev EV_REL) [0..<n]) < ABS_CNT + REL_CNT"
    using assms(1) [of n] assms(2) by (cases "REL_CNT \<le> n") auto
  with Suc show ?case by (auto simp: foldE_append ev_scan_rel_def ev_put_def)
qed simp

lemma ev_slots_eq:
  assumes "\<And>i. REL_CNT \<le> i \<Longrightarrow> \<not> dv_has_code dev EV_REL i"
  shows "ev_slots dev = Inr (dev_slots dev)"
proof -
  have "length (filter (dev_abs dev) [0..<ABS_CNT]) \<le> ABS_CNT"
    using length_filter_le [of "dev_abs dev" "[0..<ABS_CNT]"] by simp
  then show ?thesis
    using scan_abs_all [of ABS_CNT dev] scan_rel_all [OF assms]
    by (simp add: ev_slots_def dev_slots_def)
qed

lemma dev_slots_distinct: "distinct (map slot_key (dev_slots dev))"
  by (auto simp: dev_slots_def slot_key_def distinct_map inj_on_def ev_types)

definition dev_axis :: "device \<Rightarrow> nat \<times> nat \<Rightarrow> bool" where
  "dev_axis dev k \<longleftrightarrow>
     (fst k = EV_ABS \<and> dv_has_type dev EV_ABS \<and> snd k < ABS_CNT \<and> dev_abs dev (snd k)) \<or>
     (fst k = EV_REL \<and> dv_has_type dev EV_REL \<and> snd k < EV_CNT \<and> dv_has_code dev EV_REL (snd k))"

lemma dev_slots_keys: "k \<in> slot_key ` set (dev_slots dev) \<longleftrightarrow> dev_axis dev k"
  by (cases k) (auto simp: dev_slots_def dev_axis_def slot_key_def image_Un image_image)

section \<open>Indexes and objects agree\<close>

definition slot_matches :: "axis_slot \<Rightarrow> axis \<Rightarrow> bool" where
  "slot_matches x a \<longleftrightarrow> es_id a = of_nat (snd (slot_key x)) \<and>
     ax_type a = (if fst (slot_key x) = EV_ABS then ABSOLUTE else RELATIVE)"

definition index_map :: "'k list \<Rightarrow> ('k \<Rightarrow> nat option) \<Rightarrow> bool" where
  "index_map ks m \<longleftrightarrow> (\<forall>j < length ks. m (ks ! j) = Some j) \<and> (\<forall>k. k \<notin> set ks \<longrightarrow> m k = None)"

definition ev_ok :: "axis_slot list \<Rightarrow> nat list \<Rightarrow> evdev \<Rightarrow> bool" where
  "ev_ok xs ks c \<longleftrightarrow> list_all2 slot_matches xs (ct_axes c) \<and> index_map (map slot_key xs) (ev_axis_map c) \<and>
     map es_id (ct_buttons c) = map of_nat ks \<and> index_map ks (ev_button_map c)"

lemma index_map_empty: "index_map [] (\<lambda>_. None)"
  by (simp add: index_map_def)

lemma index_map_emplace: "index_map ks m \<Longrightarrow> k \<notin> set ks \<Longrightarrow> index_map (ks @ [k]) (map_emplace k (length ks) m)"
  by (auto simp: index_map_def map_emplace_def nth_append less_Suc_eq dest: nth_mem)

lemma index_map_Some: "index_map ks m \<Longrightarrow> m k = Some i \<Longrightarrow> i < length ks \<and> ks ! i = k"
  by (cases "k \<in> set ks") (auto simp: index_map_def in_set_conv_nth)

lemma index_map_dom: "index_map ks m \<Longrightarrow> (m k \<noteq> None) = (k \<in> set ks)"
  by (auto simp: index_map_def in_set_conv_nth)

lemma slot_axis_matches: "slot_axis x w = (a, w') \<Longrightarrow> slot_matches x a"
  by (auto simp: slot_axis_def slot_matches_def slot_key_def ax_linear_def ax_of_type_def es_new_def ax_extend_def
      event_source.defs ev_types split: axis_slot.splits)

lemma ev_add_axes_ok:
  assumes "ev_ok ys ks c" and "distinct (map slot_key (ys @ xs))" and "ev_add_axes (length ys) xs c w = (c', w')"
  shows "ev_ok (ys @ xs) ks c' \<and> ct_buttons c' = ct_buttons c"
  using assms
proof (induction xs arbitrary: ys c w)
  case (Cons x xs)
  obtain a w1 where a: "slot_axis x w = (a, w1)" by fastforce
  let ?c = "c\<lparr>ct_axes := ct_axes c @ [a], ev_axis_map := map_emplace (slot_key x) (length ys) (ev_axis_map c)\<rparr>"
  have "ev_ok (ys @ [x]) ks ?c"
    using Cons.prems(1,2) slot_axis_matches [OF a] index_map_emplace [of "map slot_key ys" "ev_axis_map c" "slot_key x"]
    by (auto simp: ev_ok_def intro!: list_all2_appendI)
  moreover have "ev_add_axes (length (ys @ [x])) xs ?c w1 = (c', w')" using Cons.prems(3) a by simp
  ultimately show ?case using Cons.IH [of "ys @ [x]" ?c w1] Cons.prems(2) by simp
qed simp

lemma ev_add_buttons_ok:
  assumes "ev_ok xs ys c" and "distinct (ys @ ks)" and "ev_add_buttons (length ys) ks c w = (c', w')"
  shows "ev_ok xs (ys @ ks) c'"
  using assms
proof (induction ks arbitrary: ys c w)
  case (Cons k ks)
  obtain b w1 where b: "es_new (of_nat k) w = (b, w1)" by fastforce
  then have id: "es_id b = of_nat k" by (auto simp: es_new_def)
  let ?c = "c\<lparr>ct_buttons := ct_buttons c @ [b], ev_button_map := map_emplace k (length ys) (ev_button_map c)\<rparr>"
  have "ev_ok xs (ys @ [k]) ?c"
    using Cons.prems(1,2) id index_map_emplace [of ys "ev_button_map c" k] by (auto simp: ev_ok_def)
  moreover have "ev_add_buttons (length (ys @ [k])) ks ?c w1 = (c', w')" using Cons.prems(3) b by simp
  ultimately show ?case using Cons.IH [of "ys @ [k]" ?c w1] Cons.prems(2) by simp
qed simp

lemma ev_new_ok:
  assumes "\<And>i. REL_CNT \<le> i \<Longrightarrow> \<not> dv_has_code dev EV_REL i" and "0 \<le> opened" and "0 \<le> made"
  obtains c w' where "ev_new opened made dev w = Inr (c, w')" and "ev_ok (dev_slots dev) (ev_button_codes dev) c"
proof -
  let ?c = "controller.extend ct_new \<lparr>ev_axis_map = (\<lambda>_. None), ev_button_map = (\<lambda>_. None), ev_closes = 0\<rparr>"
  obtain c1 w1 where 1: "ev_add_axes 0 (dev_slots dev) ?c w = (c1, w1)" by fastforce
  have "ev_ok [] [] ?c" by (simp add: ev_ok_def index_map_empty ct_new_def controller.defs)
  then have ok1: "ev_ok (dev_slots dev) [] c1"
    using ev_add_axes_ok [of "[]" "[]" ?c "dev_slots dev" w] dev_slots_distinct 1 by simp
  obtain c2 w2 where 2: "ev_add_buttons 0 (ev_button_codes dev) c1 w1 = (c2, w2)" by fastforce
  have "distinct (ev_button_codes dev)" by (simp add: ev_button_codes_def)
  with ok1 2 have "ev_ok (dev_slots dev) (ev_button_codes dev) c2"
    using ev_add_buttons_ok [of _ "[]" c1 "ev_button_codes dev" w1] by simp
  moreover have "ev_new opened made dev w = Inr (c2, w2)"
    using assms 1 2 by (simp add: ev_new_def ev_slots_eq)
  ultimately show ?thesis using that by blast
qed

text \<open>A post keeps identifier and type, so handling events keeps the agreement.\<close>

lemma ax_post_keeps: "ax_post ord call pw r a w = Inr (a', w') \<Longrightarrow> es_id a' = es_id a \<and> ax_type a' = ax_type a"
  by (auto simp: ax_post_def ax_state_def ax_emulate_def bindE_Inr_iff Let_def
      split: if_splits axis_type.splits prod.splits)

lemma ev_handle_ok:
  assumes "ev_ok xs ks c" and "ev_handle ord call pw e c w = Inr (c', w')"
  shows "ev_ok xs ks c'"
proof -
  have "ev_ok xs ks (c\<lparr>ct_axes := (ct_axes c)[i := a]\<rparr>)"
    if "i < length (ct_axes c)" "es_id a = es_id (ct_axes c ! i) \<and> ax_type a = ax_type (ct_axes c ! i)" for i a
    using assms(1) that by (auto simp: ev_ok_def list_all2_conv_all_nth slot_matches_def nth_list_update)
  then show ?thesis
    using assms by (auto simp: ev_handle_def bindE_Inr_iff dest!: ax_post_keeps split: if_splits option.splits)
qed

lemma ev_run_ok:
  "ev_ok xs ks c \<Longrightarrow> ev_run ord call pw es c w = Inr (b, c', w') \<Longrightarrow> ev_ok xs ks c'"
proof (induction es arbitrary: c w)
  case (Cons e es)
  then show ?case by (cases e) (auto simp: bindE_Inr_iff split: if_splits intro: ev_handle_ok)
qed simp

lemma ev_handle_axis:
  assumes "ev_ok xs ks c" and "ie_type e = EV_REL \<or> ie_type e = EV_ABS"
  shows "if (ie_type e, ie_code e) \<in> slot_key ` set xs
    then \<exists>i < length (ct_axes c). es_id (ct_axes c ! i) = of_nat (ie_code e) \<and>
      ax_type (ct_axes c ! i) = (if ie_type e = EV_ABS then ABSOLUTE else RELATIVE) \<and>
      ev_handle ord call pw e c w = bindE (ax_post ord call pw (ie_value e) (ct_axes c ! i) w) (\<lambda>(a, w').
        Inr (c\<lparr>ct_axes := (ct_axes c)[i := a]\<rparr>, w'))
    else ev_handle ord call pw e c w = Inr (c, w)"
proof (cases "ev_axis_map c (ie_type e, ie_code e)")
  case None
  with assms show ?thesis
    using index_map_dom [of "map slot_key xs" "ev_axis_map c" "(ie_type e, ie_code e)"]
    by (simp add: ev_ok_def ev_handle_def)
next
  case (Some i)
  have m: "index_map (map slot_key xs) (ev_axis_map c)" and a: "list_all2 slot_matches xs (ct_axes c)"
    using assms(1) by (simp_all add: ev_ok_def)
  have i: "i < length xs" and k: "slot_key (xs ! i) = (ie_type e, ie_code e)"
    using index_map_Some [OF m Some] by auto
  then have "(ie_type e, ie_code e) \<in> slot_key ` set xs" by (metis image_eqI nth_mem)
  moreover have "i < length (ct_axes c)" and "slot_matches (xs ! i) (ct_axes c ! i)"
    using a i by (auto simp: list_all2_conv_all_nth)
  ultimately show ?thesis using assms(2) Some k by (auto simp: ev_handle_def slot_matches_def)
qed

lemma ev_handle_key:
  assumes "ev_ok xs ks c" and "ie_type e = EV_KEY"
  shows "if ie_code e \<in> set ks
    then \<exists>i < length (ct_buttons c). es_id (ct_buttons c ! i) = of_nat (ie_code e) \<and>
      ev_handle ord call pw e c w = Inr (c, bt_post ord call (ie_value e) (ct_buttons c ! i) w)
    else ev_handle ord call pw e c w = Inr (c, w)"
proof (cases "ev_button_map c (ie_code e)")
  case None
  with assms show ?thesis
    using index_map_dom [of ks "ev_button_map c" "ie_code e"] by (simp add: ev_ok_def ev_handle_def ev_types)
next
  case (Some i)
  have m: "index_map ks (ev_button_map c)" and b: "map es_id (ct_buttons c) = map of_nat ks"
    using assms(1) by (simp_all add: ev_ok_def)
  have i: "i < length ks" "ks ! i = ie_code e" using index_map_Some [OF m Some] by auto
  moreover have "i < length (ct_buttons c)" using b i(1) by (metis length_map)
  moreover have "es_id (ct_buttons c ! i) = of_nat (ks ! i)" using b i(1) calculation(3) by (metis nth_map)
  moreover have "ie_code e \<in> set ks" using i by (metis nth_mem)
  ultimately show ?thesis using assms(2) Some by (auto simp: ev_handle_def ev_types)
qed

text \<open>What a controller for the device \<open>dev\<close> owes an event: delivery to the object with its code, or nothing.\<close>

definition ev_delivers ::
    "(nat list \<Rightarrow> nat list) \<Rightarrow> (nat \<Rightarrow> input_notice \<Rightarrow> 'u input_world \<Rightarrow> 'u input_world) \<Rightarrow>
     (double \<Rightarrow> nat \<Rightarrow> double) \<Rightarrow> device \<Rightarrow> evdev \<Rightarrow> 'u input_world \<Rightarrow> input_event \<Rightarrow> bool" where
  "ev_delivers ord call pw dev c w e =
     (if (ie_type e = EV_REL \<or> ie_type e = EV_ABS) \<and> dev_axis dev (ie_type e, ie_code e)
      then \<exists>i < length (ct_axes c). es_id (ct_axes c ! i) = of_nat (ie_code e) \<and>
        ax_type (ct_axes c ! i) = (if ie_type e = EV_ABS then ABSOLUTE else RELATIVE) \<and>
        ev_handle ord call pw e c w = bindE (ax_post ord call pw (ie_value e) (ct_axes c ! i) w) (\<lambda>(a, w').
          Inr (c\<lparr>ct_axes := (ct_axes c)[i := a]\<rparr>, w'))
      else if ie_type e = EV_KEY \<and> ie_code e \<in> set (ev_button_codes dev)
      then \<exists>i < length (ct_buttons c). es_id (ct_buttons c ! i) = of_nat (ie_code e) \<and>
        ev_handle ord call pw e c w = Inr (c, bt_post ord call (ie_value e) (ct_buttons c ! i) w)
      else ev_handle ord call pw e c w = Inr (c, w))"

lemma ev_ok_delivers:
  assumes ok: "ev_ok (dev_slots dev) (ev_button_codes dev) c"
  shows "ev_delivers ord call pw dev c w e"
proof -
  consider (Axis) "ie_type e = EV_REL \<or> ie_type e = EV_ABS" | (Key) "ie_type e = EV_KEY"
    | (Other) "ie_type e \<noteq> EV_REL" "ie_type e \<noteq> EV_ABS" "ie_type e \<noteq> EV_KEY" by blast
  then show ?thesis
  proof cases
    case Axis
    then have "ie_type e \<noteq> EV_KEY" by (auto simp: ev_types)
    with Axis ev_handle_axis [OF ok Axis, of ord call pw w] show ?thesis
      by (simp add: ev_delivers_def dev_slots_keys split: if_splits)
  next
    case Key
    then have "\<not> (ie_type e = EV_REL \<or> ie_type e = EV_ABS)" by (simp add: ev_types)
    with Key ev_handle_key [OF ok Key, of ord call pw w] show ?thesis by (simp add: ev_delivers_def)
  next
    case Other
    then show ?thesis by (simp add: ev_delivers_def ev_handle_def)
  qed
qed

text \<open>
  Claim C27. A device that reports no relative axis beyond the kernel's codes is scanned without leaving the array of
  slots. After any run, an event of a detected axis is posted to the axis with its code and kind, a
  key event of a detected key to the button with its code, and every other event changes nothing; no index
  leaves the lists.
\<close>

theorem evdev_dispatch:
  assumes "\<And>i. REL_CNT \<le> i \<Longrightarrow> \<not> dv_has_code dev EV_REL i" and "0 \<le> opened" and "0 \<le> made"
  shows "\<exists>c0 w0. ev_new opened made dev w = Inr (c0, w0) \<and>
    (\<forall>es b c w1. ev_run ord call pw es c0 w0 = Inr (b, c, w1) \<longrightarrow> (\<forall>e. ev_delivers ord call pw dev c w1 e))"
proof -
  obtain c0 w0 where new: "ev_new opened made dev w = Inr (c0, w0)"
    and ok: "ev_ok (dev_slots dev) (ev_button_codes dev) c0"
    using ev_new_ok [OF assms] by metis
  have "ev_delivers ord call pw dev c w1 e" if "ev_run ord call pw es c0 w0 = Inr (b, c, w1)" for es b c w1 e
    by (rule ev_ok_delivers [OF ev_run_ok [OF ok that]])
  with new show ?thesis by blast
qed

text \<open>A joystick with one axis that rests at the middle of an 8-bit range.\<close>

definition stick :: device where
  "stick = \<lparr>dv_has_type = (\<lambda>t. t = EV_ABS), dv_has_code = (\<lambda>_ _. False),
     dv_abs_info = (\<lambda>i. if i = 0 then Some \<lparr>ai_value = 128, ai_minimum = 0, ai_maximum = 255, ai_flat = 15\<rparr> else None)\<rparr>"

definition no_signals :: "unit input_world" where
  "no_signals = \<lparr>sg_signals = [], sg_home = (\<lambda>_. 0), sg_next = 0, sg_kept = [], sg_posted = [], sg_user = ()\<rparr>"

theorem evdev_dispatch_witness:
  "\<exists>c0 w0. ev_new 3 0 stick no_signals = Inr (c0, w0) \<and>
    ev_delivers id (\<lambda>_ _ w. w) (\<lambda>x _. x) stick c0 w0 \<lparr>ie_type = EV_ABS, ie_code = 0, ie_value = 200\<rparr>"
proof -
  have "\<not> dv_has_code stick EV_REL i" for i by (simp add: stick_def)
  from evdev_dispatch [OF this, of 3 0 no_signals id "\<lambda>_ _ w. w" "\<lambda>x _. x"]
  obtain c0 w0 where new: "ev_new 3 0 stick no_signals = Inr (c0, w0)"
    and run: "\<forall>es b c w1. ev_run id (\<lambda>_ _ w. w) (\<lambda>x _. x) es c0 w0 = Inr (b, c, w1) \<longrightarrow>
      (\<forall>e. ev_delivers id (\<lambda>_ _ w. w) (\<lambda>x _. x) stick c w1 e)" by auto
  have "ev_delivers id (\<lambda>_ _ w. w) (\<lambda>x _. x) stick c0 w0 e" for e
    using run [rule_format, of "[]" True c0 w0] by simp
  with new show ?thesis by blast
qed

section \<open>The multiplexer\<close>

lemma takeWhile_last:
  assumes "cs \<noteq> []"
  shows "takeWhile (\<lambda>x. x \<noteq> last cs) cs @ [last cs] = cs \<longleftrightarrow> last cs \<notin> set (butlast cs)"
proof (cases cs rule: rev_cases)
  case (snoc ys y)
  have "takeWhile (\<lambda>x. x \<noteq> y) (ys @ [y]) = takeWhile (\<lambda>x. x \<noteq> y) ys" by (induction ys) auto
  moreover have "takeWhile (\<lambda>x. x \<noteq> y) ys = ys \<longleftrightarrow> y \<notin> set ys" by (auto simp: takeWhile_eq_all_conv)
  ultimately show ?thesis by (simp add: snoc)
qed (use assms in simp)

lemma mx_start_prefix: "c \<in> set cs \<Longrightarrow> mx_start c cs = Inr (takeWhile (\<lambda>x. x \<noteq> c) cs)"
  by (induction cs) auto

text \<open>
  The multiplexer runs the last controller itself and starts a thread for each controller before the first
  one equal to the last; these are all the controllers exactly when the last was added only once. A thread
  whose controller returns stops all of them.
\<close>

theorem multiplexer_runs:
  assumes "mx_controllers m \<noteq> []"
  shows "\<exists>ts c. mx_run m = Inr (ts, c) \<and> c = last (mx_controllers m) \<and>
    ts = takeWhile (\<lambda>x. x \<noteq> c) (mx_controllers m) \<and>
    (ts @ [c] = mx_controllers m \<longleftrightarrow> c \<notin> set (butlast (mx_controllers m))) \<and>
    mx_thread c m = Run_controller c # map Stop_controller (mx_controllers m)"
proof -
  have "mx_run m = Inr (takeWhile (\<lambda>x. x \<noteq> last (mx_controllers m)) (mx_controllers m), last (mx_controllers m))"
    using assms by (simp add: mx_run_def mx_start_prefix)
  then show ?thesis using takeWhile_last [OF assms] by (simp add: mx_thread_def mx_stop_def)
qed

theorem multiplexer_runs_witness:
  "\<exists>ts c. mx_run (mx_add 7 [] [] (mx_add 8 [1] [] (mx_add 7 [2] [3] mx_new))) = Inr (ts, c) \<and> c = 7 \<and> ts = []"
  using multiplexer_runs [of "mx_add 7 [] [] (mx_add 8 [1] [] (mx_add 7 [2] [3] mx_new))"]
  by (simp add: mx_add_def mx_new_def)

end
