(* ===== verification/Structures.thy ===== *)
theory Structures
  imports Module
begin

text \<open>
  Descriptions of data structures for an API: \<^verbatim>\<open>include/crisp/comms/APIElement.hh\<close>, \<^verbatim>\<open>DataField.hh\<close>,
  \<^verbatim>\<open>DataFieldBase.hh\<close>, \<^verbatim>\<open>DataStructure.hh\<close>, \<^verbatim>\<open>src/comms/APIElement.cc\<close> and \<^verbatim>\<open>DataStructure.cc\<close>. The build does not list these
  sources. A text of an element is its pointer, here the memory from there on (\<open>None\<close> is the null
  pointer), and its length; what an uninitialised byte holds is the parameter \<open>junk\<close>. A copy of no bytes leaves
  memory alone.
\<close>

section \<open>The code\<close>

record api_text =
  at_mem :: "byte list option"
  at_length :: nat

record api_element =
  ae_symbol :: api_text
  ae_use :: api_text
  ae_description :: api_text
  ae_owns_strings :: bool

definition at_none :: api_text where
  "at_none = \<lparr>at_mem = None, at_length = 0\<rparr>"

definition ae_new :: api_element where
  "ae_new = \<lparr>ae_symbol = at_none, ae_use = at_none, ae_description = at_none, ae_owns_strings = False\<rparr>"

definition ae_move :: "api_element \<Rightarrow> api_element \<times> api_element" where
  "ae_move a = (a, a\<lparr>ae_owns_strings := False\<rparr>)"

definition ae_clear :: "api_element \<Rightarrow> api_element" where
  "ae_clear a = ae_new"

text \<open>The room for the three texts, and copying \<open>n\<close> bytes to an offset of a block.\<close>

definition text_room :: "nat \<Rightarrow> nat" where
  "text_room n = (if n > 0 then n + 1 else 0)"

definition copy_to :: "nat \<Rightarrow> nat \<Rightarrow> byte list option \<Rightarrow> byte list \<Rightarrow> fault + byte list" where
  "copy_to off n src block =
     bindE (mem_read n src) (\<lambda>bs.
       if n = 0 then Inr block
       else if off + n \<le> length block then Inr (overlay off bs block) else Inl Out_of_bounds)"

definition ae_reset ::
    "byte list option \<Rightarrow> byte list option \<Rightarrow> byte list option \<Rightarrow> bool \<Rightarrow> api_element \<Rightarrow> fault + api_element" where
  "ae_reset symbol use description copy a =
     bindE (name_strlen symbol) (\<lambda>sl. bindE (name_strlen use) (\<lambda>ul. bindE (name_strlen description) (\<lambda>dl.
       if copy
       then if sl + ul + dl > 0
            then bindE (copy_to 0 sl symbol (replicate (text_room sl + text_room ul + text_room dl) 0)) (\<lambda>m1.
                 bindE (copy_to (sl + 1) ul use m1) (\<lambda>m2.
                 bindE (copy_to (sl + 1 + (ul + 1)) dl description m2) (\<lambda>m3.
                   Inr \<lparr>ae_symbol = \<lparr>at_mem = Some m3, at_length = sl\<rparr>,
                        ae_use = \<lparr>at_mem = Some (drop (sl + 1) m3), at_length = ul\<rparr>,
                        ae_description = \<lparr>at_mem = Some (drop (sl + 1 + (ul + 1)) m3), at_length = dl\<rparr>,
                        ae_owns_strings = True\<rparr>)))
            else Inr (ae_clear a)
       else Inr \<lparr>ae_symbol = \<lparr>at_mem = symbol, at_length = sl\<rparr>, ae_use = \<lparr>at_mem = use, at_length = ul\<rparr>,
                 ae_description = \<lparr>at_mem = description, at_length = dl\<rparr>, ae_owns_strings = False\<rparr>)))"

definition ae_make ::
    "byte list option \<Rightarrow> byte list option \<Rightarrow> byte list option \<Rightarrow> bool \<Rightarrow> fault + api_element" where
  "ae_make symbol use description copy = ae_reset symbol use description copy ae_new"

text \<open>\<open>operator ==\<close>; \<open>strcmp\<close> reads both strings up to a difference or a common NUL.\<close>

fun strcmp_equal :: "byte list \<Rightarrow> byte list \<Rightarrow> fault + bool" where
  "strcmp_equal (x # xs) (y # ys) = (if x \<noteq> y then Inr False else if x = 0 then Inr True else strcmp_equal xs ys)"
| "strcmp_equal _ _ = Inl Out_of_bounds"

definition at_eq :: "api_text \<Rightarrow> api_text \<Rightarrow> fault + bool" where
  "at_eq s t =
     (case (at_mem s, at_mem t) of (Some x, Some y) \<Rightarrow> strcmp_equal x y | (None, None) \<Rightarrow> Inr True | _ \<Rightarrow> Inr False)"

definition ae_eq :: "api_element \<Rightarrow> api_element \<Rightarrow> fault + bool" where
  "ae_eq a b =
     bindE (at_eq (ae_symbol a) (ae_symbol b)) (\<lambda>p. if \<not> p then Inr False
     else bindE (at_eq (ae_use a) (ae_use b)) (\<lambda>q. if \<not> q then Inr False
     else at_eq (ae_description a) (ae_description b)))"

definition ae_encoded_size :: "api_element \<Rightarrow> nat" where
  "ae_encoded_size a =
     1 + text_room (at_length (ae_symbol a)) + text_room (at_length (ae_use a)) + text_room (at_length (ae_description a))"

text \<open>The mask, and encoding: the lengths that the mask announces, then the texts; results are dropped.\<close>

definition ae_mask :: "api_element \<Rightarrow> byte" where
  "ae_mask a = (if at_mem (ae_symbol a) \<noteq> None then 1 else 0) OR (if at_mem (ae_use a) \<noteq> None then 2 else 0) OR
     (if at_mem (ae_description a) \<noteq> None then 4 else 0)"

definition at_emit_length :: "(byte list \<Rightarrow> ('s, encode_result) sfm) \<Rightarrow> api_text \<Rightarrow> ('s, encode_result) sfm" where
  "at_emit_length emit t = (if at_mem t \<noteq> None then emit [of_nat (at_length t)] else retF Encode_Success)"

definition at_emit :: "(byte list \<Rightarrow> ('s, encode_result) sfm) \<Rightarrow> api_text \<Rightarrow> ('s, encode_result) sfm" where
  "at_emit emit t =
     (if at_mem t \<noteq> None then bindF (liftF (mem_read (at_length t) (at_mem t))) emit else retF Encode_Success)"

definition ae_encode :: "(byte list \<Rightarrow> ('s, encode_result) sfm) \<Rightarrow> api_element \<Rightarrow> ('s, encode_result) sfm" where
  "ae_encode emit a =
     (if at_mem (ae_symbol a) = None \<and> at_mem (ae_use a) = None \<and> at_mem (ae_description a) = None
      then uncheckedF (emit [0]) (retF Encode_Success)
      else uncheckedF (emit [ae_mask a])
        (uncheckedF (at_emit_length emit (ae_symbol a)) (uncheckedF (at_emit_length emit (ae_use a))
          (uncheckedF (at_emit_length emit (ae_description a))
            (uncheckedF (at_emit emit (ae_symbol a)) (uncheckedF (at_emit emit (ae_use a))
              (uncheckedF (at_emit emit (ae_description a)) (retF Encode_Success))))))))"

text \<open>Decoding: \<open>read<uint8_t>()\<close> gives an uninitialised byte when the buffer ends.\<close>

definition read_length :: "byte \<Rightarrow> bool \<Rightarrow> (decode_buffer, nat) sfm" where
  "read_length junk present =
     (if present then bindF (db_read 1) (\<lambda>r. retF (unat (stored r (\<lambda>bs _. hd bs) junk))) else retF 0)"

fun read_texts :: "nat list \<Rightarrow> nat \<Rightarrow> byte list \<Rightarrow> (decode_buffer, decode_result \<times> nat option list \<times> byte list) sfm" where
  "read_texts [] off block = retF (Decode_Success, [], block)"
| "read_texts (n # ns) off block =
     (if n = 0 then bindF (read_texts ns off block) (\<lambda>(r, ps, m). retF (r, None # ps, m))
      else bindF (db_read n) (\<lambda>(r, bs).
        if r \<noteq> Decode_Success then retF (r, Some off # map (\<lambda>_. None) ns, block)
        else bindF (read_texts ns (off + (n + 1)) (overlay off bs block)) (\<lambda>(r, ps, m). retF (r, Some off # ps, m))))"

definition at_of :: "byte list \<Rightarrow> nat option \<Rightarrow> nat \<Rightarrow> api_text" where
  "at_of block p n = \<lparr>at_mem = map_option (\<lambda>off. drop off block) p, at_length = n\<rparr>"

definition ae_decode :: "byte \<Rightarrow> (decode_buffer, decode_result \<times> api_element) sfm" where
  "ae_decode junk =
     bindF (db_read 1) (\<lambda>r.
       let mask = stored r (\<lambda>bs _. hd bs) 0 in
       bindF (read_length junk (bit mask 0)) (\<lambda>sl.
       bindF (read_length junk (bit mask 1)) (\<lambda>ul.
       bindF (read_length junk (bit mask 2)) (\<lambda>dl.
       bindF (read_texts [sl, ul, dl] 0 (replicate (text_room sl + text_room ul + text_room dl) 0)) (\<lambda>(res, ps, m).
         retF (res, \<lparr>ae_symbol = at_of m (ps ! 0) sl, ae_use = at_of m (ps ! 1) ul, ae_description = at_of m (ps ! 2) dl,
                     ae_owns_strings = (text_room sl + text_room ul + text_room dl > 0)\<rparr>))))))"

text \<open>A generic data field is a declaration with the texts of an element.\<close>

record data_field =
  df_element :: api_element
  df_declaration :: data_decl

definition df_new :: data_field where
  "df_new = \<lparr>df_element = ae_new, df_declaration = dd_new\<rparr>"

definition df_make ::
    "byte list option \<Rightarrow> byte list option \<Rightarrow> byte list option \<Rightarrow> data_decl \<Rightarrow> fault + data_field" where
  "df_make symbol use description d =
     bindE (ae_make symbol use description True) (\<lambda>a. Inr \<lparr>df_element = a, df_declaration = d\<rparr>)"

definition df_move :: "data_field \<Rightarrow> data_field \<times> data_field" where
  "df_move f = (f, f\<lparr>df_element := snd (ae_move (df_element f))\<rparr>)"

definition df_eq :: "data_field \<Rightarrow> data_field \<Rightarrow> fault + bool" where
  "df_eq f g =
     bindE (ae_eq (df_element f) (df_element g)) (\<lambda>p.
       if \<not> p then Inr False else Inr (dd_eq (df_declaration f) (df_declaration g)))"

definition df_encode :: "(byte list \<Rightarrow> ('s, encode_result) sfm) \<Rightarrow> data_field \<Rightarrow> ('s, encode_result) sfm" where
  "df_encode emit f = checkedF (ae_encode emit (df_element f)) (dd_encode emit (df_declaration f))"

definition df_decode :: "byte \<Rightarrow> (decode_buffer, decode_result \<times> data_field) sfm" where
  "df_decode junk =
     bindF (ae_decode junk) (\<lambda>(r, a).
       if r \<noteq> Decode_Success then retF (r, df_new\<lparr>df_element := a\<rparr>)
       else bindF dd_decode (\<lambda>(r', d). retF (r', \<lparr>df_element = a, df_declaration = d\<rparr>)))"

definition df_encoded_size :: "data_field \<Rightarrow> nat" where
  "df_encoded_size f = ae_encoded_size (df_element f) + dd_encoded_size (df_declaration f)"

record data_structure =
  ds_element :: api_element
  ds_fields :: "data_field sarray"

definition ds_make ::
    "byte list option \<Rightarrow> byte list option \<Rightarrow> byte list option \<Rightarrow> data_field list \<Rightarrow> fault + data_structure" where
  "ds_make symbol use description fs =
     bindE (ae_make symbol use description False) (\<lambda>a. bindE (sa_of_list fs) (\<lambda>xs.
       Inr \<lparr>ds_element = a, ds_fields = xs\<rparr>))"

definition ds_reset :: "data_structure \<Rightarrow> data_structure" where
  "ds_reset s = \<lparr>ds_element = ae_clear (ds_element s), ds_fields = sa_clear (ds_fields s)\<rparr>"

definition ds_encoded_size :: "data_structure \<Rightarrow> fault + nat" where
  "ds_encoded_size s =
     bindE (sa_elems (ds_fields s)) (\<lambda>fs.
       Inr (ae_encoded_size (ds_element s) + (if sa_size (ds_fields s) > 0 then 1 else 0) + sum_list (map df_encoded_size fs)))"

definition ds_encode :: "data_structure \<Rightarrow> (encode_buffer, encode_result) sfm" where
  "ds_encode s =
     bindF (liftF (ae_encode eb_write (ds_element s) (eb_new (ae_encoded_size (ds_element s))))) (\<lambda>(r, b).
       if r \<noteq> Encode_Success then retF r
       else let mem = (if sa_size (ds_fields s) > 0 then (eb_data b)[0 := eb_data b ! 0 OR 8] else eb_data b) in
         checkedF (eb_write (take (eb_offset b) mem))
           (if sa_size (ds_fields s) > 0
            then checkedF (eb_write [of_nat (sa_size (ds_fields s))])
                   (bindF (liftF (sa_elems (ds_fields s))) (encode_each (df_encode eb_write)))
            else retF Encode_Success))"

text \<open>Decoding resets the texts only; the decoded fields are added to those that are there.\<close>

fun ds_decode_fields :: "byte \<Rightarrow> nat \<Rightarrow> data_field sarray \<Rightarrow> (decode_buffer, decode_result \<times> data_field sarray) sfm" where
  "ds_decode_fields junk 0 xs = retF (Decode_Success, xs)"
| "ds_decode_fields junk (Suc n) xs =
     bindF (df_decode junk) (\<lambda>(r, f).
       if r \<noteq> Decode_Success then retF (r, xs)
       else bindF (liftF (sa_push (fst (df_move f)) xs)) (\<lambda>xs'. ds_decode_fields junk n xs'))"

definition ds_decode :: "byte \<Rightarrow> data_structure \<Rightarrow> (decode_buffer, decode_result \<times> data_structure) sfm" where
  "ds_decode junk s = (\<lambda>b.
     if db_offset b \<ge> length (db_data b) then Inl Out_of_bounds
     else let mask = db_data b ! db_offset b in
       bindF (ae_decode junk) (\<lambda>(r, a).
         if r \<noteq> Decode_Success then retF (r, s\<lparr>ds_element := a\<rparr>)
         else if \<not> bit mask 3 then retF (Decode_Success, s\<lparr>ds_element := a\<rparr>)
         else bindF (read_length junk True) (\<lambda>n.
           bindF (ds_decode_fields junk n (sa_ensure_capacity n (ds_fields s))) (\<lambda>(r', xs).
             retF (r', \<lparr>ds_element = a, ds_fields = xs\<rparr>)))) b)"

definition ds_eq :: "data_structure \<Rightarrow> data_structure \<Rightarrow> fault + bool" where
  "ds_eq s t =
     bindE (ae_eq (ds_element s) (ds_element t)) (\<lambda>p.
       if \<not> p \<or> sa_size (ds_fields s) \<noteq> sa_size (ds_fields t) then Inr False
       else each_equal df_eq (ds_fields s) (ds_fields t) [0..<sa_size (ds_fields s)])"

section \<open>Elements on the wire\<close>

text \<open>A text that is absent, or a string of 1 to 255 bytes.\<close>

definition at_wf :: "api_text \<Rightarrow> bool" where
  "at_wf t \<longleftrightarrow>
     (case at_mem t of
        None \<Rightarrow> at_length t = 0
      | Some m \<Rightarrow> 0 < at_length t \<and> at_length t < 256 \<and> at_length t < length m \<and> m ! at_length t = 0 \<and>
          0 \<notin> set (take (at_length t) m))"

definition at_string :: "api_text \<Rightarrow> byte list" where
  "at_string t = (case at_mem t of None \<Rightarrow> [] | Some m \<Rightarrow> take (at_length t) m)"

definition at_lengths :: "api_text \<Rightarrow> byte list" where
  "at_lengths t = (if at_mem t = None then [] else [of_nat (at_length t)])"

definition ae_wf :: "api_element \<Rightarrow> bool" where
  "ae_wf a \<longleftrightarrow> at_wf (ae_symbol a) \<and> at_wf (ae_use a) \<and> at_wf (ae_description a)"

definition ae_tail :: "api_element \<Rightarrow> byte list" where
  "ae_tail a = at_lengths (ae_symbol a) @ at_lengths (ae_use a) @ at_lengths (ae_description a) @
     at_string (ae_symbol a) @ at_string (ae_use a) @ at_string (ae_description a)"

lemma at_wf_length: "at_wf t \<Longrightarrow> length (at_string t) = at_length t"
  by (auto simp: at_wf_def at_string_def split: option.splits)

lemma at_wf_none: "at_wf t \<Longrightarrow> at_mem t = None \<longleftrightarrow> at_length t = 0"
  by (auto simp: at_wf_def split: option.splits)

lemma ae_wf_each: "ae_wf a \<Longrightarrow> at_wf (ae_symbol a)" "ae_wf a \<Longrightarrow> at_wf (ae_use a)" "ae_wf a \<Longrightarrow> at_wf (ae_description a)"
  by (simp_all add: ae_wf_def)

lemma length_ae_encoding: "ae_wf a \<Longrightarrow> length (ae_mask a # ae_tail a) = ae_encoded_size a"
  by (auto simp: ae_encoded_size_def ae_tail_def text_room_def at_wf_length at_lengths_def at_wf_none ae_wf_def)

lemma at_emit_writes: "at_wf t \<Longrightarrow> mem.writes (at_emit eb_write t) (at_string t)"
  by (auto simp: at_emit_def at_string_def at_wf_def mem_read_def split: option.splits intro: mem.writes_intros)

lemma at_emit_length_writes: "mem.writes (at_emit_length eb_write t) (at_lengths t)"
  by (auto simp: at_emit_length_def at_lengths_def intro: mem.writes_intros)

lemma ae_encode_writes:
  assumes "ae_wf a"
  shows "mem.writes (ae_encode eb_write a) (ae_mask a # ae_tail a)"
proof (cases "at_mem (ae_symbol a) = None \<and> at_mem (ae_use a) = None \<and> at_mem (ae_description a) = None")
  case True
  have "mem.writes (uncheckedF (eb_write [0]) (retF Encode_Success)) ([0] @ [])"
    by (intro mem.writes_intros)
  with True show ?thesis
    by (simp add: ae_encode_def ae_mask_def ae_tail_def at_lengths_def at_string_def)
next
  case False
  have "mem.writes (ae_encode eb_write a) ([ae_mask a] @ at_lengths (ae_symbol a) @ at_lengths (ae_use a) @
      at_lengths (ae_description a) @ at_string (ae_symbol a) @ at_string (ae_use a) @ at_string (ae_description a) @ [])"
    unfolding ae_encode_def if_not_P [OF False]
    by (intro mem.writes_intros at_emit_writes at_emit_length_writes ae_wf_each [OF assms])
  then show ?thesis by (simp add: ae_tail_def)
qed

text \<open>Reading the texts back lays them out in one block, each with its NUL.\<close>

fun text_offsets :: "nat \<Rightarrow> byte list list \<Rightarrow> nat option list" where
  "text_offsets off [] = []"
| "text_offsets off (s # ss) =
     (if s = [] then None # text_offsets off ss else Some off # text_offsets (off + (length s + 1)) ss)"

definition text_block :: "byte list list \<Rightarrow> byte list" where
  "text_block ss = concat (map (\<lambda>s. if s = [] then [] else s @ [0]) ss)"

lemma text_block_simps [simp]:
  "text_block [] = []" "text_block (s # ss) = (if s = [] then text_block ss else s @ 0 # text_block ss)"
  by (simp_all add: text_block_def)

lemma read_texts_consumes:
  "consumes (read_texts (map length ss) (length pre) (pre @ replicate (sum_list (map (\<lambda>s. text_room (length s)) ss)) 0))
     (concat ss) (Decode_Success, text_offsets (length pre) ss, pre @ text_block ss)"
proof (induction ss arbitrary: pre)
  case Nil
  then show ?case by (simp add: consumes_ret del: retF_apply)
next
  case (Cons s ss)
  show ?case
  proof (cases "s = []")
    case True
    then show ?thesis
      using Cons.IH [of pre] by (auto simp: text_room_def intro: consumes_bind_last)
  next
    case False
    let ?k = "sum_list (map (\<lambda>s. text_room (length s)) ss)"
    have "overlay (length pre) s (pre @ replicate (text_room (length s) + ?k) 0) = (pre @ s @ [0]) @ replicate ?k 0"
      using False by (simp add: overlay_def text_room_def replicate_add replicate_app_Cons_same [symmetric])
    moreover have "length (pre @ s @ [0]) = length pre + (length s + 1)" by simp
    ultimately have "consumes (read_texts (map length ss) (length pre + (length s + 1))
        (overlay (length pre) s (pre @ replicate (text_room (length s) + ?k) 0)))
        (concat ss) (Decode_Success, text_offsets (length pre + (length s + 1)) ss, (pre @ s @ [0]) @ text_block ss)"
      using Cons.IH [of "pre @ s @ [0]"] by (simp only:)
    then have "consumes (bindF (read_texts (map length ss) (length pre + (length s + 1))
        (overlay (length pre) s (pre @ replicate (text_room (length s) + ?k) 0)))
        (\<lambda>(r, ps, m). retF (r, Some (length pre) # ps, m)))
        (concat ss) (Decode_Success, Some (length pre) # text_offsets (length pre + (length s + 1)) ss, pre @ s @ 0 # text_block ss)"
      by (rule consumes_bind_last) simp
    from consumes_bind [OF consumes_read [of s], of "\<lambda>(r, bs). if r \<noteq> Decode_Success then
          retF (r, Some (length pre) # map (\<lambda>_. None) (map length ss), pre @ replicate (text_room (length s) + ?k) 0)
        else bindF (read_texts (map length ss) (length pre + (length s + 1)) (overlay (length pre) bs
            (pre @ replicate (text_room (length s) + ?k) 0))) (\<lambda>(r, ps, m). retF (r, Some (length pre) # ps, m))"] this
    show ?thesis using False by simp
  qed
qed

lemma read_length_consumes:
  assumes "at_wf t" and "p \<longleftrightarrow> at_mem t \<noteq> None"
  shows "consumes (read_length junk p) (at_lengths t) (at_length t)"
proof (cases "at_mem t")
  case None
  with assms show ?thesis by (simp add: read_length_def at_lengths_def at_wf_def consumes_ret del: retF_apply)
next
  case (Some m)
  with assms have "unat (of_nat (at_length t) :: byte) = at_length t" by (simp add: at_wf_def unat_of_nat)
  moreover have "consumes (db_read 1) [of_nat (at_length t)] (Decode_Success, [of_nat (at_length t) :: byte])"
    using consumes_read [of "[of_nat (at_length t)]"] by simp
  ultimately show ?thesis
    using Some assms(2) by (auto simp: read_length_def at_lengths_def intro: consumes_bind_last)
qed

definition ae_received :: "api_element \<Rightarrow> api_element" where
  "ae_received a =
     (let ss = [at_string (ae_symbol a), at_string (ae_use a), at_string (ae_description a)];
          m = text_block ss; ps = text_offsets 0 ss
      in \<lparr>ae_symbol = at_of m (ps ! 0) (at_length (ae_symbol a)), ae_use = at_of m (ps ! 1) (at_length (ae_use a)),
          ae_description = at_of m (ps ! 2) (at_length (ae_description a)),
          ae_owns_strings =
            (text_room (at_length (ae_symbol a)) + text_room (at_length (ae_use a)) + text_room (at_length (ae_description a)) > 0)\<rparr>)"

lemma ae_decode_consumes:
  assumes "ae_wf a" and "bit m 0 \<longleftrightarrow> at_mem (ae_symbol a) \<noteq> None" and "bit m 1 \<longleftrightarrow> at_mem (ae_use a) \<noteq> None"
    and "bit m 2 \<longleftrightarrow> at_mem (ae_description a) \<noteq> None"
  shows "consumes (ae_decode junk) (m # ae_tail a) (Decode_Success, ae_received a)"
proof -
  have w: "at_wf (ae_symbol a)" "at_wf (ae_use a)" "at_wf (ae_description a)" using assms(1) by (simp_all add: ae_wf_def)
  let ?ss = "[at_string (ae_symbol a), at_string (ae_use a), at_string (ae_description a)]"
  have t: "consumes (read_texts [at_length (ae_symbol a), at_length (ae_use a), at_length (ae_description a)] 0
      (replicate (text_room (at_length (ae_symbol a)) + text_room (at_length (ae_use a)) + text_room (at_length (ae_description a))) 0))
      (at_string (ae_symbol a) @ at_string (ae_use a) @ at_string (ae_description a))
      (Decode_Success, text_offsets 0 ?ss, text_block ?ss)"
    using read_texts_consumes [of ?ss "[]"] w by (simp add: at_wf_length add.assoc del: text_block_simps text_offsets.simps read_texts.simps)
  have "consumes (ae_decode junk) ([m] @ at_lengths (ae_symbol a) @ at_lengths (ae_use a) @ at_lengths (ae_description a) @
      (at_string (ae_symbol a) @ at_string (ae_use a) @ at_string (ae_description a))) (Decode_Success, ae_received a)"
    unfolding ae_decode_def
  proof (rule consumes_bind [where x = "(Decode_Success, [m])"])
    show "consumes (db_read 1) [m] (Decode_Success, [m])" using consumes_read [of "[m]"] by simp
    show "consumes (let mask = stored (Decode_Success, [m]) (\<lambda>bs _. hd bs) 0 in
       bindF (read_length junk (bit mask 0)) (\<lambda>sl.
       bindF (read_length junk (bit mask 1)) (\<lambda>ul.
       bindF (read_length junk (bit mask 2)) (\<lambda>dl.
       bindF (read_texts [sl, ul, dl] 0 (replicate (text_room sl + text_room ul + text_room dl) 0)) (\<lambda>(res, ps, m).
         retF (res, \<lparr>ae_symbol = at_of m (ps ! 0) sl, ae_use = at_of m (ps ! 1) ul, ae_description = at_of m (ps ! 2) dl,
                     ae_owns_strings = (text_room sl + text_room ul + text_room dl > 0)\<rparr>))))))
      (at_lengths (ae_symbol a) @ at_lengths (ae_use a) @ at_lengths (ae_description a) @
        (at_string (ae_symbol a) @ at_string (ae_use a) @ at_string (ae_description a))) (Decode_Success, ae_received a)"
      unfolding Let_def stored_simps list.sel
      by (rule consumes_bind [OF read_length_consumes [OF w(1) assms(2)]],
          rule consumes_bind [OF read_length_consumes [OF w(2) assms(3)]],
          rule consumes_bind [OF read_length_consumes [OF w(3) assms(4)]],
          rule consumes_bind_last [OF t]) (simp add: ae_received_def Let_def)
  qed
  then show ?thesis by (simp add: ae_tail_def)
qed

lemma ae_mask_bits:
  "bit (ae_mask a) 0 \<longleftrightarrow> at_mem (ae_symbol a) \<noteq> None" "bit (ae_mask a) 1 \<longleftrightarrow> at_mem (ae_use a) \<noteq> None"
  "bit (ae_mask a) 2 \<longleftrightarrow> at_mem (ae_description a) \<noteq> None" "\<not> bit (ae_mask a) 3"
  by (simp_all add: ae_mask_def bit_or_iff numeral_2_eq_2 numeral_3_eq_3)

lemma strcmp_equal_same: "0 \<notin> set s \<Longrightarrow> strcmp_equal (s @ 0 # xs) (s @ 0 # ys) = Inr True"
  by (induction s) auto

lemma at_wf_split:
  assumes "at_wf t" and "at_mem t = Some m"
  shows "\<exists>rest. m = at_string t @ 0 # rest" and "0 \<notin> set (at_string t)" and "at_string t \<noteq> []"
proof -
  have "at_length t < length m" "m ! at_length t = 0" "at_string t = take (at_length t) m" "0 < at_length t"
    using assms by (simp_all add: at_wf_def at_string_def)
  then show "\<exists>rest. m = at_string t @ 0 # rest" and "at_string t \<noteq> []"
    using id_take_nth_drop [of "at_length t" m] by auto
  show "0 \<notin> set (at_string t)" using assms by (simp add: at_wf_def at_string_def)
qed

lemma at_received_eq:
  assumes "at_wf t" and "p = (if at_string t = [] then None else Some (length xs))"
  shows "at_eq (at_of (xs @ text_block (at_string t # ss)) p (at_length t)) t = Inr True"
proof (cases "at_mem t")
  case None
  with assms show ?thesis by (simp add: at_eq_def at_of_def at_string_def)
next
  case (Some m)
  obtain rest where m: "m = at_string t @ 0 # rest" using at_wf_split(1) [OF assms(1) Some] by blast
  have "at_eq (at_of (xs @ text_block (at_string t # ss)) p (at_length t)) t =
      strcmp_equal (at_string t @ 0 # text_block ss) m"
    using Some assms(2) at_wf_split(3) [OF assms(1) Some] by (simp add: at_eq_def at_of_def)
  also have "\<dots> = Inr True"
    by (subst m) (rule strcmp_equal_same [OF at_wf_split(2) [OF assms(1) Some]])
  finally show ?thesis .
qed

lemma ae_received_eq:
  assumes "ae_wf a"
  shows "ae_eq (ae_received a) a = Inr True"
proof -
  have w: "at_wf (ae_symbol a)" "at_wf (ae_use a)" "at_wf (ae_description a)" using assms by (simp_all add: ae_wf_def)
  let ?s = "at_string (ae_symbol a)" and ?u = "at_string (ae_use a)" and ?d = "at_string (ae_description a)"
  have b2: "text_block [?s, ?u, ?d] = text_block [?s] @ text_block [?u, ?d]"
    and b3: "text_block [?s, ?u, ?d] = text_block [?s, ?u] @ text_block [?d]" by (simp_all add: text_block_def)
  have 1: "at_eq (ae_symbol (ae_received a)) (ae_symbol a) = Inr True"
    using at_received_eq [OF w(1) refl, of "[]" "[?u, ?d]"]
    by (cases "?s = []") (simp_all add: ae_received_def Let_def del: text_block_simps)
  have 2: "at_eq (ae_use (ae_received a)) (ae_use a) = Inr True"
    using at_received_eq [OF w(2) refl, of "text_block [?s]" "[?d]"] unfolding b2 [symmetric]
    by (cases "?s = []"; cases "?u = []") (simp_all add: ae_received_def Let_def)
  have 3: "at_eq (ae_description (ae_received a)) (ae_description a) = Inr True"
    using at_received_eq [OF w(3) refl, of "text_block [?s, ?u]" "[]"] unfolding b3 [symmetric]
    by (cases "?s = []"; cases "?u = []"; cases "?d = []") (simp_all add: ae_received_def Let_def)
  show ?thesis by (simp add: ae_eq_def 1 2 3)
qed

section \<open>Fields and structures on the wire\<close>

definition df_wf :: "data_field \<Rightarrow> bool" where
  "df_wf f \<longleftrightarrow> ae_wf (df_element f) \<and> dd_wf (df_declaration f)"

definition df_encoding :: "data_field \<Rightarrow> byte list" where
  "df_encoding f = (ae_mask (df_element f) # ae_tail (df_element f)) @ dd_header (df_declaration f) @ dd_tail (df_declaration f)"

definition df_received :: "data_field \<Rightarrow> data_field" where
  "df_received f = \<lparr>df_element = ae_received (df_element f), df_declaration = dd_received (df_declaration f)\<rparr>"

lemma df_encode_writes: "df_wf f \<Longrightarrow> mem.writes (df_encode eb_write f) (df_encoding f)"
  unfolding df_encode_def df_encoding_def df_wf_def
  by (intro mem.writes_checked ae_encode_writes dd_encode_writes) simp_all

lemma length_df_encoding: "df_wf f \<Longrightarrow> length (df_encoding f) = df_encoded_size f"
  using length_ae_encoding [of "df_element f"] length_dd_encoding [of "df_declaration f"]
  by (simp add: df_wf_def df_encoding_def df_encoded_size_def)

lemma dd_decode_consumes:
  "dd_wf d \<Longrightarrow> consumes dd_decode (dd_header d @ dd_tail d) (Decode_Success, dd_received d)"
  unfolding dd_decode_def by (rule consumes_bind_last [OF dd_detail_decode_consumes]) simp_all

lemma df_decode_consumes:
  assumes "df_wf f"
  shows "consumes (df_decode junk) (df_encoding f) (Decode_Success, df_received f)"
proof -
  have "ae_wf (df_element f)" "dd_wf (df_declaration f)" using assms by (simp_all add: df_wf_def)
  then show ?thesis
    unfolding df_decode_def df_encoding_def
    by (intro consumes_bind [OF ae_decode_consumes [OF _ ae_mask_bits(1-3)]])
      (auto simp: df_received_def intro!: consumes_bind_last [OF dd_decode_consumes])
qed

lemma df_received_eq: "df_wf f \<Longrightarrow> df_eq (df_received f) f = Inr True"
  by (simp add: df_wf_def df_eq_def df_received_def ae_received_eq dd_received_eq)

lemma ds_decode_fields_consumes:
  "list_all df_wf fs \<Longrightarrow> length xs + length fs \<le> cap \<Longrightarrow>
    consumes (ds_decode_fields junk (length fs) (sa_mk xs cap)) (concat (map df_encoding fs))
      (Decode_Success, sa_mk (xs @ map df_received fs) cap)"
proof (induction fs arbitrary: xs)
  case Nil
  then show ?case by (simp add: consumes_ret del: retF_apply)
next
  case (Cons f fs)
  then have "sa_grow cap (length xs + 1) = cap" by (simp add: sa_grow_def)
  moreover have "consumes (ds_decode_fields junk (length fs) (sa_mk (xs @ [df_received f]) cap)) (concat (map df_encoding fs))
      (Decode_Success, sa_mk ((xs @ [df_received f]) @ map df_received fs) cap)"
    using Cons.prems by (intro Cons.IH) simp_all
  ultimately show ?case
    using Cons.prems by (auto simp: df_move_def ae_move_def intro!: consumes_bind [OF df_decode_consumes])
qed

definition ds_wf :: "data_structure \<Rightarrow> bool" where
  "ds_wf s \<longleftrightarrow> ae_wf (ds_element s) \<and> sa_inv (ds_fields s) \<and> sa_size (ds_fields s) < 256 \<and>
     list_all df_wf (sa_list (ds_fields s))"

definition ds_mask :: "data_structure \<Rightarrow> byte" where
  "ds_mask s = (if sa_size (ds_fields s) > 0 then ae_mask (ds_element s) OR 8 else ae_mask (ds_element s))"

definition ds_tail :: "data_structure \<Rightarrow> byte list" where
  "ds_tail s = (if sa_size (ds_fields s) > 0
     then of_nat (sa_size (ds_fields s)) # concat (map df_encoding (sa_list (ds_fields s))) else [])"

definition ds_encoding :: "data_structure \<Rightarrow> byte list" where
  "ds_encoding s = (ds_mask s # ae_tail (ds_element s)) @ ds_tail s"

lemma encode_each_writes: "list_all df_wf fs \<Longrightarrow> mem.writes (encode_each (df_encode eb_write) fs) (concat (map df_encoding fs))"
  by (induction fs) (auto intro: mem.writes_intros df_encode_writes)

lemma ds_encode_writes:
  assumes "ds_wf s"
  shows "mem.writes (ds_encode s) (ds_encoding s)"
proof -
  have w: "ae_wf (ds_element s)" "sa_inv (ds_fields s)" "list_all df_wf (sa_list (ds_fields s))"
    using assms by (simp_all add: ds_wf_def)
  let ?e = "ae_mask (ds_element s) # ae_tail (ds_element s)"
  have a: "ae_encode eb_write (ds_element s) (eb_new (ae_encoded_size (ds_element s))) =
      Inr (Encode_Success, \<lparr>eb_data = ?e, eb_offset = length ?e\<rparr>)"
    using write_exact [OF ae_encode_writes [OF w(1)]] length_ae_encoding [OF w(1)] by simp
  have m: "take (length ?e) (if sa_size (ds_fields s) > 0 then ?e[0 := ?e ! 0 OR 8] else ?e) = ds_mask s # ae_tail (ds_element s)"
    by (simp add: ds_mask_def)
  have t: "mem.writes (if sa_size (ds_fields s) > 0
      then checkedF (eb_write [of_nat (sa_size (ds_fields s))])
             (bindF (liftF (sa_elems (ds_fields s))) (encode_each (df_encode eb_write)))
      else retF Encode_Success) (ds_tail s)"
  proof (cases "sa_size (ds_fields s) > 0")
    case True
    have "mem.writes (checkedF (eb_write [of_nat (sa_size (ds_fields s))]) (encode_each (df_encode eb_write) (sa_list (ds_fields s))))
        ([of_nat (sa_size (ds_fields s))] @ concat (map df_encoding (sa_list (ds_fields s))))"
      by (intro mem.writes_intros encode_each_writes w)
    with True show ?thesis by (simp add: sa.elems_law [OF w(2)] ds_tail_def)
  qed (simp add: ds_tail_def mem.writes_intros del: retF_apply)
  have "ds_encode s = checkedF (eb_write (ds_mask s # ae_tail (ds_element s)))
      (if sa_size (ds_fields s) > 0
       then checkedF (eb_write [of_nat (sa_size (ds_fields s))])
              (bindF (liftF (sa_elems (ds_fields s))) (encode_each (df_encode eb_write)))
       else retF Encode_Success)"
    using m by (auto simp: ds_encode_def a Let_def)
  then show ?thesis unfolding ds_encoding_def by (simp only: mem.writes_checked [OF mem.writes_emit t])
qed

lemma length_ds_encoding:
  assumes "ds_wf s"
  shows "ds_encoded_size s = Inr (length (ds_encoding s))"
proof -
  have "list_all df_wf fs \<Longrightarrow> sum_list (map df_encoded_size fs) = length (concat (map df_encoding fs))" for fs
    by (induction fs) (simp_all add: length_df_encoding)
  moreover have "sa_list (ds_fields s) = [] \<longleftrightarrow> sa_size (ds_fields s) = 0"
    using assms by (metis ds_wf_def length_0_conv sa_size_list)
  ultimately show ?thesis
    using assms length_ae_encoding [of "ds_element s"]
    by (auto simp: ds_wf_def ds_encoded_size_def ds_encoding_def ds_tail_def sa.elems_law)
qed

lemma ds_mask_bits:
  "bit (ds_mask s) 0 \<longleftrightarrow> at_mem (ae_symbol (ds_element s)) \<noteq> None"
  "bit (ds_mask s) 1 \<longleftrightarrow> at_mem (ae_use (ds_element s)) \<noteq> None"
  "bit (ds_mask s) 2 \<longleftrightarrow> at_mem (ae_description (ds_element s)) \<noteq> None"
  "bit (ds_mask s) 3 \<longleftrightarrow> sa_size (ds_fields s) > 0"
  by (simp_all add: ds_mask_def ae_mask_bits [unfolded One_nat_def] bit_or_iff ae_mask_bits)

definition ds_received :: "data_structure \<Rightarrow> data_structure \<Rightarrow> data_structure" where
  "ds_received t s =
     \<lparr>ds_element = ae_received (ds_element s),
      ds_fields = (if sa_size (ds_fields s) > 0
        then sa_mk (sa_list (ds_fields t) @ map df_received (sa_list (ds_fields s)))
               (sa_capacity (sa_ensure_capacity (sa_size (ds_fields s)) (ds_fields t)))
        else ds_fields t)\<rparr>"

lemma ds_decode_run:
  assumes "ds_wf s" and "ds_fields t = sa_new" and "db_ok b" and "db_rest b = ds_encoding s @ rest"
  shows "ds_decode junk t b = Inr ((Decode_Success, ds_received t s), db_advance (length (ds_encoding s)) b)"
proof -
  let ?e = "ds_mask s # ae_tail (ds_element s)"
  have w: "ae_wf (ds_element s)" "sa_inv (ds_fields s)" "list_all df_wf (sa_list (ds_fields s))" "sa_size (ds_fields s) < 256"
    using assms(1) by (simp_all add: ds_wf_def)
  have d: "drop (db_offset b) (db_data b) = ds_mask s # (ae_tail (ds_element s) @ ds_tail s @ rest)"
    using assms(4) by (simp add: db_rest_def ds_encoding_def)
  then have mask: "db_data b ! db_offset b = ds_mask s" by (rule nth_via_drop)
  have lt: "db_offset b < length (db_data b)" using d by (auto intro: ccontr)
  have el: "consumes (ae_decode junk) ?e (Decode_Success, ae_received (ds_element s))"
    by (rule ae_decode_consumes [OF w(1) ds_mask_bits(1-3)])
  have "consumes (bindF (ae_decode junk) (\<lambda>(r, a).
         if r \<noteq> Decode_Success then retF (r, t\<lparr>ds_element := a\<rparr>)
         else if \<not> bit (ds_mask s) 3 then retF (Decode_Success, t\<lparr>ds_element := a\<rparr>)
         else bindF (read_length junk True) (\<lambda>n.
           bindF (ds_decode_fields junk n (sa_ensure_capacity n (ds_fields t))) (\<lambda>(r', xs).
             retF (r', \<lparr>ds_element = a, ds_fields = xs\<rparr>))))) (?e @ ds_tail s) (Decode_Success, ds_received t s)"
  proof (rule consumes_bind [OF el], cases "sa_size (ds_fields s) > 0")
    case False
    then show "consumes (case (Decode_Success, ae_received (ds_element s)) of (r, a) \<Rightarrow>
         if r \<noteq> Decode_Success then retF (r, t\<lparr>ds_element := a\<rparr>)
         else if \<not> bit (ds_mask s) 3 then retF (Decode_Success, t\<lparr>ds_element := a\<rparr>)
         else bindF (read_length junk True) (\<lambda>n.
           bindF (ds_decode_fields junk n (sa_ensure_capacity n (ds_fields t))) (\<lambda>(r', xs).
             retF (r', \<lparr>ds_element = a, ds_fields = xs\<rparr>)))) (ds_tail s) (Decode_Success, ds_received t s)"
      using consumes_ret [of "(Decode_Success, t\<lparr>ds_element := ae_received (ds_element s)\<rparr>)"]
      by (cases t) (simp add: ds_mask_bits ds_tail_def ds_received_def del: retF_apply)
  next
    case True
    let ?n = "sa_size (ds_fields s)" and ?fs = "sa_list (ds_fields s)"
    have n: "consumes (read_length junk True) [of_nat ?n] ?n"
      using w(4) consumes_read [of "[of_nat ?n]"]
      by (auto simp: read_length_def unat_of_nat intro: consumes_bind_last)
    have cap: "sa_ensure_capacity ?n (ds_fields t) = sa_mk [] (sa_grow 0 ?n)" by (simp add: assms(2) sa_new_mk)
    have f: "consumes (ds_decode_fields junk ?n (sa_ensure_capacity ?n (ds_fields t))) (concat (map df_encoding ?fs))
        (Decode_Success, sa_mk ([] @ map df_received ?fs) (sa_grow 0 ?n))"
      using ds_decode_fields_consumes [OF w(3), of "[]" "sa_grow 0 ?n" junk] w(2) unfolding cap by (simp add: sa_grow_def)
    have g: "consumes (bindF (read_length junk True) (\<lambda>n.
        bindF (ds_decode_fields junk n (sa_ensure_capacity n (ds_fields t))) (\<lambda>(r', xs).
          retF (r', \<lparr>ds_element = ae_received (ds_element s), ds_fields = xs\<rparr>)))) ([of_nat ?n] @ concat (map df_encoding ?fs))
        (Decode_Success, ds_received t s)"
      by (rule consumes_bind [OF n], rule consumes_bind_last [OF f])
        (use True in \<open>simp add: ds_received_def cap assms(2) sa_new_mk\<close>)
    from True show "consumes (case (Decode_Success, ae_received (ds_element s)) of (r, a) \<Rightarrow>
         if r \<noteq> Decode_Success then retF (r, t\<lparr>ds_element := a\<rparr>)
         else if \<not> bit (ds_mask s) 3 then retF (Decode_Success, t\<lparr>ds_element := a\<rparr>)
         else bindF (read_length junk True) (\<lambda>n.
           bindF (ds_decode_fields junk n (sa_ensure_capacity n (ds_fields t))) (\<lambda>(r', xs).
             retF (r', \<lparr>ds_element = a, ds_fields = xs\<rparr>)))) (ds_tail s) (Decode_Success, ds_received t s)"
      using g by (simp add: ds_mask_bits ds_tail_def)
  qed
  from consumesD [OF this assms(3), of rest] lt mask show ?thesis
    using assms(4) by (simp add: ds_decode_def ds_encoding_def Let_def)
qed

lemma ds_received_eq:
  assumes "ds_wf s" and "ds_fields t = sa_new"
  shows "ds_eq (ds_received t s) s = Inr True"
proof -
  obtain fs cap where fs: "ds_fields s = sa_mk fs cap" "length fs \<le> cap"
    using assms(1) by (auto simp: ds_wf_def elim!: sa_invE)
  have wf: "list_all df_wf fs" and el: "ae_eq (ae_received (ds_element s)) (ds_element s) = Inr True"
    using assms(1) fs by (simp_all add: ds_wf_def ae_received_eq)
  have "each_equal df_eq (sa_mk (map df_received fs) (sa_grow 0 (length fs))) (sa_mk fs cap) [0..<length fs] = Inr True"
    using fs wf by (intro each_equal_mk) (auto simp: sa_grow_def list_all_iff df_received_eq)
  with fs el show ?thesis
    by (auto simp: ds_eq_def ds_received_def assms(2) sa_new_mk)
qed

text \<open>
  Claim C22. The description of a structure survives the wire. When its texts are absent or strings of 1 to 255
  bytes and it has at most 255 fields, encoding takes exactly the announced size and decoding it into
  a fresh structure ends at the same offset with a structure that \<open>operator ==\<close> accepts.
\<close>

theorem data_structure_roundtrip:
  assumes "ds_wf s" and "eb_ok b" and "eb_room b n" and "ds_encoded_size s = Inr n" and "ds_fields t = sa_new"
  shows "\<exists>b' c s'. ds_encode s b = Inr (Encode_Success, b') \<and> eb_offset b' = eb_offset b + n \<and>
    ds_decode junk t (db_of (eb_data b') (eb_offset b)) = Inr ((Decode_Success, s'), c) \<and>
    db_offset c = eb_offset b' \<and> ds_eq s' s = Inr True"
proof -
  have n: "n = length (ds_encoding s)" using assms(1,4) by (simp add: length_ds_encoding)
  let ?d = "db_of (eb_data (eb_put (ds_encoding s) b)) (eb_offset b)"
  have "ds_encode s b = Inr (Encode_Success, eb_put (ds_encoding s) b)"
    using assms n by (intro mem.writesD [OF ds_encode_writes]) simp_all
  moreover have "db_ok ?d" using assms(2,3) n by (simp add: db_ok_def db_of_def eb_ok_def)
  then have "ds_decode junk t ?d = Inr ((Decode_Success, ds_received t s), db_advance n ?d)"
    using ds_decode_run [OF assms(1,5) _ rest_after_write] assms(3) n by simp
  ultimately show ?thesis
    using ds_received_eq [OF assms(1,5)] n by (auto simp: db_advance_def db_of_def)
qed

definition ds_fresh :: data_structure where
  "ds_fresh = \<lparr>ds_element = ae_new, ds_fields = sa_new\<rparr>"

definition ds_example :: data_structure where
  "ds_example =
     \<lparr>ds_element = \<lparr>ae_symbol = \<lparr>at_mem = Some [112, 111, 115, 0], at_length = 3\<rparr>, ae_use = at_none,
                    ae_description = \<lparr>at_mem = Some [120, 0], at_length = 1\<rparr>, ae_owns_strings = False\<rparr>,
      ds_fields = sa_mk [\<lparr>df_element = ae_new, df_declaration = dd_example\<rparr>] 1\<rparr>"

theorem data_structure_roundtrip_witness:
  "\<exists>n b' c s'. ds_encoded_size ds_example = Inr n \<and> ds_encode ds_example (eb_new n) = Inr (Encode_Success, b') \<and>
    eb_offset b' = n \<and> ds_decode 7 ds_fresh (db_of (eb_data b') 0) = Inr ((Decode_Success, s'), c) \<and>
    db_offset c = eb_offset b' \<and> ds_eq s' ds_example = Inr True"
proof -
  have "dd_wf dd_example" by (simp add: dd_example_def dd_new_def dd_wf_def)
  then have wf: "ds_wf ds_example"
    by (simp add: ds_wf_def ds_example_def ae_wf_def at_wf_def at_none_def df_wf_def ae_new_def)
  from data_structure_roundtrip [OF wf eb_new_ok _ length_ds_encoding [OF wf], of "length (ds_encoding ds_example)" ds_fresh 7]
  show ?thesis using length_ds_encoding [OF wf] by (auto simp: ds_fresh_def)
qed

text \<open>
  Copying texts of which the first two are absent writes past the block: the room for the missing texts is not counted,
  but their place is skipped.
\<close>

lemma ae_reset_copy_overflows:
  assumes "0 < k" and "k < length m" and "m ! k = 0" and "0 \<notin> set (take k m)"
  shows "ae_make None None (Some m) True = Inl Out_of_bounds"
proof -
  have m: "m = take k m @ 0 # drop (Suc k) m" using assms id_take_nth_drop [of k m] by simp
  have "c_strlen m = Inr k"
    using assms by (subst m, subst m) (simp add: c_strlen_def takeWhile_append)
  then show ?thesis
    using assms by (simp add: ae_make_def ae_reset_def name_strlen_def copy_to_def mem_read_def text_room_def)
qed

end
