(* ===== verification/Building.thy ===== *)
theory Building
  imports Configuration
begin

text \<open>
  The values that a disciplined use of inputs, sensors, modules and configurations makes
  (\<^verbatim>\<open>ModuleInput.hh\<close>, \<^verbatim>\<open>Sensor.hh\<close>, \<^verbatim>\<open>Module.hh\<close>, \<^verbatim>\<open>Configuration.hh\<close>), as inductive predicates with a rule for
  each call covered, and a typing discipline for them: what is made is typed (preservation), and the operations never fault
  on typed values (progress). The rules are the whole list of calls covered: default construction; an input from a
  terminated name (or none) or from a typed input; a sensor from a name with that name's own length, or from a typed
  sensor; a module from a name and capacities; a configuration from a capacity; adding an input, a sensor, a module;
  copies, moves, assignments between different objects; \<open>reset\<close> of a module and of a configuration; decoding what such a
  value was encoded to. Data declarations have legal widths.

  Other public calls are left out because they do leave the discipline. \<open>reset\<close> of an input or a sensor drops the name and
  keeps its length (\<open>reset_breaks_typing\<close>). The generic sensor's constructor takes any name length with any name. Moved-from
  objects still announce the elements that have gone, and so does an object assigned to itself. The fields are public and
  can be written directly.
\<close>

section \<open>Typed values\<close>

text \<open>A name of at least its stated length and without a NUL in it.\<close>

definition name_typed :: "byte \<Rightarrow> byte list option \<Rightarrow> bool" where
  "name_typed n p \<longleftrightarrow> name_wf n p \<and> (case p of None \<Rightarrow> True | Some mem \<Rightarrow> 0 \<notin> set (take (unat n) mem))"

definition mi_typed :: "module_input \<Rightarrow> bool" where
  "mi_typed x \<longleftrightarrow> dd_wf (mi_data_type x) \<and> name_typed (mi_name_length x) (mi_name x)"

definition sn_typed :: "sensor \<Rightarrow> bool" where
  "sn_typed x \<longleftrightarrow> dd_wf (sn_data_type x) \<and> name_typed (sn_name_length x) (sn_name x)"

definition md_typed :: "module \<Rightarrow> bool" where
  "md_typed m \<longleftrightarrow> name_typed (md_name_length m) (md_name m) \<and>
     sa_inv (md_inputs m) \<and> sa_size (md_inputs m) = unat (md_num_inputs m) \<and> list_all mi_typed (sa_list (md_inputs m)) \<and>
     sa_inv (md_sensors m) \<and> sa_size (md_sensors m) = unat (md_num_sensors m) \<and> list_all sn_typed (sa_list (md_sensors m))"

definition cf_typed :: "configuration \<Rightarrow> bool" where
  "cf_typed c \<longleftrightarrow> sa_inv (cf_modules c) \<and> sa_size (cf_modules c) = unat (cf_num_modules c) \<and>
     list_all md_typed (sa_list (cf_modules c))"

section \<open>What the interface makes\<close>

inductive mi_built :: "module_input \<Rightarrow> bool" where
  mi_default: "mi_built mi_new"
| mi_made: "mi_make name iid d owned = Inr x \<Longrightarrow> dd_wf d \<Longrightarrow> mi_built x"
| mi_of_typed: "mi_of_typed mem k d = Inr x \<Longrightarrow> dd_wf d \<Longrightarrow> mi_built x"
| mi_copied: "mi_built x \<Longrightarrow> mi_copy x = Inr y \<Longrightarrow> mi_built y"
| mi_moved: "mi_built x \<Longrightarrow> mi_built (fst (mi_move x))"
| mi_assigned: "mi_built x \<Longrightarrow> mi_built (fst (mi_move_assign z x))"
| mi_decoded: "mi_built x \<Longrightarrow> eb_ok b \<Longrightarrow> eb_room b (mi_encoded_size x) \<Longrightarrow> mi_encode x b = Inr (Encode_Success, b') \<Longrightarrow>
    mi_decode_copy junk (db_of (eb_data b') (eb_offset b)) = Inr (y, c) \<Longrightarrow> mi_built y"

inductive sn_built :: "sensor \<Rightarrow> bool" where
  sn_default: "sn_built sn_new"
| sn_made: "name_strlen name = Inr n \<Longrightarrow> dd_wf d \<Longrightarrow> sn_built (sn_make k ty mode (of_nat n) d name)"
| sn_of_typed: "sn_of_typed mem k ty mode d = Inr x \<Longrightarrow> dd_wf d \<Longrightarrow> sn_built x"
| sn_copied: "sn_built x \<Longrightarrow> sn_copy x = Inr y \<Longrightarrow> sn_built y"
| sn_moved: "sn_built x \<Longrightarrow> sn_built (fst (sn_move x))"
| sn_assigned: "sn_built x \<Longrightarrow> sn_built (fst (sn_move_assign z x))"
| sn_decoded: "sn_built x \<Longrightarrow> eb_ok b \<Longrightarrow> eb_room b (sn_encoded_size x) \<Longrightarrow> sn_encode x b = Inr (Encode_Success, b') \<Longrightarrow>
    sn_decode_copy junk (db_of (eb_data b') (eb_offset b)) = Inr (y, c) \<Longrightarrow> sn_built y"

text \<open>The counters of inputs, sensors and modules have eight bits, so the 256th element is left out.\<close>

inductive md_built :: "module \<Rightarrow> bool" where
  md_default: "md_built md_new"
| md_made: "md_make name icap scap = Inr m \<Longrightarrow> md_built m"
| md_input_added: "md_built m \<Longrightarrow> mi_built x \<Longrightarrow> md_num_inputs m < 255 \<Longrightarrow> md_add_input x m = Inr m' \<Longrightarrow> md_built m'"
| md_sensor_added: "md_built m \<Longrightarrow> sn_built x \<Longrightarrow> md_num_sensors m < 255 \<Longrightarrow> md_add_sensor x m = Inr m' \<Longrightarrow> md_built m'"
| md_copied: "md_built m \<Longrightarrow> md_copy m = Inr m' \<Longrightarrow> md_built m'"
| md_moved: "md_built m \<Longrightarrow> md_built (fst (md_move m))"
| md_assigned: "md_built t \<Longrightarrow> md_built m \<Longrightarrow> md_assign t m = Inr m' \<Longrightarrow> md_built m'"
| md_move_assigned: "md_built m \<Longrightarrow> md_built (fst (md_move_assign t m))"
| md_resetted: "md_built m \<Longrightarrow> md_built (md_reset m)"
| md_decoded: "md_built t \<Longrightarrow> md_built m \<Longrightarrow> eb_ok b \<Longrightarrow> md_encoded_size m = Inr n \<Longrightarrow> eb_room b n \<Longrightarrow>
    md_encode m b = Inr (Encode_Success, b') \<Longrightarrow>
    md_decode junk t (db_of (eb_data b') (eb_offset b)) = Inr ((r, m'), c) \<Longrightarrow> md_built m'"

inductive cf_built :: "configuration \<Rightarrow> bool" where
  cf_made: "cf_built (cf_make n)"
| cf_module_added: "cf_built c \<Longrightarrow> md_built m \<Longrightarrow> cf_num_modules c < 255 \<Longrightarrow> cf_add_module m c = Inr c' \<Longrightarrow> cf_built c'"
| cf_copied: "cf_built c \<Longrightarrow> cf_copy c = Inr c' \<Longrightarrow> cf_built c'"
| cf_moved: "cf_built c \<Longrightarrow> cf_built (fst (cf_move c))"
| cf_assigned: "cf_built t \<Longrightarrow> cf_built c \<Longrightarrow> cf_assign t c = Inr c' \<Longrightarrow> cf_built c'"
| cf_move_assigned: "cf_built c \<Longrightarrow> cf_built (fst (cf_move_assign t c))"
| cf_resetted: "cf_built c \<Longrightarrow> cf_built (cf_reset c)"
| cf_decoded: "cf_built t \<Longrightarrow> cf_built c \<Longrightarrow> eb_ok b \<Longrightarrow> cf_encoded_size c = Inr n \<Longrightarrow> eb_room b n \<Longrightarrow>
    cf_encode c b = Inr (Encode_Success, b') \<Longrightarrow>
    cf_decode junk t (db_of (eb_data b') (eb_offset b)) = Inr ((r, c'), d) \<Longrightarrow> cf_built c'"

section \<open>Typed values are well-formed, and their names copy in full\<close>

lemma name_typed_wf: "name_typed n p \<Longrightarrow> name_wf n p" and name_typed_clean: "name_typed n p \<Longrightarrow> name_clean owns n p"
  by (auto simp: name_typed_def name_clean_def split: option.splits)

lemma name_typed_null [simp]: "name_typed 0 p"
  by (simp add: name_typed_def name_wf_def split: option.split)

lemma name_typed_copied: "name_typed n p \<Longrightarrow> name_typed n (copied_name owns n p)"
  using copied_name_wf [of n p owns] by (auto simp: name_typed_def copied_name_def split: option.splits)

lemma name_typed_strlen:
  assumes "name_strlen p = Inr n"
  shows "name_typed (of_nat n) p"
proof (cases p)
  case (Some mem)
  then have n: "n = length (takeWhile (\<lambda>c. c \<noteq> 0) mem)" "n < length mem"
    using assms c_strlen_le by (auto simp: name_strlen_def c_strlen_def split: if_splits)
  have le: "unat (of_nat n :: byte) \<le> n" by (simp add: unat_of_nat)
  have "takeWhile (\<lambda>c. c \<noteq> 0) mem = take n mem" unfolding n(1) by (rule takeWhile_eq_take)
  then have "0 \<notin> set (take n mem)" using set_takeWhileD [of 0 "\<lambda>c. c \<noteq> 0" mem] by auto
  then have "0 \<notin> set (take (unat (of_nat n :: byte)) mem)" using set_take_subset_set_take [OF le, of mem] by blast
  moreover have "name_wf (of_nat n) p" using Some n(2) le by (simp add: name_wf_def)
  ultimately show ?thesis using Some by (simp add: name_typed_def)
next
  case None
  with assms show ?thesis by (simp add: name_strlen_def)
qed

lemma mi_typed_wf: "mi_typed x \<Longrightarrow> mi_wf x" and sn_typed_wf: "sn_typed y \<Longrightarrow> sn_wf y"
  by (simp_all add: mi_typed_def mi_wf_def sn_typed_def sn_wf_def name_typed_wf)

lemma md_typed_wf: "md_typed m \<Longrightarrow> md_wf m"
  by (auto simp: md_typed_def md_wf_def name_typed_wf list_all_iff mi_typed_wf sn_typed_wf)

lemma md_typed_clean: "md_typed m \<Longrightarrow> md_clean m"
  by (auto simp: md_typed_def md_clean_def list_all_iff mi_typed_def sn_typed_def name_typed_clean)

lemma cf_typed_wf: "cf_typed c \<Longrightarrow> cf_wf c"
  by (auto simp: cf_typed_def cf_wf_def list_all_iff md_typed_wf)

section \<open>Inputs and sensors\<close>

lemma mi_copied_typed: "mi_typed x \<Longrightarrow> mi_typed (mi_copied x)"
  by (simp add: mi_typed_def mi_copied_def name_typed_copied)

lemma sn_copied_typed: "sn_typed x \<Longrightarrow> sn_typed (sn_copied x)"
  by (simp add: sn_typed_def sn_copied_def name_typed_copied)

lemma mi_copy_typed: "mi_typed x \<Longrightarrow> mi_copy x = Inr (mi_copied x)"
  by (rule mi_copy_clean) (auto simp: mi_typed_wf mi_typed_def name_typed_clean)

lemma sn_copy_typed: "sn_typed x \<Longrightarrow> sn_copy x = Inr (sn_copied x)"
  by (rule sn_copy_clean) (auto simp: sn_typed_wf sn_typed_def name_typed_clean)

lemma name_typed_received:
  "name_typed n p \<Longrightarrow> n \<noteq> 0 \<Longrightarrow> name_typed n (Some ((case p of None \<Rightarrow> [] | Some mem \<Rightarrow> take (unat n) mem) @ [0]))"
  by (auto simp: name_typed_def name_wf_def split: option.splits)

lemma mi_received_typed: "mi_typed x \<Longrightarrow> mi_typed (mi.received x)"
  using name_typed_received [of "mi_name_length x" "mi_name x"]
  by (auto simp: mi_typed_def mi_received mi.name_bytes_def dd_received_wf cong: option.case_cong)

lemma sn_received_typed: "sn_typed x \<Longrightarrow> sn_typed (sn.received x)"
  using name_typed_received [of "sn_name_length x" "sn_name x"]
  by (auto simp: sn_typed_def sn_received sn.name_bytes_def dd_received_wf cong: option.case_cong)

lemma reads_what_was_written:
  assumes "mem.writes m bs" and "consumes r bs x" and "eb_ok b" and "eb_room b (length bs)"
    and "m b = Inr (Encode_Success, b')" and "r (db_of (eb_data b') (eb_offset b)) = Inr (y, c)"
  shows "y = x"
  using write_then_read [OF assms(1-4)] assms(5,6) by auto

lemma mi_decode_typed:
  assumes "mi_typed x" and "eb_ok b" and "eb_room b (mi_encoded_size x)" and "mi_encode x b = Inr (Encode_Success, b')"
    and "mi_decode_copy junk (db_of (eb_data b') (eb_offset b)) = Inr (y, c)"
  shows "y = mi.received x"
proof -
  have wf: "mi.wf x" using assms(1) by (simp add: mi_wf_codec mi_typed_wf)
  have "mi_encoded_size x = length (mi.encoding x)" by (simp add: mi_encoded_size_def mi.size_law [OF wf])
  then show ?thesis
    using assms unfolding mi_encode_def mi_decode_copy_def
    by (intro reads_what_was_written [OF mi.encode_law [OF wf] mi.decode_law [OF wf]]) simp_all
qed

lemma sn_decode_typed:
  assumes "sn_typed x" and "eb_ok b" and "eb_room b (sn_encoded_size x)" and "sn_encode x b = Inr (Encode_Success, b')"
    and "sn_decode_copy junk (db_of (eb_data b') (eb_offset b)) = Inr (y, c)"
  shows "y = sn.received x"
proof -
  have wf: "sn.wf x" using assms(1) by (simp add: sn_wf_codec sn_typed_wf)
  have "sn_encoded_size x = length (sn.encoding x)" by (simp add: sn_encoded_size_def sn.size_law [OF wf])
  then show ?thesis
    using assms unfolding sn_encode_def sn_decode_copy_def
    by (intro reads_what_was_written [OF sn.encode_law [OF wf] sn.decode_law [OF wf]]) simp_all
qed

lemma dd_assign_wf: "dd_wf d \<Longrightarrow> dd_wf (dd_assign e d)"
  by (simp add: dd_wf_def dd_assign_def)

lemma mi_built_typed: "mi_built x \<Longrightarrow> mi_typed x"
proof (induction rule: mi_built.induct)
  case mi_default
  then show ?case by (simp add: mi_typed_def mi_new_def dd_wf_def dd_new_def)
next
  case (mi_made name iid d owned x)
  then show ?case by (auto simp: mi_make_def bindE_Inr_iff mi_typed_def name_typed_strlen)
next
  case (mi_of_typed mem k d x)
  then show ?case by (auto simp: mi_of_typed_def mi_make_def bindE_Inr_iff mi_typed_def name_typed_strlen)
next
  case (mi_decoded x b b' junk y c)
  then show ?case using mi_decode_typed mi_received_typed by metis
next
  case (mi_assigned x z)
  then show ?case by (simp add: mi_move_assign_def mi_typed_def dd_assign_wf)
qed (auto simp: mi_copy_typed mi_copied_typed mi_move_def)

lemma sn_built_typed: "sn_built x \<Longrightarrow> sn_typed x"
proof (induction rule: sn_built.induct)
  case sn_default
  then show ?case by (simp add: sn_typed_def sn_new_def dd_wf_def dd_new_def)
next
  case (sn_made name n d k ty mode)
  then show ?case by (simp add: sn_make_def sn_typed_def name_typed_strlen)
next
  case (sn_of_typed mem k ty mode d x)
  then show ?case
    using name_typed_strlen [of "Some mem"]
    by (auto simp: sn_of_typed_def sn_make_def bindE_Inr_iff sn_typed_def name_strlen_def)
next
  case (sn_decoded x b b' junk y c)
  then show ?case using sn_decode_typed sn_received_typed by metis
next
  case (sn_assigned x z)
  then show ?case by (simp add: sn_move_assign_def sn_typed_def dd_assign_wf)
qed (auto simp: sn_copy_typed sn_copied_typed sn_move_def)


section \<open>Modules\<close>

lemma sa_assign_via_mk:
  assumes "\<forall>x \<in> set xs. cp x = Inr (g x)" and "length xs \<le> c" and "sa_inv a"
  shows "sa_assign_via cp a (sa_mk xs c) = Inr (sa_mk (map g xs) (sa_grow (sa_capacity a) c))"
  using assms sa_fill_mk [of "[]" "map g xs" "sa_grow (sa_capacity a) c"]
  by (simp add: sa_assign_via_def mapE_all [OF assms(1)] sa_clear_inv)

lemma sa_assign_via_typed:
  assumes "list_all P (sa_list s)" and "\<And>x. P x \<Longrightarrow> cp x = Inr (g x)" and "\<And>x. P x \<Longrightarrow> P (g x)" and "sa_inv s" and "sa_inv a"
  shows "\<exists>b. sa_assign_via cp a s = Inr b \<and> sa_inv b \<and> sa_size b = sa_size s \<and> list_all P (sa_list b)"
proof -
  obtain xs c where s: "s = sa_mk xs c" "length xs \<le> c" using assms(4) by (rule sa_invE)
  with assms(1,2) have "sa_assign_via cp a s = Inr (sa_mk (map g xs) (sa_grow (sa_capacity a) c))"
    using assms(5) by (auto simp: list_all_iff intro: sa_assign_via_mk)
  with s assms(1,3) show ?thesis by (auto simp: list_all_iff)
qed

lemma md_new_typed: "md_typed md_new"
  by (simp add: md_typed_def) (simp add: sa_new_mk)

lemma md_make_typed:
  assumes "md_make name icap scap = Inr m"
  shows "md_typed m"
  using assms by (auto simp: md_make_def bindE_Inr_iff md_typed_def name_typed_strlen sa_alloc_mk)

lemma md_reset_typed: "md_typed m \<Longrightarrow> md_typed (md_reset m)"
  by (auto simp: md_typed_def md_reset_def Let_def sa_clear_inv)

lemma md_add_input_typed:
  assumes "md_typed m" and "mi_typed x" and "md_num_inputs m < 255"
  shows "\<exists>m'. md_add_input x m = Inr m' \<and> md_typed m' \<and> md_num_inputs m' = md_num_inputs m + 1"
proof -
  obtain xs c where xs: "md_inputs m = sa_mk xs c" "length xs \<le> c" "sa_list (md_inputs m) = xs"
    using assms(1) by (auto simp: md_typed_def elim!: sa_invE)
  have n: "length xs = unat (md_num_inputs m)" using assms(1) xs by (simp add: md_typed_def)
  have upd: "(xs @ [x])[length xs := ((xs @ [x]) ! length xs)\<lparr>mi_input_id := md_next_input_id m\<rparr>]
      = xs @ [x\<lparr>mi_input_id := md_next_input_id m\<rparr>]" by simp
  have fits: "length (xs @ [x]) \<le> sa_grow c (Suc (length xs))" by simp
  have "unat (md_num_inputs m) < 255" using assms(3) by (simp add: word_less_nat_alt)
  then have "unat (md_num_inputs m + 1) = unat (md_num_inputs m) + 1" by (simp add: unat_word_ariths)
  moreover have "mi_typed (x\<lparr>mi_input_id := md_next_input_id m\<rparr>)" using assms(2) by (simp add: mi_typed_def)
  ultimately show ?thesis
    using assms xs n fits upd by (simp add: md_add_input_def Let_def md_typed_def)
qed

lemma md_add_sensor_typed:
  assumes "md_typed m" and "sn_typed x" and "md_num_sensors m < 255"
  shows "\<exists>m'. md_add_sensor x m = Inr m' \<and> md_typed m' \<and> md_num_sensors m' = md_num_sensors m + 1"
proof -
  obtain xs c where xs: "md_sensors m = sa_mk xs c" "length xs \<le> c" "sa_list (md_sensors m) = xs"
    using assms(1) by (auto simp: md_typed_def elim!: sa_invE)
  have n: "length xs = unat (md_num_sensors m)" using assms(1) xs by (simp add: md_typed_def)
  have upd: "(xs @ [x])[length xs := ((xs @ [x]) ! length xs)\<lparr>sn_id := ucast (md_next_sensor_id m)\<rparr>]
      = xs @ [x\<lparr>sn_id := ucast (md_next_sensor_id m)\<rparr>]" by simp
  have fits: "length (xs @ [x]) \<le> sa_grow c (Suc (length xs))" by simp
  have "unat (md_num_sensors m) < 255" using assms(3) by (simp add: word_less_nat_alt)
  then have s: "unat (md_num_sensors m + 1) = unat (md_num_sensors m) + 1" by (simp add: unat_word_ariths)
  then have "size_sub (unat (md_num_sensors m + 1)) 1 = length xs" using n by (simp add: size_sub_def)
  moreover have "sn_typed (x\<lparr>sn_id := ucast (md_next_sensor_id m)\<rparr>)" using assms(2) by (simp add: sn_typed_def)
  ultimately show ?thesis
    using assms xs n fits upd s by (simp add: md_add_sensor_def Let_def md_typed_def)
qed

lemma md_copied_typed: "md_typed m \<Longrightarrow> md_typed (md_copied m)"
  by (auto simp: md_typed_def md_copied_def name_typed_copied list_all_iff mi_copied_typed sn_copied_typed)

lemma md_copy_typed: "md_typed m \<Longrightarrow> md_copy m = Inr (md_copied m)"
  by (rule md_copy_clean [OF md_typed_wf md_typed_clean])

lemma strncpy_typed:
  assumes "name_typed n p" and "p \<noteq> None \<or> n = 0"
  shows "\<exists>cp. strncpy_ptr (unat n) p = Inr cp \<and> name_typed n (Some cp)"
  using assms strncpy_clean [of n]
  by (cases p) (auto simp: strncpy_ptr_def name_typed_def name_clean_def name_wf_def split: if_splits)

lemma md_assign_typed:
  assumes "md_typed t" and "md_typed m"
  shows "\<exists>m'. md_assign t m = Inr m' \<and> md_typed m'"
proof -
  have t: "md_typed (md_reset t)" by (rule md_reset_typed [OF assms(1)])
  obtain "is" where i: "sa_assign_via mi_copy (md_inputs (md_reset t)) (md_inputs m) = Inr is" "sa_inv is"
      "sa_size is = sa_size (md_inputs m)" "list_all mi_typed (sa_list is)"
    using sa_assign_via_typed [where P = mi_typed and cp = mi_copy and g = mi_copied, OF _ mi_copy_typed mi_copied_typed] assms(2) t unfolding md_typed_def by blast
  obtain ss where s: "sa_assign_via sn_copy (md_sensors (md_reset t)) (md_sensors m) = Inr ss" "sa_inv ss"
      "sa_size ss = sa_size (md_sensors m)" "list_all sn_typed (sa_list ss)"
    using sa_assign_via_typed [where P = sn_typed and cp = sn_copy and g = sn_copied, OF _ sn_copy_typed sn_copied_typed] assms(2) t unfolding md_typed_def by blast
  have name: "\<exists>cp. strncpy_ptr (unat (md_name_length m)) (md_name m) = Inr cp \<and> name_typed (md_name_length m) (Some cp)"
    using assms(2) by (intro strncpy_typed) (auto simp: md_typed_def name_typed_def name_wf_def split: option.splits)
  with i s name assms(2) show ?thesis
    by (auto simp: md_assign_def Let_def md_typed_def)
qed

lemma md_received_typed: "md_typed m \<Longrightarrow> md_typed (md_received ci cs m)"
  using md_received_wf [OF md_typed_wf] name_typed_received [of "md_name_length m" "md_name m"]
  by (auto simp: md_typed_def md_received_def md_wf_def list_all_iff mi_received_typed sn_received_typed word_gt_0
      md_name_bytes_def cong: option.case_cong)

lemma md_built_typed: "md_built m \<Longrightarrow> md_typed m"
proof (induction rule: md_built.induct)
  case (md_input_added m x m')
  then show ?case using md_add_input_typed [OF _ mi_built_typed] by fastforce
next
  case (md_sensor_added m x m')
  then show ?case using md_add_sensor_typed [OF _ sn_built_typed] by fastforce
next
  case (md_assigned t m m')
  then show ?case using md_assign_typed by fastforce
next
  case (md_move_assigned m t)
  then show ?case by (simp add: md_move_assign_def sa_move_assign_def md_typed_def)
next
  case (md_decoded t m b n b' junk r m' c)
  have wf: "md_wf m" using md_decoded by (simp add: md_typed_wf)
  have inv: "sa_inv (md_inputs t)" "sa_inv (md_sensors t)" using md_decoded by (simp_all add: md_typed_def)
  have "n = length (md_encoding m)" using md_decoded wf by (simp add: md_encoded_size_law)
  then have "(r, m') = (Decode_Success, md_received (sa_capacity (md_inputs t)) (sa_capacity (md_sensors t)) m)"
    using md_decoded by (intro reads_what_was_written [OF md_encode_writes [OF wf] md_decode_consumes [OF wf inv]]) simp_all
  with md_decoded show ?case by (simp add: md_received_typed)
qed (auto simp: md_new_typed md_make_typed md_copy_typed md_copied_typed md_reset_typed md_move_def)


section \<open>Configurations\<close>

lemma cf_add_module_typed:
  assumes "cf_typed c" and "md_typed m" and "cf_num_modules c < 255"
  shows "\<exists>c'. cf_add_module m c = Inr c' \<and> cf_typed c' \<and> cf_num_modules c' = cf_num_modules c + 1 \<and>
    sa_list (cf_modules c') = sa_list (cf_modules c) @ [m\<lparr>md_id := cf_next_module_id c\<rparr>]"
proof -
  obtain xs k where xs: "cf_modules c = sa_mk xs k" "length xs \<le> k" "sa_list (cf_modules c) = xs"
    using assms(1) by (auto simp: cf_typed_def elim!: sa_invE)
  have n: "length xs = unat (cf_num_modules c)" using assms(1) xs by (simp add: cf_typed_def)
  have upd: "(xs @ [m])[length xs := ((xs @ [m]) ! length xs)\<lparr>md_id := cf_next_module_id c\<rparr>]
      = xs @ [m\<lparr>md_id := cf_next_module_id c\<rparr>]" by simp
  have fits: "length (xs @ [m]) \<le> sa_grow k (Suc (length xs))" by simp
  have "unat (cf_num_modules c) < 255" using assms(3) by (simp add: word_less_nat_alt)
  then have "unat (cf_num_modules c + 1) = unat (cf_num_modules c) + 1" by (simp add: unat_word_ariths)
  moreover have "md_typed (m\<lparr>md_id := cf_next_module_id c\<rparr>)" using assms(2) by (simp add: md_typed_def)
  ultimately show ?thesis
    using assms xs n fits upd by (simp add: cf_add_module_def cf_typed_def)
qed

lemma cf_copy_typed:
  assumes "cf_typed c"
  shows "\<exists>c'. cf_copy c = Inr c' \<and> cf_typed c' \<and> cf_eq c' c = Inr True"
proof -
  obtain xs k where xs: "cf_modules c = sa_mk xs k" "length xs \<le> k" "sa_list (cf_modules c) = xs"
    using assms by (auto simp: cf_typed_def elim!: sa_invE)
  have t: "\<forall>m \<in> set xs. md_typed m" using assms xs by (simp add: cf_typed_def list_all_iff)
  then have cp: "sa_copy_via md_copy (cf_modules c) = Inr (sa_mk (map md_copied xs) (length xs))"
    unfolding xs(1) using xs(2) by (intro sa_copy_via_mk) (simp_all add: md_copy_typed)
  have "each_equal md_eq (sa_mk (map md_copied xs) (length xs)) (sa_mk xs k) [0..<length xs] = Inr True"
    using xs t by (intro each_equal_mk) (auto intro: md_copied_eq md_typed_wf md_typed_clean)
  with assms xs cp t show ?thesis
    by (auto simp: cf_copy_def cf_typed_def cf_eq_def list_all_iff md_copied_typed)
qed

lemma cf_assign_typed:
  assumes "cf_typed t" and "cf_typed c"
  shows "\<exists>c'. cf_assign t c = Inr c' \<and> cf_typed c'"
proof -
  obtain ms where "sa_assign_via md_copy (cf_modules t) (cf_modules c) = Inr ms" "sa_inv ms"
      "sa_size ms = sa_size (cf_modules c)" "list_all md_typed (sa_list ms)"
    using sa_assign_via_typed [where P = md_typed and cp = md_copy and g = md_copied, OF _ md_copy_typed md_copied_typed] assms
    unfolding cf_typed_def by blast
  with assms show ?thesis by (simp add: cf_assign_def cf_typed_def)
qed

lemma cf_received_typed: "cf_typed c \<Longrightarrow> cf_typed (cf_received cap c)"
  by (auto simp: cf_typed_def cf_received_def list_all_iff md_received_typed)

lemma cf_built_typed: "cf_built c \<Longrightarrow> cf_typed c"
proof (induction rule: cf_built.induct)
  case (cf_made n)
  show ?case by (simp add: cf_make_def cf_typed_def sa_alloc_mk)
next
  case (cf_module_added c m c')
  then show ?case using cf_add_module_typed [OF _ md_built_typed] by fastforce
next
  case (cf_copied c c')
  then show ?case using cf_copy_typed by fastforce
next
  case (cf_assigned t c c')
  then show ?case using cf_assign_typed by fastforce
next
  case (cf_move_assigned c t)
  then show ?case by (simp add: cf_move_assign_def sa_move_assign_def cf_typed_def)
next
  case (cf_resetted c)
  then show ?case by (simp add: cf_reset_def cf_typed_def sa_clear_inv)
next
  case (cf_decoded t c b n b' junk r c' d)
  have wf: "cf_wf c" and inv: "sa_inv (cf_modules t)" using cf_decoded by (simp_all add: cf_typed_wf cf_typed_def)
  have "n = length (cf_encoding c)" using cf_decoded wf by (simp add: cf_encoded_size_law)
  then have "(r, c') = (Decode_Success, cf_received (sa_capacity (cf_modules t)) c)"
    using cf_decoded by (intro reads_what_was_written [OF cf_encode_writes [OF wf] cf_decode_consumes [OF wf inv]]) simp_all
  with cf_decoded show ?case by (simp add: cf_received_typed)
qed (auto simp: cf_move_def)

text \<open>What an excluded call does: a reset input or sensor keeps the length of the name it has lost.\<close>

lemma reset_breaks_typing:
  "mi_name_length x \<noteq> 0 \<Longrightarrow> \<not> mi_typed (mi_reset x)" "sn_name_length y \<noteq> 0 \<Longrightarrow> \<not> sn_typed (sn_reset y)"
  by (simp_all add: mi_typed_def sn_typed_def mi_reset_def sn_reset_def name_typed_def name_wf_def)

section \<open>Type safety\<close>

text \<open>
  Claim C14. Values made by the calls listed at the head of this theory do not go wrong. Take any configurations made by
  sequences of exactly these calls: construction (of sensors with the length of their name), addition of modules, inputs and
  sensors, copy, move, assignment between different objects, \<open>reset\<close> of modules and configurations, and transmission, with no
  counter driven past 255. The public \<open>reset\<close> of a single input or sensor, sensors constructed with an arbitrary name length,
  self-assignment, moved-from objects and direct writes to fields are excluded: they break well-formedness. Their counters agree with their arrays and their names are as long as they say; and
  every further operation succeeds without a fault: a copy compares equal to its original, assignment and the addition of a
  module give configurations of the same kind, and encoding fits exactly the size that is announced.
\<close>

theorem configuration_type_safe:
  assumes "cf_built c" and "cf_built t" and "md_built m" and "cf_num_modules c < 255"
  shows "cf_wf c \<and> md_wf m \<and>
    (\<exists>c'. cf_copy c = Inr c' \<and> cf_built c' \<and> cf_eq c' c = Inr True) \<and>
    (\<exists>c'. cf_assign t c = Inr c' \<and> cf_built c') \<and>
    (\<exists>c'. cf_add_module m c = Inr c' \<and> cf_built c' \<and>
      sa_list (cf_modules c') = sa_list (cf_modules c) @ [m\<lparr>md_id := cf_next_module_id c\<rparr>]) \<and>
    (\<exists>n b. cf_encoded_size c = Inr n \<and> cf_encode c (eb_new n) = Inr (Encode_Success, b) \<and> eb_offset b = n)"
proof (intro conjI)
  have c: "cf_typed c" and t: "cf_typed t" and m: "md_typed m"
    using assms by (simp_all add: cf_built_typed md_built_typed)
  show wf: "cf_wf c" and "md_wf m" using c m by (simp_all add: cf_typed_wf md_typed_wf)
  show "\<exists>c'. cf_copy c = Inr c' \<and> cf_built c' \<and> cf_eq c' c = Inr True"
    using cf_copy_typed [OF c] cf_copied [OF assms(1)] by blast
  show "\<exists>c'. cf_assign t c = Inr c' \<and> cf_built c'"
    using cf_assign_typed [OF t c] cf_assigned [OF assms(2,1)] by blast
  show "\<exists>c'. cf_add_module m c = Inr c' \<and> cf_built c' \<and>
      sa_list (cf_modules c') = sa_list (cf_modules c) @ [m\<lparr>md_id := cf_next_module_id c\<rparr>]"
    using cf_add_module_typed [OF c m assms(4)] cf_module_added [OF assms(1,3,4)] by blast
  have "cf_encode c (eb_new (length (cf_encoding c))) = Inr (Encode_Success, eb_put (cf_encoding c) (eb_new (length (cf_encoding c))))"
    by (intro mem.writesD [OF cf_encode_writes [OF wf]]) simp_all
  then show "\<exists>n b. cf_encoded_size c = Inr n \<and> cf_encode c (eb_new n) = Inr (Encode_Success, b) \<and> eb_offset b = n"
    using cf_encoded_size_law [OF wf] by auto
qed

definition md_example_built :: module where
  "md_example_built = md_new\<lparr>md_name_length := 3, md_name := Some [97, 114, 109, 0], md_num_inputs := 1, md_next_input_id := 1,
     md_inputs := sa_mk [\<lparr>mi_input_id = 0, mi_name_length = 2, mi_data_type = dd_example, mi_name = Some [104, 105, 0],
       mi_owns_name = False\<rparr>] 2, md_sensors := sa_mk [] 0\<rparr>"

lemma md_example_is_built: "md_built md_example_built"
proof -
  let ?x = "\<lparr>mi_input_id = 9, mi_name_length = 2, mi_data_type = dd_example, mi_name = Some [104, 105, 0], mi_owns_name = False\<rparr>"
  let ?m = "md_new\<lparr>md_name_length := 3, md_name := Some [97, 114, 109, 0], md_inputs := sa_mk [] 2, md_sensors := sa_mk [] 0\<rparr>"
  have "mi_make (Some [104, 105, 0]) 9 dd_example False = Inr ?x" by (simp add: mi_make_def name_strlen_def c_strlen_def)
  then have x: "mi_built ?x" by (rule mi_made) (simp add: dd_example_def dd_new_def dd_wf_def)
  have "md_make (Some [97, 114, 109, 0]) 2 0 = Inr ?m"
    by (simp add: md_make_def name_strlen_def c_strlen_def sa_alloc_mk)
  then have m: "md_built ?m" by (rule md_made)
  have "md_add_input ?x ?m = Inr md_example_built"
    by (simp add: md_add_input_def Let_def md_example_built_def sa_grow_def) (simp add: md_new_def)
  then show ?thesis by (rule md_input_added [OF m x, rotated]) simp
qed

theorem configuration_type_safe_witness:
  "\<exists>c. cf_built c \<and> cf_wf c \<and> md_wf md_example_built \<and>
    (\<exists>c'. cf_copy c = Inr c' \<and> cf_built c' \<and> cf_eq c' c = Inr True) \<and>
    (\<exists>c'. cf_assign (cf_make 3) c = Inr c' \<and> cf_built c') \<and>
    (\<exists>c'. cf_add_module md_example_built c = Inr c' \<and> cf_built c' \<and>
      sa_list (cf_modules c') = sa_list (cf_modules c) @ [md_example_built\<lparr>md_id := cf_next_module_id c\<rparr>]) \<and>
    (\<exists>n b. cf_encoded_size c = Inr n \<and> cf_encode c (eb_new n) = Inr (Encode_Success, b) \<and> eb_offset b = n)"
proof -
  let ?c = "\<lparr>cf_num_modules = 1, cf_modules = sa_mk [md_example_built\<lparr>md_id := 0\<rparr>] 2, cf_next_module_id = 1\<rparr>"
  have "cf_add_module md_example_built (cf_make 2) = Inr ?c"
    by (simp add: cf_add_module_def cf_make_def sa_alloc_mk sa_grow_def)
  then have "cf_built ?c"
    by (intro cf_module_added [OF cf_made [of 2] md_example_is_built]) (simp_all add: cf_make_def)
  then show ?thesis
    using configuration_type_safe [OF _ cf_made md_example_is_built, of ?c 3] by (intro exI [of _ ?c]) simp
qed

end
