(* ===== verification/TypedDeclaration.thy ===== *)
theory TypedDeclaration
  imports DataDeclaration
begin

text \<open>
  The rest of \<^verbatim>\<open>include/crisp/comms/DataDeclarationBase.hh\<close>: the copy and move constructors of the generic declaration,
  its typed views of the values, the setters of the floating-point declarations, and the encoding of typed
  declarations, which goes through the conversion to a generic one. Property: what a program declares for an integer type
  is what the receiver reads.
\<close>

section \<open>Copies and views of a generic declaration\<close>

text \<open>Both constructors copy the flags one by one, and the three value arrays, which lie one after the other, in one go.\<close>

definition dd_copy :: "data_decl \<Rightarrow> data_decl" where
  "dd_copy obj =
     (let raw = take 48 (dd_neutral obj @ dd_minimum obj @ dd_maximum obj) in
      \<lparr>dd_type = dd_type obj, dd_width = dd_width obj, dd_is_array = dd_is_array obj, dd_is_signed = dd_is_signed obj,
       dd_has_neutral = dd_has_neutral obj, dd_has_minimum = dd_has_minimum obj, dd_has_maximum = dd_has_maximum obj,
       dd_array_size_width = dd_array_size_width obj,
       dd_neutral = take 16 raw, dd_minimum = take 16 (drop 16 raw), dd_maximum = drop 32 raw\<rparr>)"

definition dd_move :: "data_decl \<Rightarrow> data_decl \<times> data_decl" where
  "dd_move obj = (dd_copy obj, obj)"

text \<open>
  \<open>neutral<U>()\<close> and the like reinterpret the start of an array as a \<open>U\<close> of \<open>n\<close> bytes; the mutable versions are also
  assigned through.
\<close>

definition dd_view :: "nat \<Rightarrow> byte list \<Rightarrow> fault + byte list" where
  "dd_view n fld = (if n \<le> length fld then Inr (take n fld) else Inl Out_of_bounds)"

definition dd_neutral_view :: "nat \<Rightarrow> data_decl \<Rightarrow> fault + byte list" where
  "dd_neutral_view n d = dd_view n (dd_neutral d)"

definition dd_minimum_view :: "nat \<Rightarrow> data_decl \<Rightarrow> fault + byte list" where
  "dd_minimum_view n d = dd_view n (dd_minimum d)"

definition dd_maximum_view :: "nat \<Rightarrow> data_decl \<Rightarrow> fault + byte list" where
  "dd_maximum_view n d = dd_view n (dd_maximum d)"

definition dd_store :: "byte list \<Rightarrow> byte list \<Rightarrow> fault + byte list" where
  "dd_store v fld = (if length v \<le> length fld then Inr (overlay 0 v fld) else Inl Out_of_bounds)"

definition dd_neutral_store :: "byte list \<Rightarrow> data_decl \<Rightarrow> fault + data_decl" where
  "dd_neutral_store v d = bindE (dd_store v (dd_neutral d)) (\<lambda>x. Inr (d\<lparr>dd_neutral := x\<rparr>))"

definition dd_minimum_store :: "byte list \<Rightarrow> data_decl \<Rightarrow> fault + data_decl" where
  "dd_minimum_store v d = bindE (dd_store v (dd_minimum d)) (\<lambda>x. Inr (d\<lparr>dd_minimum := x\<rparr>))"

definition dd_maximum_store :: "byte list \<Rightarrow> data_decl \<Rightarrow> fault + data_decl" where
  "dd_maximum_store v d = bindE (dd_store v (dd_maximum d)) (\<lambda>x. Inr (d\<lparr>dd_maximum := x\<rparr>))"

section \<open>Typed declarations\<close>

definition id_tail_size :: "int_decl \<Rightarrow> nat" where
  "id_tail_size d = unat (id_width d) * (of_bool (id_has_neutral d) + of_bool (id_has_minimum d) + of_bool (id_has_maximum d))"

definition id_encoded_size :: "int_decl \<Rightarrow> nat" where
  "id_encoded_size d = dd_HeaderSize + id_tail_size d"

text \<open>\<open>encode_tail\<close> on the typed object itself: a value is \<open>sizeof(T)\<close> bytes, and a larger width reads past it.\<close>

definition id_emit_value ::
    "(byte list \<Rightarrow> ('s, encode_result) sfm) \<Rightarrow> int_decl \<Rightarrow> bool \<Rightarrow> int \<Rightarrow> ('s, encode_result) sfm" where
  "id_emit_value emit d present v =
     (if present
      then bindF (liftF (dd_view (unat (id_width d)) (int_bytes (id_type d) v))) emit
      else retF Encode_Success)"

definition id_encode_tail :: "(byte list \<Rightarrow> ('s, encode_result) sfm) \<Rightarrow> int_decl \<Rightarrow> ('s, encode_result) sfm" where
  "id_encode_tail emit d =
     checkedF (id_emit_value emit d (id_has_neutral d) (id_neutral d))
       (checkedF (id_emit_value emit d (id_has_minimum d) (id_minimum d))
         (id_emit_value emit d (id_has_maximum d) (id_maximum d)))"

text \<open>\<open>encode\<close> converts to a generic declaration first.\<close>

definition id_encode :: "(byte list \<Rightarrow> ('s, encode_result) sfm) \<Rightarrow> int_decl \<Rightarrow> ('s, encode_result) sfm" where
  "id_encode emit d = dd_encode emit (int_decl_generic d)"

text \<open>Floating-point declarations: the default constructor, whose width is zero, the setters and \<open>operator ==\<close>.\<close>

definition float_decl_default :: "byte list \<Rightarrow> float_decl" where
  "float_decl_default quiet_nan = \<lparr>fd_width = 0, fd_is_array = False, fd_has_neutral = False, fd_has_minimum = False,
     fd_has_maximum = False, fd_neutral = quiet_nan, fd_minimum = quiet_nan, fd_maximum = quiet_nan\<rparr>"

definition fd_set_neutral :: "byte list \<Rightarrow> float_decl \<Rightarrow> float_decl" where
  "fd_set_neutral n d = d\<lparr>fd_has_neutral := True, fd_neutral := n\<rparr>"

definition fd_set_minimum :: "byte list \<Rightarrow> float_decl \<Rightarrow> float_decl" where
  "fd_set_minimum n d = d\<lparr>fd_has_minimum := True, fd_minimum := n\<rparr>"

definition fd_set_maximum :: "byte list \<Rightarrow> float_decl \<Rightarrow> float_decl" where
  "fd_set_maximum n d = d\<lparr>fd_has_maximum := True, fd_maximum := n\<rparr>"

definition float_decl_eq :: "float_decl \<Rightarrow> data_decl \<Rightarrow> bool" where
  "float_decl_eq d other \<longleftrightarrow>
     dd_type other = data_type_code FLOAT \<and> unat (dd_width other) = unat (fd_width d) \<and> dd_is_signed other \<and>
     dd_has_neutral other = fd_has_neutral d \<and> (\<not> fd_has_neutral d \<or> dd_neutral other = dd_neutral other) \<and>
     dd_has_minimum other = fd_has_minimum d \<and> (\<not> fd_has_minimum d \<or> dd_minimum other = dd_minimum other) \<and>
     dd_has_maximum other = fd_has_maximum d \<and> (\<not> fd_has_maximum d \<or> dd_maximum other = dd_maximum other)"

section \<open>Copies are faithful\<close>

lemma dd_copy_id: "dd_wf d \<Longrightarrow> dd_copy d = d"
  by (simp add: dd_copy_def dd_wf_def Let_def)

section \<open>Typed values on the wire\<close>

text \<open>Reading an object representation as a \<open>T\<close>.\<close>

definition int_of_bytes :: "int_type \<Rightarrow> byte list \<Rightarrow> int" where
  "int_of_bytes t bs =
     (let v = int (le_val bs) in if it_signed t \<and> 2 ^ (8 * it_size t - 1) \<le> v then v - 2 ^ (8 * it_size t) else v)"

definition int_min :: "int_type \<Rightarrow> int" where
  "int_min t = (if it_signed t then - (2 ^ (8 * it_size t - 1)) else 0)"

text \<open>A type of one to sixteen bytes, and a value of the type.\<close>

definition it_ok :: "int_type \<Rightarrow> bool" where
  "it_ok t \<longleftrightarrow> 0 < it_size t \<and> it_size t \<le> 16"

definition in_type :: "int_type \<Rightarrow> int \<Rightarrow> bool" where
  "in_type t v \<longleftrightarrow> int_min t \<le> v \<and> v \<le> int_max t"

lemma length_int_bytes [simp]: "length (int_bytes t v) = it_size t"
  by (simp add: int_bytes_def)

lemma double_half: "0 < n \<Longrightarrow> (2::int) ^ (8 * n) = 2 * 2 ^ (8 * n - 1)"
  by (simp add: power_Suc [symmetric] del: power_Suc)

lemma int_bytes_back:
  assumes "it_ok t" and "in_type t v"
  shows "int_of_bytes t (int_bytes t v) = v"
proof -
  let ?m = "2 ^ (8 * it_size t) :: int"
  have half: "?m = 2 * 2 ^ (8 * it_size t - 1)" using assms(1) by (simp add: it_ok_def double_half)
  have "nat (v mod ?m) < 256 ^ it_size t"
    by (simp add: nat_less_iff power_mult)
  then have val: "int (le_val (int_bytes t v)) = v mod ?m"
    by (simp add: int_bytes_def le_val_le_bytes)
  show ?thesis
  proof (cases "0 \<le> v")
    case True
    moreover have "0 < (2::int) ^ (8 * it_size t - 1)" by simp
    then have "int_max t < ?m"
      unfolding int_max_def using half by (cases "it_signed t"; simp only: if_True if_False; linarith)
    then have "v < ?m" using assms(2) by (simp add: in_type_def)
    ultimately have "v mod ?m = v" by simp
    with val assms(2) show ?thesis by (auto simp: int_of_bytes_def Let_def in_type_def int_max_def split: if_splits)
  next
    case False
    then have s: "it_signed t" "- (2 ^ (8 * it_size t - 1)) \<le> v"
      using assms(2) by (auto simp: in_type_def int_min_def split: if_splits)
    have r: "0 \<le> v + ?m" "v + ?m < ?m" "2 ^ (8 * it_size t - 1) \<le> v + ?m"
      using s(2) False half zero_less_power [of "2 :: int" "8 * it_size t - 1"] by linarith+
    have "v mod ?m = (v + ?m) mod ?m" by simp
    also have "\<dots> = v + ?m" using r(1,2) by (rule mod_pos_pos_trivial)
    finally show ?thesis using val s(1) r(3) by (simp add: int_of_bytes_def Let_def)
  qed
qed

text \<open>The generic counterpart of a declaration at its natural width.\<close>

definition id_wf :: "int_decl \<Rightarrow> bool" where
  "id_wf d \<longleftrightarrow> it_ok (id_type d) \<and> id_width d = of_nat (it_size (id_type d))"

lemma id_wf_width:
  assumes "id_wf d"
  shows "unat (id_width d) = it_size (id_type d)" and "unat (dd_width (int_decl_generic d)) = it_size (id_type d)"
proof -
  have n: "it_size (id_type d) \<le> 16" using assms by (simp add: id_wf_def it_ok_def)
  then show w: "unat (id_width d) = it_size (id_type d)"
    using assms by (simp add: id_wf_def unat_of_nat)
  have "unat (dd_width (int_decl_generic d)) = unat (id_width d) mod 2 ^ 5"
    by (simp add: int_decl_generic_def unsigned_ucast_eq take_bit_eq_mod)
  with w n show "unat (dd_width (int_decl_generic d)) = it_size (id_type d)" by simp
qed

lemma id_args_wf: "it_ok t \<Longrightarrow> id_wf (int_decl_args t neutral minimum maximum None arr)"
  by (simp add: id_wf_def int_decl_args_def Let_def arg_or_def)

lemma id_generic_wf: "id_wf d \<Longrightarrow> dd_wf (int_decl_generic d)"
  using id_wf_width [of d] by (simp add: dd_wf_def id_wf_def it_ok_def) (simp add: int_decl_generic_def dd_new_def)

lemma id_generic_sizes: "id_wf d \<Longrightarrow> dd_encoded_size (int_decl_generic d) = id_encoded_size d"
  using id_wf_width [of d]
  by (simp add: dd_encoded_size_def dd_tail_size_def id_encoded_size_def id_tail_size_def) (simp add: int_decl_generic_def)

text \<open>The typed tail is the generic one.\<close>

lemma id_encode_tail_generic:
  assumes "id_wf d"
  shows "id_encode_tail emit d = dd_encode_tail emit (int_decl_generic d)"
proof -
  have "id_emit_value emit d p v =
      dd_emit_field emit (int_decl_generic d) p (if p then overlay 0 (int_bytes (id_type d) v) (replicate 16 0) else replicate 16 0)" for p v
    using id_wf_width [OF assms]
    by (simp add: id_emit_value_def dd_emit_field_def dd_view_def dd_field_def overlay_def)
  then show ?thesis
    by (simp add: id_encode_tail_def dd_encode_tail_def) (simp add: int_decl_generic_def)
qed

text \<open>A declared value, where the largest of the type stands for none, and a received one.\<close>

definition declared :: "int_type \<Rightarrow> int option \<Rightarrow> int option" where
  "declared t x = (case x of None \<Rightarrow> None | Some v \<Rightarrow> if v = int_max t then None else Some v)"

definition received_value :: "int_type \<Rightarrow> bool \<Rightarrow> fault + byte list \<Rightarrow> int option" where
  "received_value t present r =
     (if present then (case r of Inl _ \<Rightarrow> None | Inr bs \<Rightarrow> Some (int_of_bytes t bs)) else None)"

definition fits_type :: "int_type \<Rightarrow> int option \<Rightarrow> bool" where
  "fits_type t x \<longleftrightarrow> (case x of None \<Rightarrow> True | Some v \<Rightarrow> in_type t v)"

lemma received_declared:
  assumes "it_ok t" and "fits_type t x" and "p \<longleftrightarrow> arg_or x (int_max t) \<noteq> int_max t"
    and "p \<Longrightarrow> take (it_size t) fld = int_bytes t (arg_or x (int_max t)) \<and> it_size t \<le> length fld"
  shows "received_value t p (dd_view (it_size t) fld) = declared t x"
  using assms int_bytes_back [OF assms(1)]
  by (auto simp: received_value_def declared_def fits_type_def arg_or_def dd_view_def split: option.splits)

lemma received_part:
  assumes "id_wf d"
  shows "take (it_size (id_type d)) (overlay 0 (dd_part (int_decl_generic d) True
    (overlay 0 (int_bytes (id_type d) v) (replicate 16 0))) (replicate 16 0)) = int_bytes (id_type d) v"
  using id_wf_width [OF assms] by (simp add: dd_part_def overlay_def)

section \<open>Properties\<close>

text \<open>
  Claim C21. What a program declares is what the other end reads. A declaration made with named arguments for an integer
  type of at most sixteen bytes takes exactly its announced size on the wire; decoded as a generic one it has the flags and
  the type declared, and viewed as the same integer type its neutral, minimum and maximum values are the ones given, signed or
  not, except that one equal to the largest of the type is absent.
\<close>

theorem typed_declaration_roundtrip:
  assumes "it_ok t" and "fits_type t neutral" and "fits_type t minimum" and "fits_type t maximum"
    and "d = int_decl_args t neutral minimum maximum None arr" and "eb_ok b" and "eb_room b (id_encoded_size d)"
  shows "\<exists>b' c g. id_encode eb_write d b = Inr (Encode_Success, b') \<and> eb_offset b' = eb_offset b + id_encoded_size d \<and>
    dd_detail_decode (db_of (eb_data b') (eb_offset b)) = Inr ((Decode_Success, g), c) \<and> db_offset c = eb_offset b' \<and>
    int_decl_eq d g \<and> dd_is_array g = arg_or arr False \<and>
    received_value t (dd_has_neutral g) (dd_neutral_view (it_size t) g) = declared t neutral \<and>
    received_value t (dd_has_minimum g) (dd_minimum_view (it_size t) g) = declared t minimum \<and>
    received_value t (dd_has_maximum g) (dd_maximum_view (it_size t) g) = declared t maximum"
proof -
  let ?g = "dd_received (int_decl_generic d)"
  have t: "id_type d = t" using assms(5) by (simp add: int_decl_args_def Let_def)
  have wf: "id_wf d" using id_args_wf assms(1,5) by simp
  note gw = id_generic_wf [OF wf] and part = received_part [OF wf, unfolded t]
  have len: "length (dd_header (int_decl_generic d) @ dd_tail (int_decl_generic d)) = id_encoded_size d"
    by (simp add: length_dd_encoding [OF gw] id_generic_sizes [OF wf] del: length_append)
  have size: "it_size t \<le> 16" using assms(1) by (simp add: it_ok_def)
  have "dd_wf ?g" by (rule dd_received_wf [OF gw])
  then have "it_size t \<le> length (dd_neutral ?g)" "it_size t \<le> length (dd_minimum ?g)" "it_size t \<le> length (dd_maximum ?g)"
    using size by (simp_all add: dd_wf_def)
  moreover have "dd_has_neutral ?g \<longleftrightarrow> arg_or neutral (int_max t) \<noteq> int_max t" "dd_has_minimum ?g \<longleftrightarrow> arg_or minimum (int_max t) \<noteq> int_max t"
      "dd_has_maximum ?g \<longleftrightarrow> arg_or maximum (int_max t) \<noteq> int_max t"
    by (simp_all add: dd_received_def int_decl_generic_def assms(5) int_decl_args_def Let_def)
  moreover have "dd_has_neutral ?g \<Longrightarrow> take (it_size t) (dd_neutral ?g) = int_bytes t (arg_or neutral (int_max t))"
      "dd_has_minimum ?g \<Longrightarrow> take (it_size t) (dd_minimum ?g) = int_bytes t (arg_or minimum (int_max t))"
      "dd_has_maximum ?g \<Longrightarrow> take (it_size t) (dd_maximum ?g) = int_bytes t (arg_or maximum (int_max t))"
    using part [of "id_neutral d"] part [of "id_minimum d"] part [of "id_maximum d"]
    by (simp_all add: dd_received_def) (simp_all add: int_decl_generic_def assms(5) int_decl_args_def Let_def)
  ultimately have vals: "received_value t (dd_has_neutral ?g) (dd_neutral_view (it_size t) ?g) = declared t neutral"
      "received_value t (dd_has_minimum ?g) (dd_minimum_view (it_size t) ?g) = declared t minimum"
      "received_value t (dd_has_maximum ?g) (dd_maximum_view (it_size t) ?g) = declared t maximum"
    unfolding dd_neutral_view_def dd_minimum_view_def dd_maximum_view_def
    using assms(1-4) by (simp_all add: received_declared)
  have "dd_is_array ?g = arg_or arr False"
    by simp (simp add: int_decl_generic_def assms(5) int_decl_args_def Let_def)
  moreover have "int_decl_eq d ?g"
    using id_wf_width [OF wf] by (simp add: int_decl_eq_def) (simp add: dd_received_def int_decl_generic_def)
  ultimately show ?thesis
    using write_then_read [OF dd_encode_writes [OF gw] dd_detail_decode_consumes [OF gw] assms(6)] assms(7) vals
    unfolding len id_encode_def by blast
qed

theorem typed_declaration_roundtrip_witness:
  "\<exists>d b' c g. d = int_decl_args \<lparr>it_size = 2, it_signed = True\<rparr> (Some 0) (Some (- 300)) (Some 32767) None (Some False) \<and>
    id_encode eb_write d (eb_new 20) = Inr (Encode_Success, b') \<and> eb_offset b' = id_encoded_size d \<and>
    dd_detail_decode (db_of (eb_data b') 0) = Inr ((Decode_Success, g), c) \<and> db_offset c = eb_offset b' \<and>
    int_decl_eq d g \<and> \<not> dd_is_array g \<and>
    received_value \<lparr>it_size = 2, it_signed = True\<rparr> (dd_has_neutral g) (dd_neutral_view 2 g) = Some 0 \<and>
    received_value \<lparr>it_size = 2, it_signed = True\<rparr> (dd_has_minimum g) (dd_minimum_view 2 g) = Some (- 300) \<and>
    received_value \<lparr>it_size = 2, it_signed = True\<rparr> (dd_has_maximum g) (dd_maximum_view 2 g) = None"
proof -
  let ?t = "\<lparr>it_size = 2, it_signed = True\<rparr>"
  let ?d = "int_decl_args ?t (Some 0) (Some (- 300)) (Some 32767) None (Some False)"
  have fits: "it_ok ?t" "fits_type ?t (Some 0)" "fits_type ?t (Some (- 300))" "fits_type ?t (Some 32767)"
    by (simp_all add: it_ok_def fits_type_def in_type_def int_min_def int_max_def)
  have room: "eb_room (eb_new 20) (id_encoded_size ?d)"
    by (simp add: id_encoded_size_def id_tail_size_def dd_HeaderSize_def int_decl_args_def arg_or_def int_max_def)
  show ?thesis
    using typed_declaration_roundtrip [OF fits refl eb_new_ok room]
    by (intro exI [of _ ?d]) (simp add: declared_def int_max_def arg_or_def)
qed

text \<open>A floating-point declaration with a minimum loses it: the conversion copies the neutral value in its place.\<close>

lemma float_minimum_lost:
  assumes "fd_has_minimum d" and "length (fd_neutral d) = n" and "n \<le> 16"
  shows "dd_minimum_view n (float_decl_generic (fd_set_minimum v d)) = Inr (fd_neutral d)"
  using assms by (simp add: dd_minimum_view_def dd_view_def float_decl_generic_def fd_set_minimum_def overlay_def)

end
