(* ===== verification/Arith.thy ===== *)
theory Arith
  imports TypedDeclaration
begin

text \<open>
  Absolute values: \<^verbatim>\<open>include/crisp/util/arith.hh\<close>, for an integer type of the target machine (\<open>int\<close> has four bytes). Operands
  of narrower types are promoted to \<open>int\<close> before they are negated; an unsigned negation wraps, a signed one that leaves its
  type is undefined.
\<close>

section \<open>The code\<close>

text \<open>\<open>static_cast\<close> to the type, and negation of a value of the type, before the result is converted.\<close>

definition to_type :: "int_type \<Rightarrow> int \<Rightarrow> int" where
  "to_type t v =
     (let r = v mod 2 ^ (8 * it_size t) in if it_signed t \<and> 2 ^ (8 * it_size t - 1) \<le> r then r - 2 ^ (8 * it_size t) else r)"

definition make_signed :: "int_type \<Rightarrow> int_type" where
  "make_signed t = t\<lparr>it_signed := True\<rparr>"

definition make_unsigned :: "int_type \<Rightarrow> int_type" where
  "make_unsigned t = t\<lparr>it_signed := False\<rparr>"

definition negate :: "int_type \<Rightarrow> int \<Rightarrow> fault + int" where
  "negate t v =
     (if it_size t < 4 then Inr (- v)
      else if \<not> it_signed t then Inr (to_type t (- v))
      else if v = int_min t then Inl Arith_ub else Inr (- v))"

definition n_abs_signed :: "int_type \<Rightarrow> int \<Rightarrow> fault + int" where
  "n_abs_signed t v = bindE (if v < 0 then Inr v else negate t v) (\<lambda>x. Inr (to_type (make_signed t) x))"

definition n_abs_unsigned :: "int_type \<Rightarrow> int \<Rightarrow> fault + int" where
  "n_abs_unsigned t v =
     bindE (negate (make_signed t) (to_type (make_signed t) v)) (\<lambda>x. Inr (to_type (make_signed t) x))"

definition p_abs_unsigned :: "int_type \<Rightarrow> int \<Rightarrow> int" where
  "p_abs_unsigned t v = to_type (make_unsigned t) v"

definition p_abs_signed :: "int_type \<Rightarrow> int \<Rightarrow> fault + int" where
  "p_abs_signed t v = bindE (if v < 0 then negate t v else Inr v) (\<lambda>x. Inr (to_type (make_unsigned t) x))"

definition p_sabs :: "int_type \<Rightarrow> int \<Rightarrow> fault + int" where
  "p_sabs t v =
     bindE (if to_type (make_signed t) v < 0 then negate t v else Inr v) (\<lambda>x. Inr (to_type (make_signed t) x))"

section \<open>What the functions compute\<close>

lemma make_simps [simp]:
  "it_size (make_signed t) = it_size t" "it_size (make_unsigned t) = it_size t"
  "it_signed (make_signed t)" "\<not> it_signed (make_unsigned t)"
  by (simp_all add: make_signed_def make_unsigned_def)

text \<open>A conversion is the identity on values of the type.\<close>

lemma to_type_id:
  assumes "it_ok t" and "in_type t v"
  shows "to_type t v = v"
proof -
  have "to_type t v = int_of_bytes t (int_bytes t v)"
    by (simp add: to_type_def int_of_bytes_def int_bytes_def le_val_le_bytes nat_mod_distrib zmod_int power_mult Let_def)
  then show ?thesis using int_bytes_back [OF assms] by simp
qed

lemma it_ok_make [simp]: "it_ok (make_signed t) = it_ok t" "it_ok (make_unsigned t) = it_ok t"
  by (simp_all add: it_ok_def)

lemma signed_limits:
  assumes "it_ok t" and "it_signed t"
  shows "int_min t = - (2 ^ (8 * it_size t - 1))" and "int_max t = 2 ^ (8 * it_size t - 1) - 1"
  using assms by (simp_all add: int_min_def int_max_def)

lemma unsigned_limits:
  assumes "it_ok t" and "\<not> it_signed t"
  shows "int_min t = 0" and "int_max t = 2 * 2 ^ (8 * it_size t - 1) - 1"
  using assms double_half [of "it_size t"] by (simp_all add: int_min_def int_max_def it_ok_def)

text \<open>The negative absolute value of a signed number always exists; that of an unsigned one only up to half of the range.\<close>

lemma n_abs_signed_law:
  assumes "it_ok t" and "it_signed t" and "in_type t v"
  shows "n_abs_signed t v = Inr (- \<bar>v\<bar>)"
proof -
  have m: "make_signed t = t" using assms(2) by (simp add: make_signed_def)
  note lim = signed_limits [OF assms(1,2)]
  have "in_type t (- \<bar>v\<bar>)" using assms(3) unfolding in_type_def lim by linarith
  then have id: "to_type t (- \<bar>v\<bar>) = - \<bar>v\<bar>" by (rule to_type_id [OF assms(1)])
  show ?thesis
  proof (cases "v < 0")
    case True
    with id show ?thesis by (simp add: n_abs_signed_def m)
  next
    case False
    have "int_min t < 0" unfolding lim by simp
    with False have "v \<noteq> int_min t" by linarith
    with False id assms(2) show ?thesis by (simp add: n_abs_signed_def negate_def m)
  qed
qed

lemma p_abs_signed_law:
  assumes "it_ok t" and "it_signed t" and "in_type t v" and "it_size t < 4 \<or> v \<noteq> int_min t"
  shows "p_abs_signed t v = Inr \<bar>v\<bar>"
proof -
  have u: "it_ok (make_unsigned t)" "\<not> it_signed (make_unsigned t)" using assms(1) by simp_all
  note lim = signed_limits [OF assms(1,2)] and ulim = unsigned_limits [OF u]
  have "in_type (make_unsigned t) \<bar>v\<bar>" using assms(3) unfolding in_type_def lim ulim make_simps by linarith
  then have "to_type (make_unsigned t) \<bar>v\<bar> = \<bar>v\<bar>" by (rule to_type_id [OF u(1)])
  then show ?thesis
    using assms(2,4) by (cases "v < 0") (auto simp: p_abs_signed_def negate_def)
qed

lemma p_abs_signed_min:
  assumes "it_ok t" and "it_signed t" and "4 \<le> it_size t"
  shows "p_abs_signed t (int_min t) = Inl Arith_ub"
  using assms by (simp add: p_abs_signed_def negate_def) (simp add: int_min_def)

lemma p_abs_unsigned_law: "it_ok t \<Longrightarrow> \<not> it_signed t \<Longrightarrow> in_type t v \<Longrightarrow> p_abs_unsigned t v = v"
  using to_type_id [of t v] by (cases t) (simp add: p_abs_unsigned_def make_unsigned_def)

text \<open>For larger unsigned numbers the cast makes the number negative and its negation positive.\<close>

lemma n_abs_unsigned_positive: "n_abs_unsigned \<lparr>it_size = 1, it_signed = False\<rparr> 200 = Inr 56"
  by (simp add: n_abs_unsigned_def negate_def to_type_def Let_def)

lemma n_abs_unsigned_law:
  assumes "it_ok t" and "\<not> it_signed t" and "0 \<le> v" and "v < 2 ^ (8 * it_size t - 1)"
  shows "n_abs_unsigned t v = Inr (- v)"
proof -
  have s: "it_ok (make_signed t)" "it_signed (make_signed t)" using assms(1) by simp_all
  note lim = signed_limits [OF s]
  have "in_type (make_signed t) v" "in_type (make_signed t) (- v)"
    using assms(3,4) unfolding in_type_def lim make_simps by linarith+
  then have id: "to_type (make_signed t) v = v" "to_type (make_signed t) (- v) = - v" by (simp_all add: to_type_id [OF s(1)])
  have "int_min (make_signed t) < 0" unfolding lim by simp
  with assms(3) have "v \<noteq> int_min (make_signed t)" by linarith
  with id show ?thesis by (simp add: n_abs_unsigned_def negate_def)
qed

end
