(* ===== verification/Timing.thy ===== *)
theory Timing
  imports Prelude
begin

text \<open>
  Time marks for benchmarks: the macros of \<^verbatim>\<open>include/crisp/util/timeutil.h\<close>. Two time stamps are kept, of which the pointers
  \<open>next_te\<close> and \<open>prev_te\<close> name one each. What a call of \<open>ntp_gettime\<close> returns, leaves in \<open>errno\<close> and stores is a reading; the lines
  printed are reports; \<open>long\<close> has 64 bits.
\<close>

section \<open>The code\<close>

record timeval =
  tv_sec :: int
  tv_usec :: int

datatype te_pointer = TE_A | TE_B

record timeutil_data =
  te_a :: timeval
  te_b :: timeval
  next_te :: te_pointer
  prev_te :: te_pointer
  lhnl :: bool

definition TIMEUTIL_ONE_MILLION :: int where
  "TIMEUTIL_ONE_MILLION = 1000000"

definition i64 :: "int \<Rightarrow> fault + int" where
  "i64 x = (if - (2 ^ 63) \<le> x \<and> x < 2 ^ 63 then Inr x else Inl Arith_ub)"

definition timeutil_elapsed :: "timeval \<Rightarrow> timeval \<Rightarrow> fault + int" where
  "timeutil_elapsed t1 t2 =
     bindE (i64 (tv_sec t2 - tv_sec t1)) (\<lambda>s.
     bindE (i64 (TIMEUTIL_ONE_MILLION * s)) (\<lambda>m.
     bindE (i64 (tv_usec t2 - tv_usec t1)) (\<lambda>u. i64 (m + u))))"

definition timeutil_init :: timeutil_data where
  "timeutil_init = \<lparr>te_a = \<lparr>tv_sec = 0, tv_usec = 0\<rparr>, te_b = \<lparr>tv_sec = 0, tv_usec = 0\<rparr>, next_te = TE_A, prev_te = TE_B, lhnl = False\<rparr>"

definition te_get :: "te_pointer \<Rightarrow> timeutil_data \<Rightarrow> timeval" where
  "te_get p d = (case p of TE_A \<Rightarrow> te_a d | TE_B \<Rightarrow> te_b d)"

definition te_set :: "te_pointer \<Rightarrow> timeval \<Rightarrow> timeutil_data \<Rightarrow> timeutil_data" where
  "te_set p t d = (case p of TE_A \<Rightarrow> d\<lparr>te_a := t\<rparr> | TE_B \<Rightarrow> d\<lparr>te_b := t\<rparr>)"

definition time_elapsed_value :: "timeutil_data \<Rightarrow> fault + int" where
  "time_elapsed_value d = timeutil_elapsed (te_get (prev_te d) d) (te_get (next_te d) d)"

text \<open>A clock reading; the program is aborted only when a positive return value is also in \<open>errno\<close>.\<close>

record reading =
  rd_returned :: int
  rd_errno :: int
  rd_time :: timeval

definition update_time_value :: "reading \<Rightarrow> timeutil_data \<Rightarrow> fault + timeutil_data" where
  "update_time_value r d =
     (if rd_returned r > 0 \<and> rd_returned r = rd_errno r then Inl (Thrown ''abort'')
      else Inr (te_set (next_te d) (rd_time r) d))"

definition update_last_time_value :: "timeutil_data \<Rightarrow> timeutil_data" where
  "update_last_time_value d = d\<lparr>next_te := prev_te d, prev_te := next_te d\<rparr>"

text \<open>What is printed: the label, the elapsed microseconds, and whether their unit is in the singular.\<close>

datatype report =
    R_mark "string option" "(int \<times> bool) option"
  | R_begin string
  | R_begin_nl string
  | R_end bool string int bool

definition is_singular :: "int \<Rightarrow> bool" where
  "is_singular v \<longleftrightarrow> v = 1"

definition mark_label :: "string option \<Rightarrow> reading \<Rightarrow> reading \<Rightarrow> timeutil_data \<Rightarrow> fault + report \<times> timeutil_data" where
  "mark_label s r1 r2 d =
     bindE (update_time_value r1 (d\<lparr>lhnl := True\<rparr>)) (\<lambda>d1.
     bindE (if tv_sec (te_get (prev_te d1) d1) \<noteq> 0
            then bindE (time_elapsed_value d1) (\<lambda>v. Inr (R_mark s (Some (v, is_singular v))))
            else Inr (R_mark s None)) (\<lambda>out.
     bindE (update_time_value r2 d1) (\<lambda>d2. Inr (out, update_last_time_value d2))))"

definition time_begin :: "string \<Rightarrow> reading \<Rightarrow> timeutil_data \<Rightarrow> fault + report \<times> timeutil_data" where
  "time_begin label r d =
     bindE (update_time_value r (d\<lparr>lhnl := False\<rparr>)) (\<lambda>d1. Inr (R_begin label, update_last_time_value d1))"

definition time_begin_nl :: "string \<Rightarrow> reading \<Rightarrow> timeutil_data \<Rightarrow> fault + report \<times> timeutil_data" where
  "time_begin_nl label r d =
     bindE (update_time_value r (d\<lparr>lhnl := True\<rparr>)) (\<lambda>d1. Inr (R_begin_nl label, update_last_time_value d1))"

definition end_label :: "string option \<Rightarrow> reading \<Rightarrow> timeutil_data \<Rightarrow> fault + report \<times> timeutil_data" where
  "end_label s r d =
     bindE (update_time_value r d) (\<lambda>d1.
     bindE (time_elapsed_value d1) (\<lambda>v.
       Inr (R_end (lhnl d1) (case s of None \<Rightarrow> ''done'' | Some l \<Rightarrow> l) v (is_singular v), d1\<lparr>lhnl := True\<rparr>)))"

section \<open>A sequence of marks\<close>

datatype time_command =
    C_mark "string option" reading reading
  | C_begin string reading
  | C_begin_nl string reading
  | C_end "string option" reading

fun time_step :: "time_command \<Rightarrow> timeutil_data \<Rightarrow> fault + report \<times> timeutil_data" where
  "time_step (C_mark s r1 r2) d = mark_label s r1 r2 d"
| "time_step (C_begin s r) d = time_begin s r d"
| "time_step (C_begin_nl s r) d = time_begin_nl s r d"
| "time_step (C_end s r) d = end_label s r d"

fun time_run :: "time_command list \<Rightarrow> timeutil_data \<Rightarrow> fault + report list \<times> timeutil_data" where
  "time_run [] d = Inr ([], d)"
| "time_run (c # cs) d =
     bindE (time_step c d) (\<lambda>(out, d1). bindE (time_run cs d1) (\<lambda>(outs, d2). Inr (out # outs, d2)))"

text \<open>The specification keeps one stamp: the last reading of the last mark or begin.\<close>

definition usecs :: "timeval \<Rightarrow> int" where
  "usecs t = 1000000 * tv_sec t + tv_usec t"

fun time_spec :: "time_command \<Rightarrow> timeval \<times> bool \<Rightarrow> report \<times> timeval \<times> bool" where
  "time_spec (C_mark s r1 r2) (t, nl) =
     (let v = usecs (rd_time r1) - usecs t in
      (R_mark s (if tv_sec t \<noteq> 0 then Some (v, v = 1) else None), rd_time r2, True))"
| "time_spec (C_begin s r) (t, nl) = (R_begin s, rd_time r, False)"
| "time_spec (C_begin_nl s r) (t, nl) = (R_begin_nl s, rd_time r, True)"
| "time_spec (C_end s r) (t, nl) =
     (let v = usecs (rd_time r) - usecs t in
      (R_end nl (case s of None \<Rightarrow> ''done'' | Some l \<Rightarrow> l) v (v = 1), t, True))"

fun time_specs :: "time_command list \<Rightarrow> timeval \<times> bool \<Rightarrow> report list \<times> timeval \<times> bool" where
  "time_specs [] a = ([], a)"
| "time_specs (c # cs) a = (let (out, a1) = time_spec c a; (outs, a2) = time_specs cs a1 in (out # outs, a2))"

definition time_abs :: "timeutil_data \<Rightarrow> timeval \<times> bool" where
  "time_abs d = (te_get (prev_te d) d, lhnl d)"

text \<open>The two pointers never meet. Readings are of this age, and none fails.\<close>

definition tv_ok :: "timeval \<Rightarrow> bool" where
  "tv_ok t \<longleftrightarrow> 0 \<le> tv_sec t \<and> tv_sec t < 2 ^ 40 \<and> 0 \<le> tv_usec t \<and> tv_usec t < 1000000"

definition rd_ok :: "reading \<Rightarrow> bool" where
  "rd_ok r \<longleftrightarrow> tv_ok (rd_time r) \<and> (rd_returned r > 0 \<longrightarrow> rd_returned r \<noteq> rd_errno r)"

fun command_ok :: "time_command \<Rightarrow> bool" where
  "command_ok (C_mark s r1 r2) \<longleftrightarrow> rd_ok r1 \<and> rd_ok r2"
| "command_ok (C_begin s r) \<longleftrightarrow> rd_ok r"
| "command_ok (C_begin_nl s r) \<longleftrightarrow> rd_ok r"
| "command_ok (C_end s r) \<longleftrightarrow> rd_ok r"

definition time_inv :: "timeutil_data \<Rightarrow> bool" where
  "time_inv d \<longleftrightarrow> next_te d \<noteq> prev_te d \<and> tv_ok (te_get (prev_te d) d)"

lemma i64_ok: "\<bar>x\<bar> < 2 ^ 62 \<Longrightarrow> i64 x = Inr x"
  by (auto simp: i64_def)

lemma elapsed_usecs:
  assumes "tv_ok t1" and "tv_ok t2"
  shows "timeutil_elapsed t1 t2 = Inr (usecs t2 - usecs t1)"
proof -
  have s: "\<bar>tv_sec t2 - tv_sec t1\<bar> < 2 ^ 40" and u: "\<bar>tv_usec t2 - tv_usec t1\<bar> < 1000000"
    using assms by (auto simp: tv_ok_def)
  have "i64 (tv_sec t2 - tv_sec t1) = Inr (tv_sec t2 - tv_sec t1)"
    "i64 (1000000 * (tv_sec t2 - tv_sec t1)) = Inr (1000000 * (tv_sec t2 - tv_sec t1))"
    "i64 (tv_usec t2 - tv_usec t1) = Inr (tv_usec t2 - tv_usec t1)"
    "i64 (1000000 * (tv_sec t2 - tv_sec t1) + (tv_usec t2 - tv_usec t1)) =
      Inr (1000000 * (tv_sec t2 - tv_sec t1) + (tv_usec t2 - tv_usec t1))"
    using s u by (intro i64_ok; simp)+
  then show ?thesis
    by (simp add: timeutil_elapsed_def TIMEUTIL_ONE_MILLION_def usecs_def)
qed

lemma te_get_set [simp]: "te_get p (te_set q t d) = (if p = q then t else te_get p d)"
  and te_get_frame [simp]: "te_get p (d\<lparr>lhnl := b\<rparr>) = te_get p d"
  and te_get_swap [simp]: "te_get p (update_last_time_value d) = te_get p d"
  and te_set_sel [simp]: "next_te (te_set q t d) = next_te d" "prev_te (te_set q t d) = prev_te d" "lhnl (te_set q t d) = lhnl d"
  and te_swap_sel [simp]: "next_te (update_last_time_value d) = prev_te d" "prev_te (update_last_time_value d) = next_te d"
    "lhnl (update_last_time_value d) = lhnl d"
  by (simp_all add: te_get_def te_set_def update_last_time_value_def split: te_pointer.splits)

lemma update_ok [simp]: "rd_ok r \<Longrightarrow> update_time_value r d = Inr (te_set (next_te d) (rd_time r) d)"
  by (simp add: update_time_value_def rd_ok_def)

lemma time_step_refines:
  assumes "time_inv d" and "command_ok c"
  shows "\<exists>out d'. time_step c d = Inr (out, d') \<and> time_inv d' \<and> time_spec c (time_abs d) = (out, time_abs d')"
  using assms
  by (cases c)
    (auto simp: time_inv_def mark_label_def time_begin_def time_begin_nl_def end_label_def time_abs_def
      time_elapsed_value_def elapsed_usecs rd_ok_def is_singular_def Let_def)

text \<open>
  The macros keep time: for any sequence of them with readings that succeed, nothing is aborted or overflows, and the
  lines printed are those of a clock with a single stamp. Every end reports the microseconds since the last begin or mark, however
  many ends there were in between, and every mark those since the one before, if there was one.
\<close>

theorem time_marks_refine:
  assumes "list_all command_ok cs"
  shows "\<exists>outs d'. time_run cs timeutil_init = Inr (outs, d') \<and> next_te d' \<noteq> prev_te d' \<and>
    time_specs cs (\<lparr>tv_sec = 0, tv_usec = 0\<rparr>, False) = (outs, time_abs d')"
proof -
  have "\<exists>outs d'. time_run cs d = Inr (outs, d') \<and> time_inv d' \<and> time_specs cs (time_abs d) = (outs, time_abs d')"
    if "time_inv d" for d
    using assms that
  proof (induction cs arbitrary: d)
    case (Cons c cs)
    then obtain out d1 where s: "time_step c d = Inr (out, d1)" "time_inv d1" "time_spec c (time_abs d) = (out, time_abs d1)"
      using time_step_refines [of d c] by auto
    from Cons.IH [OF _ s(2)] Cons.prems s(1,3) show ?case by auto
  qed simp
  from this [of timeutil_init] show ?thesis
    by (auto simp: time_inv_def timeutil_init_def time_abs_def te_get_def tv_ok_def)
qed

theorem time_marks_refine_witness:
  "\<exists>outs d'. time_run [C_begin ''encoding'' \<lparr>rd_returned = 0, rd_errno = 0, rd_time = \<lparr>tv_sec = 7, tv_usec = 999990\<rparr>\<rparr>,
       C_end None \<lparr>rd_returned = 5, rd_errno = 0, rd_time = \<lparr>tv_sec = 8, tv_usec = 5\<rparr>\<rparr>] timeutil_init = Inr (outs, d') \<and>
     next_te d' \<noteq> prev_te d' \<and> outs = [R_begin ''encoding'', R_end False ''done'' 15 False]"
  using time_marks_refine [of "[C_begin ''encoding'' \<lparr>rd_returned = 0, rd_errno = 0, rd_time = \<lparr>tv_sec = 7, tv_usec = 999990\<rparr>\<rparr>,
       C_end None \<lparr>rd_returned = 5, rd_errno = 0, rd_time = \<lparr>tv_sec = 8, tv_usec = 5\<rparr>\<rparr>]"]
  by (auto simp: rd_ok_def tv_ok_def usecs_def)

end
