(* ===== verification/Accessor.thy ===== *)
theory Accessor
  imports Prelude
begin

text \<open>
  Views of containers: \<^verbatim>\<open>include/crisp/util/ArrayAccessor.hh\<close>. A view wraps a container of which it knows an interface,
  stated here as the locale \<open>container\<close>; the library uses it on \<open>std::vector\<close>, which interprets the locale. The elements of the
  dereferencing view are pointers, null or the number of an object in a store. A reference that a view gives is the
  place it refers to: an index of the container, or an object of the store.
\<close>

section \<open>The interface of a container\<close>

text \<open>\<open>ct_at i c\<close> is \<open>c[i]\<close>, \<open>ct_put i x c\<close> assigns to it; an iterator is \<open>ct_begin\<close> advanced some number of times.\<close>

locale container =
  fixes ct_size :: "'c \<Rightarrow> nat"
    and ct_at :: "nat \<Rightarrow> 'c \<Rightarrow> fault + 'a"
    and ct_put :: "nat \<Rightarrow> 'a \<Rightarrow> 'c \<Rightarrow> fault + 'c"
    and ct_begin :: "'c \<Rightarrow> 'i"
    and ct_end :: "'c \<Rightarrow> 'i"
    and ct_next :: "'i \<Rightarrow> 'i"
    and ct_deref :: "'i \<Rightarrow> 'c \<Rightarrow> fault + 'a"
    and ct_list :: "'c \<Rightarrow> 'a list"
  assumes size_law: "ct_size c = length (ct_list c)"
    and at_law: "i < length (ct_list c) \<Longrightarrow> ct_at i c = Inr (ct_list c ! i)"
    and put_law: "i < length (ct_list c) \<Longrightarrow> \<exists>c'. ct_put i x c = Inr c' \<and> ct_list c' = (ct_list c)[i := x]"
    and deref_law: "i < length (ct_list c) \<Longrightarrow> ct_deref ((ct_next ^^ i) (ct_begin c)) c = Inr (ct_list c ! i)"
    and end_law: "i \<le> length (ct_list c) \<Longrightarrow> (ct_next ^^ i) (ct_begin c) = ct_end c \<longleftrightarrow> i = length (ct_list c)"

begin

text \<open>Walking from the begin to the end visits the elements in order.\<close>

lemma walk: "map (\<lambda>i. ct_deref ((ct_next ^^ i) (ct_begin c)) c) [0..<ct_size c] = map Inr (ct_list c)"
  by (rule nth_equalityI) (simp_all add: size_law deref_law)

lemma walk_stops: "(LEAST i. (ct_next ^^ i) (ct_begin c) = ct_end c) = ct_size c"
  unfolding size_law
proof (rule Least_equality)
  show "(ct_next ^^ length (ct_list c)) (ct_begin c) = ct_end c" by (simp add: end_law)
  show "length (ct_list c) \<le> i" if "(ct_next ^^ i) (ct_begin c) = ct_end c" for i
    using end_law [of i c] that by (cases "i \<le> length (ct_list c)") auto
qed

end

section \<open>The code\<close>

text \<open>A vector, with its unchecked \<open>operator[]\<close>; an iterator is a position.\<close>

definition vec_at :: "nat \<Rightarrow> 'a list \<Rightarrow> fault + 'a" where
  "vec_at i v = (if i < length v then Inr (v ! i) else Inl Out_of_bounds)"

definition vec_put :: "nat \<Rightarrow> 'a \<Rightarrow> 'a list \<Rightarrow> fault + 'a list" where
  "vec_put i x v = (if i < length v then Inr (v[i := x]) else Inl Out_of_bounds)"

text \<open>\<open>ArrayAccessor\<close> on a vector.\<close>

definition aa_begin :: "'a list \<Rightarrow> nat" where
  "aa_begin v = 0"

definition aa_end :: "'a list \<Rightarrow> nat" where
  "aa_end v = length v"

definition aa_size :: "'a list \<Rightarrow> nat" where
  "aa_size v = length v"

definition aa_empty :: "'a list \<Rightarrow> bool" where
  "aa_empty v \<longleftrightarrow> v = []"

definition aa_get :: "nat \<Rightarrow> 'a list \<Rightarrow> fault + 'a" where
  "aa_get i v = vec_at i v"

definition aa_set :: "nat \<Rightarrow> 'a \<Rightarrow> 'a list \<Rightarrow> fault + 'a list" where
  "aa_set i x v = vec_put i x v"

text \<open>\<open>DereferencedArrayAccessor\<close> and \<open>DereferencedIterator\<close>: following a null pointer, or one to no object, is a fault.\<close>

definition follow :: "(nat \<Rightarrow> 'a option) \<Rightarrow> nat option \<Rightarrow> fault + nat" where
  "follow st p =
     (case p of None \<Rightarrow> Inl Null_deref | Some n \<Rightarrow> if st n = None then Inl Use_after_free else Inr n)"

definition da_size :: "nat option list \<Rightarrow> nat" where
  "da_size v = length v"

definition da_empty :: "nat option list \<Rightarrow> bool" where
  "da_empty v \<longleftrightarrow> v = []"

definition da_begin :: "nat option list \<Rightarrow> nat" where
  "da_begin v = 0"

definition da_end :: "nat option list \<Rightarrow> nat" where
  "da_end v = length v"

definition da_at :: "(nat \<Rightarrow> 'a option) \<Rightarrow> nat \<Rightarrow> nat option list \<Rightarrow> fault + nat" where
  "da_at st i v = bindE (vec_at i v) (follow st)"

definition di_base_dereference :: "nat \<Rightarrow> nat option list \<Rightarrow> fault + nat option" where
  "di_base_dereference it v = vec_at it v"

definition di_deref :: "(nat \<Rightarrow> 'a option) \<Rightarrow> nat \<Rightarrow> nat option list \<Rightarrow> fault + nat" where
  "di_deref st it v = bindE (di_base_dereference it v) (follow st)"

text \<open>\<open>for ( T& x : view ) f(x)\<close>, where \<open>f\<close> works on a state that holds the store; \<open>None\<close> is a loop of more than \<open>n\<close> turns.\<close>

fun da_for ::
    "nat \<Rightarrow> (nat \<Rightarrow> 's \<Rightarrow> fault + 's) \<Rightarrow> ('s \<Rightarrow> nat \<Rightarrow> 'a option) \<Rightarrow> nat option list \<Rightarrow> nat \<Rightarrow> 's \<Rightarrow> (fault + 's) option" where
  "da_for n f st v it s =
     (if it = da_end v then Some (Inr s)
      else case n of
             0 \<Rightarrow> None
           | Suc k \<Rightarrow> (case bindE (di_deref (st s) it v) (\<lambda>x. f x s) of
                        Inl e \<Rightarrow> Some (Inl e)
                      | Inr s' \<Rightarrow> da_for k f st v (it + 1) s'))"

declare da_for.simps [simp del]

section \<open>The interface is met\<close>

interpretation vec: container aa_size aa_get aa_set aa_begin aa_end Suc vec_at "\<lambda>v. v"
proof unfold_locales
  have pos: "(Suc ^^ i) 0 = i" for i by (induction i) simp_all
  fix i :: nat and c :: "'a list" and x :: 'a
  show "aa_size c = length c" by (simp add: aa_size_def)
  show "i < length c \<Longrightarrow> aa_get i c = Inr (c ! i)" by (simp add: aa_get_def vec_at_def)
  show "i < length c \<Longrightarrow> \<exists>c'. aa_set i x c = Inr c' \<and> c' = c[i := x]" by (simp add: aa_set_def vec_put_def)
  show "i < length c \<Longrightarrow> vec_at ((Suc ^^ i) (aa_begin c)) c = Inr (c ! i)" by (simp add: aa_begin_def pos vec_at_def)
  show "i \<le> length c \<Longrightarrow> ((Suc ^^ i) (aa_begin c) = aa_end c) = (i = length c)" by (simp add: aa_begin_def aa_end_def pos)
qed

section \<open>What a view shows\<close>

lemma di_deref_begin: "i < length v \<Longrightarrow> di_deref st (da_begin v + i) v = da_at st i v"
  by (simp add: di_deref_def di_base_dereference_def da_at_def da_begin_def)

lemma da_at_shared:
  assumes "i < da_size v" and "v ! i = Some n" and "st n \<noteq> None"
  shows "da_at st i v = Inr n"
  using assms by (auto simp: da_at_def da_size_def vec_at_def follow_def)

lemma da_at_faults: "da_size v \<le> i \<Longrightarrow> da_at st i v = Inl Out_of_bounds"
  "i < da_size v \<Longrightarrow> v ! i = None \<Longrightarrow> da_at st i v = Inl Null_deref"
  by (simp_all add: da_at_def da_size_def vec_at_def follow_def)

text \<open>
  The loop over a view of pointers to live objects calls the body on each object in the order of the pointers, as long as
  the body keeps them alive.
\<close>

lemma da_for_all:
  assumes "\<And>s x s'. x \<in> set ns \<Longrightarrow> f x s = Inr s' \<Longrightarrow> \<forall>m. st s m \<noteq> None \<longrightarrow> st s' m \<noteq> None"
  shows "length ns - k \<le> n \<Longrightarrow> k \<le> length ns \<Longrightarrow> \<forall>m \<in> set ns. st s m \<noteq> None \<Longrightarrow>
    da_for n f st (map Some ns) k s = Some (foldE f (drop k ns) s)"
proof (induction n arbitrary: k s)
  case 0
  then show ?case by (simp add: da_for.simps da_end_def)
next
  case (Suc n)
  show ?case
  proof (cases "k = length ns")
    case False
    then have k: "k < length ns" using Suc.prems by simp
    then have d: "di_deref (st s) k (map Some ns) = Inr (ns ! k)"
      using Suc.prems(3) nth_mem [OF k] by (auto simp: di_deref_def di_base_dereference_def vec_at_def follow_def)
    have step: "drop k ns = ns ! k # drop (Suc k) ns" using k by (simp add: Cons_nth_drop_Suc)
    show ?thesis
    proof (cases "f (ns ! k) s")
      case (Inl e)
      then show ?thesis using k d step by (simp add: da_for.simps [of "Suc n"] da_end_def)
    next
      case (Inr s')
      then have "da_for n f st (map Some ns) (Suc k) s' = Some (foldE f (drop (Suc k) ns) s')"
        using Suc.prems k assms [OF nth_mem [OF k] Inr] by (intro Suc.IH) auto
      then show ?thesis using Inr k d step by (simp add: da_for.simps [of "Suc n"] da_end_def)
    qed
  qed (simp add: da_for.simps da_end_def)
qed

end
