(* ===== verification/Control.thy ===== *)
theory Control
  imports Exchange
begin

text \<open>
  From an operator's \<open>set\<close> to the robot's callback: a control message built for a module, sent through a node
  (\<^verbatim>\<open>Message.hh\<close>, \<^verbatim>\<open>bits/BasicNode.tcc\<close>), received and dispatched by the node at the other end
  (\<^verbatim>\<open>bits/MessageDispatcher.tcc\<close>), and handed to the function connected there. The models are those of the theories imported;
  this one composes their laws.
\<close>

section \<open>Setting several inputs\<close>

text \<open>The client's calls \<open>mc.set(input, value)\<close>, each with the number of the input and the bytes of the value.\<close>

fun mc_set_all ::
    "nat \<Rightarrow> data_decl \<Rightarrow> module \<Rightarrow> (nat \<times> byte list) list \<Rightarrow> module_control \<Rightarrow> (fault + module_control) option" where
  "mc_set_all fuel d m [] c = Some (Inr c)"
| "mc_set_all fuel d m ((i, bs) # ps) c =
     (case mc_set fuel (sa_list (md_inputs m) ! i) d bs c of
        Some (Inr c1) \<Rightarrow> mc_set_all fuel d m ps c1
      | r \<Rightarrow> r)"

definition mc_message :: "module_control \<Rightarrow> fault + message" where
  "mc_message c = msg_of_body MODULE_CONTROL (mc_encoded_size c) (mc_encode c)"

text \<open>Values of the right widths for inputs of the module.\<close>

definition sets_ok :: "module \<Rightarrow> (nat \<times> byte list) list \<Rightarrow> bool" where
  "sets_ok m ps \<longleftrightarrow> (\<forall>(i, bs) \<in> set ps. i < unat (md_num_inputs m) \<and>
     length bs = unat (dd_width (mi_data_type (sa_list (md_inputs m) ! i))))"

lemma sets_ok_Cons [simp]: "sets_ok m ((i, bs) # ps) \<longleftrightarrow> i < unat (md_num_inputs m) \<and>
    length bs = unat (dd_width (mi_data_type (sa_list (md_inputs m) ! i))) \<and> sets_ok m ps"
  by (auto simp: sets_ok_def)

text \<open>What a control message says of an input, and what a list of calls says: the last one wins.\<close>

definition mc_says :: "module_control \<Rightarrow> nat \<rightharpoonup> byte list" where
  "mc_says c i = map_option dv_bytes (mc_abs c i)"

lemma mc_set_all_law:
  assumes "md_numbered m" and "2 \<le> fuel"
  shows "mc_inv m c \<Longrightarrow> sets_ok m ps \<Longrightarrow>
    \<exists>c'. mc_set_all fuel d m ps c = Some (Inr c') \<and> mc_inv m c' \<and> mc_says c' = mc_says c ++ map_of (rev ps)"
proof (induction ps arbitrary: c)
  case (Cons p ps)
  obtain i bs where p: "p = (i, bs)" by (cases p)
  obtain c1 v where c1: "mc_set fuel (sa_list (md_inputs m) ! i) d bs c = Some (Inr c1)" "mc_inv m c1"
      "mc_abs c1 = (mc_abs c)(i \<mapsto> v)" "dv_bytes v = bs"
    using mc_set_law [OF assms(1) Cons.prems(1) _ assms(2), of i bs d] Cons.prems(2) by (auto simp: p)
  have says: "mc_says c1 = (mc_says c)(i \<mapsto> bs)" using c1(3,4) by (auto simp: mc_says_def)
  obtain c' where c': "mc_set_all fuel d m ps c1 = Some (Inr c')" "mc_inv m c'" "mc_says c' = mc_says c1 ++ map_of (rev ps)"
    using Cons.IH [OF c1(2)] Cons.prems(2) by (auto simp: p)
  have "mc_says c1 ++ map_of (rev ps) = mc_says c ++ map_of (rev (p # ps))"
    by (simp add: says p map_add_def fun_eq_iff split: option.splits)
  with c1(1) c' show ?case by (auto simp: p)
qed simp

section \<open>The message and its delivery\<close>

lemma sum_list_bounded: "\<forall>x \<in> set xs. f x \<le> k \<Longrightarrow> sum_list (map f xs) \<le> k * length xs" for k :: nat
  by (induction xs) auto

lemma mc_encoding_short:
  assumes "mc_inv m c" and "md_wf m"
  shows "length (mc_encoding c) \<le> 3 + 15 * 31"
proof -
  let ?vs = "sa_list (mc_values c)"
  have n: "length ?vs \<le> 15" using mc_num_values_size [OF assms(1)] mc_num_values_le [of c] assms(1) by (simp add: mc_inv_def)
  have "\<forall>p \<in> set ?vs. length (dv_bytes (vp_value p)) \<le> 31"
  proof
    fix p assume "p \<in> set ?vs"
    then have "dv_wf (vp_value p)" using assms(1) by (simp add: mc_inv_def list_all_iff vp_ok_def)
    moreover have "unat (dd_width (dv_data_type (vp_value p))) < 2 ^ LENGTH(5)" by (rule unsigned_less)
    ultimately show "length (dv_bytes (vp_value p)) \<le> 31" by (simp add: length_dv_bytes)
  qed
  then have "sum_list (map (\<lambda>p. length (dv_bytes (vp_value p))) ?vs) \<le> 31 * length ?vs" by (rule sum_list_bounded)
  with n show ?thesis by (simp add: mc_encoding_def length_concat comp_def mc_HeaderSize_def)
qed

lemma mc_message_ok:
  assumes "mc_inv m c" and "md_wf m"
  shows "\<exists>msg. mc_message c = Inr msg \<and> msg_ok MODULE_CONTROL (mc_encoding c) msg"
  unfolding mc_message_def
  using mc_encoding_short [OF assms]
  by (intro msg_of_body_ok mc_encode_writes [OF assms(1)] mc_encoded_size_law [OF assms(1)]) simp_all

lemma dispatch_control:
  assumes "msg_ok MODULE_CONTROL (mc_encoding c) msg" and "cf_has (nd_configuration d) m" and "md_numbered m" and "mc_inv m c"
  shows "dp_dispatch ord junk dir (msg_received MODULE_CONTROL (mc_encoding c) msg) d =
    call_handler ord dir H_control (Inr (A_control (mc_received 0 c))) d"
proof -
  have "sa_inv (mc_values mc_new)" "sa_capacity (mc_values mc_new) = 0" by (simp_all add: mc_new_def sa_alloc_mk)
  then have "consumes (mc_decode junk (nd_configuration d) mc_new) (mc_encoding c) (Decode_Success, mc_received 0 c)"
    using mc_decode_consumes [OF assms(2-4), of mc_new junk] by simp
  then have "msg_as (mc_decode junk (nd_configuration d) mc_new) (msg_received MODULE_CONTROL (mc_encoding c) msg) =
      Inr (Decode_Success, mc_received 0 c)"
    by (rule msg_as_consumes) (simp add: msg_received_def)
  moreover have "msg_type (msg_received MODULE_CONTROL (mc_encoding c) msg) = type_code MODULE_CONTROL"
    using assms(1) by (simp add: msg_received_def msg_ok_def)
  ultimately show ?thesis by (simp add: dp_dispatch_def)
qed


lemma mc_received_says: "sa_inv (mc_values c) \<Longrightarrow> mc_says (mc_received cap c) = mc_says c"
proof -
  assume "sa_inv (mc_values c)"
  then obtain vs k where vs: "mc_values c = sa_mk vs k" "length vs \<le> k" by (rule sa_invE)
  have "vp_id (vp_received p) = vp_id p" "dv_bytes (vp_value (vp_received p)) = dv_bytes (vp_value p)" for p
    by (simp_all add: vp_received_def vp_id_def) (simp add: dv_make_with_def dv_bytes_def)
  moreover have "map_option f (map_of (map (\<lambda>p. (g p, h p)) xs) x) = map_of (map (\<lambda>p. (g p, f (h p))) xs) x"
    for f :: "data_value \<Rightarrow> byte list" and g :: "value_pair \<Rightarrow> nat" and h xs x
    by (induction xs) auto
  ultimately show ?thesis
    using vs by (simp add: mc_says_def mc_abs_def mc_received_def fun_eq_iff comp_def)
qed

section \<open>The functions a user connects\<close>

text \<open>A signal that lives and posts, and the functions users have connected to it, among other callbacks.\<close>

definition nd_posts :: "node_data \<Rightarrow> nat \<Rightarrow> bool" where
  "nd_posts d i \<longleftrightarrow> i < length (sg_signals (nd_signals d)) \<and> sig_live (sg_signals (nd_signals d) ! i) \<and>
     sig_service (sg_signals (nd_signals d) ! i)"

definition user_function :: "node_data \<Rightarrow> nat \<Rightarrow> nat option" where
  "user_function d a = (case nd_callbacks d a of Some (Cb_user k) \<Rightarrow> Some k | _ \<Rightarrow> None)"

definition nd_connected :: "node_data \<Rightarrow> nat \<Rightarrow> nat list" where
  "nd_connected d i = List.map_filter (user_function d) (sg_actions (nd_signals d) i)"

lemma user_function_callbacks:
  "nd_callbacks d' = nd_callbacks d \<Longrightarrow> user_function d' = user_function d"
  by (simp add: user_function_def fun_eq_iff)

text \<open>An emission posts one call for each action of the signal.\<close>

lemma nd_emit_posts:
  assumes "nd_posts d i" and "\<And>xs. mset (ord xs) = mset xs"
  shows "nd_emit ord i x d = d\<lparr>nd_signals := (nd_signals d)\<lparr>sg_posted := sg_posted (nd_signals d) @
    map (\<lambda>a. (a, x)) (ord (sg_actions (nd_signals d) i))\<rparr>\<rparr>"
proof -
  let ?w = "nd_signals d"
  have "set (ord xs) = set xs" for xs using assms(2) by (metis set_mset_mset)
  then have held: "\<forall>a \<in> set (ord (sg_actions ?w i)). sg_held ?w a"
    using assms(1) by (auto simp: nd_posts_def sg_held_def sg_actions_def)
  have none: "ord [] = []" using assms(2) [of "[]"] by simp
  show ?thesis
    using assms(1) none sg_invoke_posts [OF held, of "\<lambda>_ _ w. w" x]
    by (cases "sg_actions ?w i = []") (simp_all add: nd_emit_def sg_emit_def nd_posts_def)
qed

text \<open>Serving posted calls that carry a control message: each user's function is called with it, other callbacks ignore it.\<close>

definition nd_log :: "(nat \<times> notice) list \<Rightarrow> node_data \<Rightarrow> node_data" where
  "nd_log cs d = d\<lparr>nd_calls := nd_calls d @ cs\<rparr>"

lemma nd_callback_control:
  "nd_callbacks d a = Some cb \<Longrightarrow> nd_callback halt cb (A_control c) s =
    nd_update (nd_log (map (\<lambda>k. (k, A_control c)) (List.map_filter (user_function d) [a]))) s"
  by (cases cb) (simp_all add: nd_callback_def nd_log_def user_function_def List.map_filter_def nd_update_def)

lemma nd_serve_control:
  assumes "nd_outcome (sc_user s) = Alive" and "sg_posted (nd_signals (sc_user s)) = map (\<lambda>a. (a, A_control c)) as"
  shows "(nd_ready halt Posted ^^ length as) s =
    nd_update (nd_log (map (\<lambda>k. (k, A_control c)) (List.map_filter (user_function (sc_user s)) as)))
      (nd_update (nd_signals_update (sg_posted_update (\<lambda>_. []))) s)"
  using assms
proof (induction as arbitrary: s)
  case Nil
  then show ?case by (simp add: List.map_filter_simps nd_log_def nd_update_def)
next
  case (Cons a as)
  let ?s1 = "nd_update (nd_signals_update (sg_posted_update (\<lambda>_. map (\<lambda>a. (a, A_control c)) as))) s"
  let ?one = "map (\<lambda>k. (k, A_control c)) (List.map_filter (user_function (sc_user s)) [a])"
  let ?rest = "map (\<lambda>k. (k, A_control c)) (List.map_filter (user_function (sc_user s)) as)"
  have step: "nd_ready halt Posted s = nd_update (nd_log ?one) ?s1"
  proof (cases "nd_callbacks (sc_user s) a")
    case None
    then show ?thesis using Cons.prems
      by (simp add: nd_ready_def nd_serve_def user_function_def List.map_filter_simps nd_log_def nd_update_def)
  next
    case (Some cb)
    then show ?thesis using Cons.prems nd_callback_control [OF Some, of halt c ?s1] by (simp add: nd_ready_def nd_serve_def)
  qed
  have user: "user_function (sc_user (nd_update (nd_log ?one) ?s1)) = user_function (sc_user s)"
    by (rule user_function_callbacks) (simp add: nd_log_def)
  have "(nd_ready halt Posted ^^ length (a # as)) s = (nd_ready halt Posted ^^ length as) (nd_update (nd_log ?one) ?s1)"
    using step by (simp add: funpow_swap1 del: funpow.simps) (simp add: funpow_swap1)
  also have "\<dots> = nd_update (nd_log ?rest) (nd_update (nd_signals_update (sg_posted_update (\<lambda>_. []))) (nd_update (nd_log ?one) ?s1))"
    using Cons.IH [of "nd_update (nd_log ?one) ?s1"] Cons.prems(1) unfolding user by (simp add: nd_log_def)
  also have "\<dots> = nd_update (nd_log (?one @ ?rest)) (nd_update (nd_signals_update (sg_posted_update (\<lambda>_. []))) s)"
    by (simp add: nd_update_def nd_log_def)
  finally show ?case by (simp add: List.map_filter_def)
qed

text \<open>A control message that is dispatched whole, with all its posted callbacks served.\<close>

lemma nd_delivers_control:
  assumes "nd_receiving s" and "msg_ok MODULE_CONTROL bs m"
    and "\<And>d. nd_configuration d = nd_configuration (sc_user s) \<Longrightarrow>
      dp_dispatch ord junk INCOMING (msg_received MODULE_CONTROL bs m) d = call_handler ord INCOMING H_control (Inr (A_control c)) d"
    and "nd_posts (sc_user s) (sig_of INCOMING H_control)" and "\<And>xs. mset (ord xs) = mset xs"
    and "sg_posted (nd_signals (sc_user s)) = []"
  shows "\<exists>r ks. mset ks = mset (nd_connected (sc_user s) (sig_of INCOMING H_control)) \<and> rx_place r = Rx_header \<and>
    (nd_ready halt Posted ^^ length (sg_actions (nd_signals (sc_user s)) (sig_of INCOMING H_control)))
      (nd_feed ord junk 2 (msg_wire MODULE_CONTROL bs m) s) =
    nd_update (nd_log (map (\<lambda>k. (k, A_control c)) ks)) (nd_update (nd_receiver_update (\<lambda>_. Some r)) s)"
proof -
  let ?i = "sig_of INCOMING H_control" and ?d = "sc_user s" and ?w = "msg_wire MODULE_CONTROL bs m" and ?n = "A_control c"
  obtain r1 r2 mem where r2: "rx_place r2 = Rx_top"
    and feed: "nd_feed ord junk 2 ?w s =
      (case dp_dispatch ord junk INCOMING (msg_received MODULE_CONTROL bs m) (?d\<lparr>nd_receiver := Some r1\<rparr>) of
         Inl e \<Rightarrow> nd_crash e (s\<lparr>sc_user := ?d\<lparr>nd_receiver := Some r1\<rparr>\<rparr>)
       | Inr d \<Rightarrow> s\<lparr>sc_user := nd_set_receiver r2 d\<rparr>)"
    using nd_feed_message [OF assms(1,2)] by blast
  have run: "nd_outcome ?d = Alive" "\<not> nd_stopped ?d" using assms(1) by (simp_all add: nd_receiving_def)
  let ?as = "ord (sg_actions (nd_signals ?d) ?i)" and ?r = "r2\<lparr>rx_place := Rx_header\<rparr>"
  let ?e = "(?d\<lparr>nd_receiver := Some r1\<rparr>)\<lparr>nd_signals := (nd_signals ?d)\<lparr>sg_posted := map (\<lambda>a. (a, ?n)) ?as\<rparr>\<rparr>"
  let ?s = "s\<lparr>sc_user := ?e\<lparr>nd_receiver := Some ?r\<rparr>\<rparr>" and ?t = "nd_update (nd_receiver_update (\<lambda>_. Some ?r)) s"
  have posts: "nd_posts (?d\<lparr>nd_receiver := Some r1\<rparr>) ?i" using assms(4) by (simp add: nd_posts_def)
  have cfg: "nd_configuration (?d\<lparr>nd_receiver := Some r1\<rparr>) = nd_configuration ?d" by simp
  have "dp_dispatch ord junk INCOMING (msg_received MODULE_CONTROL bs m) (?d\<lparr>nd_receiver := Some r1\<rparr>) =
      Inr (nd_emit ord ?i ?n (?d\<lparr>nd_receiver := Some r1\<rparr>))"
    using assms(3) [OF cfg] by (simp only: call_handler_def bindE_simps)
  moreover have "nd_emit ord ?i ?n (?d\<lparr>nd_receiver := Some r1\<rparr>) = ?e"
    using nd_emit_posts [OF posts assms(5), of ?n] assms(6) by simp
  moreover have "nd_set_receiver r2 ?e = ?e\<lparr>nd_receiver := Some ?r\<rparr>"
    using run(2) r2 by (intro nd_set_receiver_running) simp_all
  ultimately have fed: "nd_feed ord junk 2 ?w s = ?s" unfolding feed by (simp only: sum.case)
  let ?ks = "List.map_filter (user_function ?d) ?as"
  have perm: "mset ?as = mset (sg_actions (nd_signals ?d) ?i)" by (rule assms(5))
  have ks: "mset ?ks = mset (nd_connected ?d ?i)" using perm by (simp add: nd_connected_def List.map_filter_def)
  have len: "length ?as = length (sg_actions (nd_signals ?d) ?i)" using perm by (rule mset_eq_length)
  have user: "user_function (sc_user ?s) = user_function ?d" by (rule user_function_callbacks) simp
  have "nd_signals_update (sg_posted_update (\<lambda>_. [])) (sc_user ?s) = sc_user ?t"
    using assms(6) by simp
  then have restored: "nd_update (nd_signals_update (sg_posted_update (\<lambda>_. []))) ?s = ?t"
    by (simp add: nd_update_def)
  have "(nd_ready halt Posted ^^ length ?as) ?s = nd_update (nd_log (map (\<lambda>k. (k, ?n)) ?ks)) ?t"
    using nd_serve_control [of ?s c ?as halt] run(1) unfolding user restored by simp
  then show ?thesis using ks r2 unfolding fed len by (intro exI [of _ ?r] exI [of _ ?ks]) simp
qed

section \<open>Property\<close>

text \<open>
  Claim C3. A command reaches the robot. Build a control message for a module and set any of its inputs, in any order and more
  than once; send it. Let the bytes arrive at a node whose configuration holds the module, and let the posted callbacks be served. Then each
  function that a user has connected to received control messages has been called exactly once more, with a message
  that \<open>operator ==\<close> accepts, that says of each input exactly the value set last, and nothing of inputs that were not set; apart from
  these calls (which the node keeps) the node is as before, waiting for the next header.
\<close>

theorem control_reaches_callback:
  assumes "md_numbered m" and "sets_ok m ps" and "2 \<le> fuel" and "cf_has (nd_configuration (sc_user s)) m"
    and "nd_receiving s" and "nd_posts (sc_user s) (sig_of INCOMING H_control)" and "\<And>xs. mset (ord xs) = mset xs"
    and "sg_posted (nd_signals (sc_user s)) = []"
  shows "\<exists>c msg w c' r ks s'. mc_set_all fuel d m ps (mc_make (Some m) cap) = Some (Inr c) \<and> mc_message c = Inr msg \<and>
    tx_encode msg = Inr (Encode_Success, w) \<and>
    s' = (nd_ready halt Posted ^^ length (sg_actions (nd_signals (sc_user s)) (sig_of INCOMING H_control))) (nd_feed ord junk 2 w s) \<and>
    mset ks = mset (nd_connected (sc_user s) (sig_of INCOMING H_control)) \<and>
    nd_calls (sc_user s') = nd_calls (sc_user s) @ map (\<lambda>k. (k, A_control c')) ks \<and>
    mc_eq c' c = Inr True \<and> mc_says c' = map_of (rev ps) \<and> rx_place r = Rx_header \<and>
    s' = nd_update (\<lambda>d. d\<lparr>nd_receiver := Some r, nd_calls := nd_calls (sc_user s')\<rparr>) s"
proof -
  have wf: "md_wf m" using assms(1) by (simp add: md_numbered_def)
  obtain c where c: "mc_set_all fuel d m ps (mc_make (Some m) cap) = Some (Inr c)" "mc_inv m c"
      "mc_says c = mc_says (mc_make (Some m) cap) ++ map_of (rev ps)"
    using mc_set_all_law [OF assms(1,3) mc_make_inv assms(2), of d cap] by blast
  have "mc_says (mc_make (Some m) cap) = Map.empty" by (simp add: mc_says_def mc_make_abs fun_eq_iff)
  moreover have "sa_inv (mc_values c)" using c(2) by (simp add: mc_inv_def)
  ultimately have says: "mc_says (mc_received 0 c) = map_of (rev ps)" using c(3) by (simp add: mc_received_says)
  obtain msg where msg: "mc_message c = Inr msg" "msg_ok MODULE_CONTROL (mc_encoding c) msg"
    using mc_message_ok [OF c(2) wf] by blast
  let ?w = "msg_wire MODULE_CONTROL (mc_encoding c) msg" and ?n = "A_control (mc_received 0 c)"
  have disp: "dp_dispatch ord junk INCOMING (msg_received MODULE_CONTROL (mc_encoding c) msg) d =
      call_handler ord INCOMING H_control (Inr (A_control (mc_received 0 c))) d"
    if "nd_configuration d = nd_configuration (sc_user s)" for d
    using dispatch_control [OF msg(2) _ assms(1) c(2)] assms(4) that by simp
  obtain r ks where r: "mset ks = mset (nd_connected (sc_user s) (sig_of INCOMING H_control))" "rx_place r = Rx_header"
    "(nd_ready halt Posted ^^ length (sg_actions (nd_signals (sc_user s)) (sig_of INCOMING H_control)))
      (nd_feed ord junk 2 (msg_wire MODULE_CONTROL (mc_encoding c) msg) s) =
    nd_update (nd_log (map (\<lambda>k. (k, A_control (mc_received 0 c))) ks)) (nd_update (nd_receiver_update (\<lambda>_. Some r)) s)"
    using nd_delivers_control [OF assms(5) msg(2) disp assms(6-8), of halt] by blast
  let ?s = "nd_update (nd_log (map (\<lambda>k. (k, A_control (mc_received 0 c))) ks)) (nd_update (nd_receiver_update (\<lambda>_. Some r)) s)"
  have calls: "nd_calls (sc_user ?s) = nd_calls (sc_user s) @ map (\<lambda>k. (k, A_control (mc_received 0 c))) ks"
    by (simp add: nd_log_def)
  have same: "?s = nd_update (\<lambda>d. d\<lparr>nd_receiver := Some r, nd_calls := nd_calls (sc_user ?s)\<rparr>) s"
    unfolding calls by (simp add: nd_update_def nd_log_def)
  show ?thesis
    by (rule exI [of _ c], rule exI [of _ msg], rule exI [of _ "msg_wire MODULE_CONTROL (mc_encoding c) msg"],
        rule exI [of _ "mc_received 0 c"], rule exI [of _ r], rule exI [of _ ks], rule exI [of _ ?s])
      (intro conjI c(1) msg(1) tx_encode_ok [OF msg(2)] r(3) [symmetric] r(1,2) calls mc_received_eq [OF wf c(2)] says same)
qed

text \<open>A robot whose user has connected function 7, beside the default callback.\<close>

definition node_robot :: node where
  "node_robot = nd_update (\<lambda>d. nd_connect INCOMING H_control 7 (d\<lparr>nd_configuration := cf_example5\<rparr>)) node_b"

lemma nd_launch_dispatcher:
  "nd_signals (sc_user (snd (nd_launch junk s))) = nd_signals (sc_user s)"
  "nd_callbacks (sc_user (snd (nd_launch junk s))) = nd_callbacks (sc_user s)"
proof -
  have timer: "sc_set_timer d f q = (a, q') \<Longrightarrow> sc_user q' = sc_user q" for d f and q :: node and a q'
    by (auto simp: sc_set_timer_def sa_make_def Let_def sa_reset_def tm_async_wait_def tm_expires_from_now_def tm_expires_at_def)
  show "nd_signals (sc_user (snd (nd_launch junk s))) = nd_signals (sc_user s)"
    "nd_callbacks (sc_user (snd (nd_launch junk s))) = nd_callbacks (sc_user s)"
    by (auto simp: nd_launch_def Let_def nd_crash_def nd_send_def split: sum.splits prod.splits dest!: timer)
qed

lemma node_robot_user: "sc_user node_robot = nd_connect INCOMING H_control 7 ((sc_user node_b)\<lparr>nd_configuration := cf_example5\<rparr>)"
  by (simp add: node_robot_def)

lemma node_robot_dispatcher:
  "sg_signals (nd_signals (sc_user node_robot)) = (sg_signals nd_signals_set)[11 := \<lparr>sig_actions = [8, 9], sig_service = True, sig_live = True\<rparr>]"
  "sg_posted (nd_signals (sc_user node_robot)) = []"
  "nd_callbacks (sc_user node_robot) = (nd_callbacks (sc_user (nd_new 7 0 SLAVE)))(9 \<mapsto> Cb_user 7)"
  unfolding node_robot_user
  by (simp_all add: node_b_def nd_connect_def nd_with_dispatcher_def dp_join_def nd_launch_dispatcher
      nd_new_signals sg_connect_def sg_update_def Let_def sig_of_def handler_index_def) (simp_all add: nd_signals_set_def)

theorem control_reaches_callback_witness:
  "\<exists>c msg w c' r ks s'. mc_set_all 2 dd_example md_example [(0, [1, 2]), (0, [3, 4])] (mc_make (Some md_example) None) = Some (Inr c) \<and>
    mc_message c = Inr msg \<and> tx_encode msg = Inr (Encode_Success, w) \<and>
    s' = (nd_ready id Posted ^^ length (sg_actions (nd_signals (sc_user node_robot)) (sig_of INCOMING H_control)))
      (nd_feed id (\<lambda>_. 0) 2 w node_robot) \<and>
    mset ks = {#7#} \<and> nd_calls (sc_user s') = nd_calls (sc_user node_robot) @ map (\<lambda>k. (k, A_control c')) ks \<and>
    mc_eq c' c = Inr True \<and> mc_says c' = map_of (rev [(0, [1, 2]), (0, [3, 4])]) \<and> rx_place r = Rx_header \<and>
    s' = nd_update (\<lambda>d. d\<lparr>nd_receiver := Some r, nd_calls := nd_calls (sc_user s')\<rparr>) node_robot"
proof -
  have "nd_connected (sc_user node_robot) (sig_of INCOMING H_control) = [7]"
    by (simp add: nd_connected_def sg_actions_def node_robot_dispatcher user_function_def nd_new_callbacks sig_of_def
        handler_index_def List.map_filter_def) (simp add: nd_signals_set_def user_function_def node_robot_dispatcher nd_new_callbacks)
  then have seven: "mset (nd_connected (sc_user node_robot) (sig_of INCOMING H_control)) = {#7#}" by simp
  show ?thesis
    unfolding seven [symmetric]
  proof (rule control_reaches_callback [OF md_example_numbered _ order_refl])
    show "sets_ok md_example [(0, [1, 2]), (0, [3, 4])]" by (simp add: md_example_input) (simp add: sets_ok_def)
    show "cf_has (nd_configuration (sc_user node_robot)) md_example"
      by (simp add: node_robot_user nd_connect_def nd_with_dispatcher_def cf_example5_has)
    show "nd_receiving node_robot"
      using node_ab_facts(2) by (simp add: nd_ready_to_talk_def nd_receiving_def node_robot_user nd_connect_def nd_with_dispatcher_def)
    show "nd_posts (sc_user node_robot) (sig_of INCOMING H_control)"
      by (simp add: nd_posts_def node_robot_dispatcher sig_of_def handler_index_def) (simp add: nd_signals_set_def)
    show "sg_posted (nd_signals (sc_user node_robot)) = []" by (rule node_robot_dispatcher)
  qed simp
qed

end
