(* ===== verification/Session.thy ===== *)
theory Session
  imports Control
begin

text \<open>
  Two nodes from launch to an established session: the node loops and callbacks of \<^verbatim>\<open>bits/BasicNode.tcc\<close> as a
  system of two nodes and the two byte streams between them, in which every turn of a loop, every callback and every task of the
  scheduler is a step of its own and any order of steps is possible. Time does not pass and the streams do not fail: the five seconds of the
  handshake timer are not over. A thread wakes from the outgoing queue only when it is notified, and the callbacks of a node are served one
  at a time in the order they were posted.
\<close>

section \<open>The system\<close>

text \<open>
  One node with the bytes its peer has written, \<open>w\<close>, of which it has read \<open>p\<close>: ready work is served, the send loop moves or
  completes a write, the receive loop gets the bytes it waits for.
\<close>

inductive ss_moves ::
    "(nat list \<Rightarrow> nat list) \<Rightarrow> (nat \<Rightarrow> byte) \<Rightarrow> byte list \<Rightarrow> node \<Rightarrow> nat \<Rightarrow> node \<Rightarrow> nat \<Rightarrow> bool" where
  serve: "sg_posted (nd_signals (sc_user s)) \<noteq> [] \<Longrightarrow> ss_moves ord junk w s p (nd_step self other polled Posted s) p"
| task: "sc_tasks s \<noteq> [] \<Longrightarrow> ss_moves ord junk w s p (nd_step self other polled Task s) p"
| request: "nd_requests (sc_user s) \<noteq> 0 \<Longrightarrow> ss_moves ord junk w s p (nd_step self other polled Request s) p"
| fetch: "tx_step (sc_user s) = Inr d \<Longrightarrow> d \<noteq> sc_user s \<Longrightarrow> ss_moves ord junk w s p (s\<lparr>sc_user := d\<rparr>) p"
| fetch_fault: "tx_step (sc_user s) = Inl e \<Longrightarrow> ss_moves ord junk w s p (nd_crash e s) p"
| wrote: "nd_sender (sc_user s) = Tx_writing m bs \<Longrightarrow> tx_written ord junk Written (sc_user s) = Inr d \<Longrightarrow>
    ss_moves ord junk w s p (s\<lparr>sc_user := d\<rparr>) p"
| wrote_fault: "nd_sender (sc_user s) = Tx_writing m bs \<Longrightarrow> tx_written ord junk Written (sc_user s) = Inl e \<Longrightarrow>
    ss_moves ord junk w s p (nd_crash e s) p"
| received: "nd_receiver (sc_user s) = Some r \<Longrightarrow> rx_place r = Rx_header \<or> (\<exists>m. rx_place r = Rx_body m) \<Longrightarrow>
    p + rx_wants r \<le> length w \<Longrightarrow>
    ss_moves ord junk w s p (nd_received ord junk (take (rx_wants r) (drop p w)) s) (p + rx_wants r)"

record session =
  ss_a :: node
  ss_b :: node
  ss_read_a :: nat     \<comment> \<open>bytes that \<open>ss_a\<close> has read of what \<open>ss_b\<close> wrote\<close>
  ss_read_b :: nat

inductive ss_step :: "(nat list \<Rightarrow> nat list) \<Rightarrow> (nat \<Rightarrow> byte) \<Rightarrow> session \<Rightarrow> session \<Rightarrow> bool" where
  step_a: "ss_moves ord junk (nd_wire (sc_user (ss_b s))) (ss_a s) (ss_read_a s) n p \<Longrightarrow>
    ss_step ord junk s (s\<lparr>ss_a := n, ss_read_a := p\<rparr>)"
| step_b: "ss_moves ord junk (nd_wire (sc_user (ss_a s))) (ss_b s) (ss_read_b s) n p \<Longrightarrow>
    ss_step ord junk s (s\<lparr>ss_b := n, ss_read_b := p\<rparr>)"

text \<open>Runs, with their lengths.\<close>

inductive ss_run :: "(nat list \<Rightarrow> nat list) \<Rightarrow> (nat \<Rightarrow> byte) \<Rightarrow> nat \<Rightarrow> session \<Rightarrow> session \<Rightarrow> bool"
  for ord junk where
  run_stop: "ss_run ord junk 0 s s"
| run_step: "ss_run ord junk n s s' \<Longrightarrow> ss_step ord junk s' s'' \<Longrightarrow> ss_run ord junk (Suc n) s s''"

inductive_cases ss_movesE: "ss_moves ord junk w s p s' p'"
inductive_cases ss_stepE: "ss_step ord junk s s'"

text \<open>A launched node with a configuration, and two of them on a new connection.\<close>

definition ss_node :: "(nat \<Rightarrow> byte) \<Rightarrow> nat \<Rightarrow> 64 word \<Rightarrow> configuration \<Rightarrow> node_role \<Rightarrow> node" where
  "ss_node junk now n c role =
     snd (nd_launch junk (nd_update (nd_configuration_update (\<lambda>_. c)) (nd_new now n role)))"

definition ss_start :: "node \<Rightarrow> node \<Rightarrow> session" where
  "ss_start a b = \<lparr>ss_a = a, ss_b = b, ss_read_a = 0, ss_read_b = 0\<rparr>"

section \<open>What the two nodes say\<close>

fun peer :: "node_role \<Rightarrow> node_role" where
  "peer MASTER = SLAVE"
| "peer SLAVE = MASTER"

lemma peer_simps [simp]: "peer (peer r) = r" "peer r \<noteq> r" "r \<noteq> peer r"
  by (cases r; simp)+

lemma peer_eq: "r \<noteq> r' \<Longrightarrow> r' = peer r"
  by (cases r; cases r') simp_all

definition hello :: "node_role \<Rightarrow> handshake" where
  "hello r = hs_make PROTOCOL_VERSION (role_code r)"

definition answer :: "node_role \<Rightarrow> handshake_response" where
  "answer r = hs_respond r (hello (peer r))"

text \<open>The messages of a node, in their order, with their types and bodies.\<close>

definition ss_msgs :: "node_role \<Rightarrow> (message_type \<times> byte list \<times> message) list" where
  "ss_msgs r = [(HANDSHAKE, hs_bytes (hello r), projr (hs_message r)),
                (HANDSHAKE_RESPONSE, hr_bytes (answer r), projr (hr_message (answer r)))]"

definition ss_wire :: "(message_type \<times> byte list \<times> message) list \<Rightarrow> byte list" where
  "ss_wire xs = concat (map (\<lambda>(t, bs, m). msg_wire t bs m) xs)"

text \<open>What it does about the messages of its peer.\<close>

definition ss_notices :: "node_role \<Rightarrow> (callback \<times> notice) list" where
  "ss_notices r = [(Cb_handshake, A_handshake (hello (peer r))), (Cb_response, A_response (answer (peer r)))]"

definition ss_handler :: "nat \<Rightarrow> message_handler" where
  "ss_handler j = (if j = 0 then H_handshake else H_response)"

lemma hs_message_msg: "hs_message r = Inr (projr (hs_message r))" "msg_ok HANDSHAKE (hs_bytes (hello r)) (projr (hs_message r))"
  using hs_message_ok [of r] by (auto simp: hello_def)

lemma hr_message_msg: "hr_message x = Inr (projr (hr_message x))" "msg_ok HANDSHAKE_RESPONSE (hr_bytes x) (projr (hr_message x))"
  using hr_message_ok [of x] by auto

lemma answer_accepts: "hr_acknowledge (answer r) = ack_code ACK"
  by (cases r) (simp_all add: answer_def hello_def hs_respond_def hs_acknowledge_def hs_make_def role_code_def)

lemma length_ss_msgs [simp]: "length (ss_msgs r) = 2" and length_ss_notices [simp]: "length (ss_notices r) = 2"
  by (simp_all add: ss_msgs_def ss_notices_def)

lemma ss_wire_simps [simp]: "ss_wire [] = []" "ss_wire ((t, bs, m) # xs) = msg_wire t bs m @ ss_wire xs"
  "ss_wire (xs @ ys) = ss_wire xs @ ss_wire ys"
  by (simp_all add: ss_wire_def)

lemma ss_msgs_ok:
  assumes "j < 2" and "ss_msgs r ! j = (t, bs, m)"
  shows "msg_ok t bs m" "tx_plain t" "t \<noteq> CONFIGURATION_QUERY"
    "dp_dispatch ord junk dir (msg_received t bs m) d =
      call_handler ord dir (ss_handler j) (Inr (snd (ss_notices (peer r) ! j))) d"
  using assms hs_message_msg(2) hr_message_msg(2) dispatch_handshake [of "hello r"] dispatch_response [of "answer r"]
  by (auto simp: ss_msgs_def ss_notices_def ss_handler_def tx_plain_def less_2_cases_iff)

lemma ss_msgs_sent:
  assumes "j < 2" and "ss_msgs r ! j = (t, bs, m)"
  shows "dp_dispatch ord junk dir m d = call_handler ord dir (ss_handler j) (Inr (snd (ss_notices (peer r) ! j))) d"
proof -
  have "msg_received t bs m = m\<lparr>msg_checksum := msg_sum t bs m\<rparr>"
    using ss_msgs_ok(1) [OF assms] assms by (auto simp: msg_received_def msg_ok_def ss_msgs_def less_2_cases_iff)
  then show ?thesis using ss_msgs_ok(4) [OF assms, of ord junk dir d] by (simp add: dispatch_checksum)
qed

section \<open>Stages of a node\<close>

text \<open>
  How far a node is: the messages it has written, where its send loop is, the messages it has read, whether it has the header
  of the next, and the notices its callbacks have dealt with.
\<close>

datatype mode = At_top | Entering | Asleep | Woken | Writing

record stage =
  st_sent :: nat
  st_mode :: mode
  st_read :: nat
  st_half :: bool
  st_served :: nat

definition st_start :: stage where
  "st_start = \<lparr>st_sent = 0, st_mode = At_top, st_read = 0, st_half = False, st_served = 0\<rparr>"

text \<open>The messages a node has had to send, and those still in its queue or on their way out.\<close>

definition st_said :: "stage \<Rightarrow> nat" where
  "st_said x = (if st_served x = 0 then 1 else 2)"

definition st_todo :: "node_role \<Rightarrow> stage \<Rightarrow> message list" where
  "st_todo r x = drop (st_sent x) (take (st_said x) (map (\<lambda>(t, bs, m). m) (ss_msgs r)))"

definition st_needs :: "stage \<Rightarrow> nat" where
  "st_needs x = st_read x + (if st_half x then 1 else 0)"

definition st_pos :: "node_role \<Rightarrow> stage \<Rightarrow> nat" where
  "st_pos r x = length (ss_wire (take (st_read x) (ss_msgs (peer r)))) + (if st_half x then msg_HeaderSize else 0)"

text \<open>The loop counts itself among the waiters of the queue, on top of what the counter held at first.\<close>

definition num_waiters :: "node_data \<Rightarrow> 64 word" where
  "num_waiters d = sq_num_waiters (nd_queue d)"

definition sends :: "64 word \<Rightarrow> node_role \<Rightarrow> stage \<Rightarrow> node_data \<Rightarrow> bool" where
  "sends z r x d \<longleftrightarrow> \<not> sq_aborted (nd_queue d) \<and> st_sent x \<le> st_said x \<and> nd_wire d = ss_wire (take (st_sent x) (ss_msgs r)) \<and>
     sq_items (nd_queue d) = (if st_mode x = Writing then drop 1 (st_todo r x) else st_todo r x) \<and>
     (st_mode x = Asleep \<longrightarrow> st_todo r x = []) \<and> (st_mode x \<in> {Woken, Writing} \<longrightarrow> st_sent x < st_said x) \<and>
     sq_entering (nd_queue d) = (if st_mode x = Entering then [tx_caller] else []) \<and>
     sq_sleeping (nd_queue d) = (if st_mode x = Asleep then [tx_caller] else []) \<and>
     sq_woken (nd_queue d) = (if st_mode x = Woken then [tx_caller] else []) \<and>
     sq_num_waiters (nd_queue d) = z + (if st_mode x \<in> {Asleep, Woken} then 1 else 0) \<and>
     nd_sender d = (case st_mode x of
        At_top \<Rightarrow> Tx_top
      | Writing \<Rightarrow> (case ss_msgs r ! st_sent x of (t, bs, m) \<Rightarrow> Tx_writing m (msg_wire t bs m))
      | _ \<Rightarrow> Tx_fetching)"

definition receives :: "(nat \<Rightarrow> byte) \<Rightarrow> node_role \<Rightarrow> stage \<Rightarrow> node_data \<Rightarrow> bool" where
  "receives junk r x d \<longleftrightarrow>
     (\<exists>r0 mem. rx_holds r0 mem \<and> rx_place r0 = Rx_header \<and>
       (if st_half x
        then (case ss_msgs (peer r) ! st_read x of (t, bs, m) \<Rightarrow>
                \<exists>r1. nd_receiver d = Some r1 \<and> rx_resume junk False (msg_header m) r0 = Inr (r1, None))
        else nd_receiver d = Some r0))"

text \<open>The callbacks that wait to be served; those that only print leave no trace.\<close>

definition waiting :: "node_data \<Rightarrow> (callback \<times> notice) list" where
  "waiting d = filter (\<lambda>(c, n). c \<noteq> Cb_print) (map (\<lambda>(a, n). (the (nd_callbacks d a), n)) (sg_posted (nd_signals d)))"

definition serves :: "node_role \<Rightarrow> stage \<Rightarrow> node_data \<Rightarrow> bool" where
  "serves r x d \<longleftrightarrow> (\<forall>(a, n) \<in> set (sg_posted (nd_signals d)). nd_callbacks d a \<noteq> None) \<and>
     waiting d = drop (st_served x) (take (st_read x) (ss_notices r))"

text \<open>The node apart from its loops: as \<open>d0\<close> was, except for what its callbacks have done about the handshake timer \<open>t\<close>.\<close>

definition same_node :: "node_data \<Rightarrow> node_data \<Rightarrow> bool" where
  "same_node d0 d \<longleftrightarrow> nd_role d = nd_role d0 \<and> nd_configuration d = nd_configuration d0 \<and> nd_callbacks d = nd_callbacks d0 \<and>
     (nd_signals d)\<lparr>sg_posted := []\<rparr> = nd_signals d0 \<and> nd_outcome d = Alive \<and> \<not> nd_stopped d \<and> nd_requests d = 0 \<and>
     nd_pool d = nd_pool d0 \<and> nd_halting d = nd_halting d0 \<and> nd_notified d = nd_notified d0 \<and> nd_disconnects d = nd_disconnects d0 \<and>
     nd_disconnect_emitted d = nd_disconnect_emitted d0"

definition timers :: "nat \<Rightarrow> stage \<Rightarrow> node \<Rightarrow> bool" where
  "timers t x s \<longleftrightarrow>
     (if st_served x < 2
      then sc_tasks s = [] \<and> nd_halt_action (sc_user s) = Some t \<and> nd_sync_action (sc_user s) = None \<and>
        sc_actions s t = Some HALT_FN \<and> \<not> sc_moved s t \<and> sc_waits s (Of_action t) = [Once t] \<and>
        sc_expiry s (Of_action t) \<le> sc_now s + 5000000000 \<and> sc_waits s (Of_slot (rate_hz 1)) = [] \<and> sc_slots s (rate_hz 1) = None \<and>
        (\<forall>a < sc_next s. a \<noteq> t \<longrightarrow> sc_waits s (Of_action a) = [])
      else nd_syncing s \<and> sc_waits s (Of_action t) = [] \<and>
        (sc_tasks s = [Aborted (Once t), Remove_action t] \<and> sc_actions s t \<noteq> None \<or> sc_tasks s = [Remove_action t] \<or> sc_tasks s = []))"

definition st_ok :: "stage \<Rightarrow> bool" where
  "st_ok x \<longleftrightarrow> st_served x \<le> st_read x \<and> st_needs x \<le> 2"

definition at_stage :: "(nat \<Rightarrow> byte) \<Rightarrow> nat \<Rightarrow> node_data \<Rightarrow> stage \<Rightarrow> node \<Rightarrow> bool" where
  "at_stage junk t d0 x s \<longleftrightarrow> st_ok x \<and> same_node d0 (sc_user s) \<and> sends (num_waiters d0) (nd_role d0) x (sc_user s) \<and>
     receives junk (nd_role d0) x (sc_user s) \<and> serves (nd_role d0) x (sc_user s) \<and> timers t x s"

text \<open>What every step uses up.\<close>

fun mode_rank :: "mode \<Rightarrow> nat" where
  "mode_rank At_top = 4"
| "mode_rank Entering = 3"
| "mode_rank Woken = 2"
| "mode_rank Writing = 1"
| "mode_rank Asleep = 0"

definition rank :: "stage \<Rightarrow> node \<Rightarrow> nat" where
  "rank x s = 8 * (2 - st_sent x) + mode_rank (st_mode x) + 4 * (2 - st_read x) + (if st_half x then 0 else 1) +
     6 * (2 - st_served x) + length (sg_posted (nd_signals (sc_user s))) + length (sc_tasks s)"

section \<open>The send loop\<close>

lemma st_said_le: "st_said x \<le> 2"
  by (simp add: st_said_def)

lemma st_todo_Nil: "st_sent x \<le> st_said x \<Longrightarrow> st_todo r x = [] \<longleftrightarrow> st_sent x = st_said x"
  using st_said_le [of x] by (auto simp: st_todo_def)

lemma st_todo_Cons: "st_sent x < st_said x \<Longrightarrow> ss_msgs r ! st_sent x = (t, bs, m) \<Longrightarrow> st_todo r x = m # drop 1 (st_todo r x)"
  using st_said_le [of x] by (simp add: st_todo_def Cons_nth_drop_Suc [symmetric])

lemma stage_mode [simp]:
  "st_todo r (x\<lparr>st_mode := u\<rparr>) = st_todo r x" "st_said (x\<lparr>st_mode := u\<rparr>) = st_said x"
  by (simp_all add: st_todo_def st_said_def)

lemma fetch_stage:
  assumes "sends z r x d" and "\<not> nd_stopped d"
  shows "\<exists>u d'. tx_step d = Inr d' \<and> (mode_rank u < mode_rank (st_mode x) \<or> d' = d \<and> st_mode x \<in> {Asleep, Writing}) \<and>
    sends z r (x\<lparr>st_mode := u\<rparr>) d' \<and>
    (\<exists>q e. d' = d\<lparr>nd_queue := q, nd_sender := e\<rparr>)"
proof -
  obtain t bs m where msg: "ss_msgs r ! st_sent x = (t, bs, m)" by (cases "ss_msgs r ! st_sent x")
  have enc: "tx_encode m = Inr (Encode_Success, msg_wire t bs m)" if "st_sent x < st_said x"
    using ss_msgs_ok(1) [OF _ msg] that st_said_le [of x] by (simp add: tx_encode_ok)
  have todo: "st_todo r x = m # drop 1 (st_todo r x)" if "st_sent x < st_said x" using st_todo_Cons [OF that msg] .
  note nil = st_todo_Nil [of x r]
  have idle: "\<exists>q e. d = d\<lparr>nd_queue := q, nd_sender := e\<rparr>"
    by (rule exI [of _ "nd_queue d"], rule exI [of _ "nd_sender d"]) simp
  show ?thesis
  proof (cases "st_mode x")
    case At_top
    then show ?thesis using assms
      by (intro exI [of _ Entering] exI [of _ "d\<lparr>nd_queue := (nd_queue d)\<lparr>sq_entering := [tx_caller]\<rparr>, nd_sender := Tx_fetching\<rparr>"])
        (auto simp: sends_def tx_step_def sq_call_def tx_event_def)
  next
    case Entering
    show ?thesis
    proof (cases "st_sent x < st_said x")
      case True
      obtain ms where ms: "st_todo r x = m # ms" using todo [OF True] by blast
      let ?d = "d\<lparr>nd_queue := (nd_queue d)\<lparr>sq_entering := [], sq_items := ms\<rparr>, nd_sender := Tx_writing m (msg_wire t bs m)\<rparr>"
      have "tx_step d = Inr ?d"
        using assms Entering enc [OF True] ms
        by (simp add: sends_def tx_step_def sq_enter_def sq_finish_def tx_event_def Let_def split: list.splits)
      then show ?thesis using assms Entering True msg ms
        by (intro exI [of _ Writing] exI [of _ ?d]) (auto simp: sends_def)
    next
      case False
      let ?d = "d\<lparr>nd_queue := (nd_queue d)\<lparr>sq_entering := [], sq_num_waiters := sq_num_waiters (nd_queue d) + 1, sq_sleeping := [tx_caller]\<rparr>\<rparr>"
      have "tx_step d = Inr ?d"
        using assms Entering False nil
        by (simp add: sends_def tx_step_def sq_enter_def sq_finish_def tx_event_def Let_def split: list.splits)
      moreover have "?d = d\<lparr>nd_queue := nd_queue ?d, nd_sender := nd_sender d\<rparr>" by (cases d) simp
      then have "\<exists>q e. ?d = d\<lparr>nd_queue := q, nd_sender := e\<rparr>" by blast
      moreover have "sends z r (x\<lparr>st_mode := Asleep\<rparr>) ?d" using assms Entering False nil by (auto simp: sends_def)
      moreover have "mode_rank Asleep < mode_rank (st_mode x)" using Entering by simp
      ultimately show ?thesis by blast
    qed
  next
    case Asleep
    then have "tx_step d = Inr d" using assms by (simp add: sends_def tx_step_def)
    then show ?thesis using assms Asleep idle by (intro exI [of _ Asleep] exI [of _ d] conjI) (auto simp: sends_def)
  next
    case Woken
    then have True: "st_sent x < st_said x" using assms by (simp add: sends_def)
    obtain ms where ms: "st_todo r x = m # ms" using todo [OF True] by blast
    let ?d = "d\<lparr>nd_queue := (nd_queue d)\<lparr>sq_woken := [], sq_num_waiters := sq_num_waiters (nd_queue d) - 1, sq_items := ms\<rparr>,
      nd_sender := Tx_writing m (msg_wire t bs m)\<rparr>"
    have "tx_step d = Inr ?d"
      using assms Woken enc [OF True] ms
      by (simp add: sends_def tx_step_def sq_resume_def sq_finish_def tx_event_def Let_def split: list.splits)
    then show ?thesis using assms Woken True msg ms
      by (intro exI [of _ Writing] exI [of _ ?d]) (auto simp: sends_def)
  next
    case Writing
    then have "tx_step d = Inr d" using assms msg by (simp add: sends_def tx_step_def)
    then show ?thesis using assms Writing idle by (intro exI [of _ Writing] exI [of _ d] conjI) (auto simp: sends_def)
  qed
qed

text \<open>The queue and the loop show the mode, so a loop that can go on does.\<close>

lemma sends_mode: "sends z r x d \<Longrightarrow> sends z r (x\<lparr>st_mode := u\<rparr>) d \<Longrightarrow> u = st_mode x"
  by (cases u; cases "st_mode x") (auto simp: sends_def split: prod.splits)

lemma fetch_goes_on:
  assumes "sends z r x d" and "\<not> nd_stopped d" and "st_mode x \<noteq> Asleep" and "st_mode x \<noteq> Writing"
  shows "\<exists>d'. tx_step d = Inr d' \<and> d' \<noteq> d"
proof -
  obtain u d' where u: "tx_step d = Inr d'" "mode_rank u < mode_rank (st_mode x)" "sends z r (x\<lparr>st_mode := u\<rparr>) d'"
    using fetch_stage [OF assms(1,2)] assms(3,4) by auto
  moreover have "d' \<noteq> d" using sends_mode [OF assms(1), of u] u(2,3) by auto
  ultimately show ?thesis by blast
qed

section \<open>Writing\<close>

text \<open>The callbacks of a launched node for the handshake, and no others for these messages.\<close>

definition talks :: "node_data \<Rightarrow> bool" where
  "talks d0 \<longleftrightarrow> (\<forall>j < 2. nd_listens d0 (sig_of OUTGOING (ss_handler j)) Cb_print) \<and>
     nd_listens d0 (sig_of INCOMING H_handshake) Cb_handshake \<and> nd_listens d0 (sig_of INCOMING H_response) Cb_response"

lemma talks_hears: "talks d0 \<Longrightarrow> j < 2 \<Longrightarrow> nd_listens d0 (sig_of INCOMING (ss_handler j)) (fst (ss_notices r ! j))"
  by (auto simp: talks_def ss_handler_def ss_notices_def less_2_cases_iff)

lemma same_node_listens: "same_node d0 d \<Longrightarrow> nd_listens d i cb = nd_listens d0 i cb"
proof -
  assume same: "same_node d0 d"
  then have "(nd_signals d)\<lparr>sg_posted := []\<rparr> = nd_signals d0" by (simp add: same_node_def)
  then have "sg_signals ((nd_signals d)\<lparr>sg_posted := []\<rparr>) = sg_signals (nd_signals d0)"
    "sg_kept ((nd_signals d)\<lparr>sg_posted := []\<rparr>) = sg_kept (nd_signals d0)" by simp_all
  moreover have "nd_callbacks d = nd_callbacks d0" using same by (simp add: same_node_def)
  ultimately show ?thesis by (simp add: nd_listens_def sg_actions_def sg_held_def)
qed

text \<open>An emission to the one callback of a signal, as it changes the queue of callbacks.\<close>

lemma emits:
  assumes "same_node d0 d" and "nd_listens d0 i cb" and "\<And>xs. mset (ord xs) = mset xs"
  shows "\<exists>a. nd_callbacks d a = Some cb \<and>
    nd_emit ord i n d = d\<lparr>nd_signals := (nd_signals d)\<lparr>sg_posted := sg_posted (nd_signals d) @ [(a, n)]\<rparr>\<rparr>"
  using nd_emit_listens [OF _ assms(3), of d i cb n] assms(1,2) same_node_listens [OF assms(1)] by simp

lemma sends_written:
  assumes "sends z r x d" and "st_mode x = Writing" and "ss_msgs r ! st_sent x = (t, bs, m)"
  shows "sends z r (x\<lparr>st_sent := Suc (st_sent x), st_mode := At_top\<rparr>)
    (d\<lparr>nd_wire := nd_wire d @ msg_wire t bs m, nd_signals := w, nd_sender := Tx_top\<rparr>)"
proof -
  have less: "st_sent x < st_said x" using assms(1,2) by (simp add: sends_def)
  then have "take (Suc (st_sent x)) (ss_msgs r) = take (st_sent x) (ss_msgs r) @ [(t, bs, m)]"
    using st_said_le [of x] assms(3) by (simp add: take_Suc_conv_app_nth)
  moreover have "st_todo r (x\<lparr>st_sent := Suc (st_sent x), st_mode := At_top\<rparr>) = drop 1 (st_todo r x)"
    by (simp add: st_todo_def st_said_def)
  moreover have "st_said (x\<lparr>st_sent := Suc (st_sent x), st_mode := At_top\<rparr>) = st_said x" by (simp add: st_said_def)
  ultimately show ?thesis using assms(1,2) less by (simp add: sends_def)
qed

lemma write_stage:
  assumes "sends z r x d" and "nd_sender d = Tx_writing m' bs'" and "same_node d0 d" and "talks d0"
    and "\<And>xs. mset (ord xs) = mset xs"
  shows "\<exists>a n w. nd_callbacks d a = Some Cb_print \<and> st_mode x = Writing \<and>
    tx_written ord junk Written d =
      Inr (d\<lparr>nd_wire := w, nd_signals := (nd_signals d)\<lparr>sg_posted := sg_posted (nd_signals d) @ [(a, n)]\<rparr>, nd_sender := Tx_top\<rparr>) \<and>
    sends z r (x\<lparr>st_sent := Suc (st_sent x), st_mode := At_top\<rparr>)
      (d\<lparr>nd_wire := w, nd_signals := (nd_signals d)\<lparr>sg_posted := sg_posted (nd_signals d) @ [(a, n)]\<rparr>, nd_sender := Tx_top\<rparr>)"
proof -
  obtain t bs m where msg: "ss_msgs r ! st_sent x = (t, bs, m)" by (cases "ss_msgs r ! st_sent x")
  have x: "st_mode x = Writing" "m' = m" "bs' = msg_wire t bs m"
    using assms(1,2) msg by (auto simp: sends_def split: mode.splits)
  have two: "st_sent x < 2" using assms(1) x(1) st_said_le [of x] by (simp add: sends_def)
  let ?d = "d\<lparr>nd_wire := nd_wire d @ msg_wire t bs m\<rparr>"
  let ?n = "snd (ss_notices (peer r) ! st_sent x)"
  have "same_node d0 ?d" using assms(3) by (simp add: same_node_def)
  moreover have "nd_listens d0 (sig_of OUTGOING (ss_handler (st_sent x))) Cb_print" using assms(4) two by (simp add: talks_def)
  ultimately obtain a where a: "nd_callbacks d a = Some Cb_print"
      "nd_emit ord (sig_of OUTGOING (ss_handler (st_sent x))) ?n ?d =
        ?d\<lparr>nd_signals := (nd_signals d)\<lparr>sg_posted := sg_posted (nd_signals d) @ [(a, ?n)]\<rparr>\<rparr>"
    using emits [of d0 ?d _ Cb_print ord ?n] assms(5) by auto
  have "tx_written ord junk Written d =
      Inr (?d\<lparr>nd_signals := (nd_signals d)\<lparr>sg_posted := sg_posted (nd_signals d) @ [(a, ?n)]\<rparr>, nd_sender := Tx_top\<rparr>)"
    using assms(2) x a(2) ss_msgs_sent [OF two msg, of ord junk OUTGOING ?d]
    by (simp add: tx_written_def call_handler_def)
  then show ?thesis using a(1) x(1) sends_written [OF assms(1) x(1) msg] by blast
qed

section \<open>Reading\<close>

text \<open>The next message on the wire.\<close>

lemma next_on_wire:
  assumes "j < k" and "k \<le> 2" and "ss_msgs r ! j = (t, bs, m)"
  shows "drop (length (ss_wire (take j (ss_msgs r)))) (ss_wire (take k (ss_msgs r))) =
    msg_wire t bs m @ ss_wire (drop (Suc j) (take k (ss_msgs r)))"
proof -
  let ?xs = "take k (ss_msgs r)"
  have "j < length ?xs" and nth: "?xs ! j = (t, bs, m)" using assms by simp_all
  then have "?xs = take j ?xs @ (t, bs, m) # drop (Suc j) ?xs" using id_take_nth_drop [of j ?xs] by simp
  moreover have "take j ?xs = take j (ss_msgs r)" using assms(1) by (simp add: min_def)
  ultimately have "ss_wire ?xs = ss_wire (take j (ss_msgs r)) @ msg_wire t bs m @ ss_wire (drop (Suc j) ?xs)"
    using ss_wire_simps(2,3) by metis
  then show ?thesis by simp
qed

lemma read_header:
  assumes "receives junk r x (sc_user s)" and "\<not> st_half x" and "st_read x < 2" and "\<not> nd_stopped (sc_user s)"
    and "ss_msgs (peer r) ! st_read x = (t, bs, m)"
  shows "\<exists>r1. nd_received ord junk (msg_header m) s = nd_update (nd_receiver_update (\<lambda>_. Some r1)) s \<and>
    receives junk r (x\<lparr>st_half := True\<rparr>) ((sc_user s)\<lparr>nd_receiver := Some r1\<rparr>)"
proof -
  obtain r0 mem where r0: "rx_holds r0 mem" "rx_place r0 = Rx_header" "nd_receiver (sc_user s) = Some r0"
    using assms(1,2) by (auto simp: receives_def)
  obtain r1 where r1: "rx_resume junk False (msg_header m) r0 = Inr (r1, None)" "rx_place r1 = Rx_body (msg_headed m)"
    using rx_two [OF r0(1,2) ss_msgs_ok(1,3) [OF assms(3,5)]] by blast
  have "nd_received ord junk (msg_header m) s = nd_update (nd_receiver_update (\<lambda>_. Some r1)) s"
    using r0(3) r1 assms(4) by (simp add: nd_received_def nd_set_receiver_def rx_top_def Let_def nd_update_def)
  moreover have "receives junk r (x\<lparr>st_half := True\<rparr>) ((sc_user s)\<lparr>nd_receiver := Some r1\<rparr>)"
    using r0 r1 assms(5) by (auto simp: receives_def)
  ultimately show ?thesis by blast
qed

lemma read_body:
  assumes "receives junk r x (sc_user s)" and "st_half x" and "st_read x < 2" and "same_node d0 (sc_user s)" and "talks d0"
    and "ss_msgs (peer r) ! st_read x = (t, bs, m)" and "\<And>xs. mset (ord xs) = mset xs"
  shows "\<exists>r2 a. nd_callbacks (sc_user s) a = Some (fst (ss_notices r ! st_read x)) \<and>
    nd_received ord junk (msg_payload t bs m) s = nd_update (\<lambda>d. d\<lparr>nd_receiver := Some r2,
      nd_signals := (nd_signals d)\<lparr>sg_posted := sg_posted (nd_signals d) @ [(a, snd (ss_notices r ! st_read x))]\<rparr>\<rparr>) s \<and>
    receives junk r (x\<lparr>st_half := False, st_read := Suc (st_read x)\<rparr>) (d\<lparr>nd_receiver := Some r2\<rparr>)"
proof -
  obtain r0 mem r1 where r0: "rx_holds r0 mem" "rx_place r0 = Rx_header" "nd_receiver (sc_user s) = Some r1"
      "rx_resume junk False (msg_header m) r0 = Inr (r1, None)"
    using assms(1,2,6) by (auto simp: receives_def)
  obtain r2 mem2 where r2: "rx_resume junk False (msg_payload t bs m) r1 = Inr (r2, Some (msg_received t bs m))"
      "rx_holds r2 mem2" "rx_place r2 = Rx_top"
    using rx_two [OF r0(1,2) ss_msgs_ok(1,3) [OF assms(3,6)], of junk] r0(4) by auto
  let ?n = "snd (ss_notices r ! st_read x)"
  have stopped: "\<not> nd_stopped (sc_user s)" using assms(4) by (simp add: same_node_def)
  obtain a where a: "nd_callbacks (sc_user s) a = Some (fst (ss_notices r ! st_read x))"
      "nd_emit ord (sig_of INCOMING (ss_handler (st_read x))) ?n (sc_user s) =
        (sc_user s)\<lparr>nd_signals := (nd_signals (sc_user s))\<lparr>sg_posted := sg_posted (nd_signals (sc_user s)) @ [(a, ?n)]\<rparr>\<rparr>"
    using emits [OF assms(4) talks_hears [OF assms(5,3)] assms(7)] by blast
  have "nd_received ord junk (msg_payload t bs m) s = nd_update (\<lambda>d. d\<lparr>nd_receiver := Some (r2\<lparr>rx_place := Rx_header\<rparr>),
      nd_signals := (nd_signals d)\<lparr>sg_posted := sg_posted (nd_signals d) @ [(a, ?n)]\<rparr>\<rparr>) s"
    using r0(3) r2 a(2) stopped ss_msgs_ok(4) [OF assms(3,6), of ord junk INCOMING "sc_user s"]
    by (simp add: nd_received_def call_handler_def nd_set_receiver_running nd_update_def)
  moreover have "receives junk r (x\<lparr>st_half := False, st_read := Suc (st_read x)\<rparr>) (d\<lparr>nd_receiver := Some (r2\<lparr>rx_place := Rx_header\<rparr>)\<rparr>)"
    using r2(2) by (auto simp: receives_def)
  ultimately show ?thesis using a(1) by blast
qed

section \<open>Serving\<close>

text \<open>What each part of a stage reads of the node.\<close>

lemma sends_frame:
  "sends z r x d \<Longrightarrow> st_sent x' = st_sent x \<Longrightarrow> st_mode x' = st_mode x \<Longrightarrow> st_said x' = st_said x \<Longrightarrow> nd_queue d' = nd_queue d \<Longrightarrow>
    nd_wire d' = nd_wire d \<Longrightarrow> nd_sender d' = nd_sender d \<Longrightarrow> sends z r x' d'"
  by (cases "st_mode x") (auto simp: sends_def st_todo_def)

lemma receives_frame:
  "receives junk r x d \<Longrightarrow> st_half x' = st_half x \<Longrightarrow> st_read x' = st_read x \<Longrightarrow> nd_receiver d' = nd_receiver d \<Longrightarrow>
    receives junk r x' d'"
  by (simp only: receives_def)

lemma serves_frame:
  "serves r x d \<Longrightarrow> st_served x' = st_served x \<Longrightarrow> st_read x' = st_read x \<Longrightarrow> nd_signals d' = nd_signals d \<Longrightarrow>
    nd_callbacks d' = nd_callbacks d \<Longrightarrow> serves r x' d'"
  by (simp add: serves_def waiting_def)

lemma timers_frame:
  "timers t x s \<Longrightarrow> st_served x' = st_served x \<Longrightarrow> nd_halt_action d = nd_halt_action (sc_user s) \<Longrightarrow>
    nd_sync_action d = nd_sync_action (sc_user s) \<Longrightarrow> timers t x' (s\<lparr>sc_user := d\<rparr>)"
  by (cases "st_served x < 2") (auto simp: timers_def nd_syncing_def)

lemma sends_pushed:
  assumes "sends z r x d" and "st_served x = 0"
  shows "sends z r (x\<lparr>st_served := 1, st_mode := (if st_mode x = Asleep then Woken else st_mode x)\<rparr>)
    (nd_push (projr (hr_message (answer r))) d)"
proof -
  let ?m = "projr (hr_message (answer r))"
  have sent: "st_sent x \<le> 1" and said: "st_said x = 1" "st_said (x\<lparr>st_served := Suc 0\<rparr>) = 2"
    using assms by (simp_all add: sends_def st_said_def)
  have todo: "st_todo r (x\<lparr>st_served := Suc 0\<rparr>) = st_todo r x @ [?m]"
    using sent by (cases "st_sent x") (simp_all add: st_todo_def st_said_def ss_msgs_def assms(2) numeral_2_eq_2)
  have drop1: "drop (Suc 0) (st_todo r x @ [?m]) = drop (Suc 0) (st_todo r x) @ [?m]" if "st_sent x < st_said x"
    using st_todo_Nil [of x r] that by (cases "st_todo r x") simp_all
  show ?thesis
    using assms(1) sent
    by (cases "st_mode x") (auto simp: sends_def todo said drop1 nd_push_def sq_push_def sq_wake_def Let_def simp del: drop_append)
qed

text \<open>The posted callbacks, when one is added at the end or the first is taken away.\<close>

lemma waiting_posted:
  "waiting (nd_signals_update (sg_posted_update (\<lambda>ps. ps @ [(a, n)])) d) =
    waiting d @ (if the (nd_callbacks d a) = Cb_print then [] else [(the (nd_callbacks d a), n)])"
  by (simp add: waiting_def)

lemma waiting_taken:
  "sg_posted (nd_signals d) = (a, n) # ps \<Longrightarrow>
    waiting d = (if the (nd_callbacks d a) = Cb_print then [] else [(the (nd_callbacks d a), n)]) @
      waiting (nd_signals_update (sg_posted_update (\<lambda>_. ps)) d)"
  by (simp add: waiting_def)

lemma timers_accepted:
  assumes "timers t x s" and "st_served x < 2"
  shows "timers t (x\<lparr>st_served := 2\<rparr>) (nd_accepted s)" "length (sc_tasks (nd_accepted s)) = 2"
proof -
  have t: "sc_tasks s = []" "nd_halt_action (sc_user s) = Some t" "sc_actions s t = Some HALT_FN" "sc_waits s (Of_action t) = [Once t]"
    "sc_waits s (Of_slot (rate_hz 1)) = []" "sc_slots s (rate_hz 1) = None"
    using assms by (simp_all add: timers_def)
  then have "sc_tasks (nd_accepted s) = [Aborted (Once t), Remove_action t]" "sc_actions (nd_accepted s) = sc_actions s"
    by (simp_all add: nd_accepted_def Let_def sa_cancel_def io_post_def tm_cancel_def sc_schedule_def sl_emplace_def sl_actions_def
        sl_reset_timer_eq split: option.splits)
  then show "timers t (x\<lparr>st_served := 2\<rparr>) (nd_accepted s)" "length (sc_tasks (nd_accepted s)) = 2"
    using t nd_accepted_effect(1,2) [of s] by (simp_all add: timers_def)
qed

section \<open>Moves\<close>

text \<open>A move leads to a stage nearer the end; \<open>k\<close> messages of the peer are on the wire.\<close>

definition moves_on :: "(nat \<Rightarrow> byte) \<Rightarrow> nat \<Rightarrow> node_data \<Rightarrow> nat \<Rightarrow> stage \<Rightarrow> node \<Rightarrow> nat \<Rightarrow> node \<Rightarrow> bool" where
  "moves_on junk t d0 k x s p' s' \<longleftrightarrow> (\<exists>x'. at_stage junk t d0 x' s' \<and> rank x' s' < rank x s \<and>
     p' = st_pos (nd_role d0) x' \<and> st_needs x' \<le> k \<and> st_sent x \<le> st_sent x')"

lemma moves_onI:
  "at_stage junk t d0 x' s' \<Longrightarrow> rank x' s' < rank x s \<Longrightarrow> p' = st_pos (nd_role d0) x' \<Longrightarrow> st_needs x' \<le> k \<Longrightarrow>
    st_sent x \<le> st_sent x' \<Longrightarrow> moves_on junk t d0 k x s p' s'"
  unfolding moves_on_def by blast

lemma pos_stage: "st_read x' = st_read x \<Longrightarrow> st_half x' = st_half x \<Longrightarrow> st_pos r x' = st_pos r x \<and> st_needs x' = st_needs x"
  by (simp add: st_pos_def st_needs_def)

lemma fetch_move:
  assumes "at_stage junk t d0 x s" and "st_needs x \<le> k" and "tx_step (sc_user s) = Inr d" and "d \<noteq> sc_user s"
  shows "moves_on junk t d0 k x s (st_pos (nd_role d0) x) (s\<lparr>sc_user := d\<rparr>)"
proof -
  have "\<not> nd_stopped (sc_user s)" "sends (num_waiters d0) (nd_role d0) x (sc_user s)" using assms(1) by (simp_all add: at_stage_def same_node_def)
  then obtain u q e where u: "mode_rank u < mode_rank (st_mode x)" "sends (num_waiters d0) (nd_role d0) (x\<lparr>st_mode := u\<rparr>) d"
      "d = (sc_user s)\<lparr>nd_queue := q, nd_sender := e\<rparr>"
    using fetch_stage [of "num_waiters d0" "nd_role d0" x "sc_user s"] assms(3,4) by auto
  have "receives junk (nd_role d0) (x\<lparr>st_mode := u\<rparr>) d" "serves (nd_role d0) (x\<lparr>st_mode := u\<rparr>) d"
    using assms(1) by (auto simp: at_stage_def u(3) elim!: receives_frame serves_frame)
  moreover have "timers t (x\<lparr>st_mode := u\<rparr>) (s\<lparr>sc_user := d\<rparr>)"
    using assms(1) by (auto simp: at_stage_def u(3) elim!: timers_frame)
  moreover have "same_node d0 d" using assms(1) by (simp add: at_stage_def same_node_def u(3))
  moreover have "st_ok (x\<lparr>st_mode := u\<rparr>)" using assms(1) by (simp add: at_stage_def st_ok_def st_needs_def)
  ultimately have "at_stage junk t d0 (x\<lparr>st_mode := u\<rparr>) (s\<lparr>sc_user := d\<rparr>)" using u(2) by (simp add: at_stage_def)
  then show ?thesis
    by (rule moves_onI) (use u assms(2) in \<open>simp_all add: rank_def st_pos_def st_needs_def\<close>)
qed

lemma wrote_move:
  assumes "at_stage junk t d0 x s" and "st_needs x \<le> k" and "nd_sender (sc_user s) = Tx_writing m bs"
    and "talks d0" and "\<And>xs. mset (ord xs) = mset xs"
  shows "\<exists>d. tx_written ord junk Written (sc_user s) = Inr d \<and> moves_on junk t d0 k x s (st_pos (nd_role d0) x) (s\<lparr>sc_user := d\<rparr>)"
proof -
  have same: "same_node d0 (sc_user s)" and sends: "sends (num_waiters d0) (nd_role d0) x (sc_user s)" using assms(1) by (simp_all add: at_stage_def)
  obtain a n w where w: "nd_callbacks (sc_user s) a = Some Cb_print" "st_mode x = Writing"
    and d: "tx_written ord junk Written (sc_user s) = Inr ((sc_user s)\<lparr>nd_wire := w,
        nd_signals := (nd_signals (sc_user s))\<lparr>sg_posted := sg_posted (nd_signals (sc_user s)) @ [(a, n)]\<rparr>, nd_sender := Tx_top\<rparr>)"
      "sends (num_waiters d0) (nd_role d0) (x\<lparr>st_sent := Suc (st_sent x), st_mode := At_top\<rparr>) ((sc_user s)\<lparr>nd_wire := w,
        nd_signals := (nd_signals (sc_user s))\<lparr>sg_posted := sg_posted (nd_signals (sc_user s)) @ [(a, n)]\<rparr>, nd_sender := Tx_top\<rparr>)"
    using write_stage [OF sends assms(3) same assms(4,5)] by blast
  let ?x = "x\<lparr>st_sent := Suc (st_sent x), st_mode := At_top\<rparr>"
  let ?d = "(sc_user s)\<lparr>nd_wire := w,
        nd_signals := (nd_signals (sc_user s))\<lparr>sg_posted := sg_posted (nd_signals (sc_user s)) @ [(a, n)]\<rparr>, nd_sender := Tx_top\<rparr>"
  have "st_sent x < 2" using sends w(2) st_said_le [of x] by (simp add: sends_def)
  moreover have "receives junk (nd_role d0) ?x ?d" using assms(1) by (auto simp: at_stage_def elim!: receives_frame)
  moreover have "serves (nd_role d0) ?x ?d" using assms(1) w(1) by (auto simp: at_stage_def serves_def waiting_def)
  moreover have "timers t ?x (s\<lparr>sc_user := ?d\<rparr>)" using assms(1) by (auto simp: at_stage_def elim!: timers_frame)
  moreover have "same_node d0 ?d" "st_ok ?x" using assms(1) by (simp_all add: at_stage_def same_node_def st_ok_def st_needs_def)
  ultimately have "moves_on junk t d0 k x s (st_pos (nd_role d0) x) (s\<lparr>sc_user := ?d\<rparr>)"
    using d(2) w(2) assms(2)
    by (intro moves_onI [where x' = ?x]) (simp_all add: at_stage_def rank_def st_pos_def st_needs_def)
  then show ?thesis using d(1) by blast
qed

text \<open>The bytes a completed read holds: the header or the rest of the next message of the peer.\<close>

lemma bytes_to_read:
  assumes "receives junk r x d" and "nd_receiver d = Some r1" and "st_needs x \<le> k" and "k \<le> 2"
    and "rx_place r1 = Rx_header \<or> (\<exists>m. rx_place r1 = Rx_body m)"
    and "st_pos r x + rx_wants r1 \<le> length (ss_wire (take k (ss_msgs (peer r))))"
    and "ss_msgs (peer r) ! st_read x = (t, bs, m)"
  shows "st_read x < k" "take (rx_wants r1) (drop (st_pos r x) (ss_wire (take k (ss_msgs (peer r))))) =
    (if st_half x then msg_payload t bs m else msg_header m)"
    "rx_wants r1 = (if st_half x then length (msg_payload t bs m) else msg_HeaderSize)"
proof -
  obtain r0 mem where r0: "rx_holds r0 mem" "rx_place r0 = Rx_header"
      "if st_half x then rx_resume junk False (msg_header m) r0 = Inr (r1, None) else r1 = r0"
    using assms(1,2,7) by (auto simp: receives_def split: if_splits)
  have pos: "0 < rx_wants r1" if "\<not> st_half x" using that r0 by (simp add: rx_wants_def msg_HeaderSize_def)
  show less: "st_read x < k"
  proof (rule ccontr)
    assume "\<not> st_read x < k"
    then have "st_read x = k" "\<not> st_half x" using assms(3) by (auto simp: st_needs_def split: if_splits)
    then show False using assms(6) pos by (simp add: st_pos_def)
  qed
  then have two: "st_read x < 2" using assms(4) by simp
  note ok = ss_msgs_ok(1,3) [OF two assms(7)]
  have body: "rx_place r1 = Rx_body (msg_headed m)" if "st_half x"
    using rx_two [OF r0(1,2) ok, of junk] r0(3) that by auto
  show wants: "rx_wants r1 = (if st_half x then length (msg_payload t bs m) else msg_HeaderSize)"
    using body r0 length_msg_payload [OF ok(1)] by (auto simp: rx_wants_def)
  have "drop (st_pos r x) (ss_wire (take k (ss_msgs (peer r)))) =
      drop (if st_half x then msg_HeaderSize else 0) (msg_wire t bs m @ ss_wire (drop (Suc (st_read x)) (take k (ss_msgs (peer r)))))"
    using next_on_wire [OF less assms(4,7)] by (simp add: st_pos_def add.commute flip: drop_drop)
  then show "take (rx_wants r1) (drop (st_pos r x) (ss_wire (take k (ss_msgs (peer r))))) =
    (if st_half x then msg_payload t bs m else msg_header m)"
    unfolding wants by (simp add: msg_wire_payload)
qed

lemma received_move:
  assumes "at_stage junk t d0 x s" and "st_needs x \<le> k" and "k \<le> 2" and "nd_receiver (sc_user s) = Some r1"
    and "rx_place r1 = Rx_header \<or> (\<exists>m. rx_place r1 = Rx_body m)" and "talks d0" and "\<And>xs. mset (ord xs) = mset xs"
    and "st_pos (nd_role d0) x + rx_wants r1 \<le> length (ss_wire (take k (ss_msgs (peer (nd_role d0)))))"
  shows "moves_on junk t d0 k x s (st_pos (nd_role d0) x + rx_wants r1) (nd_received ord junk
    (take (rx_wants r1) (drop (st_pos (nd_role d0) x) (ss_wire (take k (ss_msgs (peer (nd_role d0))))))) s)"
proof -
  let ?r = "nd_role d0"
  obtain ty bs m where msg: "ss_msgs (peer ?r) ! st_read x = (ty, bs, m)" by (cases "ss_msgs (peer ?r) ! st_read x")
  have at: "st_ok x" "same_node d0 (sc_user s)" "sends (num_waiters d0) ?r x (sc_user s)" "receives junk ?r x (sc_user s)" "serves ?r x (sc_user s)"
    "timers t x s" using assms(1) by (simp_all add: at_stage_def)
  note b = bytes_to_read [OF at(4) assms(4,2,3,5,8) msg]
  have two: "st_read x < 2" using b(1) assms(3) by simp
  have stopped: "\<not> nd_stopped (sc_user s)" using at(2) by (simp add: same_node_def)
  show ?thesis
  proof (cases "st_half x")
    case False
    let ?x = "x\<lparr>st_half := True\<rparr>"
    obtain r2 where r2: "nd_received ord junk (msg_header m) s = nd_update (nd_receiver_update (\<lambda>_. Some r2)) s"
        "receives junk ?r ?x ((sc_user s)\<lparr>nd_receiver := Some r2\<rparr>)"
      using read_header [OF at(4) False two stopped msg] by blast
    let ?d = "(sc_user s)\<lparr>nd_receiver := Some r2\<rparr>"
    have "sends (num_waiters d0) ?r ?x ?d" using at(3) by (auto simp: st_said_def elim!: sends_frame)
    moreover have "serves ?r ?x ?d" using at(5) by (auto elim!: serves_frame)
    moreover have "timers t ?x (s\<lparr>sc_user := ?d\<rparr>)" using at(6) by (auto elim!: timers_frame)
    moreover have "same_node d0 ?d" "st_ok ?x" using at(1,2) b(1) assms(3) by (simp_all add: same_node_def st_ok_def st_needs_def)
    ultimately have "moves_on junk t d0 k x s (st_pos ?r x + msg_HeaderSize) (s\<lparr>sc_user := ?d\<rparr>)"
      using r2(2) b(1) False
      by (intro moves_onI [where x' = ?x]) (simp_all add: at_stage_def rank_def st_pos_def st_needs_def)
    then show ?thesis using r2(1) b(2,3) False by (simp add: nd_update_def)
  next
    case True
    let ?x = "x\<lparr>st_half := False, st_read := Suc (st_read x)\<rparr>"
    let ?n = "snd (ss_notices ?r ! st_read x)"
    obtain r2 a where r2: "nd_callbacks (sc_user s) a = Some (fst (ss_notices ?r ! st_read x))"
        "nd_received ord junk (msg_payload ty bs m) s = nd_update (\<lambda>d. d\<lparr>nd_receiver := Some r2,
          nd_signals := (nd_signals d)\<lparr>sg_posted := sg_posted (nd_signals d) @ [(a, ?n)]\<rparr>\<rparr>) s"
      and rec: "receives junk ?r ?x ((sc_user s)\<lparr>nd_receiver := Some r2\<rparr>)"
      using read_body [OF at(4) True two at(2) assms(6) msg assms(7)] by blast
    let ?d = "(sc_user s)\<lparr>nd_receiver := Some r2,
      nd_signals := (nd_signals (sc_user s))\<lparr>sg_posted := sg_posted (nd_signals (sc_user s)) @ [(a, ?n)]\<rparr>\<rparr>"
    have "sends (num_waiters d0) ?r ?x ?d" using at(3) by (auto simp: st_said_def elim!: sends_frame)
    moreover have "receives junk ?r ?x ?d" using rec by (auto elim!: receives_frame)
    moreover have "serves ?r ?x ?d"
    proof -
      have "fst (ss_notices ?r ! st_read x) \<noteq> Cb_print" using two by (auto simp: ss_notices_def less_2_cases_iff)
      then have "waiting ?d = waiting (sc_user s) @ [ss_notices ?r ! st_read x]"
        using r2(1) by (cases "ss_notices ?r ! st_read x") (simp add: waiting_def)
      moreover have "take (Suc (st_read x)) (ss_notices ?r) = take (st_read x) (ss_notices ?r) @ [ss_notices ?r ! st_read x]"
        using two by (simp add: take_Suc_conv_app_nth)
      ultimately show ?thesis using at(1,5) r2(1) two by (auto simp: serves_def st_ok_def)
    qed
    moreover have "timers t ?x (s\<lparr>sc_user := ?d\<rparr>)" using at(6) by (auto elim!: timers_frame)
    moreover have "same_node d0 ?d" "st_ok ?x" using at(1,2) b(1) assms(3) by (simp_all add: same_node_def st_ok_def st_needs_def)
    moreover have "st_pos ?r ?x = st_pos ?r x + length (msg_payload ty bs m)"
      using True two msg by (simp add: st_pos_def take_Suc_conv_app_nth msg_wire_payload)
    ultimately have "moves_on junk t d0 k x s (st_pos ?r x + length (msg_payload ty bs m)) (s\<lparr>sc_user := ?d\<rparr>)"
      using b(1) two True
      by (intro moves_onI [where x' = ?x]) (simp_all add: at_stage_def rank_def st_needs_def)
    then show ?thesis using r2(2) b(2,3) True by (simp add: nd_update_def)
  qed
qed

text \<open>Ready work: the first callback, and the tasks that \<open>cancel\<close> leaves behind.\<close>

lemma serve_notice:
  assumes "serves r x d" and "sg_posted (nd_signals d) = (a, n) # ps" and "nd_callbacks d a = Some cb" and "cb \<noteq> Cb_print"
  shows "st_served x < st_read x" "st_served x < 2 \<Longrightarrow> (cb, n) = ss_notices r ! st_served x"
    "serves r (x\<lparr>st_served := Suc (st_served x)\<rparr>) (nd_signals_update (sg_posted_update (\<lambda>_. ps)) d)"
proof -
  let ?ns = "take (st_read x) (ss_notices r)"
  let ?d = "nd_signals_update (sg_posted_update (\<lambda>_. ps)) d"
  have split: "drop (st_served x) ?ns = (cb, n) # waiting ?d"
    using assms by (simp add: serves_def waiting_taken)
  then have len: "st_served x < length ?ns" by (metis drop_all list.distinct(1) not_le)
  then show "st_served x < st_read x" by simp
  have "(cb, n) = ?ns ! st_served x" "waiting ?d = drop (Suc (st_served x)) ?ns"
    using Cons_nth_drop_Suc [OF len] split by simp_all
  then show "st_served x < 2 \<Longrightarrow> (cb, n) = ss_notices r ! st_served x" "serves r (x\<lparr>st_served := Suc (st_served x)\<rparr>) ?d"
    using assms(1,2) len by (simp_all add: serves_def)
qed

lemma serve_move:
  assumes "at_stage junk t d0 x s" and "st_needs x \<le> k" and "sg_posted (nd_signals (sc_user s)) \<noteq> []"
  shows "moves_on junk t d0 k x s (st_pos (nd_role d0) x) (nd_step self other polled Posted s)"
proof -
  let ?r = "nd_role d0"
  obtain a n ps where ps: "sg_posted (nd_signals (sc_user s)) = (a, n) # ps"
    using assms(3) by (metis list.exhaust prod.exhaust)
  have at: "st_ok x" "same_node d0 (sc_user s)" "sends (num_waiters d0) ?r x (sc_user s)" "receives junk ?r x (sc_user s)" "serves ?r x (sc_user s)"
    "timers t x s" using assms(1) by (simp_all add: at_stage_def)
  obtain cb where cb: "nd_callbacks (sc_user s) a = Some cb" using at(5) ps by (auto simp: serves_def)
  let ?d = "nd_signals_update (sg_posted_update (\<lambda>_. ps)) (sc_user s)"
  let ?s = "nd_update (nd_signals_update (sg_posted_update (\<lambda>_. ps))) s"
  define s' where "s' = nd_step self other polled Posted s"
  have s': "s' = nd_callback (\<lambda>s. snd (nd_halt self other False polled s)) cb n ?s"
    using ps cb at(2) by (simp add: s'_def nd_step_def nd_ready_def nd_serve_def same_node_def)
  have role: "nd_role (sc_user s) = ?r" using at(2) by (simp add: same_node_def)
  have s_eq: "?s = s\<lparr>sc_user := ?d\<rparr>" by (simp add: nd_update_def)
  have same: "same_node d0 ?d" using at(2) by (simp add: same_node_def)
  have sends: "sends (num_waiters d0) ?r x ?d" using at(3) by (auto elim!: sends_frame)
  have rec: "receives junk ?r x ?d" using at(4) by (auto elim!: receives_frame)
  have tim: "timers t x ?s" unfolding s_eq using at(6) by (auto elim!: timers_frame)
  have lenps: "length (sg_posted (nd_signals (sc_user s))) = Suc (length ps)" using ps by simp
  show ?thesis
  proof (cases "cb = Cb_print")
    case True
    then have "serves ?r x ?d" using at(5) ps cb by (simp add: serves_def waiting_taken)
    moreover have "s' = ?s" by (simp add: s' True nd_callback_def)
    ultimately show ?thesis
      unfolding s'_def [symmetric] using at(1) same sends rec tim assms(2) lenps
      by (intro moves_onI [where x' = x]) (simp_all add: at_stage_def rank_def)
  next
    case False
    note n = serve_notice [OF at(5) ps cb False]
    have less: "st_served x < 2" using n(1) at(1) by (simp add: st_ok_def st_needs_def split: if_splits)
    show ?thesis
    proof (cases "st_served x")
      case 0
      let ?x = "x\<lparr>st_served := 1, st_mode := (if st_mode x = Asleep then Woken else st_mode x)\<rparr>"
      have "cb = Cb_handshake" "n = A_handshake (hello (peer ?r))" using n(2) less by (simp_all add: 0 ss_notices_def)
      then have s': "s' = nd_update (nd_push (projr (hr_message (answer ?r)))) ?s"
        using hr_message_ok [of "answer ?r"] role by (auto simp: s' nd_callback_def answer_def)
      let ?d' = "nd_push (projr (hr_message (answer ?r))) ?d"
      have user: "s' = ?s\<lparr>sc_user := ?d'\<rparr>" by (simp add: s' nd_update_def)
      have "serves ?r (x\<lparr>st_served := Suc (st_served x)\<rparr>) ?d" using n(3) .
      then have "serves ?r ?x ?d'" by (rule serves_frame) (simp_all add: 0)
      moreover have "sends (num_waiters d0) ?r ?x ?d'" using sends_pushed [OF sends 0] .
      moreover have "receives junk ?r ?x ?d'" using rec by (auto elim!: receives_frame)
      moreover have "same_node d0 ?d'" using same by (simp add: same_node_def nd_push_def)
      moreover have "timers t ?x s'" using tim 0 unfolding user timers_def by (simp add: nd_push_def)
      moreover have "st_ok ?x" using at(1) n(1) by (simp add: st_ok_def st_needs_def)
      moreover have "length (sc_tasks s') = length (sc_tasks s)" by (simp add: s')
      moreover have "mode_rank (st_mode ?x) \<le> mode_rank (st_mode x) + 2" by (cases "st_mode x") simp_all
      ultimately show ?thesis
        unfolding s'_def [symmetric] using assms(2) lenps 0
        by (intro moves_onI [where x' = ?x]) (simp_all add: at_stage_def rank_def st_pos_def st_needs_def user)
    next
      case (Suc i)
      then have one: "st_served x = 1" using less by simp
      let ?x = "x\<lparr>st_served := 2\<rparr>"
      have "cb = Cb_response" "n = A_response (answer (peer ?r))" using n(2) less by (simp_all add: one ss_notices_def)
      then have s': "s' = nd_accepted ?s" using answer_accepts [of "peer ?r"] by (simp add: s' nd_callback_def)
      have user: "sc_user s' = ?d\<lparr>nd_halt_action := None, nd_sync_action := Some (sc_next s)\<rparr>"
        using nd_accepted_effect(3) [of ?s] by (simp add: s')
      have "serves ?r (x\<lparr>st_served := Suc (st_served x)\<rparr>) ?d" using n(3) .
      then have "serves ?r ?x (sc_user s')" by (rule serves_frame) (simp_all add: one user)
      moreover have "sends (num_waiters d0) ?r ?x (sc_user s')" using sends one by (auto simp: user st_said_def elim!: sends_frame)
      moreover have "receives junk ?r ?x (sc_user s')" using rec by (auto simp: user elim!: receives_frame)
      moreover have "same_node d0 (sc_user s')" using same by (simp add: same_node_def user)
      moreover have "timers t ?x s'" "length (sc_tasks s') = 2" using timers_accepted [OF tim less] by (simp_all add: s')
      moreover have "st_ok ?x" using at(1) n(1) one by (simp add: st_ok_def st_needs_def)
      ultimately show ?thesis
        unfolding s'_def [symmetric] using assms(2) lenps one
        by (intro moves_onI [where x' = ?x]) (simp_all add: at_stage_def rank_def st_pos_def st_needs_def user)
    qed
  qed
qed

lemma task_move:
  assumes "at_stage junk t d0 x s" and "st_needs x \<le> k" and "sc_tasks s \<noteq> []"
  shows "moves_on junk t d0 k x s (st_pos (nd_role d0) x) (nd_step self other polled Task s)"
proof -
  define s' where "s' = nd_step self other polled Task s"
  have alive: "nd_outcome (sc_user s) = Alive" using assms(1) by (simp add: at_stage_def same_node_def)
  have two: "\<not> st_served x < 2" using assms(1,3) by (auto simp: at_stage_def timers_def)
  then have t: "nd_syncing s" "sc_waits s (Of_action t) = []"
    "sc_tasks s = [Aborted (Once t), Remove_action t] \<and> sc_actions s t \<noteq> None \<or> sc_tasks s = [Remove_action t]"
    using assms(1,3) by (auto simp: at_stage_def timers_def)
  have "s' = (if length (sc_tasks s) = 2 then s\<lparr>sc_tasks := [Remove_action t]\<rparr> else sc_remove_action t (s\<lparr>sc_tasks := []\<rparr>))"
    using t(3) alive by (auto simp: s'_def nd_step_def nd_ready_def io_run_one_def)
  then have "timers t x s' \<and> sc_user s' = sc_user s \<and> length (sc_tasks s') < length (sc_tasks s)"
    using t two by (auto simp: timers_def nd_syncing_def sc_remove_action_def sa_destroy_def tm_cancel_def sl_actions_def)
  then show ?thesis
    unfolding s'_def [symmetric] using assms(1,2)
    by (intro moves_onI [where x' = x]) (simp_all add: at_stage_def rank_def)
qed

text \<open>Every move of a node, and a node that has none left.\<close>

lemma node_moves:
  assumes "ss_moves ord junk (ss_wire (take k (ss_msgs (peer (nd_role d0))))) s (st_pos (nd_role d0) x) s' p'"
    and "at_stage junk t d0 x s" and "st_needs x \<le> k" and "k \<le> 2" and "talks d0" and "\<And>xs. mset (ord xs) = mset xs"
  shows "moves_on junk t d0 k x s p' s'"
  using assms(1)
proof (cases rule: ss_moves.cases)
  case (fetch_fault e)
  then show ?thesis using fetch_stage [of "num_waiters d0" "nd_role d0" x "sc_user s"] assms(2) by (auto simp: at_stage_def same_node_def)
next
  case (wrote m bs d)
  then show ?thesis using wrote_move [OF assms(2,3) _ assms(5,6)] by fastforce
next
  case (wrote_fault m bs e)
  then show ?thesis using wrote_move [OF assms(2,3) _ assms(5,6)] by fastforce
next
  case (request self other polled)
  then show ?thesis using assms(2) by (simp add: at_stage_def same_node_def)
next
  case (serve self other polled)
  then show ?thesis using serve_move [OF assms(2,3)] by simp
next
  case (task self other polled)
  then show ?thesis using task_move [OF assms(2,3)] by simp
next
  case (fetch d)
  then show ?thesis using fetch_move [OF assms(2,3)] by simp
next
  case (received r1)
  then show ?thesis using received_move [OF assms(2-4) _ _ assms(5,6)] by simp
qed

lemma node_stuck:
  assumes "\<nexists>s' p'. ss_moves ord junk (ss_wire (take k (ss_msgs (peer (nd_role d0))))) s (st_pos (nd_role d0) x) s' p'"
    and "at_stage junk t d0 x s" and "st_needs x \<le> k" and "k \<le> 2" and "talks d0" and "\<And>xs. mset (ord xs) = mset xs"
  shows "st_mode x = Asleep \<and> sc_tasks s = [] \<and> sg_posted (nd_signals (sc_user s)) = [] \<and> \<not> st_half x \<and> st_read x = k \<and>
    st_served x = k \<and> st_sent x = st_said x"
proof -
  let ?r = "nd_role d0"
  have at: "st_ok x" "same_node d0 (sc_user s)" "sends (num_waiters d0) ?r x (sc_user s)" "receives junk ?r x (sc_user s)" "serves ?r x (sc_user s)"
    using assms(2) by (simp_all add: at_stage_def)
  have "st_mode x \<noteq> Writing"
  proof
    assume "st_mode x = Writing"
    then obtain m bs where sender: "nd_sender (sc_user s) = Tx_writing m bs" using at(3) by (auto simp: sends_def split: prod.splits)
    then obtain d where "tx_written ord junk Written (sc_user s) = Inr d" using wrote_move [OF assms(2,3) _ assms(5,6)] by blast
    then show False using assms(1) ss_moves.wrote [OF sender] by blast
  qed
  moreover have "\<not> nd_stopped (sc_user s)" using at(2) by (simp add: same_node_def)
  ultimately have mode: "st_mode x = Asleep" using fetch_goes_on [OF at(3)] assms(1) ss_moves.fetch by metis
  have quiet: "sg_posted (nd_signals (sc_user s)) = []" "sc_tasks s = []" using assms(1) ss_moves.serve ss_moves.task by metis+
  obtain t' bs m where msg: "ss_msgs (peer ?r) ! st_read x = (t', bs, m)" by (cases "ss_msgs (peer ?r) ! st_read x")
  have read: "\<not> st_read x < k"
  proof
    assume less: "st_read x < k"
    then have two: "st_read x < 2" using assms(4) by simp
    note ok = ss_msgs_ok(1,3) [OF two msg]
    obtain r1 where r1: "nd_receiver (sc_user s) = Some r1"
        "rx_place r1 = (if st_half x then Rx_body (msg_headed m) else Rx_header)"
      using at(4) rx_two [OF _ _ ok, of _ _ junk] msg by (fastforce simp: receives_def split: if_splits)
    then have "rx_wants r1 = (if st_half x then length (msg_payload t' bs m) else msg_HeaderSize)"
      using length_msg_payload [OF ok(1)] by (simp add: rx_wants_def)
    moreover have "length (ss_wire (take (Suc (st_read x)) (ss_msgs (peer ?r)))) \<le> length (ss_wire (take k (ss_msgs (peer ?r))))"
      using less by (metis Suc_leI append_take_drop_id le_add1 length_append min.absorb1 ss_wire_simps(3) take_take)
    ultimately have "st_pos ?r x + rx_wants r1 \<le> length (ss_wire (take k (ss_msgs (peer ?r))))"
      using two msg by (simp add: st_pos_def take_Suc_conv_app_nth msg_wire_payload split: if_splits)
    then show False using assms(1) ss_moves.received [OF r1(1)] r1(2) by (metis (full_types))
  qed
  then have "\<not> st_half x" "st_read x = k" using assms(3) by (auto simp: st_needs_def split: if_splits)
  moreover have "st_served x = k"
    using at(1,5) quiet(1) read assms(4) calculation by (auto simp: serves_def waiting_def st_ok_def)
  moreover have "st_sent x = st_said x" using at(3) mode st_todo_Nil [of x ?r] by (simp add: sends_def)
  ultimately show ?thesis using mode quiet by simp
qed

section \<open>The two nodes together\<close>

text \<open>One node of a session, which has read \<open>p\<close> bytes of the \<open>k\<close> messages its peer has written.\<close>

definition ss_side :: "(nat \<Rightarrow> byte) \<Rightarrow> node_data \<Rightarrow> nat \<Rightarrow> stage \<Rightarrow> node \<Rightarrow> nat \<Rightarrow> bool" where
  "ss_side junk d0 k x s p \<longleftrightarrow> at_stage junk 0 d0 x s \<and> p = st_pos (nd_role d0) x \<and> st_needs x \<le> k \<and> talks d0"

definition ss_inv :: "(nat \<Rightarrow> byte) \<Rightarrow> node_data \<Rightarrow> node_data \<Rightarrow> stage \<Rightarrow> stage \<Rightarrow> session \<Rightarrow> bool" where
  "ss_inv junk da db x y s \<longleftrightarrow> nd_role db = peer (nd_role da) \<and>
     ss_side junk da (st_sent y) x (ss_a s) (ss_read_a s) \<and> ss_side junk db (st_sent x) y (ss_b s) (ss_read_b s)"

lemma at_stage_sent:
  "at_stage junk t d0 x s \<Longrightarrow> st_sent x \<le> 2 \<and> nd_wire (sc_user s) = ss_wire (take (st_sent x) (ss_msgs (nd_role d0)))"
  using st_said_le [of x] le_trans unfolding at_stage_def sends_def by blast

lemma ss_inv_sides:
  assumes "ss_inv junk da db x y s"
  shows "at_stage junk 0 da x (ss_a s)" "at_stage junk 0 db y (ss_b s)" "st_needs x \<le> st_sent y" "st_needs y \<le> st_sent x"
    "ss_read_a s = st_pos (nd_role da) x" "ss_read_b s = st_pos (nd_role db) y" "talks da" "talks db"
    "peer (nd_role da) = nd_role db" "peer (nd_role db) = nd_role da" "st_sent x \<le> 2" "st_sent y \<le> 2"
    "nd_wire (sc_user (ss_a s)) = ss_wire (take (st_sent x) (ss_msgs (nd_role da)))"
    "nd_wire (sc_user (ss_b s)) = ss_wire (take (st_sent y) (ss_msgs (nd_role db)))"
  using assms at_stage_sent by (auto simp: ss_inv_def ss_side_def)

lemma ss_step_inv:
  assumes "ss_step ord junk s s'" and "ss_inv junk da db x y s" and "\<And>xs. mset (ord xs) = mset xs"
  shows "\<exists>x' y'. ss_inv junk da db x' y' s' \<and> rank x' (ss_a s') + rank y' (ss_b s') < rank x (ss_a s) + rank y (ss_b s)"
  using assms(1)
proof (cases rule: ss_step.cases)
  note i = ss_inv_sides [OF assms(2)]
  {
    case (step_a n p)
    then obtain x' where "at_stage junk 0 da x' n" "rank x' n < rank x (ss_a s)" "p = st_pos (nd_role da) x'"
        "st_needs x' \<le> st_sent y" "st_sent x \<le> st_sent x'"
      using node_moves [of ord junk "st_sent y" da "ss_a s" x n p 0] i assms(3) by (auto simp: moves_on_def)
    then show ?thesis using assms(2) step_a(1) by (intro exI [of _ x'] exI [of _ y]) (auto simp: ss_inv_def ss_side_def)
  next
    case (step_b n p)
    then obtain y' where "at_stage junk 0 db y' n" "rank y' n < rank y (ss_b s)" "p = st_pos (nd_role db) y'"
        "st_needs y' \<le> st_sent x" "st_sent y \<le> st_sent y'"
      using node_moves [of ord junk "st_sent x" db "ss_b s" y n p 0] i assms(3) by (auto simp: moves_on_def)
    then show ?thesis using assms(2) step_b(1) by (intro exI [of _ x] exI [of _ y']) (auto simp: ss_inv_def ss_side_def)
  }
qed

lemma ss_run_inv:
  assumes "ss_run ord junk n s s'" and "ss_inv junk da db x y s" and "\<And>xs. mset (ord xs) = mset xs"
  shows "\<exists>x' y'. ss_inv junk da db x' y' s' \<and> n + rank x' (ss_a s') + rank y' (ss_b s') \<le> rank x (ss_a s) + rank y (ss_b s)"
  using assms(1,2)
proof (induction rule: ss_run.induct)
  case (run_step n s s' s'')
  then obtain x' y' where i: "ss_inv junk da db x' y' s'"
      "n + rank x' (ss_a s') + rank y' (ss_b s') \<le> rank x (ss_a s) + rank y (ss_b s)" by blast
  then obtain x'' y'' where "ss_inv junk da db x'' y'' s''"
      "rank x'' (ss_a s'') + rank y'' (ss_b s'') < rank x' (ss_a s') + rank y' (ss_b s')"
    using ss_step_inv [OF run_step.hyps(2) _ assms(3)] by blast
  then show ?case using i(2) by (intro exI conjI) (assumption, simp)
qed auto

text \<open>An established session: the hellos and the answers are all that was said, and both nodes sync.\<close>

definition node_talks :: "configuration \<Rightarrow> node \<Rightarrow> bool" where
  "node_talks c s \<longleftrightarrow> nd_ready_to_talk s \<and> nd_syncing s \<and> sc_waits s (Of_action 0) = [] \<and> nd_configuration (sc_user s) = c"

definition ss_established :: "configuration \<Rightarrow> configuration \<Rightarrow> session \<Rightarrow> bool" where
  "ss_established c c' s \<longleftrightarrow> node_talks c (ss_a s) \<and> node_talks c' (ss_b s) \<and>
     ss_read_a s = length (nd_wire (sc_user (ss_b s))) \<and> ss_read_b s = length (nd_wire (sc_user (ss_a s)))"

lemma node_talks_stage:
  assumes "at_stage junk 0 (sc_user s0) x s" and "nd_ready_to_talk s0" and "st_served x = 2" and "\<not> st_half x"
    and "sg_posted (nd_signals (sc_user s)) = []"
  shows "node_talks (nd_configuration (sc_user s0)) s"
proof -
  have same: "same_node (sc_user s0) (sc_user s)" using assms(1) by (simp add: at_stage_def)
  have "sg_signals ((nd_signals (sc_user s))\<lparr>sg_posted := []\<rparr>) = sg_signals (nd_signals (sc_user s0))"
    using same by (simp add: same_node_def)
  then have "sg_actions (nd_signals (sc_user s)) i = sg_actions (nd_signals (sc_user s0)) i" for i by (simp add: sg_actions_def)
  then have "nd_ready_to_talk s"
    using assms same same_node_listens [OF same]
    by (auto simp: nd_ready_to_talk_def nd_receiving_def at_stage_def receives_def same_node_def)
  then show ?thesis using assms(1,3) same by (simp add: node_talks_def at_stage_def timers_def same_node_def)
qed

lemma ss_stuck:
  assumes "\<nexists>s'. ss_step ord junk s s'" and "ss_inv junk (sc_user a) (sc_user b) x y s" and "\<And>xs. mset (ord xs) = mset xs"
    and "nd_ready_to_talk a" and "nd_ready_to_talk b"
  shows "ss_established (nd_configuration (sc_user a)) (nd_configuration (sc_user b)) s"
proof -
  note i = ss_inv_sides [OF assms(2)]
  have "\<nexists>n p. ss_moves ord junk (nd_wire (sc_user (ss_b s))) (ss_a s) (ss_read_a s) n p" using assms(1) ss_step.step_a by blast
  from this [unfolded i(5,14) i(9) [symmetric]]
  have x: "st_mode x = Asleep \<and> sc_tasks (ss_a s) = [] \<and> sg_posted (nd_signals (sc_user (ss_a s))) = [] \<and> \<not> st_half x \<and>
      st_read x = st_sent y \<and> st_served x = st_sent y \<and> st_sent x = st_said x"
    by (rule node_stuck [OF _ i(1,3,12,7) assms(3)])
  have "\<nexists>n p. ss_moves ord junk (nd_wire (sc_user (ss_a s))) (ss_b s) (ss_read_b s) n p" using assms(1) ss_step.step_b by blast
  from this [unfolded i(6,13) i(10) [symmetric]]
  have y: "st_mode y = Asleep \<and> sc_tasks (ss_b s) = [] \<and> sg_posted (nd_signals (sc_user (ss_b s))) = [] \<and> \<not> st_half y \<and>
      st_read y = st_sent x \<and> st_served y = st_sent x \<and> st_sent y = st_said y"
    by (rule node_stuck [OF _ i(2,4,11,8) assms(3)])
  have "st_sent x = st_said x" "st_served x = st_sent y" "st_sent y = st_said y" "st_served y = st_sent x" using x y by blast+
  then have two: "st_sent x = 2" "st_sent y = 2" unfolding st_said_def by (metis zero_neq_numeral zero_neq_one)+
  have "node_talks (nd_configuration (sc_user a)) (ss_a s)"
    by (rule node_talks_stage [OF i(1) assms(4)]) (use x two(2) in simp_all)
  moreover have "node_talks (nd_configuration (sc_user b)) (ss_b s)"
    by (rule node_talks_stage [OF i(2) assms(5)]) (use y two(1) in simp_all)
  moreover have half: "\<not> st_half x" "\<not> st_half y" and reads: "st_read x = st_sent y" "st_read y = st_sent x" using x y by blast+
  have "ss_read_a s = length (nd_wire (sc_user (ss_b s)))" "ss_read_b s = length (nd_wire (sc_user (ss_a s)))"
    unfolding i(5,6,13,14) st_pos_def i(9,10) using half reads by simp_all
  ultimately show ?thesis by (simp add: ss_established_def)
qed

section \<open>The start\<close>

lemma ss_node_launched: "ss_node junk now n c role =
    nd_update (nd_configuration_update (\<lambda>_. c)) (snd (nd_launch junk (nd_new now n role)))"
proof -
  obtain m where m: "hs_message role = Inr m" using hs_message_ok by blast
  obtain p where p: "wp_launch (wp_make 6) = Inr (True, p)" using wp_launch_full [OF wp_make_idle, of 6] by auto
  obtain r where r: "rx_start junk = Inr r" using rx_start_holds by blast
  have idle: "wp_running False (wp_make 6) = Inr False" using wp_make_idle(2) [of 6] by (simp add: wp_running_def)
  show ?thesis
    by (simp add: ss_node_def nd_launch_def nd_new_fields m p r idle nd_update_def nd_push_def
        sc_set_timer_def sa_make_def sa_reset_def timer_defs Let_def)
qed

lemma ss_node_starts:
  "nd_ready_to_talk (ss_node junk now n c role)" "talks (sc_user (ss_node junk now n c role))"
  "nd_role (sc_user (ss_node junk now n c role)) = role" "nd_configuration (sc_user (ss_node junk now n c role)) = c"
  "at_stage junk' 0 (sc_user (ss_node junk now n c role)) st_start (ss_node junk now n c role)"
  "rank st_start (ss_node junk now n c role) = 41"
proof -
  obtain s m where s: "nd_launch junk (nd_new now n role) = (True, s)" and ready: "nd_ready_to_talk s"
    and role: "nd_role (sc_user s) = role" and m: "hs_message role = Inr m" "sq_items (nd_queue (sc_user s)) = [m]"
    and sender: "nd_sender (sc_user s) = Tx_top" "\<not> sq_aborted (nd_queue (sc_user s))" "nd_wire (sc_user s) = []"
      "sq_entering (nd_queue (sc_user s)) = []" "sq_sleeping (nd_queue (sc_user s)) = []" "sq_woken (nd_queue (sc_user s)) = []"
    and timer: "nd_halt_action (sc_user s) = Some 0" "sc_actions s 0 = Some HALT_FN" "sc_waits s (Of_action 0) = [Once 0]"
      "sc_tasks s = []" "sc_slots s = (\<lambda>_. None)" "sc_waits s (Of_slot (rate_hz 1)) = []" "nd_requests (sc_user s) = 0"
      "\<not> sc_moved s 0" "nd_sync_action (sc_user s) = None" "sc_expiry s (Of_action 0) = now + 5000000000" "sc_now s = now"
      "sc_next s = 1"
    and z: "sq_num_waiters (nd_queue (sc_user s)) = n"
    and out: "nd_listens (sc_user s) (sig_of OUTGOING H_handshake) Cb_print" "nd_listens (sc_user s) (sig_of OUTGOING H_response) Cb_print"
    using nd_launch_new [of junk now n role] by blast
  let ?s = "nd_update (nd_configuration_update (\<lambda>_. c)) s"
  have node: "ss_node junk now n c role = ?s" by (simp add: ss_node_launched s)
  show "nd_role (sc_user (ss_node junk now n c role)) = role" "nd_configuration (sc_user (ss_node junk now n c role)) = c"
    by (simp_all add: node role)
  show talk: "nd_ready_to_talk (ss_node junk now n c role)"
    using ready by (simp add: node nd_ready_to_talk_def nd_receiving_def nd_listens_def)
  have "nd_listens (sc_user ?s) i cb = nd_listens (sc_user s) i cb" for i cb by (rule nd_listens_frame) simp_all
  then show "talks (sc_user (ss_node junk now n c role))"
    using ready out by (auto simp: node talks_def nd_ready_to_talk_def ss_handler_def less_2_cases_iff)
  have posted: "sg_posted (nd_signals (sc_user s)) = []" using ready by (simp add: nd_ready_to_talk_def)
  have "same_node (sc_user ?s) (sc_user ?s)"
    using ready timer(7) posted by (simp add: same_node_def nd_ready_to_talk_def nd_receiving_def)
  moreover have "sends n role st_start (sc_user ?s)"
    using sender m z by (simp add: sends_def st_start_def st_said_def st_todo_def ss_msgs_def)
  moreover have "receives junk' role st_start (sc_user ?s)"
    using ready by (auto simp: receives_def st_start_def nd_ready_to_talk_def nd_receiving_def)
  moreover have "serves role st_start (sc_user ?s)" using posted by (simp add: serves_def st_start_def waiting_def)
  moreover have "timers 0 st_start ?s" using timer by (simp add: timers_def st_start_def)
  moreover have "st_ok st_start" by (simp add: st_ok_def st_start_def st_needs_def)
  ultimately show "at_stage junk' 0 (sc_user (ss_node junk now n c role)) st_start (ss_node junk now n c role)"
    unfolding at_stage_def by (simp add: node role num_waiters_def z)
  show "rank st_start (ss_node junk now n c role) = 41" using timer(4) posted by (simp add: rank_def st_start_def node)
qed

text \<open>The rest of a launched node: six threads, and nothing halted, notified or signalled.\<close>

lemma ss_node_idle:
  "nd_pooled (sc_user (ss_node junk now n c role)) (map wk_on [1..<7])" "\<not> nd_halting (sc_user (ss_node junk now n c role))"
  "nd_notified (sc_user (ss_node junk now n c role)) = 0" "nd_disconnects (sc_user (ss_node junk now n c role)) = 0"
  "\<not> nd_disconnect_emitted (sc_user (ss_node junk now n c role))" "num_waiters (sc_user (ss_node junk now n c role)) = n"
  using nd_launch_new [of junk now n role]
  by (auto simp: ss_node_launched nd_pooled_def num_waiters_def wk_on_def simp del: upt_Suc)

lemma ss_start_inv:
  assumes "r \<noteq> r'" and "a = ss_node junk now n c r" and "b = ss_node junk now' n' c' r'"
  shows "ss_inv junk' (sc_user a) (sc_user b) st_start st_start (ss_start a b)"
  using peer_eq [OF assms(1)] ss_node_starts
  by (simp add: assms(2,3) ss_inv_def ss_side_def ss_start_def) (simp add: st_start_def st_pos_def st_needs_def)

section \<open>Property\<close>

text \<open>
  Claim C1. A session is established, whatever the order of events. Launch two nodes of different roles and connect them. Every
  callback, every task of the schedulers and every turn of the four loops is a step, and at each moment any step that is possible may be
  the next. Then no run has more than 82 steps, no node crashes, hangs or halts on the way, and a run that can not go on has
  established the session: both nodes have read all that the other wrote, wait for the next header with every
  callback served, have disarmed the handshake timer, send SYNCs once a second and have the configuration they were given.
\<close>

theorem session_established:
  assumes "r \<noteq> r'" and "\<And>xs. mset (ord xs) = mset xs"
    and "ss_run ord junk k (ss_start (ss_node junk now n c r) (ss_node junk now' n' c' r')) s"
  shows "k \<le> 82 \<and> nd_outcome (sc_user (ss_a s)) = Alive \<and> nd_outcome (sc_user (ss_b s)) = Alive \<and>
    \<not> nd_stopped (sc_user (ss_a s)) \<and> \<not> nd_stopped (sc_user (ss_b s)) \<and> ((\<exists>s'. ss_step ord junk s s') \<or> ss_established c c' s)"
proof -
  let ?a = "ss_node junk now n c r" and ?b = "ss_node junk now' n' c' r'"
  obtain x y where inv: "ss_inv junk (sc_user ?a) (sc_user ?b) x y s"
    and rank: "k + rank x (ss_a s) + rank y (ss_b s) \<le> rank st_start ?a + rank st_start ?b"
    using ss_run_inv [OF assms(3) ss_start_inv [OF assms(1) refl refl] assms(2)] by (auto simp: ss_start_def)
  have "ss_established c c' s" if "\<nexists>s'. ss_step ord junk s s'"
    using ss_stuck [OF that inv assms(2) ss_node_starts(1) ss_node_starts(1)] by (simp add: ss_node_starts(4))
  moreover have "nd_outcome (sc_user (ss_a s)) = Alive" "nd_outcome (sc_user (ss_b s)) = Alive"
    "\<not> nd_stopped (sc_user (ss_a s))" "\<not> nd_stopped (sc_user (ss_b s))"
    using ss_inv_sides(1,2) [OF inv] by (simp_all add: at_stage_def same_node_def)
  ultimately show ?thesis using rank by (auto simp: ss_node_starts(6))
qed

text \<open>A longest run from the start ends with an established session.\<close>

definition ss_example :: session where
  "ss_example = ss_start (ss_node (\<lambda>_. 0) 0 0 cf_example5 MASTER) (ss_node (\<lambda>_. 0) 7 0 cf_example5 SLAVE)"

theorem session_established_witness:
  "\<exists>k s. ss_run id (\<lambda>_. 0) k ss_example s \<and> k \<le> 82 \<and> ss_established cf_example5 cf_example5 s"
proof -
  let ?P = "\<lambda>k. \<exists>s. ss_run id (\<lambda>_. 0) k ss_example s"
  note est = session_established [of MASTER SLAVE id "\<lambda>_. 0" _ 0 0 cf_example5 7 0 cf_example5, folded ss_example_def]
  have est: "k \<le> 82" "(\<exists>s'. ss_step id (\<lambda>_. 0) s s') \<or> ss_established cf_example5 cf_example5 s"
    if "ss_run id (\<lambda>_. 0) k ss_example s" for k s
    using est [OF _ _ that] by simp_all
  have "?P 0" by (blast intro: run_stop)
  moreover have "\<forall>k. ?P k \<longrightarrow> k \<le> 82" using est(1) by blast
  ultimately have "?P (Greatest ?P)" "\<forall>j. ?P j \<longrightarrow> j \<le> Greatest ?P"
    using GreatestI_nat [of ?P 0 82] Greatest_le_nat [of ?P _ 82] by blast+
  then obtain k where k: "?P k" "\<forall>j. ?P j \<longrightarrow> j \<le> k" by blast
  then obtain s where s: "ss_run id (\<lambda>_. 0) k ss_example s" by blast
  have "\<nexists>s'. ss_step id (\<lambda>_. 0) s s'"
  proof
    assume "\<exists>s'. ss_step id (\<lambda>_. 0) s s'"
    then have "?P (Suc k)" using s run_step by blast
    then show False using k(2) Suc_n_not_le_n by blast
  qed
  then show ?thesis using est [OF s] s by blast
qed

end
