(* ===== verification/Timeout.thy ===== *)
theory Timeout
  imports Session
begin

text \<open>
  A handshake that is not completed: the five-second timer of \<^verbatim>\<open>bits/BasicNode.tcc\<close>, from the scheduler through the refused \<open>halt\<close>
  on a worker thread to the thread blocked in \<open>run\<close>.
\<close>

text \<open>A service without ready work has nothing to poll.\<close>

lemma nd_poll_idle:
  assumes "sg_posted (nd_signals (sc_user s)) = []" and "sc_tasks s = []" and "nd_requests (sc_user s) = 0"
  shows "nd_poll cs s = s"
proof -
  have "nd_ready nd_halt_locked c s = s" for c
    using assms by (cases c) (simp_all add: nd_ready_def nd_serve_def io_run_one_def)
  then show ?thesis by (induction cs) (simp_all add: nd_poll_def)
qed

text \<open>The timer fires on a worker thread: \<open>halt\<close> is refused there, and the waiting thread is notified.\<close>

lemma halt_timer_fires:
  assumes "nd_outcome (sc_user s) = Alive" and "\<not> nd_halting (sc_user s)" and "nd_pooled (sc_user s) ws" and "on_worker w ws"
    and "sg_posted (nd_signals (sc_user s)) = []" and "sc_tasks s = []" and "nd_requests (sc_user s) = 0"
    and "sc_actions s t = Some HALT_FN" and "\<not> sc_moved s t" and "sc_waits s (Of_action t) = [Once t]"
    and "sc_expiry s (Of_action t) \<le> sc_now s + d"
  shows "\<exists>s'. nd_step w other polled Task (io_fire (Of_action t) (io_tick d s)) = s' \<and>
    sc_user s' = (sc_user s)\<lparr>nd_notified := Suc (nd_notified (sc_user s))\<rparr> \<and> sc_actions s' = sc_actions s \<and>
    sc_periodics s' = sc_periodics s \<and> sc_slots s' = sc_slots s \<and> sc_next s' = sc_next s \<and>
    sc_waits s' = (sc_waits s)(Of_action t := [])"
proof -
  let ?q = "(io_fire (Of_action t) (io_tick d s))\<lparr>sc_tasks := []\<rparr>"
  let ?halt = "\<lambda>s. snd (nd_halt w other False polled s)"
  have q: "io_fire (Of_action t) (io_tick d s) = s\<lparr>sc_now := sc_now s + d, sc_tasks := [Expired (Once t)],
      sc_waits := (sc_waits s)(Of_action t := [])\<rparr>"
    using assms(6,10,11) by (simp add: io_fire_def io_tick_def)
  have "wp_can_halt w (nd_pool (sc_user s)) = Inr False" using nd_can_halt [OF assms(3)] assms(4) by simp
  moreover have "nd_poll polled ?q = ?q" by (rule nd_poll_idle) (use assms q in simp_all)
  ultimately have halt: "?halt ?q = nd_update (nd_notified_update Suc) ?q"
    using assms(1,2) by (simp add: q nd_halt_def nd_notify_def)
  have "sa_expired (nd_call ?halt) t ?q = Inr (if sc_expiry s (Of_action t) < sc_now s + d
      then sa_cancel t (nd_update (nd_notified_update Suc) ?q) else nd_update (nd_notified_update Suc) ?q)"
    using assms(8,9) halt by (simp add: sa_expired_def nd_call_def q)
  then have "nd_step w other polled Task (io_fire (Of_action t) (io_tick d s)) = (if sc_expiry s (Of_action t) < sc_now s + d
      then sa_cancel t (nd_update (nd_notified_update Suc) ?q) else nd_update (nd_notified_update Suc) ?q)"
    using assms(1) by (simp add: nd_step_def nd_ready_def io_run_one_def q)
  then show ?thesis by (simp add: sa_cancel_def io_post_def tm_cancel_def q nd_update_def)
qed

section \<open>Property\<close>

text \<open>
  Claim C2. A node whose handshake is not completed stops by itself. Take any state of a session, however far the two nodes got, in which
  no answer has been accepted (the peer may have done nothing at all) and no callback waits, and let five seconds pass.
  The timer calls \<open>halt\<close> on a worker thread: it is refused there, the node still runs, and the thread blocked in \<open>run\<close> is
  notified. That thread then halts the node: its socket is closed and the disconnect signal has been emitted once. What follows
  depends on the other users of the I/O service. If none of them keeps work pending on it (\<open>other'\<close> is \<open>False\<close>), \<open>halt\<close> returns with
  the node's six threads gone. If one does, as \<^verbatim>\<open>tests/live-test.cc\<close> with its waiting \<open>signal_set\<close>, \<open>halt\<close> waits for the
  worker threads for ever, and \<open>run\<close> hangs. The uninitialised counter of the queue must not hold the largest number.
\<close>

theorem unanswered_node_halts:
  assumes "r \<noteq> r'" and "\<And>xs. mset (ord xs) = mset xs"
    and "ss_run ord junk k (ss_start (ss_node junk now n c r) (ss_node junk now' n' c' r')) s"
    and "nd_halt_action (sc_user (ss_a s)) \<noteq> None" and "sg_posted (nd_signals (sc_user (ss_a s))) = []"
    and "5000000000 \<le> d" and "1 \<le> w" and "w < 7" and "self = 0 \<or> 7 \<le> self" and "n + 1 \<noteq> 0"
  shows "\<exists>s1 s2. nd_step w other polled Task (io_fire (Of_action 0) (io_tick d (ss_a s))) = s1 \<and>
    nd_outcome (sc_user s1) = Alive \<and> \<not> nd_stopped (sc_user s1) \<and> nd_notified (sc_user s1) = 1 \<and>
    nd_run_woken self other' polled' s1 = s2 \<and> nd_stopped (sc_user s2) \<and> \<not> nd_socket_open (sc_user s2) \<and>
    nd_disconnects (sc_user s2) = 1 \<and>
    (if other' then nd_outcome (sc_user s2) = Hung
     else nd_outcome (sc_user s2) = Alive \<and> wp_num_live_threads (nd_pool (sc_user s2)) = Inr 0)"
proof -
  let ?a = "ss_node junk now n c r" and ?ws = "map wk_on [1..<7]"
  note idle = ss_node_idle [of junk now n c r]
  obtain x y where "ss_inv junk (sc_user ?a) (sc_user (ss_node junk now' n' c' r')) x y s"
    using ss_run_inv [OF assms(3) ss_start_inv [OF assms(1) refl refl] assms(2)] by (auto simp: ss_start_def)
  then have at: "at_stage junk 0 (sc_user ?a) x (ss_a s)" by (rule ss_inv_sides)
  have same: "same_node (sc_user ?a) (sc_user (ss_a s))" using at by (simp add: at_stage_def)
  have timer: "sc_tasks (ss_a s) = []" "nd_sync_action (sc_user (ss_a s)) = None" "nd_halt_action (sc_user (ss_a s)) = Some 0"
    "sc_actions (ss_a s) 0 = Some HALT_FN" "\<not> sc_moved (ss_a s) 0" "sc_waits (ss_a s) (Of_action 0) = [Once 0]"
    "sc_expiry (ss_a s) (Of_action 0) \<le> sc_now (ss_a s) + d" "sc_slots (ss_a s) (rate_hz 1) = None"
    "\<forall>a < sc_next (ss_a s). a \<noteq> 0 \<longrightarrow> sc_waits (ss_a s) (Of_action a) = []"
    using at assms(4,6) by (auto simp: at_stage_def timers_def nd_syncing_def split: if_splits)
  have pool: "nd_pooled (sc_user (ss_a s)) ?ws" using idle(1) same by (simp add: same_node_def nd_pooled_def)
  have w: "on_worker w ?ws" and self: "\<not> on_worker self ?ws" using assms(7-9) by (auto simp: on_worker_def list_ex_iff wk_on_def)
  obtain s1 where s1: "nd_step w other polled Task (io_fire (Of_action 0) (io_tick d (ss_a s))) = s1"
      "sc_user s1 = (sc_user (ss_a s))\<lparr>nd_notified := 1\<rparr>" "sc_slots s1 = sc_slots (ss_a s)"
      "sc_next s1 = sc_next (ss_a s)" "sc_waits s1 = (sc_waits (ss_a s))(Of_action 0 := [])" "sc_actions s1 = sc_actions (ss_a s)"
    using halt_timer_fires [OF _ _ pool w assms(5) timer(1) _ timer(4-7), of other polled] same idle(2,3)
    by (auto simp: same_node_def)
  have "sends (num_waiters (sc_user ?a)) (nd_role (sc_user ?a)) x (sc_user (ss_a s))" using at by (simp add: at_stage_def)
  then have "sq_num_waiters (nd_queue (sc_user s1)) > 0 \<or> sq_sleeping (nd_queue (sc_user s1)) = []"
    using assms(10) by (auto simp: s1(2) sends_def idle(6) word_gt_0 split: if_splits)
  moreover have "\<not> nd_ticking (nd_shut s1)" using timer(8) by (simp add: nd_ticking_def nd_shut_sel) (simp add: sl_actions_def s1(3))
  moreover have "\<not> nd_timing (nd_shut s1)"
    using timer(3,4,9) by (auto simp: nd_timing_quiet nd_shut_waits s1)
  moreover have pooled: "nd_pooled (sc_user s1) ?ws" using pool by (simp add: s1(2) nd_pooled_def)
  moreover have alive: "nd_outcome (sc_user s1) = Alive" "\<not> nd_halting (sc_user s1)" "\<not> nd_stopped (sc_user s1)"
    "nd_disconnects (sc_user s1) = 0" "\<not> nd_disconnect_emitted (sc_user s1)" "nd_notified (sc_user s1) = 1"
    using same idle by (simp_all add: s1(2) same_node_def)
  ultimately obtain q where quiet: "nd_halt self False False polled' s1 =
      (True, nd_update (nd_notified_update Suc) (nd_update (nd_pool_update (\<lambda>_. q)) (nd_shut s1)))" "wp_num_live_threads q = Inr 0"
    using nd_halt_quiet [of s1 ?ws self False polled'] self by blast
  have "nd_pooled (sc_user (nd_shut s1)) ?ws" using pooled by (simp add: nd_pooled_def nd_shut_sel)
  then have busy: "nd_halt self True False polled' s1 = (True, nd_notify (nd_hang (nd_shut s1)))"
    using nd_halt_outside [OF alive(2) pooled self, of True] nd_halt_workers_hangs [of "nd_shut s1" ?ws self True] self by simp
  show ?thesis
  proof (cases other')
    case True
    then show ?thesis
      using s1(1) alive busy by (simp add: nd_run_woken_def nd_shut_sel nd_notify_def nd_hang_def)
  next
    case False
    then show ?thesis using s1(1) alive quiet by (simp add: nd_run_woken_def nd_shut_sel)
  qed
qed

text \<open>The master, with a slave that does nothing.\<close>

theorem unanswered_node_halts_witness:
  "(\<exists>s1 s2. nd_step 3 False [] Task (io_fire (Of_action 0) (io_tick 6000000000 (ss_a ss_example))) = s1 \<and>
    nd_outcome (sc_user s1) = Alive \<and> \<not> nd_stopped (sc_user s1) \<and> nd_notified (sc_user s1) = 1 \<and>
    nd_run_woken 0 False [] s1 = s2 \<and> nd_stopped (sc_user s2) \<and> \<not> nd_socket_open (sc_user s2) \<and> nd_disconnects (sc_user s2) = 1 \<and>
    nd_outcome (sc_user s2) = Alive \<and> wp_num_live_threads (nd_pool (sc_user s2)) = Inr 0) \<and>
  (\<exists>s1 s2. nd_step 3 False [] Task (io_fire (Of_action 0) (io_tick 6000000000 (ss_a ss_example))) = s1 \<and>
    nd_run_woken 0 True [] s1 = s2 \<and> nd_disconnects (sc_user s2) = 1 \<and> nd_outcome (sc_user s2) = Hung)"
proof -
  let ?a = "ss_node (\<lambda>_. 0) 0 0 cf_example5 MASTER"
  have run: "ss_run id (\<lambda>_. 0) 0 (ss_start ?a (ss_node (\<lambda>_. 0) 7 0 cf_example5 SLAVE)) ss_example"
    unfolding ss_example_def by (rule run_stop)
  have a: "ss_a ss_example = ?a" by (simp add: ss_example_def ss_start_def)
  have "nd_halt_action (sc_user ?a) \<noteq> None"
    using ss_node_starts(5) [of "\<lambda>_. 0" "\<lambda>_. 0" 0 0 cf_example5 MASTER] by (simp add: at_stage_def timers_def st_start_def)
  moreover have "sg_posted (nd_signals (sc_user ?a)) = []"
    using ss_node_starts(1) [of "\<lambda>_. 0" 0 0 cf_example5 MASTER] by (simp add: nd_ready_to_talk_def)
  ultimately show ?thesis
    using unanswered_node_halts [OF _ _ run, of 6000000000 3 0 False "[]" False "[]"]
      unanswered_node_halts [OF _ _ run, of 6000000000 3 0 False "[]" True "[]"] by (auto simp: a)
qed

end
