(* ===== verification/Link.thy ===== *)
theory Link
  imports Control
begin

text \<open>
  From the send loop of one node to the receive loop of another (\<^verbatim>\<open>bits/BasicNode.tcc\<close>): what is queued arrives, for every type of
  message that the dispatcher (\<^verbatim>\<open>bits/MessageDispatcher.tcc\<close>) implements.
\<close>

section \<open>Messages a node can send\<close>

text \<open>
  The send loop dispatches each message to the \<open>sent\<close> signals once it is written, and decodes it for that: a
  CONFIGURATION_RESPONSE has to hold a configuration, a MODULE_CONTROL a message for a module of the sender's own configuration.
  The dispatcher throws on ERROR and SENSOR_DATA.
\<close>

definition tx_carries :: "configuration \<Rightarrow> message_type \<Rightarrow> byte list \<Rightarrow> bool" where
  "tx_carries cfg t bs \<longleftrightarrow> tx_plain t \<or>
     t = CONFIGURATION_RESPONSE \<and> (\<exists>c. cf_wf c \<and> bs = cf_encoding c) \<or>
     t = MODULE_CONTROL \<and> (\<exists>m c. cf_has cfg m \<and> md_numbered m \<and> mc_inv m c \<and> bs = mc_encoding c)"

lemma dispatch_configuration:
  assumes "msg_ok CONFIGURATION_RESPONSE (cf_encoding c) m" and "cf_wf c"
  shows "dp_dispatch ord junk dir (msg_received CONFIGURATION_RESPONSE (cf_encoding c) m) d =
    call_handler ord dir H_configuration (Inr (A_configuration (cf_received 0 c))) d"
proof -
  let ?m = "msg_received CONFIGURATION_RESPONSE (cf_encoding c) m"
  have "msg_as (cf_decode_copy junk) ?m = Inr (cf_received 0 c)"
    by (rule msg_as_consumes [OF cf_decode_copy_consumes [OF assms(2)]]) (simp add: msg_received_def)
  moreover have "msg_type ?m = type_code CONFIGURATION_RESPONSE" using assms(1) by (simp add: msg_received_def msg_ok_def)
  ultimately show ?thesis by (simp add: dp_dispatch_def)
qed

lemma tx_carries_dispatches:
  assumes "msg_ok t bs m" and "tx_carries cfg t bs"
  shows "tx_dispatches ord junk cfg m"
  unfolding tx_dispatches_def
proof (intro allI impI)
  fix d :: node_data assume d: "nd_configuration d = cfg"
  show "\<exists>w. dp_dispatch ord junk OUTGOING m d = Inr (d\<lparr>nd_signals := w\<rparr>)"
    using assms(2) unfolding tx_carries_def
  proof (elim disjE conjE exE)
    assume "tx_plain t"
    then show ?thesis by (rule dispatch_plain [OF assms(1)])
  next
    fix c assume c: "t = CONFIGURATION_RESPONSE" "cf_wf c" "bs = cf_encoding c"
    have "dp_dispatch ord junk OUTGOING m d = call_handler ord OUTGOING H_configuration (Inr (A_configuration (cf_received 0 c))) d"
      using dispatch_configuration [of c m ord junk OUTGOING d] dispatch_sent [OF assms(1), of ord junk OUTGOING d] assms(1) c by simp
    then show ?thesis by (auto simp: call_handler_keeps)
  next
    fix mo c assume c: "t = MODULE_CONTROL" "cf_has cfg mo" "md_numbered mo" "mc_inv mo c" "bs = mc_encoding c"
    have "dp_dispatch ord junk OUTGOING m d = call_handler ord OUTGOING H_control (Inr (A_control (mc_received 0 c))) d"
      using dispatch_control [of c m d mo ord junk OUTGOING] dispatch_sent [OF assms(1), of ord junk OUTGOING d] assms(1) c d by simp
    then show ?thesis by (auto simp: call_handler_keeps)
  qed
qed

section \<open>Property\<close>

text \<open>
  Claim C7. A link keeps messages in order and whole. Let a node's queue hold any messages of the six types that the dispatcher
  implements: HANDSHAKE, HANDSHAKE_RESPONSE, SYNC and CONFIGURATION_QUERY, CONFIGURATION_RESPONSE with a well-formed
  configuration, MODULE_CONTROL for a module of the node's configuration. What its send loop writes is what the receive
  loop of the other node turns back into the same messages, one for one and in the order they were sent, with nothing left over.
  ERROR and SENSOR_DATA messages are excluded: the sender's own dispatcher throws on them and ends the program.
\<close>

theorem link_delivers:
  assumes "tx_free d" and "sq_items (nd_queue d) = map (\<lambda>(t, bs, m). m) xs"
    and "\<forall>(t, bs, m) \<in> set xs. msg_ok t bs m \<and> tx_carries (nd_configuration d) t bs" and "rx_holds r mem" and "rx_place r = Rx_top"
  shows "\<exists>d' w r'. tx_cycles ord junk (length xs) d = Inr d' \<and> sq_items (nd_queue d') = [] \<and> nd_wire d' = nd_wire d @ w \<and>
    rx_run junk' chunk w r = Inr (r', [], map (\<lambda>(t, bs, m). msg_received t bs m) xs) \<and> rx_place r' = Rx_header"
proof -
  have "\<forall>(t, bs, m) \<in> set xs. msg_ok t bs m" using assms(3) by auto
  from rx_run_wires [OF this assms(4,5), of "[]" junk' chunk] obtain r' where
    "rx_run junk' chunk (concat (map (\<lambda>(t, bs, m). msg_wire t bs m) xs)) r = Inr (r', [], map (\<lambda>(t, bs, m). msg_received t bs m) xs)"
    "rx_place r' = Rx_header" by (auto simp: msg_HeaderSize_def)
  moreover have "\<forall>(t, bs, m) \<in> set xs. msg_ok t bs m \<and> tx_dispatches ord junk (nd_configuration d) m"
    using assms(3) tx_carries_dispatches by blast
  ultimately show ?thesis using tx_cycles_send [OF assms(1,2)] by blast
qed

definition configuration_example :: message where
  "configuration_example = projr (cf_message cf_example)"

definition control_example :: message where
  "control_example = projr (mc_message mc_example)"

lemma example_messages_ok:
  "msg_ok CONFIGURATION_RESPONSE (cf_encoding cf_example) configuration_example"
  "msg_ok MODULE_CONTROL (mc_encoding mc_example) control_example"
proof -
  have size: "cf_encoded_size cf_example = Inr (length (cf_encoding cf_example))" "length (cf_encoding cf_example) = 49"
    using cf_encoded_size_law [OF cf_example_wf] cf_example_size by simp_all
  have "\<exists>m. cf_message cf_example = Inr m \<and> msg_ok CONFIGURATION_RESPONSE (cf_encoding cf_example) m"
    unfolding cf_message_def by (rule msg_of_body_ok [OF cf_encode_writes [OF cf_example_wf] size(1)]) (simp_all add: size(2))
  then show "msg_ok CONFIGURATION_RESPONSE (cf_encoding cf_example) configuration_example"
    by (auto simp: configuration_example_def)
  show "msg_ok MODULE_CONTROL (mc_encoding mc_example) control_example"
    using mc_message_ok [OF mc_example_inv] md_example_numbered by (auto simp: control_example_def md_numbered_def)
qed

text \<open>A node with a configuration that sends four messages.\<close>

definition sent_example :: "(message_type \<times> byte list \<times> message) list" where
  "sent_example = [(SYNC, SYNC_body, sync_example), (CONFIGURATION_QUERY, [], query_example),
     (CONFIGURATION_RESPONSE, cf_encoding cf_example, configuration_example),
     (MODULE_CONTROL, mc_encoding mc_example, control_example)]"

definition sending_example :: node_data where
  "sending_example = (sc_user node_a)\<lparr>nd_configuration := cf_example5,
     nd_queue := (sq_new 0)\<lparr>sq_items := map (\<lambda>(t, bs, m). m) sent_example\<rparr>\<rparr>"

theorem link_delivers_witness:
  "\<exists>d' w r'. tx_cycles id (\<lambda>_. 0) (length sent_example) sending_example = Inr d' \<and>
    sq_items (nd_queue d') = [] \<and> nd_wire d' = nd_wire sending_example @ w \<and>
    rx_run (\<lambda>_. 0) length w rx_example = Inr (r', [], map (\<lambda>(t, bs, m). msg_received t bs m) sent_example) \<and>
    rx_place r' = Rx_header"
proof (rule link_delivers [OF _ _ _ rx_example_holds])
  show "tx_free sending_example"
    using node_a_facts(1,7) by (simp add: tx_free_def sending_example_def sq_new_def nd_receiving_def)
  have plain: "msg_ok SYNC SYNC_body sync_example" "msg_ok CONFIGURATION_QUERY [] query_example"
    by (simp_all add: msg_ok_def sync_example_def query_example_def SYNC_body_def checksum_size_def msg_new_def)
  have carried: "tx_carries cfg SYNC bs" "tx_carries cfg CONFIGURATION_QUERY bs"
    "tx_carries cfg CONFIGURATION_RESPONSE (cf_encoding cf_example)" "tx_carries cf_example5 MODULE_CONTROL (mc_encoding mc_example)"
    for cfg bs
    using cf_example_wf cf_example5_has md_example_numbered mc_example_inv by (auto simp: tx_carries_def tx_plain_def)
  show "\<forall>(t, bs, m) \<in> set sent_example. msg_ok t bs m \<and> tx_carries (nd_configuration sending_example) t bs"
    using plain carried example_messages_ok by (simp add: sent_example_def sending_example_def)
qed (simp_all add: sending_example_def)

end
