(* ===== verification/SlotObjects.thy ===== *)
theory SlotObjects
  imports Schedule
begin

unbundle bit_operations_syntax

text \<open>
  The objects of the scheduler seen from the C++ object model: how a slot reaches the slot map through moves
  (\<^verbatim>\<open>src/util/PeriodicScheduleSlot.cc\<close>, \<^verbatim>\<open>Scheduler.cc\<close>), and the comparison operators and hashes of the actions
  (\<^verbatim>\<open>PeriodicAction.cc\<close>, \<^verbatim>\<open>ScheduledAction.cc\<close>, \<^verbatim>\<open>Scheduler.hh\<close>).
\<close>

section \<open>Slots as objects that own a timer\<close>

text \<open>Timers on the heap are numbered; the set of them that are allocated is threaded through.\<close>

record slot_object =
  so_timer :: "nat option"
  so_interval :: nat
  so_actions :: "nat list"

definition so_make :: "nat \<Rightarrow> nat \<Rightarrow> slot_object" where
  "so_make t i = \<lparr>so_timer = Some t, so_interval = i, so_actions = []\<rparr>"

text \<open>The new object and what is left of the old one.\<close>

definition so_move :: "slot_object \<Rightarrow> slot_object \<times> slot_object" where
  "so_move x = (\<lparr>so_timer = so_timer x, so_interval = so_interval x, so_actions = so_actions x\<rparr>,
                x\<lparr>so_timer := None, so_actions := []\<rparr>)"

definition so_destroy :: "slot_object \<Rightarrow> nat set \<Rightarrow> fault + nat set" where
  "so_destroy x ts =
     (case so_timer x of
        None \<Rightarrow> Inr ts
      | Some t \<Rightarrow> if t \<in> ts then Inr (ts - {t}) else Inl Use_after_free)"

definition so_empty :: "slot_object \<Rightarrow> bool" where
  "so_empty x \<longleftrightarrow> so_actions x = []"

text \<open>
  \<open>schedule\<close> makes a temporary slot, moves it into a pair, and the pair into the map's node; then the two
  temporaries are destroyed. The result is the slot in the map and the timers left.
\<close>

definition so_insertion :: "nat \<Rightarrow> nat \<Rightarrow> nat set \<Rightarrow> fault + slot_object \<times> nat set" where
  "so_insertion t i ts =
     (let temporary = so_make t i;
          (in_pair, temporary) = so_move temporary;
          (in_map, in_pair) = so_move in_pair
      in bindE (so_destroy in_pair (insert t ts))
           (\<lambda>ts. bindE (so_destroy temporary ts) (\<lambda>ts. Inr (in_map, ts))))"

text \<open>The slot in the map has its timer, which neither temporary deletes, and no actions, as \<open>sc_schedule\<close> has it.\<close>

lemma so_insertion_keeps_timer: "so_insertion t i ts = Inr (so_make t i, insert t ts)"
  by (simp add: so_insertion_def so_move_def so_make_def so_destroy_def)

lemma so_make_empty: "so_empty (so_make t i)"
  by (simp add: so_empty_def so_make_def)

text \<open>A slot's timer is deleted once: destroying both sides of a move frees it exactly.\<close>

lemma so_move_destroys_once:
  assumes "so_timer x = Some t" and "t \<in> ts"
  shows "case so_move x of (y, x') \<Rightarrow> bindE (so_destroy y ts) (so_destroy x') = Inr (ts - {t})"
  using assms by (simp add: so_move_def so_destroy_def)

lemma so_copy_destroys_twice:
  assumes "so_timer x = Some t" and "t \<in> ts"
  shows "bindE (so_destroy x ts) (so_destroy x) = Inl Use_after_free"
  using assms by (simp add: so_destroy_def)

section \<open>Comparison and hashing\<close>

text \<open>
  \<open>std::function::target<void>()\<close> is null for every function, as the type of a function object is never
  \<open>void\<close>. A null pointer is 0; \<open>addr\<close> gives the address of a slot.
\<close>

definition target_void :: "nat \<Rightarrow> 64 word" where
  "target_void f = 0"

definition pa_less :: "(nat \<Rightarrow> 64 word) \<Rightarrow> periodic \<Rightarrow> periodic \<Rightarrow> bool" where
  "pa_less addr x y \<longleftrightarrow> addr (pa_slot x) < addr (pa_slot y) \<and> target_void (pa_function x) < target_void (pa_function y)"

definition pa_equal :: "periodic \<Rightarrow> periodic \<Rightarrow> bool" where
  "pa_equal x y \<longleftrightarrow> pa_slot x = pa_slot y \<and> target_void (pa_function x) = target_void (pa_function y)"

definition sa_equal :: "'u scheduler \<Rightarrow> nat \<times> nat \<Rightarrow> nat \<times> nat \<Rightarrow> bool" where
  "sa_equal s x y \<longleftrightarrow> sc_expiry s (Of_action (fst x)) = sc_expiry s (Of_action (fst y)) \<and>
     target_void (snd x) = target_void (snd y)"

definition hash_duration :: "int \<Rightarrow> 64 word" where
  "hash_duration d = of_int d"

definition hash_function :: "nat \<Rightarrow> 64 word" where
  "hash_function f = target_void f"

text \<open>The actions are given by their numbers and functions.\<close>

definition hash_action :: "'u scheduler \<Rightarrow> nat \<times> nat \<Rightarrow> 64 word" where
  "hash_action s x =
     hash_function (snd x) XOR push_bit 1 (hash_duration (int (sc_expiry s (Of_action (fst x))) - int (sc_now s)))"

text \<open>
  The order holds of no two actions, so a container ordered by it would keep one; equality looks at the slot (or
  the expiry) alone, and two actions of one slot with different functions are equal. The hash agrees with it.
\<close>

lemma pa_less_never: "\<not> pa_less addr x y"
  by (simp add: pa_less_def target_void_def)

lemma pa_equal_iff: "pa_equal x y \<longleftrightarrow> pa_slot x = pa_slot y"
  by (simp add: pa_equal_def target_void_def)

lemma sa_equal_hash: "sa_equal s x y \<Longrightarrow> hash_action s x = hash_action s y"
  by (simp add: sa_equal_def hash_action_def hash_function_def)

lemma hash_action_collides:
  "sc_expiry s (Of_action a) = sc_expiry s (Of_action b) \<Longrightarrow> hash_action s (a, f) = hash_action s (b, g)"
  by (simp add: hash_action_def hash_function_def target_void_def)

end
