(* ===== verification/Clearing.thy ===== *)
theory Clearing
  imports ModuleControl
begin

text \<open>
  Clear messages (\<^verbatim>\<open>src/comms/ModuleControl.cc\<close>, \<^verbatim>\<open>include/crisp/comms/ModuleControl.hh\<close>): the operator asks that
  inputs go back to their neutral values. The message names the inputs by their bits and carries no values.
  Also the operations on the pairs of input and value.
\<close>

section \<open>The code\<close>

subsection \<open>Pairs\<close>

text \<open>Constructors and the assignment give the new object and what is left of the argument.\<close>

definition vp_make :: "module_input \<Rightarrow> data_value \<Rightarrow> value_pair \<times> data_value" where
  "vp_make x v = (case dv_move v of (v1, v2) \<Rightarrow> (\<lparr>vp_input = x, vp_value = v1\<rparr>, v2))"

definition vp_move :: "value_pair \<Rightarrow> value_pair \<times> value_pair" where
  "vp_move p = (case dv_move (vp_value p) of (v1, v2) \<Rightarrow> (\<lparr>vp_input = vp_input p, vp_value = v1\<rparr>, p\<lparr>vp_value := v2\<rparr>))"

definition vp_move_assign :: "value_pair \<Rightarrow> value_pair \<Rightarrow> value_pair \<times> value_pair" where
  "vp_move_assign t p =
     (case dv_move_assign (vp_value t) (vp_value p) of
        (v1, v2) \<Rightarrow> (t\<lparr>vp_input := vp_input p, vp_value := v1\<rparr>, p\<lparr>vp_value := v2\<rparr>))"

definition vp_neq :: "value_pair \<Rightarrow> value_pair \<Rightarrow> fault + bool" where
  "vp_neq p q = bindE (vp_eq p q) (\<lambda>e. Inr (\<not> e))"

lemma vp_move_keeps: "fst (vp_move p) = p"
  by (simp add: vp_move_def dv_move_def)

subsection \<open>Several inputs at once\<close>

text \<open>\<open>clear\<close> with several arguments clears the first and goes on with the rest.\<close>

fun mc_clear_names :: "byte list list \<Rightarrow> module_control \<Rightarrow> fault + module_control" where
  "mc_clear_names [] c = Inr c"
| "mc_clear_names (s # ss) c = bindE (mc_clear_name s c) (mc_clear_names ss)"

definition mc_decode_copy ::
    "(nat \<Rightarrow> byte) \<Rightarrow> configuration \<Rightarrow> (decode_buffer, module_control) sfm" where
  "mc_decode_copy junk cfg = bindF (mc_decode junk cfg mc_new) (\<lambda>(r, c). retF c)"

section \<open>What a clear message says\<close>

text \<open>The input a name stands for, and the inputs of a list of names.\<close>

definition named_input :: "module \<Rightarrow> byte list \<Rightarrow> nat option" where
  "named_input m s = find (\<lambda>i. input_named s (sa_list (md_inputs m) ! i)) [0..<unat (md_num_inputs m)]"

definition names_inputs :: "module \<Rightarrow> byte list list \<Rightarrow> nat set" where
  "names_inputs m ss = {i. \<exists>s \<in> set ss. named_input m s = Some i}"

lemma names_inputs_simps [simp]:
  "names_inputs m [] = {}"
  "names_inputs m (s # ss) = set_option (named_input m s) \<union> names_inputs m ss"
  by (auto simp: names_inputs_def)

lemma named_input_less: "named_input m s = Some i \<Longrightarrow> i < unat (md_num_inputs m)"
  by (auto simp: named_input_def find_Some_iff)

lemma input_bit_15: "bit ((ids :: u16) OR 32768) j \<longleftrightarrow> bit ids j \<or> j = 15"
  using input_bit_set [of 15 ids j] by simp

text \<open>A message that points at its module and holds no values.\<close>

definition mc_blank :: "module \<Rightarrow> module_control \<Rightarrow> bool" where
  "mc_blank m c \<longleftrightarrow> mc_module c = Inr m \<and> mc_module_id c = md_id m \<and> mc_num_values c = 0"

lemma mc_blank_ids: "mc_blank m c \<Longrightarrow> bit ids 15 \<Longrightarrow> mc_blank m (c\<lparr>mc_input_ids := ids\<rparr>)"
  by (simp add: mc_blank_def mc_num_values_def mc_is_clear_def)

lemma mc_clear_name_law:
  assumes "md_numbered m" and "mc_blank m c" and "0 \<notin> set s"
  shows "\<exists>ids. mc_clear_name (s @ [0]) c = Inr (c\<lparr>mc_input_ids := ids\<rparr>) \<and>
    (\<forall>j. bit ids j \<longleftrightarrow> bit (mc_input_ids c) j \<or> j = 15 \<or> named_input m s = Some j)"
proof -
  have c: "mc_num_values c = 0" "mc_module c = Inr m" using assms(2) by (simp_all add: mc_blank_def)
  have wf: "md_wf m" using assms(1) by (simp add: md_numbered_def)
  have found: "md_find_input (s @ [0]) m = Inr (named_input m s)"
    using find_input_first_match [OF wf assms(3)] by (simp add: named_input_def)
  show ?thesis
  proof (cases "named_input m s")
    case None
    then show ?thesis
      using c found by (intro exI [of _ "mc_input_ids c OR 32768"])
        (simp add: mc_clear_name_def mc_mark_clear_def input_bit_15)
  next
    case (Some i)
    let ?x = "sa_list (md_inputs m) ! i"
    have i: "i < unat (md_num_inputs m)" using Some by (rule named_input_less)
    have x: "unat (mi_input_id ?x) = i" "i < 15" using assms(1) i by (auto simp: md_numbered_def)
    have "shl1 (mi_input_id ?x) = Inr (2 ^ i)" using x shl1_less [of "mi_input_id ?x"] by simp
    moreover have "sa_get i (md_inputs m) = Inr ?x"
      using wf i by (simp add: md_wf_def) (metis sa_get_mk sa_invE sa_size_mk)
    ultimately show ?thesis
      using c found Some x input_bit_set [of i "mc_input_ids c OR 32768"]
      by (intro exI [of _ "(mc_input_ids c OR 32768) OR ucast (2 ^ i :: u32)"])
        (auto simp: mc_clear_name_def mc_mark_clear_def mc_set_bit_def input_bit_15)
  qed
qed

lemma mc_clear_names_law:
  assumes "md_numbered m"
  shows "mc_blank m c \<Longrightarrow> \<forall>s \<in> set ss. 0 \<notin> set s \<Longrightarrow>
    \<exists>ids. mc_clear_names (map (\<lambda>s. s @ [0]) ss) c = Inr (c\<lparr>mc_input_ids := ids\<rparr>) \<and>
      (\<forall>j. bit ids j \<longleftrightarrow> bit (mc_input_ids c) j \<or> ss \<noteq> [] \<and> j = 15 \<or> j \<in> names_inputs m ss)"
proof (induction ss arbitrary: c)
  case Nil
  then show ?case by (intro exI [of _ "mc_input_ids c"]) simp
next
  case (Cons s ss)
  obtain ids where ids: "mc_clear_name (s @ [0]) c = Inr (c\<lparr>mc_input_ids := ids\<rparr>)"
      "\<forall>j. bit ids j \<longleftrightarrow> bit (mc_input_ids c) j \<or> j = 15 \<or> named_input m s = Some j"
    using mc_clear_name_law [OF assms Cons.prems(1), of s] Cons.prems(2) by auto
  then have "mc_blank m (c\<lparr>mc_input_ids := ids\<rparr>)" using Cons.prems(1) by (simp add: mc_blank_ids)
  from Cons.IH [OF this] Cons.prems(2) obtain ids' where
    "mc_clear_names (map (\<lambda>s. s @ [0]) ss) (c\<lparr>mc_input_ids := ids\<rparr>) = Inr (c\<lparr>mc_input_ids := ids\<rparr>\<lparr>mc_input_ids := ids'\<rparr>)"
    "\<forall>j. bit ids' j \<longleftrightarrow> bit ids j \<or> ss \<noteq> [] \<and> j = 15 \<or> j \<in> names_inputs m ss" by auto
  then show ?case using ids by (intro exI [of _ ids']) auto
qed

section \<open>On the wire\<close>

lemma mc_clear_writes: "mc_is_clear c \<Longrightarrow> mem.writes (mc_encode c) (mc_header c @ [])"
  unfolding mc_encode_def
  by (intro mem.writes_unchecked mem.writes_emit) (simp add: mem.writes_ret del: retF_apply)

lemma mc_clear_size: "mc_is_clear c \<Longrightarrow> mc_encoded_size c = Inr 3"
  by (simp add: mc_encoded_size_def mc_num_values_def mc_HeaderSize_def)

lemma mc_clear_consumes:
  assumes "cf_has cfg m" and "mc_module_id c = md_id m" and "mc_is_clear c"
  shows "consumes (mc_decode_copy junk cfg) (mc_header c @ [])
    (mc_new\<lparr>mc_module_id := md_id m, mc_module := Inr m, mc_input_ids := mc_input_ids c\<rparr>)"
  unfolding consumes_def
proof (intro allI impI)
  fix b rest assume b: "db_ok b" "db_rest b = (mc_header c @ []) @ rest"
  define c1 where "c1 = mc_reset (Inr m) mc_new"
  have "db_rest b \<noteq> []" using b(2) by (auto simp: mc_header_def)
  then have off: "\<not> length (db_data b) \<le> db_offset b" by (simp add: db_rest_def)
  have "db_data b ! db_offset b = hd (db_rest b)" using off by (simp add: db_rest_def hd_drop_conv_nth)
  then have peek: "db_data b ! db_offset b = md_id m" using b(2) assms(2) by (simp add: mc_header_def)
  have c2: "mc_set_header (mc_header c) c1 = mc_new\<lparr>mc_module_id := md_id m, mc_module := Inr m, mc_input_ids := mc_input_ids c\<rparr>"
    using assms(2)
    by (simp add: c1_def mc_set_header_def mc_header_def mc_reset_def mc_new_def of_nat_le_val_ids sa_clear_inv sa_alloc_mk)
  have "consumes (db_read mc_HeaderSize) (mc_header c) (Decode_Success, mc_header c)"
    using consumes_read [of "mc_header c"] by simp
  from consumesD [OF this b(1)] b(2)
  have "db_read mc_HeaderSize b = Inr ((Decode_Success, mc_header c), db_advance (length (mc_header c)) b)" by simp
  then show "mc_decode_copy junk cfg b =
    Inr (mc_new\<lparr>mc_module_id := md_id m, mc_module := Inr m, mc_input_ids := mc_input_ids c\<rparr>, db_advance (length (mc_header c @ [])) b)"
    using off peek assms(3) cf_has_get [OF assms(1)] c2
    by (simp add: mc_decode_copy_def mc_decode_def bindF_def Let_def c1_def [symmetric] mc_is_clear_def retF_def)
qed

section \<open>Properties\<close>

text \<open>
  Claim C19. A clear message names exactly the inputs to be cleared: calling \<open>clear\<close> with any number of names on a new message of a
  module never faults and sets the bit of the first input of each name, if there is one, and no other; the message
  is three bytes long whatever was named, and decoding it against a configuration that holds the module gives
  a clear message of that module with the same inputs and no values.
\<close>

theorem clear_message_roundtrip:
  assumes "md_numbered m" and "cf_has cfg m" and "ss \<noteq> []" and "\<forall>s \<in> set ss. 0 \<notin> set s"
    and "eb_ok b" and "eb_room b 3"
  shows "\<exists>c b' d c'. mc_clear_names (map (\<lambda>s. s @ [0]) ss) (mc_make (Some m) cap) = Inr c \<and> mc_encoded_size c = Inr 3 \<and>
    mc_encode c b = Inr (Encode_Success, b') \<and> eb_offset b' = eb_offset b + 3 \<and>
    mc_decode_copy junk cfg (db_of (eb_data b') (eb_offset b)) = Inr (c', d) \<and> db_offset d = eb_offset b' \<and>
    mc_module c' = Inr m \<and> mc_is_clear c' \<and> mc_num_values c' = 0 \<and>
    {i. i < 15 \<and> bit (mc_input_ids c') i} = names_inputs m ss"
proof -
  have blank: "mc_blank m (mc_make (Some m) cap)" and zero: "mc_input_ids (mc_make (Some m) cap) = 0"
    by (simp_all add: mc_blank_def mc_make_def mc_new_def mc_num_values_def mc_is_clear_def)
  obtain ids where ids: "mc_clear_names (map (\<lambda>s. s @ [0]) ss) (mc_make (Some m) cap) = Inr ((mc_make (Some m) cap)\<lparr>mc_input_ids := ids\<rparr>)"
      "\<forall>j. bit ids j \<longleftrightarrow> j = 15 \<or> j \<in> names_inputs m ss"
    using mc_clear_names_law [OF assms(1) blank assms(4)] assms(3) zero by auto
  define c where "c = (mc_make (Some m) cap)\<lparr>mc_input_ids := ids\<rparr>"
  have c: "mc_module_id c = md_id m" "mc_is_clear c" "mc_input_ids c = ids"
    using ids(2) blank by (simp_all add: c_def mc_is_clear_def mc_blank_def)
  have small: "names_inputs m ss \<subseteq> {..<15}"
    using assms(1) named_input_less [of m] by (fastforce simp: names_inputs_def md_numbered_def)
  then have says: "{i. i < 15 \<and> bit ids i} = names_inputs m ss" using ids(2) by auto
  have n: "length (mc_header c @ []) = 3" by (simp add: mc_HeaderSize_def)
  obtain b' d where wire: "mc_encode c b = Inr (Encode_Success, b')" "eb_offset b' = eb_offset b + 3"
      "mc_decode_copy junk cfg (db_of (eb_data b') (eb_offset b)) =
        Inr (mc_new\<lparr>mc_module_id := md_id m, mc_module := Inr m, mc_input_ids := mc_input_ids c\<rparr>, d)"
      "db_offset d = eb_offset b'"
    using write_then_read [OF mc_clear_writes [OF c(2)] mc_clear_consumes [OF assms(2) c(1,2), of junk] assms(5)]
      assms(6) unfolding n by blast
  let ?c' = "mc_new\<lparr>mc_module_id := md_id m, mc_module := Inr m, mc_input_ids := mc_input_ids c\<rparr>"
  have "mc_is_clear ?c'" "mc_num_values ?c' = 0" using c(2) by (simp_all add: mc_is_clear_def mc_num_values_def)
  with ids(1) wire mc_clear_size [OF c(2)] says show ?thesis
    unfolding c_def [symmetric]
    by (intro exI [of _ c] exI [of _ b'] exI [of _ d] exI [of _ ?c']) (simp add: c(3))
qed

theorem clear_message_roundtrip_witness:
  "\<exists>c b' d c'. mc_clear_names (map (\<lambda>s. s @ [0]) [[104, 105], [120]]) (mc_make (Some md_example) None) = Inr c \<and>
    mc_encoded_size c = Inr 3 \<and> mc_encode c (eb_new 8) = Inr (Encode_Success, b') \<and> eb_offset b' = eb_offset (eb_new 8) + 3 \<and>
    mc_decode_copy (\<lambda>_. 0) cf_example5 (db_of (eb_data b') (eb_offset (eb_new 8))) = Inr (c', d) \<and> db_offset d = eb_offset b' \<and>
    mc_module c' = Inr md_example \<and> mc_is_clear c' \<and> mc_num_values c' = 0 \<and>
    {i. i < 15 \<and> bit (mc_input_ids c') i} = names_inputs md_example [[104, 105], [120]]"
  by (rule clear_message_roundtrip [OF md_example_numbered cf_example5_has]) simp_all

lemma names_inputs_example: "names_inputs md_example [[104, 105], [120]] = {0}"
  by (simp add: named_input_def md_example_input(1,2) input_named_def)

end
