(* ===== verification/Ownership.thy ===== *)
theory Ownership
  imports Prelude
begin

text \<open>
  Who deletes what: module inputs, sensors, modules and data values each keep a pointer (a name, or the bytes of a value) and
  a flag that says whether the object owns what it points to. The other theories model the pointer by what it points to; this one keeps
  the addresses and models the constructors, assignments, \<open>reset\<close>, in-place \<open>decode\<close>, \<open>set\<close> and destructors of the four
  classes, each for objects of its own (the inputs and sensors nested in a module's arrays are not followed here)
  (\<^verbatim>\<open>src/comms/ModuleInput.cc\<close>, \<^verbatim>\<open>Sensor.cc\<close>, \<^verbatim>\<open>Module.cc\<close>, \<^verbatim>\<open>DataValue.cc\<close> and \<^verbatim>\<open>ModuleInput.hh\<close>) over a heap of blocks.
\<close>

section \<open>The heap of names\<close>

record names =
  nm_live :: "nat set"
  nm_next :: nat

definition nm_new :: "names \<Rightarrow> nat \<times> names" where
  "nm_new s = (nm_next s, s\<lparr>nm_live := insert (nm_next s) (nm_live s), nm_next := Suc (nm_next s)\<rparr>)"

definition nm_delete :: "nat \<Rightarrow> names \<Rightarrow> fault + names" where
  "nm_delete p s = (if p \<in> nm_live s then Inr (s\<lparr>nm_live := nm_live s - {p}\<rparr>) else Inl Double_free)"

record cell =
  cl_ptr :: "nat option"
  cl_owns :: bool

definition cl_owned :: "cell \<Rightarrow> nat option" where
  "cl_owned c = (if cl_owns c then cl_ptr c else None)"

text \<open>\<open>if ( owns && ptr ) delete[] ptr\<close>, and a copy of the block a pointer points to, which reads it.\<close>

definition cl_delete :: "cell \<Rightarrow> names \<Rightarrow> fault + names" where
  "cl_delete c s = (case cl_owned c of None \<Rightarrow> Inr s | Some p \<Rightarrow> nm_delete p s)"

definition cl_duplicate :: "nat option \<Rightarrow> names \<Rightarrow> fault + cell \<times> names" where
  "cl_duplicate q s =
     (case q of
        None \<Rightarrow> Inl Null_deref
      | Some p \<Rightarrow>
          if p \<in> nm_live s then case nm_new s of (r, s') \<Rightarrow> Inr (\<lparr>cl_ptr = Some r, cl_owns = True\<rparr>, s')
          else Inl Use_after_free)"

section \<open>The code\<close>

subsection \<open>Module inputs\<close>

definition mi_cell_reset :: "cell \<Rightarrow> names \<Rightarrow> fault + cell \<times> names" where
  "mi_cell_reset c s = bindE (cl_delete c s) (\<lambda>s. Inr (\<lparr>cl_ptr = None, cl_owns = False\<rparr>, s))"

definition mi_cell_move :: "cell \<Rightarrow> cell \<times> cell" where
  "mi_cell_move c = (c, c\<lparr>cl_ptr := None\<rparr>)"

definition mi_cell_copy :: "cell \<Rightarrow> names \<Rightarrow> fault + cell \<times> names" where
  "mi_cell_copy c s =
     (if cl_owns c
      then if cl_ptr c \<noteq> None then cl_duplicate (cl_ptr c) s else Inr (\<lparr>cl_ptr = None, cl_owns = True\<rparr>, s)
      else Inr (c, s))"

definition mi_cell_assign :: "cell \<Rightarrow> cell \<Rightarrow> names \<Rightarrow> fault + cell \<times> cell \<times> names" where
  "mi_cell_assign t c s = bindE (mi_cell_reset t s) (\<lambda>(t, s). Inr (c, \<lparr>cl_ptr = None, cl_owns = False\<rparr>, s))"

definition mi_cell_destroy :: "cell \<Rightarrow> names \<Rightarrow> fault + names" where
  "mi_cell_destroy c s = bindE (mi_cell_reset c s) (\<lambda>(c, s). Inr s)"

text \<open>
  What \<open>decode_copy\<close> returns: a default object that, when the received name length is not zero (\<open>named\<close>), owns a new block.
  \<open>decode\<close> resets the object, assigns that temporary to it and destroys the temporary.
\<close>

definition nt_cell_decode_copy :: "bool \<Rightarrow> names \<Rightarrow> cell \<times> names" where
  "nt_cell_decode_copy named s =
     (if named then case nm_new s of (p, s) \<Rightarrow> (\<lparr>cl_ptr = Some p, cl_owns = True\<rparr>, s)
      else (\<lparr>cl_ptr = None, cl_owns = False\<rparr>, s))"

definition mi_cell_decode :: "bool \<Rightarrow> cell \<Rightarrow> names \<Rightarrow> fault + cell \<times> names" where
  "mi_cell_decode named t s =
     bindE (mi_cell_reset t s) (\<lambda>(t, s).
       case nt_cell_decode_copy named s of (out, s) \<Rightarrow>
         bindE (mi_cell_assign t out s) (\<lambda>(t, out, s).
         bindE (mi_cell_destroy out s) (\<lambda>s. Inr (t, s))))"

subsection \<open>Sensors\<close>

definition sn_cell_move :: "cell \<Rightarrow> cell \<times> cell" where
  "sn_cell_move c = (c, c\<lparr>cl_owns := False\<rparr>)"

definition sn_cell_copy :: "cell \<Rightarrow> names \<Rightarrow> fault + cell \<times> names" where
  "sn_cell_copy c s =
     (if cl_owns c
      then if cl_ptr c \<noteq> None then cl_duplicate (cl_ptr c) s else Inr (\<lparr>cl_ptr = None, cl_owns = True\<rparr>, s)
      else Inr (c, s))"

text \<open>The assignment does not look at the name the target has.\<close>

definition sn_cell_assign :: "cell \<Rightarrow> cell \<Rightarrow> names \<Rightarrow> fault + cell \<times> cell \<times> names" where
  "sn_cell_assign t c s = Inr (c, c\<lparr>cl_owns := False\<rparr>, s)"

definition sn_cell_destroy :: "cell \<Rightarrow> names \<Rightarrow> fault + names" where
  "sn_cell_destroy c s = cl_delete c s"

definition sn_cell_reset :: "cell \<Rightarrow> names \<Rightarrow> fault + cell \<times> names" where
  "sn_cell_reset c s = bindE (cl_delete c s) (\<lambda>s. Inr (\<lparr>cl_ptr = None, cl_owns = False\<rparr>, s))"

definition sn_cell_decode :: "bool \<Rightarrow> cell \<Rightarrow> names \<Rightarrow> fault + cell \<times> names" where
  "sn_cell_decode named t s =
     bindE (sn_cell_reset t s) (\<lambda>(t, s).
       case nt_cell_decode_copy named s of (out, s) \<Rightarrow>
         bindE (sn_cell_assign t out s) (\<lambda>(t, out, s).
         bindE (sn_cell_destroy out s) (\<lambda>s. Inr (t, s))))"

subsection \<open>Modules\<close>

text \<open>A name that is not owned stays.\<close>

definition md_cell_reset :: "cell \<Rightarrow> names \<Rightarrow> fault + cell \<times> names" where
  "md_cell_reset c s =
     bindE (cl_delete c s) (\<lambda>s. Inr (\<lparr>cl_ptr = (if cl_owned c \<noteq> None then None else cl_ptr c), cl_owns = False\<rparr>, s))"

definition md_cell_move :: "cell \<Rightarrow> cell \<times> cell" where
  "md_cell_move c = (c, c\<lparr>cl_owns := False\<rparr>)"

text \<open>A copy of an owner copies its name, which has at least one character, without testing that there is one.\<close>

definition md_cell_copy :: "cell \<Rightarrow> names \<Rightarrow> fault + cell \<times> names" where
  "md_cell_copy c s = (if cl_owns c then cl_duplicate (cl_ptr c) s else Inr (c, s))"

definition md_cell_assign :: "cell \<Rightarrow> cell \<Rightarrow> names \<Rightarrow> fault + cell \<times> cell \<times> names" where
  "md_cell_assign t c s = Inr (c, c\<lparr>cl_ptr := None\<rparr>, s)"

definition md_cell_copy_assign :: "cell \<Rightarrow> cell \<Rightarrow> names \<Rightarrow> fault + cell \<times> names" where
  "md_cell_copy_assign t c s =
     bindE (md_cell_reset t s) (\<lambda>(t, s). if cl_owns c then cl_duplicate (cl_ptr c) s else Inr (c, s))"

definition md_cell_destroy :: "cell \<Rightarrow> names \<Rightarrow> fault + names" where
  "md_cell_destroy c s = bindE (md_cell_reset c s) (\<lambda>(c, s). Inr s)"

definition md_cell_decode :: "bool \<Rightarrow> cell \<Rightarrow> names \<Rightarrow> fault + cell \<times> names" where
  "md_cell_decode named t s =
     bindE (md_cell_reset t s) (\<lambda>(t, s).
       if named then case nm_new s of (p, s) \<Rightarrow> Inr (\<lparr>cl_ptr = Some p, cl_owns = True\<rparr>, s)
       else Inr (\<lparr>cl_ptr = None, cl_owns = False\<rparr>, s))"

subsection \<open>Data values\<close>

definition dv_cell_move :: "cell \<Rightarrow> cell \<times> cell" where
  "dv_cell_move c = (c, \<lparr>cl_ptr = None, cl_owns = False\<rparr>)"

definition dv_cell_assign :: "cell \<Rightarrow> cell \<Rightarrow> names \<Rightarrow> fault + cell \<times> cell \<times> names" where
  "dv_cell_assign t c s = bindE (cl_delete t s) (\<lambda>s. Inr (c, c\<lparr>cl_owns := False\<rparr>, s))"

definition dv_cell_destroy :: "cell \<Rightarrow> names \<Rightarrow> fault + names" where
  "dv_cell_destroy c s = cl_delete c s"

text \<open>\<open>set<U>\<close> allocates when there is no block, and writes through the pointer there is otherwise, owned or not.\<close>

definition dv_cell_set :: "cell \<Rightarrow> names \<Rightarrow> fault + cell \<times> names" where
  "dv_cell_set c s =
     (case cl_ptr c of
        None \<Rightarrow> (case nm_new s of (p, s) \<Rightarrow> Inr (\<lparr>cl_ptr = Some p, cl_owns = True\<rparr>, s))
      | Some p \<Rightarrow> if p \<in> nm_live s then Inr (c, s) else Inl Use_after_free)"

section \<open>A program's use of one class\<close>

text \<open>
  The operations of a class; a class without a copy constructor, copy assignment, \<open>reset\<close>, in-place \<open>decode\<close> or \<open>set\<close> has \<open>None\<close>
  there. The objects of a program are numbered. A command names objects that are alive and, for an assignment, different
  (self-assignment is not covered); otherwise it does nothing. \<open>Borrow\<close> constructs an object over a pointer it does not own, \<open>Own\<close>
  one with a block of its own (\<open>decode_copy\<close> does, as do some constructors).
\<close>

record class_ops =
  op_move :: "cell \<Rightarrow> cell \<times> cell"
  op_copy :: "(cell \<Rightarrow> names \<Rightarrow> fault + cell \<times> names) option"
  op_assign :: "cell \<Rightarrow> cell \<Rightarrow> names \<Rightarrow> fault + cell \<times> cell \<times> names"
  op_copy_assign :: "(cell \<Rightarrow> cell \<Rightarrow> names \<Rightarrow> fault + cell \<times> names) option"
  op_reset :: "(cell \<Rightarrow> names \<Rightarrow> fault + cell \<times> names) option"
  op_decode :: "(bool \<Rightarrow> cell \<Rightarrow> names \<Rightarrow> fault + cell \<times> names) option"
  op_set :: "(cell \<Rightarrow> names \<Rightarrow> fault + cell \<times> names) option"
  op_destroy :: "cell \<Rightarrow> names \<Rightarrow> fault + names"

datatype owner_class = Inputs | Sensors | Modules | Values

fun ops_of :: "owner_class \<Rightarrow> class_ops" where
  "ops_of Inputs = \<lparr>op_move = mi_cell_move, op_copy = Some mi_cell_copy, op_assign = mi_cell_assign, op_copy_assign = None,
     op_reset = Some mi_cell_reset, op_decode = Some mi_cell_decode, op_set = None, op_destroy = mi_cell_destroy\<rparr>"
| "ops_of Sensors = \<lparr>op_move = sn_cell_move, op_copy = Some sn_cell_copy, op_assign = sn_cell_assign, op_copy_assign = None,
     op_reset = Some sn_cell_reset, op_decode = Some sn_cell_decode, op_set = None, op_destroy = sn_cell_destroy\<rparr>"
| "ops_of Modules = \<lparr>op_move = md_cell_move, op_copy = Some md_cell_copy, op_assign = md_cell_assign,
     op_copy_assign = Some md_cell_copy_assign, op_reset = Some md_cell_reset, op_decode = Some md_cell_decode, op_set = None,
     op_destroy = md_cell_destroy\<rparr>"
| "ops_of Values = \<lparr>op_move = dv_cell_move, op_copy = None, op_assign = dv_cell_assign, op_copy_assign = None,
     op_reset = None, op_decode = None, op_set = Some dv_cell_set, op_destroy = dv_cell_destroy\<rparr>"

record population =
  po_cells :: "nat \<rightharpoonup> cell"
  po_count :: nat
  po_names :: names

definition po_start :: population where
  "po_start = \<lparr>po_cells = Map.empty, po_count = 0, po_names = \<lparr>nm_live = {}, nm_next = 0\<rparr>\<rparr>"

definition po_add :: "cell \<Rightarrow> population \<Rightarrow> population" where
  "po_add c w = w\<lparr>po_cells := (po_cells w)(po_count w \<mapsto> c), po_count := Suc (po_count w)\<rparr>"

definition po_put :: "nat \<Rightarrow> cell \<Rightarrow> population \<Rightarrow> population" where
  "po_put i c w = w\<lparr>po_cells := (po_cells w)(i \<mapsto> c)\<rparr>"

definition po_remove :: "nat \<Rightarrow> population \<Rightarrow> population" where
  "po_remove i w = w\<lparr>po_cells := (po_cells w)(i := None)\<rparr>"

datatype command = Borrow "nat option" | Own | Move nat | Copy nat | Assign nat nat | Copy_assign nat nat
  | Reset nat | Decode nat bool | Set nat | Destroy nat

text \<open>A member function that works on one object in place.\<close>

definition po_at :: "nat \<Rightarrow> (cell \<Rightarrow> names \<Rightarrow> fault + cell \<times> names) option \<Rightarrow> population \<Rightarrow> fault + population" where
  "po_at i g w =
     (case (po_cells w i, g) of
        (Some c, Some f) \<Rightarrow> bindE (f c (po_names w)) (\<lambda>(a, s). Inr (po_put i a (w\<lparr>po_names := s\<rparr>)))
      | _ \<Rightarrow> Inr w)"

fun po_do :: "class_ops \<Rightarrow> command \<Rightarrow> population \<Rightarrow> fault + population" where
  "po_do ops (Borrow p) w = Inr (po_add \<lparr>cl_ptr = p, cl_owns = False\<rparr> w)"
| "po_do ops Own w =
     (case nm_new (po_names w) of (p, s) \<Rightarrow> Inr (po_add \<lparr>cl_ptr = Some p, cl_owns = True\<rparr> (w\<lparr>po_names := s\<rparr>)))"
| "po_do ops (Move i) w =
     (case po_cells w i of
        None \<Rightarrow> Inr w
      | Some c \<Rightarrow> (case op_move ops c of (a, b) \<Rightarrow> Inr (po_add a (po_put i b w))))"
| "po_do ops (Copy i) w =
     (case (po_cells w i, op_copy ops) of
        (Some c, Some f) \<Rightarrow> bindE (f c (po_names w)) (\<lambda>(a, s). Inr (po_add a (w\<lparr>po_names := s\<rparr>)))
      | _ \<Rightarrow> Inr w)"
| "po_do ops (Assign i j) w =
     (case (po_cells w i, po_cells w j) of
        (Some t, Some c) \<Rightarrow>
          if i = j then Inr w
          else bindE (op_assign ops t c (po_names w)) (\<lambda>(a, b, s). Inr (po_put i a (po_put j b (w\<lparr>po_names := s\<rparr>))))
      | _ \<Rightarrow> Inr w)"
| "po_do ops (Copy_assign i j) w =
     (case (po_cells w i, po_cells w j, op_copy_assign ops) of
        (Some t, Some c, Some f) \<Rightarrow>
          if i = j then Inr w
          else bindE (f t c (po_names w)) (\<lambda>(a, s). Inr (po_put i a (w\<lparr>po_names := s\<rparr>)))
      | _ \<Rightarrow> Inr w)"
| "po_do ops (Reset i) w = po_at i (op_reset ops) w"
| "po_do ops (Decode i named) w = po_at i (map_option (\<lambda>f. f named) (op_decode ops)) w"
| "po_do ops (Set i) w = po_at i (op_set ops) w"
| "po_do ops (Destroy i) w =
     (case po_cells w i of
        None \<Rightarrow> Inr w
      | Some c \<Rightarrow> bindE (op_destroy ops c (po_names w)) (\<lambda>s. Inr (po_remove i (w\<lparr>po_names := s\<rparr>))))"

section \<open>Soundness\<close>

text \<open>Object \<open>i\<close> owns block \<open>p\<close>.\<close>

definition po_holds :: "population \<Rightarrow> nat \<Rightarrow> nat \<Rightarrow> bool" where
  "po_holds w i p \<longleftrightarrow> (\<exists>c. po_cells w i = Some c \<and> cl_owned c = Some p)"

lemma po_holds_add [simp]: "po_holds (po_add c w) i p \<longleftrightarrow> (if i = po_count w then cl_owned c = Some p else po_holds w i p)"
  by (simp add: po_holds_def po_add_def)

lemma po_holds_put [simp]: "po_holds (po_put i c w) j p \<longleftrightarrow> (if j = i then cl_owned c = Some p else po_holds w j p)"
  by (simp add: po_holds_def po_put_def)

lemma po_holds_remove [simp]: "po_holds (po_remove i w) j p \<longleftrightarrow> j \<noteq> i \<and> po_holds w j p"
  by (simp add: po_holds_def po_remove_def)

lemma po_holds_names [simp]: "po_holds (w\<lparr>po_names := s\<rparr>) = po_holds w"
  by (simp add: po_holds_def fun_eq_iff)

lemma po_holds_cell: "po_cells w i = Some c \<Longrightarrow> po_holds w i p \<longleftrightarrow> cl_owned c = Some p"
  by (simp add: po_holds_def)

lemma po_frame [simp]:
  "po_names (po_add c w) = po_names w" "po_names (po_put i c w) = po_names w" "po_names (po_remove i w) = po_names w"
  "po_count (po_add c w) = Suc (po_count w)" "po_count (po_put i c w) = po_count w" "po_count (po_remove i w) = po_count w"
  by (simp_all add: po_add_def po_put_def po_remove_def)

lemma po_dom [simp]:
  "dom (po_cells (po_add c w)) = insert (po_count w) (dom (po_cells w))"
  "dom (po_cells (po_put i c w)) = insert i (dom (po_cells w))"
  "dom (po_cells (po_remove i w)) = dom (po_cells w) - {i}"
  by (simp_all add: po_add_def po_put_def po_remove_def)

text \<open>Every owned block is alive and has one owner; every block was allocated and every object made.\<close>

definition po_sound :: "population \<Rightarrow> bool" where
  "po_sound w \<longleftrightarrow>
     (\<forall>i j p. po_holds w i p \<and> po_holds w j p \<longrightarrow> i = j) \<and>
     (\<forall>i p. po_holds w i p \<longrightarrow> p \<in> nm_live (po_names w)) \<and>
     (\<forall>p \<in> nm_live (po_names w). p < nm_next (po_names w)) \<and>
     dom (po_cells w) \<subseteq> {..<po_count w}"

text \<open>And no block is alive that nobody owns.\<close>

definition po_tight :: "population \<Rightarrow> bool" where
  "po_tight w \<longleftrightarrow> (\<forall>p \<in> nm_live (po_names w). \<exists>i. po_holds w i p)"

lemma po_tight_empty: "po_tight w \<Longrightarrow> po_cells w = Map.empty \<Longrightarrow> nm_live (po_names w) = {}"
  by (auto simp: po_tight_def po_holds_def)

lemma po_soundI:
  assumes "\<And>i j p. po_holds w i p \<Longrightarrow> po_holds w j p \<Longrightarrow> i = j" and "\<And>i p. po_holds w i p \<Longrightarrow> p \<in> nm_live (po_names w)"
    and "\<And>p. p \<in> nm_live (po_names w) \<Longrightarrow> p < nm_next (po_names w)" and "dom (po_cells w) \<subseteq> {..<po_count w}"
  shows "po_sound w"
  using assms unfolding po_sound_def by metis

lemma po_soundD:
  assumes "po_sound w"
  shows "po_holds w i p \<Longrightarrow> po_holds w j p \<Longrightarrow> i = j" and "po_holds w i p \<Longrightarrow> p \<in> nm_live (po_names w)"
    and "p \<in> nm_live (po_names w) \<Longrightarrow> p < nm_next (po_names w)" and "dom (po_cells w) \<subseteq> {..<po_count w}"
    and "po_cells w i = Some c \<Longrightarrow> i < po_count w" and "\<not> po_holds w (po_count w) p"
  using assms unfolding po_sound_def po_holds_def by (metis | auto simp: dom_def)+

text \<open>What an object owns is alive, the heap without what it owns, and the result of making a copy.\<close>

definition cl_safe :: "cell \<Rightarrow> names \<Rightarrow> bool" where
  "cl_safe c s \<longleftrightarrow> set_option (cl_owned c) \<subseteq> nm_live s"

definition nm_without :: "cell \<Rightarrow> names \<Rightarrow> names" where
  "nm_without c s = s\<lparr>nm_live := nm_live s - set_option (cl_owned c)\<rparr>"

definition cl_made :: "cell \<Rightarrow> names \<Rightarrow> names \<Rightarrow> bool" where
  "cl_made a s s' \<longleftrightarrow> cl_owned a = None \<and> s' = s \<or> cl_owned a = Some (fst (nm_new s)) \<and> s' = snd (nm_new s)"

lemma nm_without_simps [simp]:
  "nm_live (nm_without c s) = nm_live s - set_option (cl_owned c)" "nm_next (nm_without c s) = nm_next s"
  by (simp_all add: nm_without_def)

lemma nm_new_simps [simp]:
  "fst (nm_new s) = nm_next s" "nm_live (snd (nm_new s)) = insert (nm_next s) (nm_live s)"
  "nm_next (snd (nm_new s)) = Suc (nm_next s)"
  by (simp_all add: nm_new_def)

lemma cl_madeE:
  assumes "cl_made a s s'"
  obtains "cl_owned a = None" and "s' = s" | "cl_owned a = Some (nm_next s)" and "s' = snd (nm_new s)"
  using assms by (auto simp: cl_made_def)

lemma cl_delete_safe: "cl_safe c s \<Longrightarrow> cl_delete c s = Inr (nm_without c s)"
  by (auto simp: cl_safe_def cl_delete_def nm_without_def nm_delete_def split: option.splits)

lemma cl_duplicate_made:
  "cl_owns c \<Longrightarrow> cl_safe c s \<Longrightarrow>
    (case cl_duplicate (cl_ptr c) s of Inl e \<Rightarrow> e = Null_deref \<and> cl_ptr c = None | Inr (a, s') \<Rightarrow> cl_made a s s')"
  by (auto simp: cl_duplicate_def cl_safe_def cl_made_def cl_owned_def nm_new_def split: option.splits)

lemma po_sound_safe:
  assumes "po_sound w" and "po_cells w i = Some c"
  shows "cl_safe c (po_names w)"
  using po_soundD(2) [OF assms(1), of i] assms(2) by (cases "cl_owned c") (auto simp: cl_safe_def po_holds_def)

lemma po_sound_safe_without:
  assumes "po_sound w" and "po_cells w i = Some t" and "po_cells w j = Some c" and "i \<noteq> j"
  shows "cl_safe c (nm_without t (po_names w))"
  using po_sound_safe [OF assms(1,3)] po_soundD(1) [OF assms(1), of i _ j] assms(2-4)
  by (cases "cl_owned c") (auto simp: cl_safe_def po_holds_def)

subsection \<open>Steps of a population\<close>

text \<open>Adding an object, handing what one owns to a new one, to an old one, replacing one by a copy, removing one.\<close>

lemma po_sound_add:
  assumes w: "po_sound w" and "cl_made a (po_names w) s"
  shows "po_sound (po_add a (w\<lparr>po_names := s\<rparr>))"
  using assms(2)
proof (cases rule: cl_madeE)
  case 1
  show ?thesis
    by (rule po_soundI) (use 1 po_soundD [OF w] in \<open>auto split: if_splits intro: less_SucI\<close>)
next
  case 2
  have "\<not> po_holds w i (nm_next (po_names w))" for i using po_soundD(2,3) [OF w] by blast
  then show ?thesis
    by (intro po_soundI) (use 2 po_soundD [OF w] in \<open>auto split: if_splits intro: less_SucI\<close>)
qed

lemma po_tight_add:
  assumes w: "po_sound w" and "po_tight w" and "cl_made a (po_names w) s"
  shows "po_tight (po_add a (w\<lparr>po_names := s\<rparr>))"
proof -
  have keep: "\<exists>i. i \<noteq> po_count w \<and> po_holds w i p" if "p \<in> nm_live (po_names w)" for p
    using that assms(2) po_soundD(6) [OF w] by (metis po_tight_def)
  show ?thesis
    using assms(3)
  proof (cases rule: cl_madeE)
    case 1
    then show ?thesis using keep unfolding po_tight_def by fastforce
  next
    case 2
    then show ?thesis using keep unfolding po_tight_def by fastforce
  qed
qed

lemma po_sound_hand:
  assumes w: "po_sound w" and c: "po_cells w i = Some c" and "cl_owned a = cl_owned c" and "cl_owned b = None"
  shows "po_sound (po_add a (po_put i b w))"
proof (rule po_soundI)
  let ?w = "po_add a (po_put i b w)"
  have h: "po_holds ?w k p \<longleftrightarrow> (if k = po_count w then po_holds w i p else k \<noteq> i \<and> po_holds w k p)" for k p
    using assms(3,4) po_holds_cell [OF c] by auto
  show "po_holds ?w k p \<Longrightarrow> po_holds ?w l p \<Longrightarrow> k = l" for k l p
    using po_soundD(1) [OF w] unfolding h by (metis (full_types))
  show "po_holds ?w k p \<Longrightarrow> p \<in> nm_live (po_names ?w)" for k p
    using po_soundD(2) [OF w] unfolding h by (auto split: if_splits)
  show "p \<in> nm_live (po_names ?w) \<Longrightarrow> p < nm_next (po_names ?w)" for p using po_soundD(3) [OF w] by simp
  show "dom (po_cells ?w) \<subseteq> {..<po_count ?w}" using po_soundD(4,5) [OF w] c by (auto intro: less_SucI)
qed

lemma po_tight_hand:
  assumes w: "po_sound w" and "po_tight w" and c: "po_cells w i = Some c" and "cl_owned a = cl_owned c" and "cl_owned b = None"
  shows "po_tight (po_add a (po_put i b w))"
  unfolding po_tight_def
proof
  fix p assume "p \<in> nm_live (po_names (po_add a (po_put i b w)))"
  then obtain k where k: "po_holds w k p" using assms(2) by (auto simp: po_tight_def)
  show "\<exists>k. po_holds (po_add a (po_put i b w)) k p"
  proof (cases "k = i")
    case True
    then show ?thesis using k assms(4) po_holds_cell [OF c] by (intro exI [of _ "po_count w"]) simp
  next
    case False
    then show ?thesis using k po_soundD(6) [OF w] by (intro exI [of _ k]) auto
  qed
qed

lemma po_sound_give:
  assumes w: "po_sound w" and t: "po_cells w i = Some t" and c: "po_cells w j = Some c" and "i \<noteq> j"
    and "cl_owned a = cl_owned c" and "cl_owned b = None" and "s = po_names w \<or> s = nm_without t (po_names w)"
  shows "po_sound (po_put i a (po_put j b (w\<lparr>po_names := s\<rparr>)))"
proof (rule po_soundI)
  let ?w = "po_put i a (po_put j b (w\<lparr>po_names := s\<rparr>))"
  have h: "po_holds ?w k p \<longleftrightarrow> (if k = i then po_holds w j p else k \<noteq> j \<and> po_holds w k p)" for k p
    using assms(4-6) po_holds_cell [OF c] by auto
  show "po_holds ?w k p \<Longrightarrow> po_holds ?w l p \<Longrightarrow> k = l" for k l p
    using po_soundD(1) [OF w] unfolding h by (metis (full_types))
  show "po_holds ?w k p \<Longrightarrow> p \<in> nm_live (po_names ?w)" for k p
  proof -
    assume "po_holds ?w k p"
    then obtain l where l: "po_holds w l p" "l \<noteq> i" using assms(4) unfolding h by (auto split: if_splits)
    then have "cl_owned t \<noteq> Some p" using po_soundD(1) [OF w l(1), of i] po_holds_cell [OF t] by auto
    then show "p \<in> nm_live (po_names ?w)" using assms(7) po_soundD(2) [OF w l(1)] by auto
  qed
  show "p \<in> nm_live (po_names ?w) \<Longrightarrow> p < nm_next (po_names ?w)" for p using assms(7) po_soundD(3) [OF w] by auto
  show "dom (po_cells ?w) \<subseteq> {..<po_count ?w}" using po_soundD(4,5) [OF w] t c by auto
qed

lemma po_tight_give:
  assumes "po_tight w" and t: "po_cells w i = Some t" and c: "po_cells w j = Some c" and "i \<noteq> j"
    and "cl_owned a = cl_owned c"
  shows "po_tight (po_put i a (po_put j b (w\<lparr>po_names := nm_without t (po_names w)\<rparr>)))"
  unfolding po_tight_def
proof
  fix p assume "p \<in> nm_live (po_names (po_put i a (po_put j b (w\<lparr>po_names := nm_without t (po_names w)\<rparr>))))"
  then have p: "p \<in> nm_live (po_names w)" "cl_owned t \<noteq> Some p" by auto
  then obtain k where k: "po_holds w k p" using assms(1) by (auto simp: po_tight_def)
  then have "k \<noteq> i" using p(2) po_holds_cell [OF t] by auto
  then show "\<exists>k. po_holds (po_put i a (po_put j b (w\<lparr>po_names := nm_without t (po_names w)\<rparr>))) k p"
    using k assms(4,5) po_holds_cell [OF c] by (cases "k = j") (auto intro: exI [of _ i] exI [of _ k])
qed

lemma po_sound_replace:
  assumes w: "po_sound w" and t: "po_cells w i = Some t" and "cl_made a (nm_without t (po_names w)) s"
  shows "po_sound (po_put i a (w\<lparr>po_names := s\<rparr>))"
proof -
  let ?w = "po_put i a (w\<lparr>po_names := s\<rparr>)"
  have dom: "dom (po_cells ?w) \<subseteq> {..<po_count ?w}" using po_soundD(4,5) [OF w] t by auto
  have other: "cl_owned t \<noteq> Some p" if "po_holds w k p" "k \<noteq> i" for k p
    using po_soundD(1) [OF w that(1), of i] that(2) po_holds_cell [OF t] by auto
  have fresh: "\<not> po_holds w k (nm_next (po_names w))" for k using po_soundD(2,3) [OF w] by blast
  show ?thesis
    using assms(3)
  proof (cases rule: cl_madeE)
    case 1
    show ?thesis
      by (rule po_soundI [OF _ _ _ dom]) (use 1 po_soundD(1,2,3) [OF w] other in \<open>auto split: if_splits\<close>)
  next
    case 2
    show ?thesis
      by (rule po_soundI [OF _ _ _ dom])
        (use 2 po_soundD(1,2,3) [OF w] other fresh in \<open>auto split: if_splits intro: less_SucI\<close>)
  qed
qed

lemma po_tight_replace:
  assumes w: "po_sound w" "po_tight w" and t: "po_cells w i = Some t" and "cl_made a (nm_without t (po_names w)) s"
  shows "po_tight (po_put i a (w\<lparr>po_names := s\<rparr>))"
proof -
  have keep: "\<exists>k. k \<noteq> i \<and> po_holds w k p" if "p \<in> nm_live (po_names w)" "cl_owned t \<noteq> Some p" for p
    using that w(2) po_holds_cell [OF t] by (metis po_tight_def)
  show ?thesis
    using assms(4)
  proof (cases rule: cl_madeE)
    case 1
    then show ?thesis using keep unfolding po_tight_def by fastforce
  next
    case 2
    then show ?thesis using keep unfolding po_tight_def by fastforce
  qed
qed

lemma po_sound_remove:
  assumes w: "po_sound w" and c: "po_cells w i = Some c"
  shows "po_sound (po_remove i (w\<lparr>po_names := nm_without c (po_names w)\<rparr>))"
proof (rule po_soundI)
  have other: "cl_owned c \<noteq> Some p" if "po_holds w k p" "k \<noteq> i" for k p
    using po_soundD(1) [OF w that(1), of i] that(2) po_holds_cell [OF c] by auto
  then show "po_holds (po_remove i (w\<lparr>po_names := nm_without c (po_names w)\<rparr>)) k p \<Longrightarrow>
      p \<in> nm_live (po_names (po_remove i (w\<lparr>po_names := nm_without c (po_names w)\<rparr>)))" for k p
    using po_soundD(2) [OF w] by auto
qed (use po_soundD(1,3,4) [OF w] in auto)

lemma po_tight_remove:
  assumes "po_tight w" and c: "po_cells w i = Some c"
  shows "po_tight (po_remove i (w\<lparr>po_names := nm_without c (po_names w)\<rparr>))"
  unfolding po_tight_def
proof
  fix p assume "p \<in> nm_live (po_names (po_remove i (w\<lparr>po_names := nm_without c (po_names w)\<rparr>)))"
  then have p: "p \<in> nm_live (po_names w)" "cl_owned c \<noteq> Some p" by auto
  then obtain k where "po_holds w k p" using assms(1) by (auto simp: po_tight_def)
  moreover then have "k \<noteq> i" using p(2) po_holds_cell [OF c] by auto
  ultimately show "\<exists>k. po_holds (po_remove i (w\<lparr>po_names := nm_without c (po_names w)\<rparr>)) k p" by auto
qed

text \<open>A member function in place: the object and the function are there, or nothing happens.\<close>

lemma at_cases:
  assumes "\<And>c f. po_cells w i = Some c \<Longrightarrow> g = Some f \<Longrightarrow>
      po_at i g w = bindE (f c (po_names w)) (\<lambda>(a, s). Inr (po_put i a (w\<lparr>po_names := s\<rparr>))) \<Longrightarrow> P"
    and "po_at i g w = Inr w \<Longrightarrow> P"
  shows P
  using assms by (cases "po_cells w i"; cases g) (auto simp: po_at_def)

lemma po_put_same [simp]: "po_cells w i = Some c \<Longrightarrow> po_put i c w = w"
  by (simp add: po_put_def map_upd_triv)

lemma nm_without_none [simp]: "cl_owned c = None \<Longrightarrow> nm_without c s = s"
  by (simp add: nm_without_def)

section \<open>The contract of a class\<close>

text \<open>
  Moving hands over what the object owns, a copy owns a block of its own or nothing, an assignment hands over and may
  delete what the target had, a reset and a destructor delete what the object owns, and decoding in place deletes that and makes
  a block of its own or none. A copy may fail on an owner without a block (one that was moved from), \<open>set\<close> on a pointer to a deleted
  block that the object does not own.
\<close>

definition cl_hollow :: "cell \<Rightarrow> bool" where
  "cl_hollow c \<longleftrightarrow> cl_owns c \<and> cl_ptr c = None"

definition cl_dangling :: "cell \<Rightarrow> names \<Rightarrow> bool" where
  "cl_dangling c s \<longleftrightarrow> \<not> cl_owns c \<and> (case cl_ptr c of None \<Rightarrow> False | Some p \<Rightarrow> p \<notin> nm_live s)"

lemma cl_delete_none: "cl_owned c = None \<Longrightarrow> cl_delete c s = Inr s"
  by (simp add: cl_delete_def)

text \<open>The two ways a command can fail, with the object to blame.\<close>

definition po_blame :: "command \<Rightarrow> population \<Rightarrow> fault \<Rightarrow> bool" where
  "po_blame k w e \<longleftrightarrow>
     (case k of
        Copy j \<Rightarrow> e = Null_deref \<and> (\<exists>c. po_cells w j = Some c \<and> cl_hollow c)
      | Copy_assign i j \<Rightarrow> e = Null_deref \<and> (\<exists>c. po_cells w j = Some c \<and> cl_hollow c)
      | Set i \<Rightarrow> e = Use_after_free \<and> (\<exists>c. po_cells w i = Some c \<and> cl_dangling c (po_names w))
      | _ \<Rightarrow> False)"

locale owning =
  fixes ops :: class_ops
  assumes move: "op_move ops c = (a, b) \<Longrightarrow> cl_owned a = cl_owned c \<and> cl_owned b = None"
    and copy: "op_copy ops = Some f \<Longrightarrow> cl_safe c s \<Longrightarrow>
      (case f c s of Inl e \<Rightarrow> e = Null_deref \<and> cl_hollow c | Inr (a, s') \<Rightarrow> cl_made a s s')"
    and assign: "cl_safe t s \<Longrightarrow> \<exists>a b s'. op_assign ops t c s = Inr (a, b, s') \<and> cl_owned a = cl_owned c \<and>
      cl_owned b = None \<and> (s' = s \<or> s' = nm_without t s)"
    and copy_assign: "op_copy_assign ops = Some g \<Longrightarrow> cl_safe t s \<Longrightarrow> cl_safe c (nm_without t s) \<Longrightarrow>
      (case g t c s of Inl e \<Rightarrow> e = Null_deref \<and> cl_hollow c | Inr (a, s') \<Rightarrow> cl_made a (nm_without t s) s')"
    and reset: "op_reset ops = Some r \<Longrightarrow> cl_safe c s \<Longrightarrow> \<exists>a. r c s = Inr (a, nm_without c s) \<and> cl_owned a = None"
    and decode: "op_decode ops = Some d \<Longrightarrow> cl_safe c s \<Longrightarrow> \<exists>a s'. d named c s = Inr (a, s') \<and> cl_made a (nm_without c s) s'"
    and set_through: "op_set ops = Some h \<Longrightarrow> cl_safe c s \<Longrightarrow>
      (case h c s of Inl e \<Rightarrow> e = Use_after_free \<and> cl_dangling c s
       | Inr (a, s') \<Rightarrow> a = c \<and> s' = s \<or> cl_owned c = None \<and> cl_made a s s')"
    and destroy: "cl_safe c s \<Longrightarrow> op_destroy ops c s = Inr (nm_without c s)"
begin

lemma at_sound:
  assumes w: "po_sound w" and g: "\<And>f c. g = Some f \<Longrightarrow> po_cells w i = Some c \<Longrightarrow>
    \<exists>a s. f c (po_names w) = Inr (a, s) \<and> cl_made a (nm_without c (po_names w)) s"
  shows "\<exists>w'. po_at i g w = Inr w' \<and> po_sound w'"
proof (rule at_cases [of w i g])
  fix c f assume c: "po_cells w i = Some c" and f: "g = Some f"
    and at: "po_at i g w = bindE (f c (po_names w)) (\<lambda>(a, s). Inr (po_put i a (w\<lparr>po_names := s\<rparr>)))"
  obtain a s where "f c (po_names w) = Inr (a, s)" "cl_made a (nm_without c (po_names w)) s" using g [OF f c] by blast
  then show ?thesis using po_sound_replace [OF w c] at by simp
qed (use w in simp)

lemma step_sound:
  assumes w: "po_sound w"
  shows "case po_do ops k w of Inl e \<Rightarrow> po_blame k w e | Inr w' \<Rightarrow> po_sound w'"
proof (cases k)
  case (Borrow p)
  then show ?thesis using po_sound_add [OF w, of "\<lparr>cl_ptr = p, cl_owns = False\<rparr>" "po_names w"]
    by (simp add: cl_made_def cl_owned_def)
next
  case Own
  then show ?thesis using po_sound_add [OF w, of "\<lparr>cl_ptr = Some (nm_next (po_names w)), cl_owns = True\<rparr>" "snd (nm_new (po_names w))"]
    by (simp add: cl_made_def cl_owned_def nm_new_def)
next
  case (Move i)
  then show ?thesis using po_sound_hand [OF w] move by (auto simp: w split: option.splits prod.splits)
next
  case (Copy i)
  then show ?thesis using copy po_sound_safe [OF w] po_sound_add [OF w] w
    by (fastforce split: option.splits sum.splits prod.splits simp: bindE_def po_blame_def)
next
  case (Reset i)
  show ?thesis unfolding Reset po_do.simps
    using at_sound [OF w, of "op_reset ops" i] reset [OF _ po_sound_safe [OF w]] w by (fastforce simp: cl_made_def)
next
  case (Decode i named)
  show ?thesis unfolding Decode po_do.simps
    using at_sound [OF w, of "map_option (\<lambda>f. f named) (op_decode ops)" i] decode [OF _ po_sound_safe [OF w]] w by fastforce
next
  case (Set i)
  show ?thesis unfolding Set po_do.simps
  proof (rule at_cases [of w i "op_set ops"])
    fix c h assume c: "po_cells w i = Some c" and h: "op_set ops = Some h"
      and at: "po_at i (op_set ops) w = bindE (h c (po_names w)) (\<lambda>(a, s). Inr (po_put i a (w\<lparr>po_names := s\<rparr>)))"
    show "case po_at i (op_set ops) w of Inl e \<Rightarrow> po_blame (Set i) w e | Inr w' \<Rightarrow> po_sound w'"
    proof (cases "h c (po_names w)")
      case (Inl e)
      then show ?thesis using set_through [OF h po_sound_safe [OF w c]] at c by (simp add: po_blame_def)
    next
      case (Inr r)
      obtain a s where r: "r = (a, s)" by (cases r)
      have "a = c \<and> s = po_names w \<or> cl_owned c = None \<and> cl_made a (po_names w) s"
        using set_through [OF h po_sound_safe [OF w c]] Inr r by simp
      then have "po_sound (po_put i a (w\<lparr>po_names := s\<rparr>))"
        using w c po_sound_replace [OF w c, of a s] by (auto simp: po_put_same nm_without_none)
      then show ?thesis using at Inr r by simp
    qed
  qed (simp add: w)
next
  case (Assign i j)
  then show ?thesis
  proof (cases "\<exists>t c. po_cells w i = Some t \<and> po_cells w j = Some c \<and> i \<noteq> j")
    case True
    then obtain t c where tc: "po_cells w i = Some t" "po_cells w j = Some c" "i \<noteq> j" by blast
    obtain a b s where "op_assign ops t c (po_names w) = Inr (a, b, s)" "cl_owned a = cl_owned c" "cl_owned b = None"
        "s = po_names w \<or> s = nm_without t (po_names w)"
      using assign [OF po_sound_safe [OF w tc(1)]] by blast
    then show ?thesis using Assign tc po_sound_give [OF w tc] by simp
  qed (use Assign w in \<open>auto split: option.splits\<close>)
next
  case (Copy_assign i j)
  then show ?thesis
  proof (cases "\<exists>t c g. po_cells w i = Some t \<and> po_cells w j = Some c \<and> op_copy_assign ops = Some g \<and> i \<noteq> j")
    case True
    then obtain t c g where tc: "po_cells w i = Some t" "po_cells w j = Some c" "i \<noteq> j" and g: "op_copy_assign ops = Some g"
      by blast
    show ?thesis
      using copy_assign [OF g po_sound_safe [OF w tc(1)] po_sound_safe_without [OF w tc]] Copy_assign tc g
        po_sound_replace [OF w tc(1)] by (auto simp: po_blame_def split: sum.splits)
  qed (use Copy_assign w in \<open>auto split: option.splits\<close>)
next
  case (Destroy i)
  then show ?thesis using destroy po_sound_safe [OF w] po_sound_remove [OF w] w by (auto split: option.splits)
qed

lemma run_sound:
  "po_sound w \<Longrightarrow>
    case foldE (po_do ops) ks w of
      Inl e \<Rightarrow> \<exists>before k after v. ks = before @ k # after \<and> foldE (po_do ops) before w = Inr v \<and> po_sound v \<and>
        po_do ops k v = Inl e \<and> po_blame k v e
    | Inr w' \<Rightarrow> po_sound w'"
proof (induction ks arbitrary: w)
  case (Cons k ks)
  show ?case
  proof (cases "po_do ops k w")
    case (Inl e)
    then have "po_blame k w e" using step_sound [OF Cons.prems, of k] by simp
    moreover have "k # ks = [] @ k # ks" "foldE (po_do ops) [] w = Inr w" by simp_all
    moreover have "foldE (po_do ops) (k # ks) w = Inl e" using Inl by simp
    ultimately show ?thesis using Cons.prems Inl by (metis (mono_tags, lifting) old.sum.simps(5))
  next
    case (Inr v)
    have "po_sound v" using step_sound [OF Cons.prems, of k] Inr by simp
    note IH = Cons.IH [OF this]
    show ?thesis
    proof (cases "foldE (po_do ops) ks v")
      case (Inl e)
      with IH obtain before j after u where "ks = before @ j # after" "foldE (po_do ops) before v = Inr u" "po_sound u"
          "po_do ops j u = Inl e" "po_blame j u e"
        by auto
      then have "k # ks = (k # before) @ j # after" "foldE (po_do ops) (k # before) w = Inr u" "po_sound u"
          "po_do ops j u = Inl e" "po_blame j u e"
        using \<open>po_do ops k w = Inr v\<close> by simp_all
      moreover have "foldE (po_do ops) (k # ks) w = Inl e" using Inl \<open>po_do ops k w = Inr v\<close> by simp
      ultimately show ?thesis by (metis (mono_tags, lifting) old.sum.simps(5))
    next
      case Inr
      then show ?thesis using IH \<open>po_do ops k w = Inr v\<close> by simp
    qed
  qed
qed simp

end

text \<open>A class none of whose operations fails, and one whose assignment deletes what the target had.\<close>

locale total_owning = owning +
  assumes copy_total: "op_copy ops = Some f \<Longrightarrow> cl_safe c s \<Longrightarrow> f c s \<noteq> Inl e"
    and copy_assign_none: "op_copy_assign ops = None"
    and set_none: "op_set ops = None"
begin

lemma step_total:
  assumes w: "po_sound w"
  shows "\<exists>w'. po_do ops k w = Inr w' \<and> po_sound w'"
proof -
  have "po_do ops k w \<noteq> Inl e" for e
  proof (cases k)
    case (Assign i j)
    have "bindE (op_assign ops t c (po_names w)) (\<lambda>(a, b, s). Inr (po_put i a (po_put j b (w\<lparr>po_names := s\<rparr>)))) \<noteq> Inl e"
      if "po_cells w i = Some t" for t c
      using assign [OF po_sound_safe [OF w that], of c] by (auto simp: bindE_def)
    then show ?thesis unfolding Assign by (auto split: option.splits)
  next
    case (Copy i)
    then show ?thesis using copy_total po_sound_safe [OF w] by (auto simp: bindE_def split: option.splits sum.splits prod.splits)
  next
    case (Destroy i)
    then show ?thesis using destroy po_sound_safe [OF w] by (auto split: option.splits)
  next
    case (Reset i)
    then show ?thesis using at_sound [OF w, of "op_reset ops" i] reset [OF _ po_sound_safe [OF w]] by (fastforce simp: cl_made_def)
  next
    case (Decode i named)
    then show ?thesis using at_sound [OF w, of "map_option (\<lambda>f. f named) (op_decode ops)" i] decode [OF _ po_sound_safe [OF w]]
      by fastforce
  qed (auto simp: copy_assign_none set_none po_at_def split: option.splits prod.splits)
  then show ?thesis using step_sound [OF w, of k] by (cases "po_do ops k w") auto
qed

lemma run_total: "po_sound w \<Longrightarrow> \<exists>w'. foldE (po_do ops) ks w = Inr w' \<and> po_sound w'"
proof (induction ks arbitrary: w)
  case (Cons k ks)
  show ?case using step_total [OF Cons.prems, of k] Cons.IH by auto
qed simp

end

locale tidy_owning = owning +
  assumes assign_tidy: "cl_safe t s \<Longrightarrow> op_assign ops t c s = Inr (a, b, s') \<Longrightarrow> s' = nm_without t s"
    and no_copy_assign: "op_copy_assign ops = None"
begin

lemma at_tight:
  assumes w: "po_sound w" "po_tight w" and at: "po_at i g w = Inr w'"
    and g: "\<And>f c a s. g = Some f \<Longrightarrow> po_cells w i = Some c \<Longrightarrow> f c (po_names w) = Inr (a, s) \<Longrightarrow>
      a = c \<and> s = po_names w \<or> cl_made a (nm_without c (po_names w)) s"
  shows "po_tight w'"
proof (rule at_cases [of w i g])
  fix c f assume c: "po_cells w i = Some c" and f: "g = Some f"
    and eq: "po_at i g w = bindE (f c (po_names w)) (\<lambda>(a, s). Inr (po_put i a (w\<lparr>po_names := s\<rparr>)))"
  then obtain a s where as: "f c (po_names w) = Inr (a, s)" "w' = po_put i a (w\<lparr>po_names := s\<rparr>)"
    using at by (auto simp: bindE_Inr_iff)
  then show "po_tight w'" using g [OF f c as(1)] w po_tight_replace [OF w c, of a s] c by auto
qed (use w at in simp)

lemma step_tight:
  assumes w: "po_sound w" "po_tight w" and step: "po_do ops k w = Inr w'"
  shows "po_tight w'"
proof (cases k)
  case (Borrow p)
  then show ?thesis using po_tight_add [OF w, of "\<lparr>cl_ptr = p, cl_owns = False\<rparr>" "po_names w"] step
    by (simp add: cl_made_def cl_owned_def)
next
  case Own
  then show ?thesis using po_tight_add [OF w, of "\<lparr>cl_ptr = Some (nm_next (po_names w)), cl_owns = True\<rparr>" "snd (nm_new (po_names w))"] step
    by (simp add: cl_made_def cl_owned_def nm_new_def)
next
  case (Move i)
  then show ?thesis using po_tight_hand [OF w] move step w by (auto split: option.splits prod.splits)
next
  case (Copy i)
  then show ?thesis using copy po_sound_safe [OF w(1)] po_tight_add [OF w] w step
    by (fastforce split: option.splits sum.splits prod.splits simp: bindE_def)
next
  case (Assign i j)
  then show ?thesis
  proof (cases "\<exists>t c. po_cells w i = Some t \<and> po_cells w j = Some c \<and> i \<noteq> j")
    case True
    then obtain t c where tc: "po_cells w i = Some t" "po_cells w j = Some c" "i \<noteq> j" by blast
    have safe: "cl_safe t (po_names w)" using po_sound_safe [OF w(1) tc(1)] .
    obtain a b s where abs: "op_assign ops t c (po_names w) = Inr (a, b, s)" "cl_owned a = cl_owned c"
      using assign [OF safe] by blast
    then show ?thesis using Assign tc po_tight_give [OF w(2) tc, of a b] assign_tidy [OF safe abs(1)] step by auto
  qed (use Assign w step in \<open>auto split: option.splits if_splits\<close>)
next
  case (Copy_assign i j)
  then show ?thesis using w step by (auto simp: no_copy_assign split: option.splits)
next
  case (Reset i)
  show ?thesis
  proof (rule at_tight [OF w])
    show "po_at i (op_reset ops) w = Inr w'" using step Reset by simp
    fix f c a s assume "op_reset ops = Some f" "po_cells w i = Some c" "f c (po_names w) = Inr (a, s)"
    then show "a = c \<and> s = po_names w \<or> cl_made a (nm_without c (po_names w)) s"
      using reset po_sound_safe [OF w(1)] by (fastforce simp: cl_made_def)
  qed
next
  case (Decode i named)
  show ?thesis
  proof (rule at_tight [OF w])
    show "po_at i (map_option (\<lambda>f. f named) (op_decode ops)) w = Inr w'" using step Decode by simp
    fix f c a s assume "map_option (\<lambda>f. f named) (op_decode ops) = Some f" "po_cells w i = Some c" "f c (po_names w) = Inr (a, s)"
    then show "a = c \<and> s = po_names w \<or> cl_made a (nm_without c (po_names w)) s"
      using decode [where named = named] po_sound_safe [OF w(1)] by fastforce
  qed
next
  case (Set i)
  show ?thesis
  proof (rule at_tight [OF w])
    show "po_at i (op_set ops) w = Inr w'" using step Set by simp
    fix f c a s assume "op_set ops = Some f" "po_cells w i = Some c" "f c (po_names w) = Inr (a, s)"
    then show "a = c \<and> s = po_names w \<or> cl_made a (nm_without c (po_names w)) s"
      using set_through po_sound_safe [OF w(1)] by fastforce
  qed
next
  case (Destroy i)
  then show ?thesis using destroy po_sound_safe [OF w(1)] po_tight_remove [OF w(2)] w step by (auto split: option.splits)
qed

lemma run_tight: "po_sound w \<Longrightarrow> po_tight w \<Longrightarrow> foldE (po_do ops) ks w = Inr w' \<Longrightarrow> po_tight w'"
proof (induction ks arbitrary: w)
  case (Cons k ks)
  obtain w1 where w1: "po_do ops k w = Inr w1" using Cons.prems(3) by (auto simp: bindE_Inr_iff)
  moreover have "po_sound w1" using step_sound [OF Cons.prems(1), of k] w1 by simp
  ultimately show ?case using Cons.IH [of w1] step_tight [OF Cons.prems(1,2)] Cons.prems(3) by auto
qed simp

end

section \<open>The four classes\<close>

lemmas cell_defs = mi_cell_reset_def mi_cell_move_def mi_cell_copy_def mi_cell_assign_def mi_cell_destroy_def
  sn_cell_move_def sn_cell_copy_def sn_cell_assign_def sn_cell_destroy_def
  md_cell_reset_def md_cell_move_def md_cell_copy_def md_cell_assign_def md_cell_copy_assign_def md_cell_destroy_def
  dv_cell_move_def dv_cell_assign_def dv_cell_destroy_def
  nt_cell_decode_copy_def mi_cell_decode_def sn_cell_reset_def sn_cell_decode_def md_cell_decode_def dv_cell_set_def

lemma copy_guarded:
  assumes "cl_safe c s"
  shows "case (if cl_owns c then if cl_ptr c \<noteq> None then cl_duplicate (cl_ptr c) s else Inr (\<lparr>cl_ptr = None, cl_owns = True\<rparr>, s)
      else Inr (c, s)) of Inl e \<Rightarrow> False | Inr (a, s') \<Rightarrow> cl_made a s s'"
  using cl_duplicate_made [OF _ assms] by (auto simp: cl_made_def cl_owned_def split: sum.splits)

interpretation inputs: total_owning "ops_of Inputs"
proof unfold_locales
  fix f c s e assume "op_copy (ops_of Inputs) = Some f" "cl_safe c s"
  then show "case f c s of Inl e \<Rightarrow> e = Null_deref \<and> cl_hollow c | Inr (a, s') \<Rightarrow> cl_made a s s'" "f c s \<noteq> Inl e"
    using copy_guarded [of c s] by (auto simp: cell_defs split: sum.splits)
next
  fix d c s named assume "op_decode (ops_of Inputs) = Some d" "cl_safe c s"
  then show "\<exists>a s'. d named c s = Inr (a, s') \<and> cl_made a (nm_without c s) s'"
    by (auto simp: cell_defs cl_delete_safe cl_delete_none cl_made_def cl_owned_def nm_new_def)
qed (auto simp: cell_defs cl_delete_safe cl_owned_def)

interpretation inputs: tidy_owning "ops_of Inputs"
  by unfold_locales (auto simp: cell_defs cl_delete_safe)

interpretation sensors: total_owning "ops_of Sensors"
proof unfold_locales
  fix f c s e assume "op_copy (ops_of Sensors) = Some f" "cl_safe c s"
  then show "case f c s of Inl e \<Rightarrow> e = Null_deref \<and> cl_hollow c | Inr (a, s') \<Rightarrow> cl_made a s s'" "f c s \<noteq> Inl e"
    using copy_guarded [of c s] by (auto simp: cell_defs split: sum.splits)
next
  fix d c s named assume "op_decode (ops_of Sensors) = Some d" "cl_safe c s"
  then show "\<exists>a s'. d named c s = Inr (a, s') \<and> cl_made a (nm_without c s) s'"
    by (auto simp: cell_defs cl_delete_safe cl_delete_none cl_made_def cl_owned_def nm_new_def)
qed (auto simp: cell_defs cl_delete_safe cl_owned_def)

lemma md_copy_made:
  assumes "cl_safe c s"
  shows "case (if cl_owns c then cl_duplicate (cl_ptr c) s else Inr (c, s)) of
    Inl e \<Rightarrow> e = Null_deref \<and> cl_hollow c | Inr (a, s') \<Rightarrow> cl_made a s s'"
  using cl_duplicate_made [OF _ assms] by (auto simp: cl_made_def cl_owned_def cl_hollow_def split: sum.splits)

interpretation modules: owning "ops_of Modules"
proof unfold_locales
  fix f c s assume "op_copy (ops_of Modules) = Some f" "cl_safe c s"
  then show "case f c s of Inl e \<Rightarrow> e = Null_deref \<and> cl_hollow c | Inr (a, s') \<Rightarrow> cl_made a s s'"
    using md_copy_made [of c s] by (auto simp: cell_defs)
next
  fix g t c s assume "op_copy_assign (ops_of Modules) = Some g" "cl_safe t s" "cl_safe c (nm_without t s)"
  then show "case g t c s of Inl e \<Rightarrow> e = Null_deref \<and> cl_hollow c | Inr (a, s') \<Rightarrow> cl_made a (nm_without t s) s'"
    using md_copy_made [of c "nm_without t s"] by (auto simp: cell_defs cl_delete_safe)
next
  fix d c s named assume "op_decode (ops_of Modules) = Some d" "cl_safe c s"
  then show "\<exists>a s'. d named c s = Inr (a, s') \<and> cl_made a (nm_without c s) s'"
    by (auto simp: cell_defs cl_delete_safe cl_made_def cl_owned_def nm_new_def)
qed (auto simp: cell_defs cl_delete_safe cl_owned_def)

interpretation data_values: tidy_owning "ops_of Values"
proof unfold_locales
  fix h c s assume "op_set (ops_of Values) = Some h" "cl_safe c s"
  then show "case h c s of Inl e \<Rightarrow> e = Use_after_free \<and> cl_dangling c s
      | Inr (a, s') \<Rightarrow> a = c \<and> s' = s \<or> cl_owned c = None \<and> cl_made a s s'"
    by (auto simp: cell_defs cl_safe_def cl_owned_def cl_dangling_def cl_made_def nm_new_def split: option.splits if_splits)
qed (auto simp: cell_defs cl_delete_safe cl_owned_def)

section \<open>Properties\<close>

lemma po_start_sound: "po_sound po_start" and po_start_tight: "po_tight po_start"
  by (simp_all add: po_sound_def po_tight_def po_start_def po_holds_def)

text \<open>The commands that can fail, by class.\<close>

definition po_excused :: "owner_class \<Rightarrow> command \<Rightarrow> population \<Rightarrow> fault \<Rightarrow> bool" where
  "po_excused k c w e \<longleftrightarrow>
     (case c of
        Copy j \<Rightarrow> k = Modules \<and> e = Null_deref \<and> (\<exists>x. po_cells w j = Some x \<and> cl_hollow x)
      | Copy_assign i j \<Rightarrow> k = Modules \<and> e = Null_deref \<and> (\<exists>x. po_cells w j = Some x \<and> cl_hollow x)
      | Set i \<Rightarrow> k = Values \<and> e = Use_after_free \<and> (\<exists>x. po_cells w i = Some x \<and> cl_dangling x (po_names w))
      | _ \<Rightarrow> False)"

lemma po_blame_modules: "po_blame c w e \<Longrightarrow> po_do (ops_of Modules) c w = Inl e \<Longrightarrow> po_excused Modules c w e"
  by (cases c) (auto simp: po_blame_def po_excused_def po_at_def split: option.splits)

lemma po_blame_values: "po_blame c w e \<Longrightarrow> po_do (ops_of Values) c w = Inl e \<Longrightarrow> po_excused Values c w e"
  by (cases c) (auto simp: po_blame_def po_excused_def po_at_def split: option.splits)

text \<open>
  Claim C25. Owned memory is deleted at most once. Take any sequence of the commands above on objects of one of the four classes:
  construct (owning a block or borrowing one), move, copy, assign between different objects, \<open>reset\<close>, \<open>decode\<close> in place (inputs, sensors,
  modules), \<open>set\<close> (values) and destroy, in any order. No block is deleted twice and none is copied after its deletion;
  every block an object owns stays alive and has that one owner. Only two commands can fail: the copy of a module that was moved from by an
  assignment, which reads a null name, and \<open>set\<close> on a value that does not own its pointer (a moved-from one keeps it)
  when the block has been deleted. For inputs and values nothing leaks either: every block alive has an owner. The inputs and sensors
  nested in a module's arrays and self-assignment are not covered.
\<close>

theorem owned_once:
  "case foldE (po_do (ops_of k)) cmds po_start of
     Inl e \<Rightarrow> \<exists>before c after w. cmds = before @ c # after \<and> foldE (po_do (ops_of k)) before po_start = Inr w \<and>
       po_sound w \<and> po_excused k c w e
   | Inr w \<Rightarrow> po_sound w \<and> (k = Sensors \<or> k = Modules \<or> po_tight w)"
proof (cases k)
  case Inputs
  then show ?thesis
    using inputs.run_total [OF po_start_sound, of cmds] inputs.run_tight [OF po_start_sound po_start_tight, of cmds] by auto
next
  case Sensors
  then show ?thesis using sensors.run_total [OF po_start_sound, of cmds] by auto
next
  case Modules
  then show ?thesis using modules.run_sound [OF po_start_sound, of cmds] po_blame_modules by (fastforce split: sum.splits)
next
  case Values
  then show ?thesis
    using data_values.run_sound [OF po_start_sound, of cmds] data_values.run_tight [OF po_start_sound po_start_tight, of cmds]
      po_blame_values by (fastforce split: sum.splits)
qed

text \<open>
  Assigning to a sensor or a module that owns its name loses that name: afterwards all objects are destroyed and the block
  remains. Copying the module an assignment moved from reads a null pointer.
\<close>

lemma assignment_leaks:
  "\<exists>w. foldE (po_do (ops_of Sensors)) [Own, Own, Assign 0 1, Destroy 0, Destroy 1] po_start = Inr w \<and>
    po_cells w = Map.empty \<and> nm_live (po_names w) = {0}"
  "\<exists>w. foldE (po_do (ops_of Modules)) [Own, Own, Assign 0 1, Destroy 0, Destroy 1] po_start = Inr w \<and>
    po_cells w = Map.empty \<and> nm_live (po_names w) = {0}"
  by (auto simp: cell_defs cl_delete_def cl_owned_def nm_new_def nm_delete_def po_add_def po_put_def po_remove_def po_start_def fun_eq_iff)

lemma copy_of_moved_module:
  "foldE (po_do (ops_of Modules)) [Own, Borrow None, Assign 1 0, Copy 0] po_start = Inl Null_deref"
  by (simp add: cell_defs cl_duplicate_def nm_new_def po_add_def po_put_def po_start_def)

text \<open>A value that was assigned from keeps its pointer: \<open>set\<close> writes to a block the new owner has deleted.\<close>

lemma set_through_moved_value:
  "foldE (po_do (ops_of Values)) [Own, Borrow None, Assign 1 0, Destroy 1, Set 0] po_start = Inl Use_after_free"
  by (simp add: cell_defs cl_delete_def cl_owned_def nm_new_def nm_delete_def po_add_def po_put_def po_remove_def po_start_def po_at_def)

end
