(* ===== verification/Spec2Isabelle.thy ===== *)
theory Spec2Isabelle
  imports Crc32 ModuleControl Message Block SharedQueue Signals Schedule Worker Receive Node Exchange
    Server Input Controllers Structures Building
    TypedDeclaration Arith Timing Accessor Timeout Link SlotObjects Clearing Ownership
begin

text \<open>
  RoboCRISP: a communication library for remotely operated robots, and a verification library for it. Paths are those
  below \<^verbatim>\<open>include/crisp\<close> and \<^verbatim>\<open>src\<close>.

  \<^bold>\<open>The program.\<close> A robot (the slave) describes itself by a configuration: modules with inputs and sensors, each with a
  data declaration. An operator (the master) asks for it and sends control messages that give values to the inputs of a module.
  Both ends are nodes on a stream socket. A node keeps an outgoing queue that its send loop empties, a receive loop that turns bytes
  into messages, a dispatcher that decodes a message and emits it to the functions connected to its type, a scheduler for the
  handshake timer and the periodic SYNC messages, and a pool of worker threads that run all of it on one I/O service. A server
  accepts connections and equips a node for each. On the operator's side, controllers read input devices and post
  mapped values to signals.

  \<^bold>\<open>The theories\<close>, each with the sources it models:

  \<^item> \<open>Prelude\<close>: faults (assertion, null pointer, out of bounds, a declaration wider than its field, use after free, double
    delete, signed overflow, exception), the
    state-and-fault monad \<open>sfm\<close> and the sum monad, \<open>size_t\<close> arithmetic, little-endian strings, \<open>strlen\<close> and \<open>strncpy\<close>.
  \<^item> \<open>Crc32\<close> (\<^verbatim>\<open>util/checksum.cc\<close>), \<open>SArray\<close> (\<^verbatim>\<open>util/SArray.hh\<close>, locale \<open>growable\<close>), \<open>Block\<close> (\<^verbatim>\<open>util/Buffer.cc\<close>,
    \<^verbatim>\<open>RefCountedObject.cc\<close>: blocks of an allocator and reference counts).
  \<^item> \<open>CommsBuffer\<close> (\<^verbatim>\<open>comms/Buffer.hh\<close>, \<^verbatim>\<open>Buffer.cc\<close>, \<^verbatim>\<open>common.hh\<close>, locale \<open>encode_sink\<close> for the two encode buffers) and \<open>Codec\<close>
    (locale \<open>element_codec\<close>, the contract of an encodable element, and the loops of its containers).
  \<^item> \<open>DataDeclaration\<close>, \<open>TypedDeclaration\<close> (\<^verbatim>\<open>comms/DataDeclaration*\<close>), \<open>NamedTyped\<close> (\<^verbatim>\<open>ModuleInput\<close>, \<^verbatim>\<open>Sensor\<close> and the
    macros of \<^verbatim>\<open>decl-defn-macros.hh\<close>, locale \<open>named_typed\<close>), \<open>Module\<close>, \<open>Configuration\<close>, \<open>Building\<close> (what
    the interface of these can make), \<open>Ownership\<close> (who deletes the names and values, locales \<open>owning\<close>, \<open>total_owning\<close>,
    \<open>tidy_owning\<close>), \<open>DataValue\<close>, \<open>ModuleControl\<close>, \<open>Clearing\<close> (clear messages), \<open>Structures\<close> (\<^verbatim>\<open>APIElement\<close>, \<^verbatim>\<open>DataField\<close>, \<^verbatim>\<open>DataStructure\<close>).
  \<^item> \<open>Message\<close> (\<^verbatim>\<open>comms/Message.*\<close>, \<^verbatim>\<open>Handshake.*\<close>, \<^verbatim>\<open>config.h\<close>).
  \<^item> \<open>SharedQueue\<close>, \<open>Signals\<close>, \<open>Schedule\<close>, \<open>Worker\<close> (\<^verbatim>\<open>util/SharedQueue.hh\<close>, \<^verbatim>\<open>Signal*\<close>, \<^verbatim>\<open>Schedule*\<close> and \<^verbatim>\<open>Periodic*\<close>,
    \<^verbatim>\<open>WorkerObject.*\<close>), \<open>SlotObjects\<close> (slots as objects that are moved, comparison and hashing of actions).
  \<^item> \<open>Receive\<close>, \<open>Node\<close> (\<^verbatim>\<open>comms/bits/BasicNode.tcc\<close>, \<^verbatim>\<open>MessageDispatcher.tcc\<close>, \<^verbatim>\<open>MessageHandler.hh\<close>), \<open>Exchange\<close>, \<open>Control\<close>,
    \<open>Link\<close>, \<open>Session\<close> and \<open>Timeout\<close> (what nodes do with each other, and alone), \<open>Server\<close> (\<^verbatim>\<open>bits/NodeServer.tcc\<close>).
  \<^item> \<open>Input\<close>, \<open>Controllers\<close> (\<^verbatim>\<open>input/*\<close>), \<open>Accessor\<close> (\<^verbatim>\<open>util/ArrayAccessor.hh\<close>, locale \<open>container\<close>), \<open>Arith\<close> (\<^verbatim>\<open>arith.hh\<close>), \<open>Timing\<close>
    (\<^verbatim>\<open>timeutil.h\<close>).

  \<^bold>\<open>How state and operations correspond.\<close> A class is a record with the fields of the class, under a prefix
  (\<open>dd_\<close> declarations, \<open>mi_\<close> inputs, \<open>sn_\<close> sensors, \<open>md_\<close> modules, \<open>cf_\<close> configurations, \<open>mc_\<close> control
  messages, \<open>msg_\<close> messages, \<open>sq_\<close> queues, \<open>sg_\<close> signals, \<open>sc_\<close> the scheduler, \<open>wp_\<close> and \<open>wk_\<close> pools and workers, \<open>rx_\<close> the receiver,
  \<open>tx_\<close> the send loop, \<open>dp_\<close> the dispatcher, \<open>nd_\<close> nodes, \<open>sv_\<close> servers, \<open>ax_\<close> axes, \<open>ev_\<close> and \<open>mx_\<close> controllers), a member
  function is a definition under the same prefix (\<open>_new\<close> and \<open>_make\<close> are constructors, \<open>_move\<close> gives the new object and the
  one moved from). Pointers into memory are the memory from there on, or an address of the store in \<open>Block\<close>; junk that
  uninitialised memory holds is a parameter. A coroutine is a place in the state of its object, resumed by an event; what runs
  later on the I/O service is ready work, and which comes next is a choice of the environment, so the theorems hold for every
  order. Error codes are values; undefined behaviour and exceptions are faults. A node has an outcome: alive, crashed, hung,
  or delayed, when \<open>halt\<close> waits for a timer to expire. What a user connects to a signal is a number, and
  a node records its calls with their arguments (\<open>nd_calls\<close>). A weak pointer locks while a live signal or any other shared pointer
  (\<open>sg_kept\<close>) holds the action.

  \<^bold>\<open>What is shown.\<close> Round trips of every encodable class, from the bits of a declaration up to messages on the wire, with exact
  sizes; the checksum against the bit-serial CRC and its error detection; memory safety of decoding arbitrary bytes and of the
  receive loop, up to the two holes named below; refinement of containers to lists, of control messages to finite maps, of the
  queue to first-in-first-out under any interleaving; type safety of what the interface of configurations makes;
  deletion of owned memory at most once, with the cases in which the library itself breaks that; the handshake, the
  exchange of configurations and the way of a command from \<open>set\<close> to the robot's callback over two nodes; that two launched nodes
  establish a session under every order of steps (\<open>Session\<close>: a ranking of their joint stages bounds every run by 82 steps, and
  only an established session has no step left), and that a node halts five seconds after a launch that nobody
  answers, or hangs in it if other work is pending on the service; timers and periodic actions; life cycles of pools (\<open>Worker\<close>: a halt as a
  system of the halting thread and the workers' loops, which reaches the end under the condition that \<open>wp_halt\<close> computes), nodes and servers; bounds of the axis map in rounded arithmetic; dispatch of device events.
  Some theorems show what goes wrong: two heap overflows a peer can cause (an over-wide declaration, a SYNC with a length), a hang of
  \<open>halt\<close>, a deadlock on a broken connection, a server that cannot let go of a connection that outlives the turn of its loop, input
  numbers of 16 and more, axes that throw.

  \<^bold>\<open>Bounds and fuel.\<close> \<open>mc_value_for\<close> calls itself; two activations suffice for inputs below 15, and none do from 16 on, which
  is a theorem. \<open>nd_feed\<close> resumes the receive loop at most \<open>k\<close> times, and a message needs two, a query one; \<open>rx_run\<close>
  recurs on the bytes left. \<open>da_for\<close> needs as many turns as the view has elements. The read buffer starts with \<open>BUFSIZ\<close> = 8192 bytes. All
  other recursions are structural or have a measure. Machine integers keep their widths: bytes and identifiers wrap at 256, lengths in headers at
  65536, \<open>size_t\<close> at \<open>2 ^ 64\<close>; signed overflow is a fault.

  \<^bold>\<open>Not modelled.\<close> The text printed and what the functions do that users connect; Boost.Asio, the C++ library and \<open>libevdev\<close> beyond their documented behaviour, which
  is stated where it is used; the sign of a zero and the rounding of \<open>std::pow\<close> (a parameter); the short
  time in which a refused \<open>halt\<close> sets the stop flag and in which a launched node has no handle of its timer yet; in \<open>Session\<close> the passing of
  time, failing writes and waking from the outgoing queue without a notification (each has its own model in \<open>Schedule\<close>, \<open>Node\<close> and \<open>SharedQueue\<close>); typed data fields, whose constructors Boost.Parameter
  generates; \<^verbatim>\<open>comms/Error.hh\<close>, which declares a class without a definition; the SWIG bindings, the tests and the bootstrap scripts under \<^verbatim>\<open>tools\<close>.
\<close>

end
